(* ===== verification/Prelude.thy ===== *)
theory Prelude
  imports Main "HOL-Library.AList" "HOL-Library.Multiset"
begin

text \<open>
  Shared vocabulary of the development: Rust's unsigned integers as naturals with the saturating and
  wrapping operations written out, \<open>chrono\<close> instants and \<open>std::time::Duration\<close> values in
  nanoseconds, \<open>std::collections::HashMap\<close> as an association list with distinct keys, errors as
  values, and the list lemmas the components share.
\<close>

named_theorems rust_arith \<open>unfolding rules of the fixed-width operations\<close>
named_theorems hm_simps \<open>lookup and key-set laws of the hash-map model\<close>

section \<open>Fixed-width arithmetic\<close>

abbreviation u64_max :: nat where "u64_max \<equiv> 18446744073709551615"
abbreviation u32_max :: nat where "u32_max \<equiv> 4294967295"
abbreviation i64_max :: int where "i64_max \<equiv> 9223372036854775807"
abbreviation i32_max :: nat where "i32_max \<equiv> 2147483647"

definition sat_add64 :: "nat \<Rightarrow> nat \<Rightarrow> nat" where
  [rust_arith]: "sat_add64 a b = min (a + b) u64_max"

definition sat_mul64 :: "nat \<Rightarrow> nat \<Rightarrow> nat" where
  [rust_arith]: "sat_mul64 a b = min (a * b) u64_max"

definition sat_add32 :: "nat \<Rightarrow> nat \<Rightarrow> nat" where
  [rust_arith]: "sat_add32 a b = min (a + b) u32_max"

text \<open>\<open>+\<close> on \<open>u64\<close> and \<open>u32\<close> in the release profile, which has no overflow checks.\<close>

definition wrap64 :: "nat \<Rightarrow> nat" where
  [rust_arith]: "wrap64 n = n mod 18446744073709551616"

definition wrap32 :: "nat \<Rightarrow> nat" where
  [rust_arith]: "wrap32 n = n mod 4294967296"

text \<open>\<open>n as i64\<close> for a \<open>u64\<close>, and the wrapping negation of an \<open>i64\<close>.\<close>

definition as_i64 :: "nat \<Rightarrow> int" where
  [rust_arith]: "as_i64 n = (if int n \<le> i64_max then int n else int n - 18446744073709551616)"

definition neg_i64 :: "int \<Rightarrow> int" where
  [rust_arith]: "neg_i64 n = (if n = - 9223372036854775808 then n else - n)"

section \<open>Time\<close>

text \<open>
  A \<open>DateTime<Utc>\<close> is its offset from the epoch and a \<open>Duration\<close> its length, both in nanoseconds.
  \<open>to_std\<close> is \<open>chrono::TimeDelta::to_std\<close>: a negative difference has no standard duration.
\<close>

type_synonym instant = int
type_synonym duration = nat

definition secs :: "nat \<Rightarrow> duration" where
  "secs n = n * 1000000000"

definition to_std :: "int \<Rightarrow> duration option" where
  "to_std d = (if d < 0 then None else Some (nat d))"

lemma to_std_Some [simp]: "to_std d = Some n \<longleftrightarrow> 0 \<le> d \<and> n = nat d"
  by (auto simp: to_std_def)

lemma to_std_None [simp]: "to_std d = None \<longleftrightarrow> d < 0"
  by (simp add: to_std_def)

section \<open>Results\<close>

text \<open>\<open>Result<T, anyhow::Error>\<close>: \<open>Inl\<close> carries the message the source formats.\<close>

type_synonym 'a result = "string + 'a"

fun ok :: "'a result \<Rightarrow> 'a option" where
  "ok (Inl _) = None"
| "ok (Inr a) = Some a"

definition is_ok :: "'a result \<Rightarrow> bool" where
  "is_ok r \<longleftrightarrow> (case r of Inl _ \<Rightarrow> False | Inr _ \<Rightarrow> True)"

lemma is_ok_simps [simp]: "is_ok (Inr a)" "\<not> is_ok (Inl e)"
  by (simp_all add: is_ok_def)

lemma ok_eq_Some [simp]: "ok r = Some a \<longleftrightarrow> r = Inr a"
  by (cases r) auto

section \<open>Hash maps\<close>

text \<open>
  The interface the stateful components rely on: lookup after insert and remove, and the key
  discipline every operation keeps.  The list of entries is the iteration order, which Rust leaves
  unspecified; nothing below depends on which order it is.
\<close>

locale hash_map =
  fixes get :: "'m \<Rightarrow> 'k \<Rightarrow> 'v option"
    and ins :: "'k \<Rightarrow> 'v \<Rightarrow> 'm \<Rightarrow> 'm"
    and del :: "'k \<Rightarrow> 'm \<Rightarrow> 'm"
    and entries :: "'m \<Rightarrow> ('k \<times> 'v) list"
    and wf :: "'m \<Rightarrow> bool"
  assumes get_ins: "get (ins k v m) k' = (if k' = k then Some v else get m k')"
    and get_del: "get (del k m) k' = (if k' = k then None else get m k')"
    and wf_ins: "wf m \<Longrightarrow> wf (ins k v m)"
    and wf_del: "wf m \<Longrightarrow> wf (del k m)"
    and get_entries: "wf m \<Longrightarrow> get m k = Some v \<longleftrightarrow> (k, v) \<in> set (entries m)"
begin

lemma get_ins_same: "get (ins k v m) k = Some v"
  by (simp add: get_ins)

lemma get_del_same: "get (del k m) k = None"
  by (simp add: get_del)

lemma ins_ins_get: "get (ins k v (ins k w m)) = get (ins k v m)"
  by (rule ext) (simp add: get_ins)

lemma del_ins_get: "get (del k (ins k v m)) = get (del k m)"
  by (rule ext) (simp add: get_ins get_del)

lemma entries_ins: "wf m \<Longrightarrow> (k', v') \<in> set (entries (ins k v m)) \<longleftrightarrow>
    (if k' = k then v' = v else (k', v') \<in> set (entries m))"
  by (simp add: get_entries [symmetric] wf_ins get_ins eq_commute)

lemma entries_del: "wf m \<Longrightarrow> (k', v') \<in> set (entries (del k m)) \<longleftrightarrow>
    k' \<noteq> k \<and> (k', v') \<in> set (entries m)"
  by (simp add: get_entries [symmetric] wf_del get_del)

lemma fold_del_get: "get (fold del ks m) k = (if k \<in> set ks then None else get m k)"
  by (induction ks arbitrary: m) (auto simp: get_del)

lemma wf_fold_del: "wf m \<Longrightarrow> wf (fold del ks m)"
  by (induction ks arbitrary: m) (auto simp: wf_del)

end

type_synonym ('k, 'v) hmap = "('k \<times> 'v) list"

abbreviation hm_get :: "('k, 'v) hmap \<Rightarrow> 'k \<Rightarrow> 'v option" where
  "hm_get \<equiv> map_of"

abbreviation hm_insert :: "'k \<Rightarrow> 'v \<Rightarrow> ('k, 'v) hmap \<Rightarrow> ('k, 'v) hmap" where
  "hm_insert \<equiv> AList.update"

abbreviation hm_remove :: "'k \<Rightarrow> ('k, 'v) hmap \<Rightarrow> ('k, 'v) hmap" where
  "hm_remove \<equiv> AList.delete"

definition hm_wf :: "('k, 'v) hmap \<Rightarrow> bool" where
  "hm_wf m \<longleftrightarrow> distinct (map fst m)"

text \<open>\<open>get_mut\<close> followed by a mutation of the value in place.\<close>

definition hm_modify :: "'k \<Rightarrow> ('v \<Rightarrow> 'v) \<Rightarrow> ('k, 'v) hmap \<Rightarrow> ('k, 'v) hmap" where
  "hm_modify k f m = map (\<lambda>(k', v). (k', if k' = k then f v else v)) m"

interpretation hm: hash_map "hm_get :: ('k, 'v) hmap \<Rightarrow> 'k \<Rightarrow> 'v option" hm_insert hm_remove
  "\<lambda>m. m" hm_wf
proof unfold_locales
  fix k k' and v :: 'v and m :: "('k, 'v) hmap"
  show "hm_get (hm_insert k v m) k' = (if k' = k then Some v else hm_get m k')"
    by (simp add: update_conv)
  show "hm_get (hm_remove k m) k' = (if k' = k then None else hm_get m k')"
    by (simp add: delete_conv)
  show "hm_wf m \<Longrightarrow> hm_wf (hm_insert k v m)"
    by (simp add: hm_wf_def distinct_update)
  show "hm_wf m \<Longrightarrow> hm_wf (hm_remove k m)"
    by (simp add: hm_wf_def distinct_delete)
  show "hm_wf m \<Longrightarrow> hm_get m k = Some v \<longleftrightarrow> (k, v) \<in> set m"
    by (simp add: hm_wf_def)
qed

declare hm.get_ins [hm_simps] and hm.get_del [hm_simps] and hm.wf_ins [simp] and hm.wf_del [simp]

lemma hm_wf_Nil [simp]: "hm_wf []"
  by (simp add: hm_wf_def)

lemma hm_modify_keys [simp]: "map fst (hm_modify k f m) = map fst m"
  by (induction m) (auto simp: hm_modify_def)

lemma hm_modify_wf [simp]: "hm_wf (hm_modify k f m) = hm_wf m"
  by (simp add: hm_wf_def)

lemma hm_modify_get [hm_simps]:
  "hm_get (hm_modify k f m) k' = (if k' = k then map_option f (hm_get m k') else hm_get m k')"
  by (induction m) (auto simp: hm_modify_def)

lemma hm_modify_absent: "hm_get m k = None \<Longrightarrow> hm_modify k f m = m"
  by (induction m) (auto simp: hm_modify_def split: if_splits)

lemma hm_insert_absent: "hm_get m k = None \<Longrightarrow> hm_insert k v m = m @ [(k, v)]"
  by (induction m) (auto split: if_splits)

lemma hm_remove_absent: "hm_get m k = None \<Longrightarrow> hm_remove k m = m"
  by (induction m) (auto split: if_splits)

subsection \<open>Sums over the entries\<close>

text \<open>
  How a sum over the entries moves when one entry is inserted or removed: what the accounting lemmas
  of the engine rest on.
\<close>

lemma sum_list_hm_remove:
  fixes g :: "'k \<times> 'v \<Rightarrow> nat"
  assumes "hm_wf m"
  shows "sum_list (map g (hm_remove k m)) + (case hm_get m k of None \<Rightarrow> 0 | Some v \<Rightarrow> g (k, v))
       = sum_list (map g m)"
  using assms
proof (induction m)
  case Nil
  then show ?case by simp
next
  case (Cons e m)
  obtain k' v where e: "e = (k', v)" by (cases e)
  have wf: "hm_wf m" and nin: "k' \<notin> fst ` set m"
    using Cons.prems by (auto simp: hm_wf_def e)
  show ?case
  proof (cases "k' = k")
    case True
    with nin have "hm_get m k = None" by (simp add: map_of_eq_None_iff)
    with True show ?thesis by (simp add: e hm_remove_absent)
  next
    case False
    with Cons.IH [OF wf] show ?thesis by (simp add: e)
  qed
qed

lemma sum_list_hm_insert:
  fixes g :: "'k \<times> 'v \<Rightarrow> nat"
  assumes "hm_wf m"
  shows "sum_list (map g (hm_insert k v m)) + (case hm_get m k of None \<Rightarrow> 0 | Some w \<Rightarrow> g (k, w))
       = sum_list (map g m) + g (k, v)"
  using assms
proof (induction m)
  case Nil
  then show ?case by simp
next
  case (Cons e m)
  obtain k' w where e: "e = (k', w)" by (cases e)
  have wf: "hm_wf m" using Cons.prems by (auto simp: hm_wf_def e)
  show ?case using Cons.IH [OF wf] by (simp add: e)
qed

lemma sum_list_hm_remove_le:
  fixes g :: "'k \<times> 'v \<Rightarrow> nat"
  assumes "hm_wf m"
  shows "sum_list (map g (hm_remove k m)) \<le> sum_list (map g m)"
  using sum_list_hm_remove [OF assms, of g k] by linarith

lemma length_hm_remove:
  assumes "hm_wf m"
  shows "length (hm_remove k m) + (if hm_get m k = None then 0 else 1) = length m"
  using sum_list_hm_remove [OF assms, of "\<lambda>_. 1" k]
  by (auto simp: sum_list_triv split: option.splits)

lemma length_hm_insert:
  assumes "hm_wf m"
  shows "length (hm_insert k v m) + (if hm_get m k = None then 0 else 1) = length m + 1"
  using sum_list_hm_insert [OF assms, of "\<lambda>_. 1" k v]
  by (auto simp: sum_list_triv split: option.splits)

section \<open>Sorting with a comparator\<close>

text \<open>
  \<open>slice::sort_by\<close> is a stable sort.  With a comparator that is a total preorder the result is
  determined by the specification, so any stable algorithm models it: insertion from the right.
\<close>

datatype ordering = Less | Equal | Greater

fun insort_by :: "('a \<Rightarrow> 'a \<Rightarrow> ordering) \<Rightarrow> 'a \<Rightarrow> 'a list \<Rightarrow> 'a list" where
  "insort_by cmp x [] = [x]"
| "insort_by cmp x (y # ys) = (if cmp x y = Greater then y # insort_by cmp x ys else x # y # ys)"

fun sort_by :: "('a \<Rightarrow> 'a \<Rightarrow> ordering) \<Rightarrow> 'a list \<Rightarrow> 'a list" where
  "sort_by cmp [] = []"
| "sort_by cmp (x # xs) = insort_by cmp x (sort_by cmp xs)"

lemma mset_insort_by [simp]: "mset (insort_by cmp x xs) = add_mset x (mset xs)"
  by (induction xs) auto

lemma mset_sort_by [simp]: "mset (sort_by cmp xs) = mset xs"
  by (induction xs) auto

lemma set_sort_by [simp]: "set (sort_by cmp xs) = set xs"
  by (metis mset_sort_by set_mset_mset)

lemma length_sort_by [simp]: "length (sort_by cmp xs) = length xs"
  by (metis mset_sort_by size_mset)

lemma set_insort_by [simp]: "set (insort_by cmp x xs) = insert x (set xs)"
  by (metis mset_insort_by set_mset_add_mset_insert set_mset_mset)

lemma distinct_sort_by [simp]: "distinct (sort_by cmp xs) = distinct xs"
  by (metis mset_sort_by distinct_count_atmost_1 set_sort_by)

locale comparator =
  fixes cmp :: "'a \<Rightarrow> 'a \<Rightarrow> ordering" and A :: "'a set"
  assumes anti: "x \<in> A \<Longrightarrow> y \<in> A \<Longrightarrow> cmp x y = Greater \<longleftrightarrow> cmp y x = Less"
    and trans: "x \<in> A \<Longrightarrow> y \<in> A \<Longrightarrow> z \<in> A \<Longrightarrow> cmp x y \<noteq> Greater \<Longrightarrow> cmp y z \<noteq> Greater \<Longrightarrow>
      cmp x z \<noteq> Greater"
begin

lemma insort_by_sorted:
  "insert x (set xs) \<subseteq> A \<Longrightarrow> sorted_wrt (\<lambda>x y. cmp x y \<noteq> Greater) xs \<Longrightarrow>
   sorted_wrt (\<lambda>x y. cmp x y \<noteq> Greater) (insort_by cmp x xs)"
proof (induction xs)
  case Nil
  then show ?case by simp
next
  case (Cons y ys)
  show ?case
  proof (cases "cmp x y = Greater")
    case True
    then have "cmp y x \<noteq> Greater" using anti [of x y] Cons.prems by auto
    with True Cons show ?thesis by auto
  next
    case False
    moreover have "cmp x z \<noteq> Greater" if "z \<in> set ys" for z
      using trans [of x y z] False Cons.prems that by auto
    ultimately show ?thesis using Cons.prems by auto
  qed
qed

lemma sort_by_sorted: "set xs \<subseteq> A \<Longrightarrow> sorted_wrt (\<lambda>x y. cmp x y \<noteq> Greater) (sort_by cmp xs)"
  by (induction xs) (auto simp: insort_by_sorted)

lemma equal_sym: "x \<in> A \<Longrightarrow> y \<in> A \<Longrightarrow> cmp x y = Equal \<longleftrightarrow> cmp y x = Equal"
  using anti [of x y] anti [of y x] by (cases "cmp x y"; cases "cmp y x") auto

lemma equal_greater:
  "x \<in> A \<Longrightarrow> y \<in> A \<Longrightarrow> z \<in> A \<Longrightarrow> cmp x y = Equal \<Longrightarrow> cmp x z = Greater \<longleftrightarrow> cmp y z = Greater"
  using trans [of x y z] trans [of y x z] equal_sym [of x y] by auto

text \<open>Stability: elements the comparator cannot tell apart keep their order.\<close>

lemma filter_insort_by:
  "insert a (insert x (set xs)) \<subseteq> A \<Longrightarrow>
   filter (\<lambda>z. cmp a z = Equal) (insort_by cmp x xs) =
   (if cmp a x = Equal then x # filter (\<lambda>z. cmp a z = Equal) xs else filter (\<lambda>z. cmp a z = Equal) xs)"
proof (induction xs)
  case Nil
  then show ?case by simp
next
  case (Cons y ys)
  show ?case
  proof (cases "cmp a x = Equal \<and> cmp x y = Greater")
    case True
    then have "cmp a y = Greater" using equal_greater [of a x y] Cons.prems by auto
    with Cons True show ?thesis by auto
  next
    case False
    with Cons show ?thesis by auto
  qed
qed

lemma sort_by_stable:
  "insert a (set xs) \<subseteq> A \<Longrightarrow>
   filter (\<lambda>z. cmp a z = Equal) (sort_by cmp xs) = filter (\<lambda>z. cmp a z = Equal) xs"
  by (induction xs) (auto simp: filter_insort_by)

end

text \<open>\<open>Ord::cmp\<close> of a linearly ordered key.\<close>

definition cmp_key :: "('a \<Rightarrow> 'b::linorder) \<Rightarrow> 'a \<Rightarrow> 'a \<Rightarrow> ordering" where
  "cmp_key f x y = (if f x < f y then Less else if f x = f y then Equal else Greater)"

interpretation keyed: comparator "cmp_key f" UNIV
  by unfold_locales (auto simp: cmp_key_def split: if_splits)

lemma sort_by_key_sorted: "sorted (map f (sort_by (cmp_key f) xs))"
  using keyed.sort_by_sorted [of xs f]
  by (simp add: sorted_map) (erule sorted_wrt_mono_rel [rotated], auto simp: cmp_key_def split: if_splits)

end
