(* ===== verification/F64.thy ===== *)
theory F64
  imports Complex_Main Prelude "HOL-Library.Log_Nat"
begin

text \<open>
  Rust's \<open>f64\<close>.  A value is NaN, an infinity or a finite rational; the arithmetic of the source
  (\<open>+ - * /\<close>, comparisons, the casts between \<open>f64\<close> and the integer types) is the exact rational
  operation followed by IEEE 754 binary64 rounding, round to nearest with ties to even, with gradual
  underflow and overflow to infinity.  The two zeros are one value: the program never observes the
  sign of a zero.  The library functions whose precision Rust leaves unspecified (\<open>powf\<close>,
  \<open>log2\<close>) are arguments of the definitions that call them; \<open>powi\<close> is the square-and-multiply
  loop of the compiler runtime, rounded at every step.

  The lemmas: rounding is monotone, keeps every representable value, and has relative error
  \<open>2^-53\<close>; so products and quotients of unit-interval values stay in the unit interval, and a
  fraction below one of a byte count never exceeds the byte count.
\<close>

named_theorems f64_simps \<open>evaluation rules of the float operations on finite values\<close>

section \<open>Definitions\<close>

datatype f64 = NaN | PInf | NInf | Fin rat

text \<open>The exponent of a positive rational: \<open>2 ^ ilog2 q \<le> q < 2 ^ (ilog2 q + 1)\<close>.\<close>

definition ilog2 :: "rat \<Rightarrow> int" where
  "ilog2 q = (let (a, b) = quotient_of q;
                  e = int (floorlog 2 (nat a)) - int (floorlog 2 (nat b))
              in if 2 powi e \<le> q then e else e - 1)"

definition round_half_even :: "rat \<Rightarrow> int" where
  "round_half_even q = (let f = \<lfloor>q\<rfloor>; d = q - of_int f
     in if d < 1/2 then f else if 1/2 < d then f + 1 else if even f then f else f + 1)"

definition ulp_exp :: "rat \<Rightarrow> int" where
  "ulp_exp q = max (ilog2 \<bar>q\<bar>) (-1022) - 52"

definition rnd_val :: "rat \<Rightarrow> rat" where
  "rnd_val q = (if q = 0 then 0
     else of_int (round_half_even (q / 2 powi ulp_exp q)) * 2 powi ulp_exp q)"

definition rnd :: "rat \<Rightarrow> f64" where
  "rnd q = (let r = rnd_val q
     in if 2 ^ 1024 \<le> r then PInf else if r \<le> - (2 ^ 1024) then NInf else Fin r)"

fun f_neg :: "f64 \<Rightarrow> f64" where
  "f_neg (Fin a) = Fin (- a)"
| "f_neg PInf = NInf"
| "f_neg NInf = PInf"
| "f_neg NaN = NaN"

fun f_add :: "f64 \<Rightarrow> f64 \<Rightarrow> f64" where
  "f_add (Fin a) (Fin b) = rnd (a + b)"
| "f_add NaN y = NaN"
| "f_add x NaN = NaN"
| "f_add PInf NInf = NaN"
| "f_add NInf PInf = NaN"
| "f_add PInf y = PInf"
| "f_add NInf y = NInf"
| "f_add x PInf = PInf"
| "f_add x NInf = NInf"

definition f_sub :: "f64 \<Rightarrow> f64 \<Rightarrow> f64" where
  "f_sub x y = f_add x (f_neg y)"

fun f_mul :: "f64 \<Rightarrow> f64 \<Rightarrow> f64" where
  "f_mul (Fin a) (Fin b) = rnd (a * b)"
| "f_mul NaN y = NaN"
| "f_mul x NaN = NaN"
| "f_mul PInf (Fin b) = (if b = 0 then NaN else if 0 < b then PInf else NInf)"
| "f_mul NInf (Fin b) = (if b = 0 then NaN else if 0 < b then NInf else PInf)"
| "f_mul (Fin a) PInf = (if a = 0 then NaN else if 0 < a then PInf else NInf)"
| "f_mul (Fin a) NInf = (if a = 0 then NaN else if 0 < a then NInf else PInf)"
| "f_mul PInf PInf = PInf"
| "f_mul NInf NInf = PInf"
| "f_mul x y = NInf"

text \<open>Division of a finite value by zero is infinite; the source divides by zero nowhere with a
  negative dividend.\<close>

fun f_div :: "f64 \<Rightarrow> f64 \<Rightarrow> f64" where
  "f_div (Fin a) (Fin b) = (if b = 0 then (if a = 0 then NaN else if 0 < a then PInf else NInf)
                            else rnd (a / b))"
| "f_div NaN y = NaN"
| "f_div x NaN = NaN"
| "f_div (Fin a) y = Fin 0"
| "f_div PInf (Fin b) = (if b < 0 then NInf else PInf)"
| "f_div NInf (Fin b) = (if b < 0 then PInf else NInf)"
| "f_div x y = NaN"

text \<open>Comparisons are false when an operand is NaN; \<open>f_cmp\<close> is \<open>partial_cmp\<close>.\<close>

fun f_lt :: "f64 \<Rightarrow> f64 \<Rightarrow> bool" where
  "f_lt (Fin a) (Fin b) = (a < b)"
| "f_lt NaN y = False"
| "f_lt x NaN = False"
| "f_lt NInf y = (y \<noteq> NInf)"
| "f_lt x PInf = (x \<noteq> PInf)"
| "f_lt x y = False"

definition f_le :: "f64 \<Rightarrow> f64 \<Rightarrow> bool" where
  "f_le x y \<longleftrightarrow> x \<noteq> NaN \<and> y \<noteq> NaN \<and> (f_lt x y \<or> x = y)"

definition f_cmp :: "f64 \<Rightarrow> f64 \<Rightarrow> ordering option" where
  "f_cmp x y = (if x = NaN \<or> y = NaN then None
                else if f_lt x y then Some Less else if x = y then Some Equal else Some Greater)"

definition is_finite :: "f64 \<Rightarrow> bool" where
  "is_finite x \<longleftrightarrow> (case x of Fin _ \<Rightarrow> True | _ \<Rightarrow> False)"

definition f_of_nat :: "nat \<Rightarrow> f64" where
  "f_of_nat n = rnd (of_nat n)"

definition f_of_int :: "int \<Rightarrow> f64" where
  "f_of_int n = rnd (of_int n)"

text \<open>A decimal literal of the source is the binary64 value nearest to it.\<close>

definition f_lit :: "rat \<Rightarrow> f64" where
  "f_lit q = rnd q"

text \<open>\<open>f64::min\<close> and \<open>f64::max\<close> ignore a NaN operand.\<close>

definition f_min :: "f64 \<Rightarrow> f64 \<Rightarrow> f64" where
  "f_min x y = (if x = NaN then y else if y = NaN then x else if f_lt y x then y else x)"

definition f_max :: "f64 \<Rightarrow> f64 \<Rightarrow> f64" where
  "f_max x y = (if x = NaN then y else if y = NaN then x else if f_lt x y then y else x)"

text \<open>\<open>x as u64\<close> truncates, saturates and sends NaN to zero.\<close>

fun f_to_u64 :: "f64 \<Rightarrow> nat" where
  "f_to_u64 NaN = 0"
| "f_to_u64 PInf = u64_max"
| "f_to_u64 NInf = 0"
| "f_to_u64 (Fin q) = min (nat \<lfloor>q\<rfloor>) u64_max"

text \<open>\<open>f64::powi\<close> for a non-negative exponent: the runtime's loop, with accumulator \<open>r\<close>.\<close>

function powi_loop :: "f64 \<Rightarrow> f64 \<Rightarrow> nat \<Rightarrow> f64" where
  "powi_loop r a b =
     (let r' = (if odd b then f_mul r a else r); b' = b div 2
      in if b' = 0 then r' else powi_loop r' (f_mul a a) b')"
  by pat_completeness auto
termination
  by (relation "measure (\<lambda>(r, a, b). b)") (auto simp: Let_def)

declare powi_loop.simps [simp del]

definition f_powi :: "f64 \<Rightarrow> nat \<Rightarrow> f64" where
  "f_powi a b = powi_loop (Fin 1) a b"

section \<open>Exponents and rounding to an integer\<close>

lemma powi2_pos [simp]: "(0::rat) < 2 powi e"
  by (simp add: zero_less_power_int)

lemma powi2_neq0 [simp]: "(2::rat) powi e \<noteq> 0"
  using powi2_pos [of e] by linarith

lemma powi2_add: "(2::rat) powi (a + b) = 2 powi a * 2 powi b"
  by (simp add: power_int_add)

lemma powi2_mono: "a \<le> b \<Longrightarrow> (2::rat) powi a \<le> 2 powi b"
  by (rule power_int_increasing) auto

lemma powi2_nat: "(2::rat) powi (int n) = 2 ^ n"
  by simp

lemma powi2_less_iff: "(2::rat) powi a < 2 powi b \<longleftrightarrow> a < b"
  by (metis linorder_not_le one_less_numeral_iff power_int_strict_increasing powi2_mono semiring_norm(76))

lemma floorlog2_bounds:
  assumes "0 < n"
  shows "(2::rat) powi (int (floorlog 2 n) - 1) \<le> of_nat n" and "of_nat n < (2::rat) powi int (floorlog 2 n)"
proof -
  obtain k where k: "floorlog 2 n = Suc k"
    using assms by (cases "floorlog 2 n") (auto simp: floorlog_eq_zero_iff)
  have "2 ^ k \<le> n" "n < 2 ^ Suc k"
    using floorlog_bounds [OF assms, of 2] by (auto simp: k)
  then have "(of_nat (2 ^ k) :: rat) \<le> of_nat n" "(of_nat n :: rat) < of_nat (2 ^ Suc k)"
    by (simp_all only: of_nat_le_iff of_nat_less_iff)
  then show "(2::rat) powi (int (floorlog 2 n) - 1) \<le> of_nat n" and "of_nat n < (2::rat) powi int (floorlog 2 n)"
    by (simp_all only: k powi2_nat of_nat_power of_nat_numeral of_nat_Suc add_diff_cancel_right')
      (simp_all add: power_int_add)
qed

lemma ilog2_bounds:
  assumes "0 < q"
  shows "2 powi (ilog2 q) \<le> q" and "q < 2 powi (ilog2 q + 1)"
proof -
  obtain a b where ab: "quotient_of q = (a, b)" by (cases "quotient_of q")
  have b: "0 < b" using quotient_of_denom_pos [OF ab] .
  have q: "q = of_int a / of_int b" using quotient_of_div [OF ab] .
  have a: "0 < a" using assms b by (simp add: q zero_less_divide_iff)
  define m where "m = nat a"
  define n where "n = nat b"
  have m: "0 < m" "(of_int a :: rat) = of_nat m" and n: "0 < n" "(of_int b :: rat) = of_nat n"
    using a b by (auto simp: m_def n_def)
  define i where "i = floorlog 2 m"
  define j where "j = floorlog 2 n"
  have i': "(2::rat) powi (int i - 1) \<le> of_nat m" "of_nat m < (2::rat) powi int i"
    using floorlog2_bounds [OF m(1)] by (simp_all only: i_def)
  have j': "(2::rat) powi (int j - 1) \<le> of_nat n" "of_nat n < (2::rat) powi int j"
    using floorlog2_bounds [OF n(1)] by (simp_all only: j_def)
  define e where "e = int i - int j"
  have lo: "2 powi (e - 1) \<le> q"
  proof -
    have "(2::rat) powi (e - 1) * of_nat n \<le> 2 powi (e - 1) * 2 powi int j"
      using j'(2) by (intro mult_left_mono) auto
    also have "\<dots> = (2::rat) powi (e - 1 + int j)" by (simp only: powi2_add)
    also have "\<dots> = (2::rat) powi (int i - 1)" by (simp add: e_def)
    also have "\<dots> \<le> of_nat m" by (rule i'(1))
    finally show ?thesis using n by (simp add: q m n field_simps)
  qed
  have hi: "q < 2 powi (e + 1)"
  proof -
    have "of_nat m < (2::rat) powi int i" by (rule i'(2))
    also have "\<dots> = 2 powi (e + 1 + (int j - 1))" by (simp add: e_def)
    also have "\<dots> = 2 powi (e + 1) * 2 powi (int j - 1)" by (simp only: powi2_add)
    also have "\<dots> \<le> 2 powi (e + 1) * of_nat n" using j'(1) by (intro mult_left_mono) auto
    finally show ?thesis using n by (simp add: q m n field_simps)
  qed
  have def: "ilog2 q = (if 2 powi e \<le> q then e else e - 1)"
    by (simp add: ilog2_def ab e_def i_def j_def m_def n_def)
  show "2 powi (ilog2 q) \<le> q" using lo by (simp add: def)
  show "q < 2 powi (ilog2 q + 1)" using hi by (simp add: def)
qed

lemma ilog2_unique:
  assumes "2 powi e \<le> q" and "q < 2 powi (e + 1)"
  shows "ilog2 q = e"
proof -
  have q: "0 < q" using assms(1) powi2_pos [of e] by linarith
  have "(2::rat) powi (ilog2 q) < 2 powi (e + 1)" "(2::rat) powi e < 2 powi (ilog2 q + 1)"
    using ilog2_bounds [OF q] assms by linarith+
  then show ?thesis by (auto simp: powi2_less_iff)
qed

lemma ilog2_mono: "0 < q \<Longrightarrow> q \<le> r \<Longrightarrow> ilog2 q \<le> ilog2 r"
  using ilog2_bounds [of q] ilog2_bounds [of r] powi2_less_iff [of "ilog2 q" "ilog2 r + 1"] by linarith

lemma round_half_even_of_int [simp]: "round_half_even (of_int n) = n"
  by (simp add: round_half_even_def)

lemma round_half_even_error: "\<bar>of_int (round_half_even q) - q\<bar> \<le> 1/2"
proof -
  have "of_int \<lfloor>q\<rfloor> \<le> q" "q < of_int \<lfloor>q\<rfloor> + 1" by linarith+
  then show ?thesis by (auto simp: round_half_even_def Let_def)
qed

lemma round_half_even_mono:
  assumes "q \<le> r" shows "round_half_even q \<le> round_half_even r"
proof (cases "\<lfloor>q\<rfloor> = \<lfloor>r\<rfloor>")
  case True
  with assms show ?thesis by (auto simp: round_half_even_def Let_def)
next
  case False
  with assms have "\<lfloor>q\<rfloor> + 1 \<le> \<lfloor>r\<rfloor>" using floor_mono [OF assms] by linarith
  moreover have "round_half_even q \<le> \<lfloor>q\<rfloor> + 1" "\<lfloor>r\<rfloor> \<le> round_half_even r"
    by (auto simp: round_half_even_def Let_def)
  ultimately show ?thesis by linarith
qed

lemma round_half_even_le_int: "q \<le> of_int n \<Longrightarrow> round_half_even q \<le> n"
  using round_half_even_mono [of q "of_int n"] by simp

lemma round_half_even_ge_int: "of_int n \<le> q \<Longrightarrow> n \<le> round_half_even q"
  using round_half_even_mono [of "of_int n" q] by simp

lemma round_half_even_minus: "round_half_even (- q) = - round_half_even q"
proof (cases "of_int \<lfloor>q\<rfloor> = q")
  case True
  then have "q = of_int \<lfloor>q\<rfloor>" by (rule sym)
  then show ?thesis by (metis of_int_minus round_half_even_of_int)
next
  case False
  then have "\<lfloor>- q\<rfloor> = - \<lfloor>q\<rfloor> - 1" by linarith
  then show ?thesis by (auto simp: round_half_even_def Let_def)
qed

section \<open>Rounding\<close>

lemma rnd_val_0 [simp]: "rnd_val 0 = 0"
  by (simp add: rnd_val_def)

lemma rnd_val_minus: "rnd_val (- q) = - rnd_val q"
  by (simp add: rnd_val_def ulp_exp_def round_half_even_minus)

lemma rnd_val_nonneg: "0 \<le> q \<Longrightarrow> 0 \<le> rnd_val q"
  using round_half_even_ge_int [of 0 "q / 2 powi ulp_exp q"]
  by (auto simp: rnd_val_def intro!: mult_nonneg_nonneg)

text \<open>Every integer multiple of a power of two that fits the significand is kept.\<close>

lemma rnd_val_exact_pos:
  assumes m: "0 < m" "m \<le> 2 ^ 53" and k: "-1074 \<le> k"
  shows "rnd_val (of_int m * 2 powi k) = of_int m * 2 powi k"
proof -
  define q :: rat where "q = of_int m * 2 powi k"
  have q0: "0 < q" using m by (simp add: q_def)
  have le: "q \<le> 2 powi (53 + k)"
    using m by (simp add: q_def powi2_add mult_right_mono del: of_int_le_iff)
  show ?thesis
  proof (cases "q = 2 powi (53 + k)")
    case True
    have "ilog2 q = 53 + k" by (rule ilog2_unique) (simp_all add: True powi2_less_iff)
    then have u: "ulp_exp q = k + 1" using q0 k by (simp add: ulp_exp_def)
    have "q / 2 powi (k + 1) = of_int (2 ^ 52)"
      by (simp add: True divide_eq_eq flip: powi2_add) (simp add: powi2_add)
    then show ?thesis
      using q0 by (simp only: q_def [symmetric] rnd_val_def u round_half_even_of_int)
        (simp add: True powi2_add)
  next
    case False
    with le have "q < 2 powi (53 + k)" by simp
    with ilog2_bounds(1) [OF q0] have "(2::rat) powi ilog2 q < 2 powi (53 + k)" by linarith
    then have "ilog2 q < 53 + k" by (simp only: powi2_less_iff)
    then have "ilog2 q \<le> 52 + k" by simp
    then have u: "ulp_exp q \<le> k" using q0 k by (simp add: ulp_exp_def)
    define d where "d = nat (k - ulp_exp q)"
    have "(2::rat) powi k = 2 powi (int d + ulp_exp q)" using u by (simp add: d_def)
    then have "q = of_int (m * 2 ^ d) * 2 powi ulp_exp q" by (simp add: q_def powi2_add)
    then have "q / 2 powi ulp_exp q = of_int (m * 2 ^ d)" by (simp add: field_simps)
    then show ?thesis
      using q0 by (simp only: q_def [symmetric] rnd_val_def round_half_even_of_int)
        (metis \<open>q = of_int (m * 2 ^ d) * 2 powi ulp_exp q\<close>)
  qed
qed

lemma rnd_val_exact:
  assumes "\<bar>m\<bar> \<le> 2 ^ 53" and "-1074 \<le> k"
  shows "rnd_val (of_int m * 2 powi k) = of_int m * 2 powi k"
proof -
  consider "m = 0" | "0 < m" | "0 < - m" by linarith
  then show ?thesis
  proof cases
    case 3
    then show ?thesis
      using rnd_val_exact_pos [of "- m" k] rnd_val_minus [of "of_int (- m) * 2 powi k"] assms by simp
  qed (use assms rnd_val_exact_pos in auto)
qed

lemma rnd_val_of_int: "\<bar>m\<bar> \<le> 2 ^ 53 \<Longrightarrow> rnd_val (of_int m) = of_int m"
  using rnd_val_exact [of m 0] by simp

lemma rnd_val_powi2 [simp]: "-1074 \<le> k \<Longrightarrow> rnd_val (2 powi k) = 2 powi k"
  using rnd_val_exact [of 1 k] by simp

lemma rnd_val_pow2: "rnd_val (2 ^ n) = 2 ^ n"
  using rnd_val_powi2 [of "int n"] by (simp only: powi2_nat)

lemma rnd_val_1 [simp]: "rnd_val 1 = 1"
  using rnd_val_of_int [of 1] by simp

text \<open>Rounding stays inside the binade of its argument.\<close>

lemma rnd_val_binade:
  assumes q: "0 < q"
  defines "e \<equiv> ulp_exp q"
  shows "rnd_val q \<le> 2 powi (e + 53)"
    and "-1022 \<le> ilog2 q \<Longrightarrow> 2 powi (e + 52) \<le> rnd_val q"
proof -
  have "ilog2 q + 1 \<le> e + 53" using q by (simp add: e_def ulp_exp_def)
  with ilog2_bounds(2) [OF q] have "q < 2 powi (e + 53)"
    using powi2_mono [of "ilog2 q + 1" "e + 53"] by linarith
  then have "q / 2 powi e \<le> of_int (2 ^ 53)" by (simp add: divide_le_eq powi2_add algebra_simps)
  then have "round_half_even (q / 2 powi e) \<le> 2 ^ 53" by (rule round_half_even_le_int)
  then have "(of_int (round_half_even (q / 2 powi e)) :: rat) \<le> of_int (2 ^ 53)"
    by (simp only: of_int_le_iff)
  then show "rnd_val q \<le> 2 powi (e + 53)"
    using q by (simp add: rnd_val_def e_def [symmetric] powi2_add mult_right_mono algebra_simps)
  assume norm: "-1022 \<le> ilog2 q"
  then have "e + 52 = ilog2 q" using q by (simp add: e_def ulp_exp_def)
  with ilog2_bounds(1) [OF q] have "2 powi (e + 52) \<le> q" by simp
  then have "of_int (2 ^ 52) \<le> q / 2 powi e" by (simp add: le_divide_eq powi2_add algebra_simps)
  then have "2 ^ 52 \<le> round_half_even (q / 2 powi e)" by (rule round_half_even_ge_int)
  then have "(of_int (2 ^ 52) :: rat) \<le> of_int (round_half_even (q / 2 powi e))"
    by (simp only: of_int_le_iff)
  then show "2 powi (e + 52) \<le> rnd_val q"
    using q by (simp add: rnd_val_def e_def [symmetric] powi2_add mult_right_mono algebra_simps)
qed

lemma rnd_val_mono_pos:
  assumes q: "0 < q" and qr: "q \<le> r"
  shows "rnd_val q \<le> rnd_val r"
proof -
  have r: "0 < r" using q qr by linarith
  have e: "ulp_exp q \<le> ulp_exp r" using ilog2_mono [OF q qr] q r by (simp add: ulp_exp_def)
  show ?thesis
  proof (cases "ulp_exp q = ulp_exp r")
    case True
    have "round_half_even (q / 2 powi ulp_exp r) \<le> round_half_even (r / 2 powi ulp_exp r)"
      using qr by (intro round_half_even_mono divide_right_mono) auto
    then show ?thesis using q r True by (simp add: rnd_val_def)
  next
    case False
    with e q r have n: "-1022 \<le> ilog2 r" and lt: "ulp_exp q + 53 \<le> ulp_exp r + 52"
      by (auto simp: ulp_exp_def)
    have "rnd_val q \<le> 2 powi (ulp_exp q + 53)" by (rule rnd_val_binade(1) [OF q])
    also have "\<dots> \<le> 2 powi (ulp_exp r + 52)" using lt by (rule powi2_mono)
    also have "\<dots> \<le> rnd_val r" by (rule rnd_val_binade(2) [OF r n])
    finally show ?thesis .
  qed
qed

lemma rnd_val_mono:
  assumes "q \<le> r" shows "rnd_val q \<le> rnd_val r"
proof -
  consider "0 < q" | "q \<le> 0" "0 \<le> r" | "r < 0" using assms by linarith
  then show ?thesis
  proof cases
    case 1
    then show ?thesis using assms by (rule rnd_val_mono_pos)
  next
    case 2
    then show ?thesis using rnd_val_nonneg [of r] rnd_val_nonneg [of "- q"] rnd_val_minus [of q] by simp
  next
    case 3
    then show ?thesis using assms rnd_val_mono_pos [of "- r" "- q"] by (simp add: rnd_val_minus)
  qed
qed

lemma rnd_val_error:
  assumes "2 powi (-1022) \<le> q"
  shows "\<bar>rnd_val q - q\<bar> \<le> q * 2 powi (-53)"
proof -
  have q: "0 < q" using assms powi2_pos [of "-1022"] by linarith
  have "(2::rat) powi (-1022) < 2 powi (ilog2 q + 1)" using assms ilog2_bounds(2) [OF q] by linarith
  then have "-1022 < ilog2 q + 1" by (simp only: powi2_less_iff)
  then have "-1022 \<le> ilog2 q" by simp
  then have e: "ulp_exp q = ilog2 q - 52" using q by (simp add: ulp_exp_def)
  have "rnd_val q - q = (of_int (round_half_even (q / 2 powi ulp_exp q)) - q / 2 powi ulp_exp q) * 2 powi ulp_exp q"
    using q by (simp add: rnd_val_def field_simps)
  then have "\<bar>rnd_val q - q\<bar> \<le> 1/2 * 2 powi ulp_exp q"
    using round_half_even_error [of "q / 2 powi ulp_exp q"] by (simp add: abs_mult mult_right_mono)
  also have "\<dots> = 2 powi (ilog2 q) * 2 powi (-53)" by (simp add: e flip: powi2_add) (simp add: powi2_add power_int_diff)
  also have "\<dots> \<le> q * 2 powi (-53)" using ilog2_bounds(1) [OF q] by (simp add: mult_right_mono)
  finally show ?thesis .
qed

lemma rnd_val_upper:
  assumes "2 powi (-1022) \<le> q"
  shows "rnd_val q \<le> q * (1 + 1 / 9007199254740992)"
proof -
  have "(2::rat) powi (-53) = 1 / 9007199254740992" by (simp add: power_int_def power_one_over)
  then have "\<bar>rnd_val q - q\<bar> \<le> q * (1 / 9007199254740992)"
    using rnd_val_error [OF assms] by (simp only:)
  then have "rnd_val q \<le> q + q * (1 / 9007199254740992)" by linarith
  then show ?thesis by (simp add: distrib_left)
qed

section \<open>Operations on finite values\<close>

lemma rnd_eq_Fin:
  assumes "\<bar>q\<bar> \<le> 2 ^ 1023"
  shows "rnd q = Fin (rnd_val q)"
proof -
  have p: "rnd_val (2 ^ 1023) = 2 ^ 1023" by (rule rnd_val_pow2)
  have "rnd_val q \<le> rnd_val (2 ^ 1023)" "rnd_val (- (2 ^ 1023)) \<le> rnd_val q"
    using assms by (intro rnd_val_mono; linarith)+
  then have "rnd_val q \<le> 2 ^ 1023" "- (2 ^ 1023) \<le> rnd_val q"
    by (simp_all only: rnd_val_minus p)
  then show ?thesis by (simp add: rnd_def Let_def)
qed

lemma rnd_eq_Fin_le: "0 \<le> q \<Longrightarrow> q \<le> b \<Longrightarrow> b \<le> 2 ^ 1023 \<Longrightarrow> rnd q = Fin (rnd_val q)"
  by (rule rnd_eq_Fin) linarith

lemma rnd_between:
  assumes "lo \<le> q" "q \<le> hi" "rnd_val lo = lo" "rnd_val hi = hi" "- (2 ^ 1023) \<le> lo" "hi \<le> 2 ^ 1023"
  shows "rnd q = Fin (rnd_val q)" "lo \<le> rnd_val q" "rnd_val q \<le> hi"
  using assms rnd_eq_Fin [of q] rnd_val_mono [of lo q] rnd_val_mono [of q hi] by auto

lemma rnd_unit:
  assumes "0 \<le> q" "q \<le> 1"
  shows "rnd q = Fin (rnd_val q)" "0 \<le> rnd_val q" "rnd_val q \<le> 1"
  using assms rnd_eq_Fin_le [of q 1] rnd_val_nonneg [of q] rnd_val_mono [of q 1] by auto

lemma f_of_nat_eq:
  assumes "n \<le> u64_max"
  shows "f_of_nat n = Fin (rnd_val (of_nat n))"
proof -
  have "(of_nat n :: rat) \<le> of_nat u64_max" using assms by (simp only: of_nat_le_iff)
  then show ?thesis by (simp add: f_of_nat_def) (rule rnd_eq_Fin_le [of _ "of_nat u64_max"]; simp)
qed

lemma f_of_nat_exact:
  assumes "n \<le> 2 ^ 53"
  shows "f_of_nat n = Fin (of_nat n)"
proof -
  have "int n \<le> int (2 ^ 53)" using assms by (simp only: of_nat_le_iff)
  then have "rnd_val (of_int (int n)) = of_int (int n)" by (intro rnd_val_of_int) simp
  then show ?thesis using assms by (simp add: f_of_nat_eq)
qed

lemma f_lt_Fin_zero_le [simp]: "f_le (Fin a) (Fin b) \<longleftrightarrow> a \<le> b"
  by (auto simp: f_le_def)

lemma f_lt_irrefl [simp]: "\<not> f_lt x x"
  by (cases x) auto

lemma f_lt_trans: "f_lt x y \<Longrightarrow> f_lt y z \<Longrightarrow> f_lt x z"
  by (cases x; cases y; cases z) auto

lemma f_lt_total: "x \<noteq> NaN \<Longrightarrow> y \<noteq> NaN \<Longrightarrow> f_lt x y \<or> x = y \<or> f_lt y x"
  by (cases x; cases y) auto

lemma f_lt_asym: "f_lt x y \<Longrightarrow> \<not> f_lt y x"
  using f_lt_trans f_lt_irrefl by blast

lemma f_of_nat_mono:
  assumes "m \<le> n" "n \<le> u64_max"
  shows "f_le (f_of_nat m) (f_of_nat n)"
  using assms rnd_val_mono [of "of_nat m" "of_nat n"] by (simp add: f_of_nat_eq)

subsection \<open>The unit interval\<close>

definition in_unit :: "f64 \<Rightarrow> bool" where
  "in_unit x \<longleftrightarrow> (case x of Fin q \<Rightarrow> 0 \<le> q \<and> q \<le> 1 | _ \<Rightarrow> False)"

lemma in_unit_Fin [simp]: "in_unit (Fin q) \<longleftrightarrow> 0 \<le> q \<and> q \<le> 1"
  by (simp add: in_unit_def)

lemma in_unit_cases:
  assumes "in_unit x" obtains q where "x = Fin q" "0 \<le> q" "q \<le> 1"
  using assms by (cases x) (auto simp: in_unit_def)

lemma in_unit_finite: "in_unit x \<Longrightarrow> is_finite x"
  by (auto simp: in_unit_def is_finite_def split: f64.splits)

lemma f_mul_unit: "in_unit x \<Longrightarrow> in_unit y \<Longrightarrow> in_unit (f_mul x y)"
proof -
  assume "in_unit x" "in_unit y"
  then obtain a b where "x = Fin a" "y = Fin b" "0 \<le> a" "a \<le> 1" "0 \<le> b" "b \<le> 1"
    by (metis in_unit_cases)
  then show ?thesis using rnd_unit [of "a * b"] by (simp add: mult_le_one)
qed

lemma powi_loop_unit: "in_unit r \<Longrightarrow> in_unit a \<Longrightarrow> in_unit (powi_loop r a b)"
proof (induction r a b rule: powi_loop.induct)
  case (1 r a b)
  then show ?case
    by (subst powi_loop.simps) (auto simp: Let_def f_mul_unit)
qed

lemma f_powi_unit: "in_unit a \<Longrightarrow> in_unit (f_powi a n)"
  unfolding f_powi_def by (rule powi_loop_unit) simp_all

lemma f_powi_0 [simp]: "f_powi a 0 = Fin 1"
  by (simp add: f_powi_def powi_loop.simps)

lemma f_mul_one: "a = rnd_val a \<Longrightarrow> in_unit (Fin a) \<Longrightarrow> f_mul (Fin 1) (Fin a) = Fin a"
  using rnd_unit [of a] by simp

lemma f_powi_1: "a = rnd_val a \<Longrightarrow> in_unit (Fin a) \<Longrightarrow> f_powi (Fin a) 1 = Fin a"
  using f_mul_one [of a] by (simp add: f_powi_def powi_loop.simps)

subsection \<open>A fraction of a byte count\<close>

text \<open>The three roundings of \<open>(n as f64 * c) as u64\<close> cost less than one percent.\<close>

text \<open>The bounds of the two factors: the rounding of a count, and of a literal below 0.99.\<close>

lemma rnd_val_nat_bounds:
  assumes "0 < n"
  shows "0 \<le> rnd_val (of_nat n)" "rnd_val (of_nat n) \<le> of_nat n * (1 + 1 / 9007199254740992)"
proof -
  have "(2::rat) powi (-1022) \<le> 2 powi 0" by (rule powi2_mono) simp
  then have "(2::rat) powi (-1022) \<le> of_nat n" using assms by simp
  from rnd_val_upper [OF this] show "rnd_val (of_nat n) \<le> of_nat n * (1 + 1 / 9007199254740992)" .
  show "0 \<le> rnd_val (of_nat n)" by (simp add: rnd_val_nonneg)
qed

lemma rnd_val_fraction_bounds:
  assumes "0 \<le> c" "c \<le> 99/100"
  shows "0 \<le> rnd_val c" "rnd_val c \<le> 199/200"
proof -
  have "rnd_val c \<le> rnd_val (of_int 127 * 2 powi (-7))"
    using assms by (intro rnd_val_mono) (simp add: power_int_def power_one_over)
  also have "\<dots> = of_int 127 * 2 powi (-7)" by (rule rnd_val_exact) simp_all
  finally show "rnd_val c \<le> 199/200" by (simp add: power_int_def power_one_over)
  show "0 \<le> rnd_val c" using assms by (simp add: rnd_val_nonneg)
qed

lemma rnd_val_product_le:
  assumes "0 < n" "x * d \<le> of_nat n * (399/400)"
  shows "rnd_val (x * d) \<le> of_nat n"
proof -
  have "(2::rat) powi (-1022) \<le> 2 powi (-1)" by (rule powi2_mono) simp
  also have "\<dots> \<le> of_nat n * (399/400)" using assms(1) by (simp add: power_int_def)
  finally have "rnd_val (of_nat n * (399/400)) \<le> of_nat n * (399/400) * (1 + 1 / 9007199254740992)"
    by (rule rnd_val_upper)
  moreover have "rnd_val (x * d) \<le> rnd_val (of_nat n * (399/400))" using assms(2) by (rule rnd_val_mono)
  moreover have "(of_nat n :: rat) * (399/400) * (1 + 1 / 9007199254740992) \<le> of_nat n" by simp
  ultimately show ?thesis by linarith
qed

lemma fraction_le:
  assumes n: "n \<le> u64_max" and c: "0 \<le> c" "c \<le> 99/100"
  shows "f_to_u64 (f_mul (f_of_nat n) (f_lit c)) \<le> n"
proof (cases "n = 0 \<or> c = 0")
  case True
  moreover have "rnd 0 = Fin 0" by (simp add: rnd_eq_Fin)
  ultimately show ?thesis
    using n c rnd_unit [of c] by (auto simp: f_of_nat_eq f_lit_def)
next
  case False
  let ?x = "rnd_val (of_nat n)" and ?d = "rnd_val c"
  have n0: "0 < n" and n1: "(1::rat) \<le> of_nat n" using False by simp_all
  have n64: "(of_nat n :: rat) \<le> of_nat u64_max" using n by (simp only: of_nat_le_iff)
  note b = rnd_val_nat_bounds [OF n0] rnd_val_fraction_bounds [OF c]
  have "?x * ?d \<le> (of_nat n * (1 + 1 / 9007199254740992)) * (199/200)" using b by (intro mult_mono) auto
  also have "\<dots> \<le> of_nat n * (399/400)" by simp
  finally have xd: "?x * ?d \<le> of_nat n * (399/400)" .
  have "rnd (?x * ?d) = Fin (rnd_val (?x * ?d))"
  proof (rule rnd_eq_Fin_le)
    show "0 \<le> ?x * ?d" using b by simp
    show "?x * ?d \<le> of_nat u64_max" using xd n64 n1 by linarith
    show "(of_nat u64_max :: rat) \<le> 2 ^ 1023" by simp
  qed
  moreover have "f_lit c = Fin ?d" using c rnd_unit [of c] by (simp add: f_lit_def)
  ultimately have "f_mul (f_of_nat n) (f_lit c) = Fin (rnd_val (?x * ?d))"
    using n by (simp add: f_of_nat_eq)
  moreover have "nat \<lfloor>rnd_val (?x * ?d)\<rfloor> \<le> n" using rnd_val_product_le [OF n0 xd] by linarith
  ultimately show ?thesis by simp
qed

end
