(* ===== verification/Ram.thy ===== *)
theory Ram
  imports F64
begin

text \<open>
  \<open>src/engine/ram.rs\<close>: the price of one torrent in resident memory, the peer limit and the
  torrent-count cap derived from the host's RAM, and the adaptive size bias.  The \<open>log2\<close> of the
  standard library is an argument of \<open>size_bias_for_ratio\<close>.  The lemmas bound the budget by the
  system's memory, the cap by the budget, and the bias by one in absolute value.
\<close>

section \<open>Definitions\<close>

definition PER_TORRENT_RAM_BASE :: nat where "PER_TORRENT_RAM_BASE = 256 * 1024"
definition PER_PIECE_RAM :: nat where "PER_PIECE_RAM = 64"
definition PER_PEER_RAM :: nat where "PER_PEER_RAM = 48 * 1024"

definition SYSTEM_RAM_FRACTION_HARD_CAP :: rat where "SYSTEM_RAM_FRACTION_HARD_CAP = 8/10"

definition torrent_ram :: "nat \<Rightarrow> nat \<Rightarrow> nat" where
  "torrent_ram piece_count peer_limit =
     sat_add64 (sat_add64 PER_TORRENT_RAM_BASE (sat_mul64 PER_PIECE_RAM (max piece_count 1)))
               (sat_mul64 PER_PEER_RAM peer_limit)"

definition peer_limit_for_budget :: "nat \<Rightarrow> nat" where
  "peer_limit_for_budget budget =
     (if 4 * 1024 * 1024 * 1024 \<le> budget then 20
      else if 1024 * 1024 * 1024 \<le> budget then 12
      else if 256 * 1024 * 1024 \<le> budget then 8 else 4)"

definition typical_torrent_ram :: "nat \<Rightarrow> nat" where
  "typical_torrent_ram budget = torrent_ram 1024 (peer_limit_for_budget budget)"

definition size_bias_for_ratio :: "(f64 \<Rightarrow> f64) \<Rightarrow> nat \<Rightarrow> nat \<Rightarrow> f64" where
  "size_bias_for_ratio log2 ram_budget disk_limit =
     (if disk_limit = 0 then Fin 0
      else let gib_per_tib = f_mul (f_div (f_of_nat ram_budget) (f_of_nat disk_limit)) (Fin 1024)
           in if \<not> is_finite gib_per_tib \<or> f_le gib_per_tib (Fin 0) then Fin 0
              else let log = log2 gib_per_tib
                   in if f_le (Fin 3) log then Fin (-1)
                      else if f_le log (Fin (-2)) then Fin 1
                      else f_sub (Fin 1) (f_div (f_mul (Fin 2) (f_sub log (Fin (-2))))
                                                (f_sub (Fin 3) (Fin (-2)))))"

definition max_torrents_for_budget :: "nat \<Rightarrow> nat \<Rightarrow> nat \<times> nat \<times> nat" where
  "max_torrents_for_budget system_total configured_max_ram =
     (if system_total = 0
      then (configured_max_ram, 0,
            if configured_max_ram = 0 then u64_max
            else configured_max_ram div max (typical_torrent_ram configured_max_ram) 1)
      else let hard_cap = f_to_u64 (f_mul (f_of_nat system_total) (f_lit SYSTEM_RAM_FRACTION_HARD_CAP));
               budget = (if 0 < configured_max_ram then min configured_max_ram hard_cap else hard_cap)
           in (budget, hard_cap, budget div max (typical_torrent_ram budget) 1))"

section \<open>The price of a torrent\<close>

lemmas ram_consts = PER_TORRENT_RAM_BASE_def PER_PIECE_RAM_def PER_PEER_RAM_def

lemma torrent_ram_bounds: "PER_TORRENT_RAM_BASE < torrent_ram p l" "torrent_ram p l \<le> u64_max"
  by (auto simp: torrent_ram_def ram_consts rust_arith)

lemma torrent_ram_pos [simp]: "0 < torrent_ram p l"
  using torrent_ram_bounds(1) [of p l] by linarith

lemma torrent_ram_mono: "p \<le> p' \<Longrightarrow> l \<le> l' \<Longrightarrow> torrent_ram p l \<le> torrent_ram p' l'"
  by (auto simp: torrent_ram_def ram_consts rust_arith min_def max_def)

lemma torrent_ram_unknown: "torrent_ram 0 l = torrent_ram 1 l"
  by (simp add: torrent_ram_def)

text \<open>For real piece counts and peer limits nothing saturates: the linear model of the module header.\<close>

lemma torrent_ram_linear:
  assumes "p \<le> u32_max" "l \<le> 20"
  shows "torrent_ram p l = 262144 + 64 * max p 1 + 49152 * l"
  using assms by (auto simp: torrent_ram_def ram_consts rust_arith)

lemma peer_limit_range: "4 \<le> peer_limit_for_budget b" "peer_limit_for_budget b \<le> 20"
  by (auto simp: peer_limit_for_budget_def)

section \<open>The budget\<close>

lemma hard_cap_le:
  "n \<le> u64_max \<Longrightarrow> f_to_u64 (f_mul (f_of_nat n) (f_lit SYSTEM_RAM_FRACTION_HARD_CAP)) \<le> n"
  by (rule fraction_le) (auto simp: SYSTEM_RAM_FRACTION_HARD_CAP_def)

lemma size_bias_interpolation:
  assumes "-2 < l" "l < 3"
  obtains b where "f_sub (Fin 1) (f_div (f_mul (Fin 2) (f_sub (Fin l) (Fin (-2))))
                                        (f_sub (Fin 3) (Fin (-2)))) = Fin b"
    and "-1 \<le> b" and "b \<le> 1"
proof -
  have int_exact: "rnd_val (of_int m) = of_int m" if "\<bar>m\<bar> \<le> 2 ^ 53" for m
    using that by (rule rnd_val_of_int)
  have e: "rnd_val 5 = 5" "rnd_val 10 = 10" "rnd_val 2 = 2" "rnd_val (-1) = -1"
    using int_exact [of 5] int_exact [of 10] int_exact [of 2] int_exact [of "-1"] by simp_all
  define x where "x = rnd_val (l + 2)"
  define y where "y = rnd_val (2 * x)"
  define z where "z = rnd_val (y / 5)"
  define w where "w = rnd_val (1 - z)"
  have x: "rnd (l + 2) = Fin x" "0 \<le> x" "x \<le> 5"
    using rnd_between [of 0 "l + 2" 5] assms e by (auto simp: x_def)
  have y: "rnd (2 * x) = Fin y" "0 \<le> y" "y \<le> 10"
    using rnd_between [of 0 "2 * x" 10] x e by (auto simp: y_def)
  have z: "rnd (y / 5) = Fin z" "0 \<le> z" "z \<le> 2"
    using rnd_between [of 0 "y / 5" 2] y e by (auto simp: z_def)
  have w: "rnd (1 - z) = Fin w" "-1 \<le> w" "w \<le> 1"
    using rnd_between [of "-1" "1 - z" 1] z e by (auto simp: w_def)
  have five: "rnd 5 = Fin 5" using rnd_between [of 5 5 5] e by simp
  show ?thesis
    by (rule that [of w]) (simp_all add: f_sub_def x y z w five)
qed

section \<open>Properties\<close>

text \<open>The RAM budget never exceeds 80 percent of the measured system memory as the hard cap prices
  it, never the system memory itself, never a configured \<open>max_ram\<close>; and as many typical torrents as
  the count cap admits fit the budget.\<close>

theorem max_torrents_within_budget:
  assumes "0 < system_total" "system_total \<le> u64_max"
  shows "case max_torrents_for_budget system_total configured of (budget, hard_cap, max_torrents) \<Rightarrow>
    budget \<le> hard_cap \<and> hard_cap \<le> system_total \<and> (0 < configured \<longrightarrow> budget \<le> configured) \<and>
    max_torrents * typical_torrent_ram budget \<le> budget"
proof -
  define h where "h = f_to_u64 (f_mul (f_of_nat system_total) (f_lit SYSTEM_RAM_FRACTION_HARD_CAP))"
  define b where "b = (if 0 < configured then min configured h else h)"
  have "b div typical_torrent_ram b * typical_torrent_ram b \<le> b" by (rule div_times_less_eq_dividend)
  moreover have "max (typical_torrent_ram b) 1 = typical_torrent_ram b"
    by (simp add: typical_torrent_ram_def max_absorb1 Suc_le_eq)
  ultimately show ?thesis
    using assms hard_cap_le [OF assms(2)]
    by (simp add: max_torrents_for_budget_def Let_def h_def [symmetric] b_def [symmetric])
      (simp add: b_def)
qed

theorem max_torrents_within_budget_witness:
  "case max_torrents_for_budget 8589934592 0 of (budget, hard_cap, max_torrents) \<Rightarrow>
    budget \<le> hard_cap \<and> hard_cap \<le> 8589934592 \<and> max_torrents * typical_torrent_ram budget \<le> budget"
  using max_torrents_within_budget [of 8589934592 0] by (simp add: case_prod_beta)

text \<open>The size bias is a finite value between -1 and 1, whatever the host, as long as the
  library's \<open>log2\<close> returns a finite value on positive finite arguments.\<close>

theorem size_bias_bounded:
  assumes "\<And>q. 0 < q \<Longrightarrow> is_finite (log2 (Fin q))"
  shows "\<exists>b. size_bias_for_ratio log2 ram_budget disk_limit = Fin b \<and> -1 \<le> b \<and> b \<le> 1"
proof -
  define g where "g = f_mul (f_div (f_of_nat ram_budget) (f_of_nat disk_limit)) (Fin 1024)"
  show ?thesis
  proof (cases "disk_limit = 0 \<or> \<not> is_finite g \<or> f_le g (Fin 0)")
    case True
    then show ?thesis by (auto simp: size_bias_for_ratio_def Let_def g_def)
  next
    case False
    then obtain q where q: "g = Fin q" "0 < q" by (auto simp: is_finite_def split: f64.splits)
    then obtain l where l: "log2 g = Fin l"
      using assms [of q] by (auto simp: is_finite_def split: f64.splits)
    have eq: "size_bias_for_ratio log2 ram_budget disk_limit =
        (if 3 \<le> l then Fin (-1) else if l \<le> -2 then Fin 1
         else f_sub (Fin 1) (f_div (f_mul (Fin 2) (f_sub (Fin l) (Fin (-2)))) (f_sub (Fin 3) (Fin (-2)))))"
      using False l by (simp add: size_bias_for_ratio_def Let_def g_def)
    show ?thesis
    proof (cases "3 \<le> l \<or> l \<le> -2")
      case True
      then show ?thesis by (auto simp: eq)
    next
      case False
      then have "-2 < l" "l < 3" by auto
      from size_bias_interpolation [OF this] show ?thesis using False unfolding eq by (metis (no_types))
    qed
  qed
qed

theorem size_bias_bounded_witness:
  "\<exists>b. size_bias_for_ratio (\<lambda>_. Fin 0) 1073741824 1099511627776 = Fin b \<and> -1 \<le> b \<and> b \<le> 1"
  using size_bias_bounded [of "\<lambda>_. Fin 0" 1073741824 1099511627776] by (simp add: is_finite_def)

end
