(* ===== verification/Selector.thy ===== *)
theory Selector
  imports Ram
begin

text \<open>
  \<open>src/selector.rs\<close>: the ranking of candidates, the seed-scarcity gate, the margin test of a swap
  and the weighted choice of a storage location.  Random draws are arguments (the source passes the
  roll in for the same reason); \<open>powf\<close> of the standard library is an argument of the scores.  A
  20-byte info hash is its lowercase hex string, the form every other component keys on.
\<close>

section \<open>Definitions\<close>

record candidate =
  cand_info_hash :: string
  cand_title :: string
  cand_size_bytes :: nat
  cand_piece_count :: nat
  cand_seeders :: nat
  cand_leechers :: nat
  cand_seeder_floor :: nat

definition available :: "candidate \<Rightarrow> bool" where
  "available c \<longleftrightarrow> 1 \<le> cand_seeders c"

record held =
  held_info_hash :: string
  held_title :: string
  held_size_bytes :: nat
  held_piece_count :: nat
  held_seeders :: nat

definition size_bias_score :: "(f64 \<Rightarrow> f64 \<Rightarrow> f64) \<Rightarrow> candidate \<Rightarrow> f64 \<Rightarrow> nat \<Rightarrow> f64" where
  "size_bias_score powf c size_bias peer_limit =
     (let ram = f_of_nat (max (torrent_ram (cand_piece_count c) peer_limit) 1);
          ratio = f_div (f_of_nat (max (cand_size_bytes c) 1)) ram
      in if f_lt (Fin 0) size_bias then powf ratio size_bias
         else f_add (f_neg (f_of_nat (cand_size_bytes c)))
                    (f_div ratio (f_add (Fin 1) (f_of_nat (cand_size_bytes c)))))"

definition rank_cmp :: "(f64 \<Rightarrow> f64 \<Rightarrow> f64) \<Rightarrow> f64 \<Rightarrow> nat \<Rightarrow> candidate \<Rightarrow> candidate \<Rightarrow> ordering" where
  "rank_cmp powf size_bias peer_limit a b =
     (case cmp_key cand_seeders a b of
        Equal \<Rightarrow> (case f_cmp (size_bias_score powf b size_bias peer_limit)
                            (size_bias_score powf a size_bias peer_limit) of
                    Some ord \<Rightarrow> ord
                  | None \<Rightarrow> cmp_key cand_size_bytes a b)
      | ord \<Rightarrow> ord)"

definition rank_candidates :: "(f64 \<Rightarrow> f64 \<Rightarrow> f64) \<Rightarrow> candidate list \<Rightarrow> f64 \<Rightarrow> nat \<Rightarrow> candidate list" where
  "rank_candidates powf candidates size_bias peer_limit =
     sort_by (rank_cmp powf size_bias peer_limit) (filter available candidates)"

definition eviction_score :: "(f64 \<Rightarrow> f64 \<Rightarrow> f64) \<Rightarrow> candidate \<Rightarrow> f64 \<Rightarrow> nat \<Rightarrow> f64" where
  "eviction_score powf c size_bias peer_limit =
     (if size_bias = Fin 0 then f_neg (f_of_nat (cand_seeders c))
      else size_bias_score powf c size_bias peer_limit)"

definition selection_chance :: "f64 \<Rightarrow> nat \<Rightarrow> nat \<Rightarrow> f64" where
  "selection_chance aggressiveness seeders seeder_floor =
     (let seeders = max seeders 1;
          floor = max seeder_floor 1;
          exponent = min (seeders - floor) i32_max
      in f_powi aggressiveness exponent)"

definition seeder_floor :: "nat list \<Rightarrow> nat" where
  "seeder_floor seed_counts =
     (let seeded = filter (\<lambda>s. 0 < s) seed_counts
      in if seeded = [] then 0
         else let seeded = sort seeded; rank = (length seeded + 9) div 10
              in seeded ! (rank - 1))"

definition meets_seed_margin :: "nat \<Rightarrow> held list \<Rightarrow> int \<Rightarrow> bool" where
  "meets_seed_margin candidate_seeders displaced min_seed_margin =
     (if displaced = [] then True
      else let min_displaced = Min (set (map held_seeders displaced))
           in int candidate_seeders \<le> int min_displaced - min_seed_margin)"

record swap_decision =
  should_swap :: bool
  sd_chance :: f64
  sd_roll :: f64
  sd_reason :: string

definition REASON_SEED_SCARCITY_ROLL_FAILED :: string where
  "REASON_SEED_SCARCITY_ROLL_FAILED =
     ''seed-scarcity roll failed; candidate already has enough seeders''"

definition seed_scarcity_blocked :: "swap_decision \<Rightarrow> bool" where
  "seed_scarcity_blocked d \<longleftrightarrow> sd_reason d = REASON_SEED_SCARCITY_ROLL_FAILED"

definition evaluate_swap :: "candidate \<Rightarrow> held list \<Rightarrow> int \<Rightarrow> f64 \<Rightarrow> f64 \<Rightarrow> swap_decision" where
  "evaluate_swap c displaced min_seed_margin aggressiveness roll =
     (if \<not> available c then
        \<lparr>should_swap = False, sd_chance = Fin 0, sd_roll = roll, sd_reason = ''candidate has no live seed''\<rparr>
      else if \<not> meets_seed_margin (cand_seeders c) displaced min_seed_margin then
        \<lparr>should_swap = False, sd_chance = Fin 0, sd_roll = roll,
         sd_reason = ''candidate does not beat displaced torrents by the required margin''\<rparr>
      else let chance = selection_chance aggressiveness (cand_seeders c) (cand_seeder_floor c);
               should = f_lt roll chance
           in \<lparr>should_swap = should, sd_chance = chance, sd_roll = roll,
               sd_reason = (if should then ''seed-scarcity roll succeeded''
                            else REASON_SEED_SCARCITY_ROLL_FAILED)\<rparr>)"

text \<open>\<open>choose_location\<close>: the eligible indices with their weights (already in index order, so the
  source's sort by index changes nothing), then the walk that subtracts weights from the target.\<close>

definition eligible_locations :: "nat list \<Rightarrow> nat list \<Rightarrow> (nat \<times> nat) list" where
  "eligible_locations free need =
     sort_by (cmp_key fst)
       (map (\<lambda>(i, f, _). (i, f)) (filter (\<lambda>(_, f, n). n \<le> f) (enumerate 0 (zip free need))))"

fun location_walk :: "f64 \<Rightarrow> (nat \<times> nat) list \<Rightarrow> nat option" where
  "location_walk target [] = None"
| "location_walk target ((i, f) # rest) =
     (let target = f_sub target (f_of_nat f)
      in if f_lt target (Fin 0) then Some i else location_walk target rest)"

definition choose_location :: "nat list \<Rightarrow> nat list \<Rightarrow> f64 \<Rightarrow> nat option" where
  "choose_location free need roll =
     (let eligible = eligible_locations free need
      in if eligible = [] then None
         else let total = fold (\<lambda>(_, f) acc. f_add acc (f_of_nat f)) eligible (Fin 0)
              in case location_walk (f_mul roll total) eligible of
                   Some i \<Rightarrow> Some i
                 | None \<Rightarrow> Some (fst (last eligible)))"

text \<open>A candidate for the examples.\<close>

definition sample_candidate :: "nat \<Rightarrow> nat \<Rightarrow> candidate" where
  "sample_candidate seeders sz = \<lparr>cand_info_hash = ''aa'', cand_title = ''t'', cand_size_bytes = sz,
     cand_piece_count = 0, cand_seeders = seeders, cand_leechers = 0, cand_seeder_floor = 0\<rparr>"

section \<open>Scores are never NaN\<close>

text \<open>The field widths of the source.\<close>

definition wf_candidate :: "candidate \<Rightarrow> bool" where
  "wf_candidate c \<longleftrightarrow> cand_size_bytes c \<le> u64_max \<and> cand_piece_count c \<le> u32_max \<and> cand_seeders c \<le> u32_max"

text \<open>What the standard library promises of \<open>powf\<close>: a positive base and a positive exponent never
  give NaN.\<close>

definition powf_total :: "(f64 \<Rightarrow> f64 \<Rightarrow> f64) \<Rightarrow> bool" where
  "powf_total powf \<longleftrightarrow> (\<forall>r b. 0 < r \<longrightarrow> f_lt (Fin 0) b \<longrightarrow> powf (Fin r) b \<noteq> NaN)"

lemma rnd_val_pos: "2 powi (-1000) \<le> q \<Longrightarrow> 0 < rnd_val q"
  using rnd_val_mono [of "2 powi (-1000)" q] powi2_pos [of "-1000"] rnd_val_powi2 [of "-1000"] by linarith

lemma f_of_nat_pos:
  assumes "0 < n" "n \<le> u64_max"
  obtains q where "f_of_nat n = Fin q" "1 \<le> q" "q \<le> 2 ^ 64"
proof (rule that)
  show "f_of_nat n = Fin (rnd_val (of_nat n))" using assms by (simp add: f_of_nat_eq)
  show "1 \<le> rnd_val (of_nat n)" using assms rnd_val_mono [of 1 "of_nat n"] by simp
  have "(of_nat n :: rat) \<le> of_nat u64_max" using assms by (simp only: of_nat_le_iff)
  then have "rnd_val (of_nat n) \<le> rnd_val (2 ^ 64)" by (intro rnd_val_mono) simp
  then show "rnd_val (of_nat n) \<le> 2 ^ 64" by (simp only: rnd_val_pow2)
qed

lemma powi_m1000_le: "(2::rat) powi (-1000) \<le> 1 / 2 ^ 64"
proof -
  have "(2::rat) powi (-1000) \<le> 2 powi (-64)" by (rule powi2_mono) simp
  also have "\<dots> = 1 / 2 ^ 64" by (simp add: power_int_def power_one_over)
  finally show ?thesis .
qed

lemma ratio_pos:
  assumes "0 < m" "m \<le> u64_max" "0 < n" "n \<le> u64_max"
  obtains q where "f_div (f_of_nat m) (f_of_nat n) = Fin q" "0 < q" "q \<le> 2 ^ 64"
proof -
  obtain a b where a: "f_of_nat m = Fin a" "1 \<le> a" "a \<le> 2 ^ 64" and b: "f_of_nat n = Fin b" "1 \<le> b" "b \<le> 2 ^ 64"
    using assms f_of_nat_pos by metis
  have "1 / 2 ^ 64 \<le> a / b" using a b by (intro frac_le) auto
  moreover have ab: "a / b \<le> 2 ^ 64" using a b frac_le [of "2 ^ 64" a 1 b] by simp
  ultimately have pos: "0 < rnd_val (a / b)" using powi_m1000_le by (intro rnd_val_pos) linarith
  have "rnd_val (a / b) \<le> rnd_val (2 ^ 64)" using ab by (intro rnd_val_mono) simp
  then have le: "rnd_val (a / b) \<le> 2 ^ 64" by (simp only: rnd_val_pow2)
  have "rnd (a / b) = Fin (rnd_val (a / b))"
    using a b ab by (intro rnd_eq_Fin_le [of _ "2 ^ 64"]) auto
  then show ?thesis using that [of "rnd_val (a / b)"] a b pos le by simp
qed

lemma f_of_nat_finite:
  assumes "n \<le> u64_max"
  obtains q where "f_of_nat n = Fin q" "0 \<le> q" "q \<le> 2 ^ 64"
proof (cases "n = 0")
  case True
  then show ?thesis using that [of 0] by (simp add: f_of_nat_eq)
next
  case False
  then show ?thesis using f_of_nat_pos [of n] that assms by (metis gr0I order_trans zero_le_one)
qed

lemma rnd_64_bits:
  assumes "\<bar>q\<bar> \<le> 2 ^ 100" obtains r where "rnd q = Fin r" "0 \<le> q \<longrightarrow> 0 \<le> r" "1 \<le> q \<longrightarrow> 1 \<le> r"
proof -
  have "(2::rat) ^ 100 \<le> 2 ^ 1023" by (rule power_increasing) auto
  then have "rnd q = Fin (rnd_val q)" using assms by (intro rnd_eq_Fin) linarith
  then show ?thesis using that rnd_val_nonneg rnd_val_mono [of 1 q] by fastforce
qed

lemma size_bias_score_not_NaN:
  assumes "wf_candidate c" "powf_total powf"
  shows "size_bias_score powf c bias pl \<noteq> NaN"
proof -
  have t: "0 < max (torrent_ram (cand_piece_count c) pl) 1" "max (torrent_ram (cand_piece_count c) pl) 1 \<le> u64_max"
    using torrent_ram_bounds(2) [of "cand_piece_count c" pl] by auto
  have s: "0 < max (cand_size_bytes c) 1" "max (cand_size_bytes c) 1 \<le> u64_max"
    using assms(1) by (auto simp: wf_candidate_def)
  obtain q where q: "f_div (f_of_nat (max (cand_size_bytes c) 1))
      (f_of_nat (max (torrent_ram (cand_piece_count c) pl) 1)) = Fin q" "0 < q" "q \<le> 2 ^ 64"
    using ratio_pos [OF s t] by metis
  obtain z where z: "f_of_nat (cand_size_bytes c) = Fin z" "0 \<le> z" "z \<le> 2 ^ 64"
    using assms(1) f_of_nat_finite [of "cand_size_bytes c"] by (auto simp: wf_candidate_def)
  obtain d where d: "rnd (1 + z) = Fin d" "1 \<le> d" using z by (auto intro: rnd_64_bits [of "1 + z"])
  have "q / d \<le> q / 1" using q d by (intro divide_left_mono) auto
  then have "0 \<le> q / d" "q / d \<le> 2 ^ 64" using q d by auto
  then obtain e where e: "rnd (q / d) = Fin e" "0 \<le> e" using rnd_64_bits [of "q / d"] by force
  have "rnd (q / d) = Fin (rnd_val (q / d))" "rnd_val (q / d) \<le> 2 ^ 64"
    using rnd_between [of 0 "q / d" "2 ^ 64"] \<open>0 \<le> q / d\<close> \<open>q / d \<le> 2 ^ 64\<close> rnd_val_pow2 [of 64] by simp_all
  with e have "e \<le> 2 ^ 64" by simp
  with e z obtain w where "rnd (- z + e) = Fin w" using rnd_64_bits [of "- z + e"] by force
  then show ?thesis
    using q z d e assms(2) by (auto simp: size_bias_score_def Let_def powf_total_def)
qed

lemma f_cmp_not_NaN: "x \<noteq> NaN \<Longrightarrow> y \<noteq> NaN \<Longrightarrow>
    f_cmp x y = Some (if f_lt x y then Less else if x = y then Equal else Greater)"
  by (simp add: f_cmp_def)

text \<open>Comparing two float keys that are never NaN is a total preorder.\<close>

lemma f_key_comparator:
  assumes "\<And>x. x \<in> A \<Longrightarrow> g x \<noteq> NaN"
  shows "comparator (\<lambda>x y. case f_cmp (g x) (g y) of Some ord \<Rightarrow> ord | None \<Rightarrow> h x y) A"
proof
  fix x y z assume x: "x \<in> A" and y: "y \<in> A"
  then show "((case f_cmp (g x) (g y) of Some ord \<Rightarrow> ord | None \<Rightarrow> h x y) = Greater) =
      ((case f_cmp (g y) (g x) of Some ord \<Rightarrow> ord | None \<Rightarrow> h y x) = Less)"
    using f_lt_total [of "g x" "g y"] f_lt_asym [of "g x" "g y"] assms by (auto simp: f_cmp_not_NaN)
  assume z: "z \<in> A" and "(case f_cmp (g x) (g y) of Some ord \<Rightarrow> ord | None \<Rightarrow> h x y) \<noteq> Greater"
    "(case f_cmp (g y) (g z) of Some ord \<Rightarrow> ord | None \<Rightarrow> h y z) \<noteq> Greater"
  then show "(case f_cmp (g x) (g z) of Some ord \<Rightarrow> ord | None \<Rightarrow> h x z) \<noteq> Greater"
    using x y assms f_lt_trans by (auto simp: f_cmp_not_NaN split: if_splits)
qed

lemma rank_comparator:
  assumes "powf_total powf"
  shows "comparator (rank_cmp powf bias pl) (Collect wf_candidate)"
proof -
  let ?g = "\<lambda>c. size_bias_score powf c bias pl"
  have n: "wf_candidate c \<Longrightarrow> ?g c \<noteq> NaN" for c using assms by (rule size_bias_score_not_NaN [rotated])
  show ?thesis
  proof
    fix x y z assume x: "x \<in> Collect wf_candidate" and y: "y \<in> Collect wf_candidate"
    with n [of x] n [of y] show "(rank_cmp powf bias pl x y = Greater) = (rank_cmp powf bias pl y x = Less)"
      using f_lt_total [of "?g x" "?g y"] f_lt_asym [of "?g x" "?g y"]
      by (auto simp: rank_cmp_def cmp_key_def f_cmp_not_NaN)
    assume "z \<in> Collect wf_candidate" "rank_cmp powf bias pl x y \<noteq> Greater" "rank_cmp powf bias pl y z \<noteq> Greater"
    with x y n [of x] n [of y] n [of z] f_lt_trans show "rank_cmp powf bias pl x z \<noteq> Greater"
      by (auto simp: rank_cmp_def cmp_key_def f_cmp_not_NaN split: if_splits)
  qed
qed

lemma rank_cmp_not_greater:
  assumes "rank_cmp powf bias pl a b \<noteq> Greater" "wf_candidate a" "wf_candidate b" "powf_total powf"
  shows "cand_seeders a < cand_seeders b \<or> cand_seeders a = cand_seeders b \<and>
         f_le (size_bias_score powf b bias pl) (size_bias_score powf a bias pl)"
  using assms size_bias_score_not_NaN [of a powf bias pl] size_bias_score_not_NaN [of b powf bias pl]
  by (auto simp: rank_cmp_def cmp_key_def f_cmp_not_NaN f_le_def split: if_splits)

section \<open>The margin\<close>

lemma meets_seed_margin_iff:
  "meets_seed_margin n displaced margin \<longleftrightarrow> list_all (\<lambda>d. int n + margin \<le> int (held_seeders d)) displaced"
proof (cases "displaced = []")
  case False
  let ?m = "Min (held_seeders ` set displaced)"
  have "?m \<in> held_seeders ` set displaced" using False by (intro Min_in) auto
  moreover have "\<forall>d \<in> set displaced. ?m \<le> held_seeders d" by simp
  ultimately show ?thesis
    using False by (fastforce simp: meets_seed_margin_def Let_def list_all_iff)
qed (simp add: meets_seed_margin_def)

section \<open>Locations\<close>

lemma enumerate_zip_mem:
  "(i, f, n) \<in> set (enumerate k (zip free need)) \<Longrightarrow>
   k \<le> i \<and> i - k < length free \<and> i - k < length need \<and> free ! (i - k) = f \<and> need ! (i - k) = n"
  by (auto simp: in_set_enumerate_eq)

lemma eligible_locations_mem:
  "(i, f) \<in> set (eligible_locations free need) \<longleftrightarrow>
   i < length free \<and> i < length need \<and> f = free ! i \<and> need ! i \<le> free ! i"
  by (force simp: eligible_locations_def in_set_enumerate_eq)

lemma location_walk_mem: "location_walk t es = Some i \<Longrightarrow> i \<in> fst ` set es"
  by (induction t es rule: location_walk.induct) (auto simp: Let_def split: if_splits)

section \<open>The percentile\<close>

lemma ceil_tenth: "0 < n \<Longrightarrow> 0 < (n + 9) div 10 \<and> (n + 9) div 10 \<le> (n::nat)"
  by linarith

lemma seeder_floor_sorted:
  assumes "filter (\<lambda>s. 0 < s) xs = ys" "ys \<noteq> []"
  shows "seeder_floor xs = sort ys ! ((length ys + 9) div 10 - 1)"
  using assms by (auto simp: seeder_floor_def Let_def)

lemma sorted_count_le:
  assumes "sorted zs" "k < length zs"
  shows "k < length (filter (\<lambda>s. s \<le> zs ! k) zs)"
proof -
  have "\<forall>x \<in> set (take (Suc k) zs). x \<le> zs ! k"
    using assms by (auto simp: in_set_conv_nth intro!: sorted_nth_mono)
  then have "filter (\<lambda>s. s \<le> zs ! k) (take (Suc k) zs) = take (Suc k) zs" by (simp add: filter_id_conv)
  moreover have "length (filter (\<lambda>s. s \<le> zs ! k) zs) =
      length (filter (\<lambda>s. s \<le> zs ! k) (take (Suc k) zs)) + length (filter (\<lambda>s. s \<le> zs ! k) (drop (Suc k) zs))"
    by (metis append_take_drop_id filter_append length_append)
  ultimately show ?thesis using assms by simp
qed

lemma sorted_count_less:
  assumes "sorted zs" "k < length zs"
  shows "length (filter (\<lambda>s. s < zs ! k) zs) \<le> k"
proof -
  have "\<forall>x \<in> set (drop k zs). zs ! k \<le> x"
    using assms by (auto simp: in_set_conv_nth intro!: sorted_nth_mono)
  then have "filter (\<lambda>s. s < zs ! k) (drop k zs) = []" by (auto simp: filter_empty_conv)
  then have "length (filter (\<lambda>s. s < zs ! k) zs) = length (filter (\<lambda>s. s < zs ! k) (take k zs))"
    by (metis append_take_drop_id filter_append append_Nil2)
  also have "\<dots> \<le> k" using length_filter_le [of "\<lambda>s. s < zs ! k" "take k zs"] by simp
  finally show ?thesis .
qed

lemma length_filter_sort: "length (filter P (sort xs)) = length (filter P xs)"
  by (metis mset_filter mset_sort size_mset)

section \<open>Properties\<close>

text \<open>Ranking keeps exactly the candidates with a live seed, and orders them by urgency: a
  candidate with fewer seeders always comes first, whatever the size bias, and inside one seeder count
  the size-bias score never increases along the list.\<close>

theorem rank_candidates_order:
  assumes "\<forall>c \<in> set cs. wf_candidate c" "powf_total powf"
  shows "mset (rank_candidates powf cs bias pl) = filter_mset available (mset cs) \<and>
    sorted_wrt (\<lambda>a b. cand_seeders a < cand_seeders b \<or> cand_seeders a = cand_seeders b \<and>
      f_le (size_bias_score powf b bias pl) (size_bias_score powf a bias pl)) (rank_candidates powf cs bias pl)"
proof -
  have sub: "set (filter available cs) \<subseteq> Collect wf_candidate" using assms(1) by auto
  have "sorted_wrt (\<lambda>a b. rank_cmp powf bias pl a b \<noteq> Greater) (rank_candidates powf cs bias pl)"
    unfolding rank_candidates_def using comparator.sort_by_sorted [OF rank_comparator [OF assms(2)] sub] .
  moreover have "set (rank_candidates powf cs bias pl) \<subseteq> Collect wf_candidate"
    using sub by (simp add: rank_candidates_def)
  ultimately have "sorted_wrt (\<lambda>a b. cand_seeders a < cand_seeders b \<or> cand_seeders a = cand_seeders b \<and>
      f_le (size_bias_score powf b bias pl) (size_bias_score powf a bias pl)) (rank_candidates powf cs bias pl)"
    by (elim sorted_wrt_mono_rel [rotated]) (use rank_cmp_not_greater assms(2) in blast)
  then show ?thesis by (simp add: rank_candidates_def mset_filter)
qed

theorem rank_candidates_order_witness:
  "mset (rank_candidates (\<lambda>r b. r) [sample_candidate 5 10, sample_candidate 0 1, sample_candidate 1 100] (Fin 1) 8) =
     {#sample_candidate 1 100, sample_candidate 5 10#}"
  using rank_candidates_order [of "[sample_candidate 5 10, sample_candidate 0 1, sample_candidate 1 100]"
      "\<lambda>r b. r" "Fin 1" 8]
  by (simp add: powf_total_def wf_candidate_def sample_candidate_def available_def)

text \<open>The seed-scarcity gate admits with a probability: for an aggressiveness in the unit
  interval and any reported seeder count, the chance is finite and between 0 and 1; a candidate at or
  below the floor is admitted with certainty.\<close>

theorem selection_chance_probability:
  assumes "in_unit aggressiveness"
  shows "in_unit (selection_chance aggressiveness seeders flr) \<and>
    (seeders \<le> max flr 1 \<longrightarrow> selection_chance aggressiveness seeders flr = Fin 1)"
  using assms by (auto simp: selection_chance_def Let_def f_powi_unit)

theorem selection_chance_probability_witness:
  "in_unit (Fin (3/5)) \<and> in_unit (selection_chance (Fin (3/5)) 4294967295 1)"
  using selection_chance_probability [of "Fin (3/5)" 4294967295 1] by simp

text \<open>The seeder floor is the nearest-rank tenth percentile of the seeded swarms: it is one of the
  positive counts, at least a tenth of them (rounded up) are at or below it, and fewer than that are
  strictly below it.\<close>

theorem seeder_floor_is_p10:
  assumes "\<exists>s \<in> set counts. 0 < s"
  shows "seeder_floor counts \<in> set counts \<and> 0 < seeder_floor counts \<and>
    (length (filter (\<lambda>s. 0 < s) counts) + 9) div 10
      \<le> length (filter (\<lambda>s. 0 < s \<and> s \<le> seeder_floor counts) counts) \<and>
    length (filter (\<lambda>s. 0 < s \<and> s < seeder_floor counts) counts)
      < (length (filter (\<lambda>s. 0 < s) counts) + 9) div 10"
proof -
  define ys where "ys = filter (\<lambda>s. 0 < s) counts"
  define k where "k = (length ys + 9) div 10 - 1"
  have ne: "ys \<noteq> []" using assms by (auto simp: ys_def filter_empty_conv)
  have f: "seeder_floor counts = sort ys ! k" using seeder_floor_sorted [OF ys_def [symmetric] ne] by (simp add: k_def)
  have k: "k < length (sort ys)" "Suc k = (length ys + 9) div 10"
    using ceil_tenth [of "length ys"] ne by (auto simp: k_def)
  have "sort ys ! k \<in> set ys" using k(1) by (metis nth_mem set_sort)
  moreover have "Suc k \<le> length (filter (\<lambda>s. s \<le> sort ys ! k) ys)"
    using sorted_count_le [OF sorted_sort k(1)] by (simp add: length_filter_sort)
  moreover have "length (filter (\<lambda>s. s < sort ys ! k) ys) < Suc k"
    using sorted_count_less [OF sorted_sort k(1)] by (simp add: length_filter_sort)
  ultimately show ?thesis
    by (auto simp: f k(2) ys_def [symmetric] filter_filter) (auto simp: ys_def filter_filter conj_commute)
qed

theorem seeder_floor_is_p10_witness: "seeder_floor [0, 4, 9, 2] = 2 \<and> 0 < seeder_floor [0, 4, 9, 2]"
  using seeder_floor_is_p10 [of "[0, 4, 9, 2]"] by (simp add: seeder_floor_def)

text \<open>A decision to proceed is sound: the candidate has a live seed, it undercuts every displaced
  torrent by the margin, and the roll was below the chance; any other outcome is a refusal, and only a
  lost roll is reported as a seed-scarcity block.\<close>

theorem evaluate_swap_sound:
  "(should_swap (evaluate_swap c displaced margin aggr roll) \<longleftrightarrow>
     available c \<and> list_all (\<lambda>d. int (cand_seeders c) + margin \<le> int (held_seeders d)) displaced \<and>
     f_lt roll (selection_chance aggr (cand_seeders c) (cand_seeder_floor c))) \<and>
   (seed_scarcity_blocked (evaluate_swap c displaced margin aggr roll) \<longleftrightarrow>
     available c \<and> list_all (\<lambda>d. int (cand_seeders c) + margin \<le> int (held_seeders d)) displaced \<and>
     \<not> f_lt roll (selection_chance aggr (cand_seeders c) (cand_seeder_floor c)))"
  unfolding evaluate_swap_def meets_seed_margin_iff seed_scarcity_blocked_def
  by (auto simp: Let_def REASON_SEED_SCARCITY_ROLL_FAILED_def)

text \<open>The weighted choice of a location always returns an index whose free space covers the need,
  and returns none exactly when no location can take the torrent, for every roll.\<close>

theorem choose_location_fits:
  assumes "length free = length need"
  shows "(case choose_location free need roll of
            Some i \<Rightarrow> i < length free \<and> need ! i \<le> free ! i
          | None \<Rightarrow> \<forall>i < length free. free ! i < need ! i)"
proof (cases "eligible_locations free need = []")
  case True
  then have "free ! i < need ! i" if "i < length free" for i
    using eligible_locations_mem [of i "free ! i" free need] assms that by fastforce
  with True show ?thesis by (simp add: choose_location_def)
next
  case False
  obtain i where i: "choose_location free need roll = Some i" "i \<in> fst ` set (eligible_locations free need)"
    using False location_walk_mem [of _ "eligible_locations free need"]
    by (fastforce simp: choose_location_def Let_def split: option.splits)
  then show ?thesis using eligible_locations_mem by auto
qed

theorem choose_location_fits_witness:
  "case choose_location [10, 100, 5] [50, 50, 50] (Fin 0) of
     Some i \<Rightarrow> i < 3 \<and> [50, 50, 50] ! i \<le> [10, 100, 5 :: nat] ! i | None \<Rightarrow> False"
  using choose_location_fits [of "[10, 100, 5]" "[50, 50, 50]" "Fin 0"]
  by (auto split: option.splits)

end
