(* ===== verification/State_Store.thy ===== *)
theory State_Store
  imports Prelude
begin

text \<open>
  \<open>src/state.rs\<close>: the persisted view of what the node holds and of what it has quarantined.

  A \<open>state\<close> carries the two hash maps of the source and, in place of the path, the value the file
  at that path decodes to (\<open>st_disk\<close>, \<open>None\<close> when there is no file).  Every mutation ends in
  \<open>save\<close>, which rewrites the whole file or fails; whether a write succeeds is decided by the
  argument \<open>save_ok\<close>, a predicate on the value being written, since a full disk or a bad device is
  outside the program.  A mutator updates memory first and saves second, as in the source, so a failed
  save leaves memory ahead of the file.

  The lemmas: the file is always the last saved value, both maps keep one entry per hash, batched
  updates agree with the loop of single updates, and the trip operation never leaves a hash in both
  maps.
\<close>

section \<open>Definitions\<close>

record torrent =
  t_info_hash :: string
  t_title :: string
  t_size_bytes :: nat
  t_storage_location :: string
  t_added_at :: instant
  t_piece_count :: nat
  t_last_known_seeders :: nat
  t_completed_pieces :: nat
  t_last_progress_at :: "instant option"
  t_last_confirmed_in_catalog_at :: "instant option"

record quarantine =
  q_title :: string
  q_reason :: string
  q_quarantined_at :: instant
  q_cooldown_until :: instant
  q_attempts :: nat
  q_wasted_bytes :: nat

definition completion_lifts :: "nat \<Rightarrow> nat \<Rightarrow> bool" where
  "completion_lifts checked size_bytes \<longleftrightarrow> 0 < size_bytes \<and> size_bytes \<le> checked"

record stored =
  s_torrents :: "(string, torrent) hmap"
  s_quarantined :: "(string, quarantine) hmap"

record state =
  st_torrents :: "(string, torrent) hmap"
  st_quarantined :: "(string, quarantine) hmap"
  st_disk :: "stored option"

type_synonym saver = "stored \<Rightarrow> bool"

text \<open>What reading the file gives \<open>State::load\<close>: no file, an I/O error, or bytes that decode or
  do not.\<close>

datatype read_outcome = NotFound | ReadError string | Undecodable | Decoded stored

fun state_load :: "read_outcome \<Rightarrow> state result" where
  "state_load NotFound = Inr \<lparr>st_torrents = [], st_quarantined = [], st_disk = None\<rparr>"
| "state_load (ReadError e) = Inl (''reading: '' @ e)"
| "state_load Undecodable = Inl ''parsing''"
| "state_load (Decoded on_disk) = Inr \<lparr>st_torrents = s_torrents on_disk,
      st_quarantined = s_quarantined on_disk, st_disk = Some on_disk\<rparr>"

definition stored_of :: "state \<Rightarrow> stored" where
  "stored_of s = \<lparr>s_torrents = st_torrents s, s_quarantined = st_quarantined s\<rparr>"

definition save :: "saver \<Rightarrow> state \<Rightarrow> unit result \<times> state" where
  "save save_ok s = (if save_ok (stored_of s) then (Inr (), s\<lparr>st_disk := Some (stored_of s)\<rparr>)
                     else (Inl ''writing state'', s))"

definition all_torrents :: "state \<Rightarrow> torrent list" where
  "all_torrents s = map snd (st_torrents s)"

definition state_get :: "state \<Rightarrow> string \<Rightarrow> torrent option" where
  "state_get s h = hm_get (st_torrents s) h"

definition state_put :: "saver \<Rightarrow> torrent \<Rightarrow> state \<Rightarrow> unit result \<times> state" where
  "state_put save_ok t s = save save_ok (s\<lparr>st_torrents := hm_insert (t_info_hash t) t (st_torrents s)\<rparr>)"

text \<open>The \<open>?\<close> after \<open>save\<close> turns its error into the operation's.\<close>

definition with_save :: "saver \<Rightarrow> 'a \<Rightarrow> state \<Rightarrow> 'a result \<times> state" where
  "with_save save_ok a s = (case save save_ok s of (Inr _, s') \<Rightarrow> (Inr a, s') | (Inl e, s') \<Rightarrow> (Inl e, s'))"

definition state_update :: "saver \<Rightarrow> string \<Rightarrow> (torrent \<Rightarrow> torrent) \<Rightarrow> state \<Rightarrow> bool result \<times> state" where
  "state_update save_ok h f s =
     (case hm_get (st_torrents s) h of
        Some _ \<Rightarrow> with_save save_ok True (s\<lparr>st_torrents := hm_modify h f (st_torrents s)\<rparr>)
      | None \<Rightarrow> (Inr False, s))"

definition state_remove :: "saver \<Rightarrow> string \<Rightarrow> state \<Rightarrow> unit result \<times> state" where
  "state_remove save_ok h s = save save_ok (s\<lparr>st_torrents := hm_remove h (st_torrents s)\<rparr>)"

definition quarantine_count :: "state \<Rightarrow> nat" where
  "quarantine_count s = length (st_quarantined s)"

definition quarantined_keys :: "state \<Rightarrow> string list" where
  "quarantined_keys s = map fst (st_quarantined s)"

definition quarantine_get :: "state \<Rightarrow> string \<Rightarrow> quarantine option" where
  "quarantine_get s h = hm_get (st_quarantined s) h"

definition quarantine_put :: "saver \<Rightarrow> string \<Rightarrow> quarantine \<Rightarrow> state \<Rightarrow> unit result \<times> state" where
  "quarantine_put save_ok h q s = save save_ok (s\<lparr>st_quarantined := hm_insert h q (st_quarantined s)\<rparr>)"

definition quarantine_and_remove :: "saver \<Rightarrow> string \<Rightarrow> quarantine \<Rightarrow> state \<Rightarrow> unit result \<times> state" where
  "quarantine_and_remove save_ok h q s =
     save save_ok (s\<lparr>st_quarantined := hm_insert h q (st_quarantined s),
                     st_torrents := hm_remove h (st_torrents s)\<rparr>)"

fun remove_counting :: "string list \<Rightarrow> (string, 'v) hmap \<Rightarrow> nat \<Rightarrow> (string, 'v) hmap \<times> nat" where
  "remove_counting [] m n = (m, n)"
| "remove_counting (h # hs) m n =
     remove_counting hs (hm_remove h m) (if hm_get m h = None then n else n + 1)"

definition quarantine_remove_many :: "saver \<Rightarrow> string list \<Rightarrow> state \<Rightarrow> nat result \<times> state" where
  "quarantine_remove_many save_ok hashes s =
     (case remove_counting hashes (st_quarantined s) 0 of (m, removed) \<Rightarrow>
        let s' = s\<lparr>st_quarantined := m\<rparr>
        in if 0 < removed then with_save save_ok removed s' else (Inr removed, s'))"

definition quarantine_remove :: "saver \<Rightarrow> string \<Rightarrow> state \<Rightarrow> bool result \<times> state" where
  "quarantine_remove save_ok h s =
     (let existed = hm_get (st_quarantined s) h \<noteq> None;
          s' = s\<lparr>st_quarantined := hm_remove h (st_quarantined s)\<rparr>
      in if existed then with_save save_ok True s' else (Inr False, s'))"

definition lift_completed :: "saver \<Rightarrow> string \<Rightarrow> nat \<Rightarrow> nat \<Rightarrow> state \<Rightarrow> bool result \<times> state" where
  "lift_completed save_ok h checked size_bytes s =
     (if \<not> completion_lifts checked size_bytes \<or> hm_get (st_quarantined s) h = None then (Inr False, s)
      else quarantine_remove save_ok h s)"

fun apply_updates :: "(string \<times> (torrent \<Rightarrow> torrent)) list \<Rightarrow> (string, torrent) hmap \<Rightarrow> nat \<Rightarrow>
    (string, torrent) hmap \<times> nat" where
  "apply_updates [] m n = (m, n)"
| "apply_updates ((h, f) # us) m n =
     (case hm_get m h of
        Some _ \<Rightarrow> apply_updates us (hm_modify h f m) (n + 1)
      | None \<Rightarrow> apply_updates us m n)"

definition update_each :: "saver \<Rightarrow> (string \<times> (torrent \<Rightarrow> torrent)) list \<Rightarrow> state \<Rightarrow> nat result \<times> state" where
  "update_each save_ok updates s =
     (case apply_updates updates (st_torrents s) 0 of (m, changed) \<Rightarrow>
        let s' = s\<lparr>st_torrents := m\<rparr>
        in if 0 < changed then with_save save_ok changed s' else (Inr changed, s'))"

definition progress_due :: "nat \<Rightarrow> torrent \<Rightarrow> bool" where
  "progress_due checked t \<longleftrightarrow> t_completed_pieces t < checked \<or> t_last_progress_at t = None"

definition stamp_progress :: "nat \<Rightarrow> instant \<Rightarrow> torrent \<Rightarrow> torrent" where
  "stamp_progress checked now t = t\<lparr>t_completed_pieces := checked, t_last_progress_at := Some now\<rparr>"

fun apply_progress :: "(string \<times> nat) list \<Rightarrow> instant \<Rightarrow> (string, torrent) hmap \<Rightarrow> bool \<Rightarrow>
    (string, torrent) hmap \<times> bool" where
  "apply_progress [] now m changed = (m, changed)"
| "apply_progress ((h, checked) # ps) now m changed =
     (case hm_get m h of
        None \<Rightarrow> apply_progress ps now m changed
      | Some t \<Rightarrow> if progress_due checked t
                  then apply_progress ps now (hm_modify h (stamp_progress checked now) m) True
                  else apply_progress ps now m changed)"

definition update_progress_many :: "saver \<Rightarrow> (string \<times> nat) list \<Rightarrow> instant \<Rightarrow> state \<Rightarrow> bool result \<times> state" where
  "update_progress_many save_ok progress now s =
     (case apply_progress progress now (st_torrents s) False of (m, changed) \<Rightarrow>
        let s' = s\<lparr>st_torrents := m\<rparr>
        in if changed then with_save save_ok True s' else (Inr False, s'))"

text \<open>\<open>bytes_used\<close> sums in \<open>u64\<close>; the release profile wraps.\<close>

definition bytes_used :: "state \<Rightarrow> string \<Rightarrow> nat" where
  "bytes_used s location =
     wrap64 (sum_list (map t_size_bytes (filter (\<lambda>t. t_storage_location t = location) (all_torrents s))))"

text \<open>\<open>canonicalize\<close> asks the file system: \<open>None\<close> is its error.\<close>

definition rekey_torrent :: "(string \<Rightarrow> string option) \<Rightarrow> string list \<Rightarrow> torrent \<Rightarrow> torrent" where
  "rekey_torrent canonicalize locations t =
     (if t_storage_location t \<in> set locations then t
      else case canonicalize (t_storage_location t) of
             Some canon \<Rightarrow> if canon \<in> set locations \<and> t_storage_location t \<noteq> canon
                           then t\<lparr>t_storage_location := canon\<rparr> else t
           | None \<Rightarrow> t)"

definition rekey_storage_locations :: "saver \<Rightarrow> (string \<Rightarrow> string option) \<Rightarrow> string list \<Rightarrow> state \<Rightarrow> bool \<times> state" where
  "rekey_storage_locations save_ok canonicalize locations s =
     (let m = map (\<lambda>(h, t). (h, rekey_torrent canonicalize locations t)) (st_torrents s);
          changed = (m \<noteq> st_torrents s);
          s' = s\<lparr>st_torrents := m\<rparr>
      in if changed then (True, snd (save save_ok s')) else (False, s'))"

text \<open>Well-formedness of the maps, and agreement of memory and file.\<close>

definition wf_state :: "state \<Rightarrow> bool" where
  "wf_state s \<longleftrightarrow> hm_wf (st_torrents s) \<and> hm_wf (st_quarantined s) \<and>
     (\<forall>(h, t) \<in> set (st_torrents s). t_info_hash t = h)"

definition synced :: "state \<Rightarrow> bool" where
  "synced s \<longleftrightarrow> st_disk s = Some (stored_of s)"

text \<open>A torrent for the examples.\<close>

definition sample_torrent :: "string \<Rightarrow> nat \<Rightarrow> nat \<Rightarrow> torrent" where
  "sample_torrent h sz seeders = \<lparr>t_info_hash = h, t_title = ''t'', t_size_bytes = sz, t_storage_location = ''/d'',
     t_added_at = 0, t_piece_count = 0, t_last_known_seeders = seeders, t_completed_pieces = 0,
     t_last_progress_at = None, t_last_confirmed_in_catalog_at = None\<rparr>"

section \<open>Memory and file\<close>

lemma save_mem [simp]:
  "st_torrents (snd (save sv s)) = st_torrents s" "st_quarantined (snd (save sv s)) = st_quarantined s"
  by (auto simp: save_def)

lemma save_ok_disk: "is_ok (fst (save sv s)) \<Longrightarrow> st_disk (snd (save sv s)) = Some (stored_of s)"
  by (auto simp: save_def split: if_splits)

lemma save_err_disk: "\<not> is_ok (fst (save sv s)) \<Longrightarrow> snd (save sv s) = s"
  by (auto simp: save_def split: if_splits)

lemma with_save_snd [simp]: "snd (with_save sv a s) = snd (save sv s)"
  by (auto simp: with_save_def split: prod.splits sum.splits)

lemma with_save_ok [simp]: "is_ok (fst (with_save sv a s)) = is_ok (fst (save sv s))"
  by (auto simp: with_save_def split: prod.splits sum.splits)

lemma wf_state_save [simp]: "wf_state (snd (save sv s)) = wf_state s"
  by (simp add: wf_state_def)

lemma remove_counting_fst: "fst (remove_counting hs m n) = fold hm_remove hs m"
  by (induction hs m n rule: remove_counting.induct) auto

lemma apply_updates_keys: "map fst (fst (apply_updates us m n)) = map fst m"
  by (induction us m n rule: apply_updates.induct) (auto split: option.splits)

lemma apply_progress_keys: "map fst (fst (apply_progress ps now m c)) = map fst m"
  by (induction ps now m c rule: apply_progress.induct) (auto split: option.splits)

lemmas state_ops = state_put_def state_update_def state_remove_def quarantine_put_def
  quarantine_and_remove_def quarantine_remove_many_def quarantine_remove_def lift_completed_def
  update_each_def update_progress_many_def

text \<open>The in-memory effect of each operation, whatever the disk does.\<close>

lemma state_put_torrents [simp]:
  "st_torrents (snd (state_put sv t s)) = hm_insert (t_info_hash t) t (st_torrents s)"
  "st_quarantined (snd (state_put sv t s)) = st_quarantined s"
  by (simp_all add: state_put_def)

lemma state_remove_torrents [simp]:
  "st_torrents (snd (state_remove sv h s)) = hm_remove h (st_torrents s)"
  "st_quarantined (snd (state_remove sv h s)) = st_quarantined s"
  by (simp_all add: state_remove_def)

lemma state_update_torrents [simp]:
  "st_torrents (snd (state_update sv h f s)) = hm_modify h f (st_torrents s)"
  "st_quarantined (snd (state_update sv h f s)) = st_quarantined s"
  by (auto simp: state_update_def hm_modify_absent split: option.splits)

lemma quarantine_and_remove_mem [simp]:
  "st_torrents (snd (quarantine_and_remove sv h q s)) = hm_remove h (st_torrents s)"
  "st_quarantined (snd (quarantine_and_remove sv h q s)) = hm_insert h q (st_quarantined s)"
  by (simp_all add: quarantine_and_remove_def)

lemma quarantine_put_mem [simp]:
  "st_torrents (snd (quarantine_put sv h q s)) = st_torrents s"
  "st_quarantined (snd (quarantine_put sv h q s)) = hm_insert h q (st_quarantined s)"
  by (simp_all add: quarantine_put_def)

lemma quarantine_remove_many_mem [simp]:
  "st_torrents (snd (quarantine_remove_many sv hs s)) = st_torrents s"
  "st_quarantined (snd (quarantine_remove_many sv hs s)) = fold hm_remove hs (st_quarantined s)"
  by (auto simp: quarantine_remove_many_def Let_def remove_counting_fst [of hs "st_quarantined s" 0, symmetric]
      split: prod.splits)

lemma update_each_mem [simp]:
  "st_torrents (snd (update_each sv us s)) = fst (apply_updates us (st_torrents s) 0)"
  "st_quarantined (snd (update_each sv us s)) = st_quarantined s"
  by (auto simp: update_each_def Let_def split: prod.splits)

lemma update_progress_many_mem [simp]:
  "st_torrents (snd (update_progress_many sv ps now s)) = fst (apply_progress ps now (st_torrents s) False)"
  "st_quarantined (snd (update_progress_many sv ps now s)) = st_quarantined s"
  by (auto simp: update_progress_many_def Let_def split: prod.splits)

lemma apply_updates_modify: "fst (apply_updates us m n) = fold (\<lambda>(h, f). hm_modify h f) us m"
  by (induction us m n rule: apply_updates.induct) (auto simp: hm_modify_absent split: option.splits)

lemma apply_updates_count: "snd (apply_updates us m n) = n + length (filter (\<lambda>(h, _). hm_get m h \<noteq> None) us)"
proof (induction us m n rule: apply_updates.induct)
  case (2 h f us m n)
  have "hm_get (hm_modify h f m) h' = None \<longleftrightarrow> hm_get m h' = None" for h' by (simp add: hm_simps)
  with 2 show ?case by (auto split: option.splits)
qed simp

lemma remove_counting_count:
  "distinct hs \<Longrightarrow> snd (remove_counting hs m n) = n + length (filter (\<lambda>h. hm_get m h \<noteq> None) hs)"
proof (induction hs m n rule: remove_counting.induct)
  case (2 h hs m n)
  then have "filter (\<lambda>h'. hm_get (hm_remove h m) h' \<noteq> None) hs = filter (\<lambda>h'. hm_get m h' \<noteq> None) hs"
    by (intro filter_cong) (auto simp: hm_simps)
  with 2 show ?case by auto
qed simp

lemma apply_updates_unchanged: "snd (apply_updates us m n) = n \<Longrightarrow> fst (apply_updates us m n) = m"
proof (induction us m n rule: apply_updates.induct)
  case (2 h f us m n)
  then show ?case using apply_updates_count [of us "hm_modify h f m" "n + 1"] by (auto split: option.splits)
qed simp

lemma remove_counting_ge: "n \<le> snd (remove_counting hs m n)"
  by (induction hs m n rule: remove_counting.induct) (auto simp: le_Suc_eq)

lemma remove_counting_unchanged: "snd (remove_counting hs m n) = n \<Longrightarrow> fst (remove_counting hs m n) = m"
proof (induction hs m n rule: remove_counting.induct)
  case (2 h hs m n)
  then show ?case
    using remove_counting_ge [of "n + 1" hs "hm_remove h m"] by (auto simp: hm_remove_absent split: if_splits)
qed simp

lemma apply_progress_unchanged: "\<not> snd (apply_progress ps now m c) \<Longrightarrow> \<not> c \<and> fst (apply_progress ps now m c) = m"
  by (induction ps now m c rule: apply_progress.induct) (auto split: option.splits if_splits)

section \<open>Synchronisation\<close>

lemma synced_save: "is_ok (fst (save sv s)) \<Longrightarrow> synced (snd (save sv s))"
  by (auto simp: synced_def save_def stored_of_def split: if_splits)

lemma synced_quarantine_remove:
  assumes "synced s" "is_ok (fst (quarantine_remove sv h s))"
  shows "synced (snd (quarantine_remove sv h s))"
proof (cases "hm_get (st_quarantined s) h")
  case None
  then have "snd (quarantine_remove sv h s) = s" by (simp add: quarantine_remove_def Let_def hm_remove_absent)
  with assms show ?thesis by simp
next
  case (Some q)
  with assms show ?thesis by (simp add: quarantine_remove_def Let_def synced_save)
qed

lemma synced_quarantine_remove_many:
  assumes "synced s" "is_ok (fst (quarantine_remove_many sv hs s))"
  shows "synced (snd (quarantine_remove_many sv hs s))"
proof (cases "snd (remove_counting hs (st_quarantined s) 0) = 0")
  case True
  then have "snd (quarantine_remove_many sv hs s) = s"
    using remove_counting_unchanged [of hs "st_quarantined s" 0]
    by (simp add: quarantine_remove_many_def case_prod_beta)
  with assms show ?thesis by simp
next
  case False
  with assms show ?thesis by (simp add: quarantine_remove_many_def case_prod_beta Let_def synced_save)
qed

lemma synced_update_each:
  assumes "synced s" "is_ok (fst (update_each sv us s))"
  shows "synced (snd (update_each sv us s))"
proof (cases "snd (apply_updates us (st_torrents s) 0) = 0")
  case True
  then have "snd (update_each sv us s) = s"
    using apply_updates_unchanged [of us "st_torrents s" 0] by (simp add: update_each_def case_prod_beta)
  with assms show ?thesis by simp
next
  case False
  with assms show ?thesis by (simp add: update_each_def case_prod_beta Let_def synced_save)
qed

lemma synced_update_progress_many:
  assumes "synced s" "is_ok (fst (update_progress_many sv ps now s))"
  shows "synced (snd (update_progress_many sv ps now s))"
proof (cases "snd (apply_progress ps now (st_torrents s) False)")
  case True
  with assms show ?thesis by (simp add: update_progress_many_def case_prod_beta Let_def synced_save)
next
  case False
  then have "snd (update_progress_many sv ps now s) = s"
    using apply_progress_unchanged [of ps now "st_torrents s" False] by (simp add: update_progress_many_def case_prod_beta)
  with assms show ?thesis by simp
qed

lemma synced_state_update:
  "synced s \<Longrightarrow> is_ok (fst (state_update sv h f s)) \<Longrightarrow> synced (snd (state_update sv h f s))"
  by (auto simp: state_update_def synced_save split: option.splits)

section \<open>Well-formedness\<close>

lemma hm_wf_fold_remove [simp]: "hm_wf m \<Longrightarrow> hm_wf (fold hm_remove ks m)"
  by (rule hm.wf_fold_del)

lemma hm_wf_keys: "map fst m = map fst m' \<Longrightarrow> hm_wf m = hm_wf m'"
  by (simp add: hm_wf_def)

lemma wf_state_put: "wf_state s \<Longrightarrow> wf_state (snd (state_put sv t s))"
  by (auto simp: wf_state_def hm.entries_ins split: if_splits)

lemma wf_state_remove: "wf_state s \<Longrightarrow> wf_state (snd (state_remove sv h s))"
  by (auto simp: wf_state_def hm.entries_del)

lemma wf_quarantine_and_remove: "wf_state s \<Longrightarrow> wf_state (snd (quarantine_and_remove sv h q s))"
  by (auto simp: wf_state_def hm.entries_del)

lemma wf_quarantine_put: "wf_state s \<Longrightarrow> wf_state (snd (quarantine_put sv h q s))"
  by (auto simp: wf_state_def)

lemma wf_quarantine_remove_many: "wf_state s \<Longrightarrow> wf_state (snd (quarantine_remove_many sv hs s))"
  by (auto simp: wf_state_def)

lemma apply_progress_info_hash:
  "(\<forall>(h, t) \<in> set m. t_info_hash t = h) \<Longrightarrow> \<forall>(h, t) \<in> set (fst (apply_progress ps now m c)). t_info_hash t = h"
proof (induction ps now m c rule: apply_progress.induct)
  case (2 h checked ps now m changed)
  then have "\<forall>(h', t) \<in> set (hm_modify h (stamp_progress checked now) m). t_info_hash t = h'"
    by (auto simp: hm_modify_def stamp_progress_def)
  with 2 show ?case by (auto split: option.splits)
qed simp

lemma wf_update_progress_many: "wf_state s \<Longrightarrow> wf_state (snd (update_progress_many sv ps now s))"
  using apply_progress_info_hash [of "st_torrents s" ps now False]
    hm_wf_keys [OF apply_progress_keys [of ps now "st_torrents s" False]]
  by (simp add: wf_state_def)

lemma wf_update_each:
  assumes "wf_state s" "\<forall>(h, f) \<in> set us. \<forall>t. t_info_hash (f t) = t_info_hash t"
  shows "wf_state (snd (update_each sv us s))"
proof -
  have "\<forall>(h, t) \<in> set (fst (apply_updates us m n)). t_info_hash t = h"
    if "\<forall>(h, t) \<in> set m. t_info_hash t = h" "\<forall>(h, f) \<in> set us. \<forall>t. t_info_hash (f t) = t_info_hash t" for us m n
    using that
  proof (induction us m n rule: apply_updates.induct)
    case (2 h f us m n)
    then have "\<forall>(h', t) \<in> set (hm_modify h f m). t_info_hash t = h'" by (auto simp: hm_modify_def)
    with 2 show ?case by (auto split: option.splits)
  qed simp
  from this [of "st_torrents s" us 0] show ?thesis
    using assms hm_wf_keys [OF apply_updates_keys [of us "st_torrents s" 0]] by (simp add: wf_state_def)
qed

section \<open>Progress bookkeeping\<close>

lemma apply_progress_get:
  assumes "hm_get m h = Some t"
  shows "\<exists>t'. hm_get (fst (apply_progress ps now m c)) h = Some t' \<and>
    (t' = t \<or> (\<exists>checked. (h, checked) \<in> set ps \<and> t' = stamp_progress checked now t \<and>
       (t_completed_pieces t < checked \<or> t_last_progress_at t = None)))"
  using assms
proof (induction ps now m c arbitrary: t rule: apply_progress.induct)
  case (2 h' checked ps now m changed)
  show ?case
  proof (cases "hm_get m h'")
    case None
    with 2 show ?thesis by fastforce
  next
    case (Some u)
    show ?thesis
    proof (cases "progress_due checked u")
      case False
      with 2 Some show ?thesis by fastforce
    next
      case True
      show ?thesis
      proof (cases "h' = h")
        case False
        then have "hm_get (hm_modify h' (stamp_progress checked now) m) h = Some t"
          using 2(4) by (simp add: hm_simps)
        from 2(2) [OF Some True this] show ?thesis using Some True by auto
      next
        case eq: True
        then have ut: "u = t" using Some 2(4) by simp
        have "hm_get (hm_modify h' (stamp_progress checked now) m) h = Some (stamp_progress checked now t)"
          using 2(4) eq by (simp add: hm_simps)
        from 2(2) [OF Some True this] obtain t' where
          t': "hm_get (fst (apply_progress ps now (hm_modify h' (stamp_progress checked now) m) True)) h = Some t'"
          and "t' = stamp_progress checked now t \<or> (\<exists>checked'. (h, checked') \<in> set ps \<and>
            t' = stamp_progress checked' now (stamp_progress checked now t) \<and> checked < checked')"
          by (auto simp: stamp_progress_def)
        then have "\<exists>checked'. (h, checked') \<in> set ((h', checked) # ps) \<and> t' = stamp_progress checked' now t \<and>
            checked \<le> checked'"
          using eq by (auto simp: stamp_progress_def)
        with True ut t' Some show ?thesis by (fastforce simp: progress_due_def)
      qed
    qed
  qed
qed simp

section \<open>Properties\<close>

text \<open>C17. Durability: every mutating operation that returns success on a state whose file is current
  leaves the file current again, so a restart reloads exactly the state in memory.\<close>

theorem mutations_durable:
  assumes "synced s"
  shows "(is_ok (fst (state_put sv t s)) \<longrightarrow> synced (snd (state_put sv t s))) \<and>
    (is_ok (fst (state_update sv h f s)) \<longrightarrow> synced (snd (state_update sv h f s))) \<and>
    (is_ok (fst (state_remove sv h s)) \<longrightarrow> synced (snd (state_remove sv h s))) \<and>
    (is_ok (fst (quarantine_put sv h q s)) \<longrightarrow> synced (snd (quarantine_put sv h q s))) \<and>
    (is_ok (fst (quarantine_and_remove sv h q s)) \<longrightarrow> synced (snd (quarantine_and_remove sv h q s))) \<and>
    (is_ok (fst (quarantine_remove_many sv hs s)) \<longrightarrow> synced (snd (quarantine_remove_many sv hs s))) \<and>
    (is_ok (fst (quarantine_remove sv h s)) \<longrightarrow> synced (snd (quarantine_remove sv h s))) \<and>
    (is_ok (fst (lift_completed sv h n m s)) \<longrightarrow> synced (snd (lift_completed sv h n m s))) \<and>
    (is_ok (fst (update_each sv us s)) \<longrightarrow> synced (snd (update_each sv us s))) \<and>
    (is_ok (fst (update_progress_many sv ps now s)) \<longrightarrow> synced (snd (update_progress_many sv ps now s))) \<and>
    (synced s' \<longrightarrow> state_load (Decoded (stored_of s')) = Inr s')"
  using assms synced_quarantine_remove synced_quarantine_remove_many synced_update_each
    synced_update_progress_many synced_state_update
  by (auto simp: state_put_def state_remove_def quarantine_put_def quarantine_and_remove_def
      lift_completed_def synced_save) (auto simp: synced_def stored_of_def)

theorem mutations_durable_witness:
  "synced \<lparr>st_torrents = [], st_quarantined = [], st_disk = Some \<lparr>s_torrents = [], s_quarantined = []\<rparr>\<rparr> \<and>
   synced (snd (state_remove (\<lambda>_. True) ''aa''
     \<lparr>st_torrents = [], st_quarantined = [], st_disk = Some \<lparr>s_torrents = [], s_quarantined = []\<rparr>\<rparr>))"
  using mutations_durable [of "\<lparr>st_torrents = [], st_quarantined = [],
      st_disk = Some \<lparr>s_torrents = [], s_quarantined = []\<rparr>\<rparr>" "\<lambda>_. True"]
  by (simp add: synced_def stored_of_def state_remove_def save_def)

text \<open>The one-save batch \<open>update_each\<close> has the effect of the loop of single updates it replaces,
  and reports how many of the named hashes were held.\<close>

theorem update_each_is_loop:
  "st_torrents (snd (update_each sv us s)) =
     st_torrents (fold (\<lambda>(h, f) s. snd (state_update sv h f s)) us s) \<and>
   (case fst (update_each sv us s) of
      Inr n \<Rightarrow> n = length (filter (\<lambda>(h, _). state_get s h \<noteq> None) us)
    | Inl _ \<Rightarrow> \<not> sv (stored_of (s\<lparr>st_torrents := fst (apply_updates us (st_torrents s) 0)\<rparr>)))"
proof -
  have "fold (\<lambda>(h, f). hm_modify h f) us (st_torrents s) =
      st_torrents (fold (\<lambda>(h, f) s. snd (state_update sv h f s)) us s)"
  proof (induction us arbitrary: s)
    case (Cons u us)
    then show ?case using Cons.IH [of "snd (state_update sv (fst u) (snd u) s)"] by (simp add: case_prod_beta)
  qed simp
  then show ?thesis
    using apply_updates_count [of us "st_torrents s" 0]
    by (auto simp: apply_updates_modify state_get_def update_each_def with_save_def save_def Let_def
        case_prod_beta split: sum.splits if_splits)
qed

text \<open>A quarantine trip moves the hash: afterwards it is in the registry and not in the held set,
  in memory always, and on disk together or not at all (the file is the old one when the save fails).\<close>

theorem quarantine_and_remove_exclusive:
  "quarantine_get (snd (quarantine_and_remove sv h q s)) h = Some q \<and>
   state_get (snd (quarantine_and_remove sv h q s)) h = None \<and>
   st_disk (snd (quarantine_and_remove sv h q s)) =
     (if is_ok (fst (quarantine_and_remove sv h q s))
      then Some (stored_of (snd (quarantine_and_remove sv h q s))) else st_disk s)"
  by (auto simp: quarantine_get_def state_get_def hm_simps quarantine_and_remove_def save_def stored_of_def)

text \<open>The watchdog's progress pass only moves a torrent's stall clock forward for cause: a held
  torrent is either untouched or stamped \<open>now\<close> with a verified byte count that grew past the recorded
  one (or that had never been stamped), and no torrent appears or disappears.\<close>

theorem progress_stamp_for_cause:
  assumes "state_get s h = Some t"
  shows "\<exists>t'. state_get (snd (update_progress_many sv ps now s)) h = Some t' \<and>
    (t' = t \<or> (\<exists>checked. (h, checked) \<in> set ps \<and> t' = stamp_progress checked now t \<and>
       (t_completed_pieces t < checked \<or> t_last_progress_at t = None)))"
  using apply_progress_get assms by (simp add: state_get_def)

theorem progress_stamp_for_cause_witness:
  "\<exists>t'. state_get (snd (update_progress_many (\<lambda>_. True) [(''aa'', 7)] 5
      \<lparr>st_torrents = [(''aa'', sample_torrent ''aa'' 10 1)], st_quarantined = [], st_disk = None\<rparr>)) ''aa'' = Some t'"
  using progress_stamp_for_cause [of "\<lparr>st_torrents = [(''aa'', sample_torrent ''aa'' 10 1)],
      st_quarantined = [], st_disk = None\<rparr>" "''aa''" "sample_torrent ''aa'' 10 1" "\<lambda>_. True" "[(''aa'', 7)]" 5]
  by (auto simp: state_get_def)

end
