(* ===== verification/Quarantine.thy ===== *)
theory Quarantine
  imports State_Store
begin

text \<open>
  \<open>src/engine/quarantine.rs\<close>: the broken-piece detector and the arithmetic of a quarantine entry.

  The detector keeps four counters per torrent and sees one pair (verified bytes, received bytes) per
  watchdog pass.  Its specification is a function of the history of those pairs: how many of the most
  recent passes brought no verified byte, and how many bytes were received over them.  The refinement
  lemma says the four counters compute exactly that, saturation included, so a trip means what the
  module header promises and a swarm that only wastes bytes trips after a bounded number of passes.

  \<open>chrono\<close>'s largest instant is the argument \<open>max_utc\<close>: \<open>checked_add_signed\<close> fails beyond it.
\<close>

section \<open>Definitions\<close>

definition weeks :: "nat \<Rightarrow> int" where
  "weeks n = int n * 604800000000000"

definition checked_add_signed :: "instant \<Rightarrow> instant \<Rightarrow> int \<Rightarrow> instant option" where
  "checked_add_signed max_utc t d = (if t + d \<le> max_utc then Some (t + d) else None)"

definition far_future :: "instant \<Rightarrow> instant \<Rightarrow> instant" where
  "far_future max_utc now =
     (case checked_add_signed max_utc now (weeks 520) of Some t \<Rightarrow> t | None \<Rightarrow> max_utc)"

record trip =
  wasted_bytes :: nat
  windows :: nat

definition next_quarantine_entry ::
  "instant \<Rightarrow> quarantine option \<Rightarrow> string \<Rightarrow> (nat \<Rightarrow> string) \<Rightarrow> trip \<Rightarrow> instant \<Rightarrow> int \<Rightarrow> nat \<Rightarrow> quarantine" where
  "next_quarantine_entry max_utc prev title reason_builder tr now cooldown max_retries =
     (let attempts = wrap32 ((case prev of Some q \<Rightarrow> q_attempts q | None \<Rightarrow> 0) + 1);
          indefinite = far_future max_utc now;
          cooldown_until = (if 0 < max_retries \<and> max_retries < attempts then indefinite
                            else case checked_add_signed max_utc now cooldown of
                                   Some t \<Rightarrow> t | None \<Rightarrow> indefinite)
      in \<lparr>q_title = title, q_reason = reason_builder attempts, q_quarantined_at = now,
          q_cooldown_until = cooldown_until, q_attempts = attempts, q_wasted_bytes = wasted_bytes tr\<rparr>)"

record watch_state =
  last_checked :: nat
  last_fetched :: nat
  wasted_since_progress :: nat
  windows_without_progress :: nat

type_synonym detector = "(string, watch_state) hmap"

definition detector_new :: detector where
  "detector_new = []"

definition baseline :: "nat \<Rightarrow> nat \<Rightarrow> watch_state" where
  "baseline checked fetched = \<lparr>last_checked = checked, last_fetched = fetched,
     wasted_since_progress = 0, windows_without_progress = 0\<rparr>"

definition observe :: "string \<Rightarrow> nat \<Rightarrow> nat \<Rightarrow> nat \<Rightarrow> nat \<Rightarrow> detector \<Rightarrow> trip option \<times> detector" where
  "observe h checked fetched discard_threshold min_windows d =
     (case hm_get d h of
        None \<Rightarrow> (None, hm_insert h (baseline checked fetched) d)
      | Some ws \<Rightarrow>
          if checked < last_checked ws \<or> fetched < last_fetched ws
          then (None, hm_modify h (\<lambda>_. baseline checked fetched) d)
          else let checked_delta = checked - last_checked ws;
                   fetched_delta = fetched - last_fetched ws
               in if 0 < checked_delta
                  then (None, hm_modify h (\<lambda>_. baseline checked fetched) d)
                  else let wasted = sat_add64 (wasted_since_progress ws) fetched_delta;
                           wins = sat_add32 (windows_without_progress ws) 1;
                           d' = hm_modify h (\<lambda>_. \<lparr>last_checked = checked, last_fetched = fetched,
                                  wasted_since_progress = wasted, windows_without_progress = wins\<rparr>) d
                       in (if discard_threshold \<le> wasted \<and> max min_windows 1 \<le> wins
                           then Some \<lparr>wasted_bytes = wasted, windows = wins\<rparr> else None, d'))"

definition forget :: "string \<Rightarrow> detector \<Rightarrow> detector" where
  "forget h d = hm_remove h d"

definition retain_only :: "string set \<Rightarrow> detector \<Rightarrow> detector" where
  "retain_only observed d = filter (\<lambda>(h, _). h \<in> observed) d"

section \<open>The specification: a history of observations\<close>

text \<open>
  A history lists the pairs (verified, received) of one torrent, most recent first.  A pass is quiet
  when the verified count did not move and the received count did not go back.
\<close>

fun quiet_passes :: "(nat \<times> nat) list \<Rightarrow> nat" where
  "quiet_passes ((c, f) # (c', f') # r) =
     (if c = c' \<and> f' \<le> f then Suc (quiet_passes ((c', f') # r)) else 0)"
| "quiet_passes _ = 0"

fun discarded :: "(nat \<times> nat) list \<Rightarrow> nat" where
  "discarded ((c, f) # (c', f') # r) =
     (if c = c' \<and> f' \<le> f then (f - f') + discarded ((c', f') # r) else 0)"
| "discarded _ = 0"

text \<open>Feeding a history, oldest pair first, gives the verdict of the last pass.\<close>

fun feed :: "string \<Rightarrow> nat \<Rightarrow> nat \<Rightarrow> (nat \<times> nat) list \<Rightarrow> detector \<Rightarrow> trip option \<times> detector" where
  "feed h thr mw [] d = (None, d)"
| "feed h thr mw ((c, f) # older) d = observe h c f thr mw (snd (feed h thr mw older d))"

definition verdict :: "nat \<Rightarrow> nat \<Rightarrow> (nat \<times> nat) list \<Rightarrow> trip option" where
  "verdict thr mw hist =
     (let wasted = min (discarded hist) u64_max; wins = min (quiet_passes hist) u32_max
      in if 0 < wins \<and> thr \<le> wasted \<and> max mw 1 \<le> wins
         then Some \<lparr>wasted_bytes = wasted, windows = wins\<rparr> else None)"

definition watch_of :: "(nat \<times> nat) list \<Rightarrow> watch_state option" where
  "watch_of hist = (case hist of [] \<Rightarrow> None
     | (c, f) # _ \<Rightarrow> Some \<lparr>last_checked = c, last_fetched = f,
         wasted_since_progress = min (discarded hist) u64_max,
         windows_without_progress = min (quiet_passes hist) u32_max\<rparr>)"

section \<open>Refinement\<close>

lemma observe_other: "h' \<noteq> h \<Longrightarrow> hm_get (snd (observe h c f thr mw d)) h' = hm_get d h'"
  by (auto simp: observe_def Let_def hm_simps split: option.splits)

lemma sat_add_min:
  "sat_add64 (min a u64_max) b = min (b + a) u64_max" "sat_add32 (min a u32_max) b = min (b + a) u32_max"
  by (simp_all add: rust_arith min_def)

lemma observe_refines:
  assumes "hm_get d h = watch_of hist"
  shows "observe h c f thr mw d = (verdict thr mw ((c, f) # hist), snd (observe h c f thr mw d)) \<and>
    hm_get (snd (observe h c f thr mw d)) h = watch_of ((c, f) # hist)"
proof (cases hist)
  case Nil
  then show ?thesis using assms by (simp add: observe_def watch_of_def hm_simps verdict_def baseline_def)
next
  case (Cons o1 r)
  obtain c' f' where o1: "o1 = (c', f')" by (cases o1)
  show ?thesis
  proof (cases "c = c' \<and> f' \<le> f")
    case True
    then show ?thesis using assms
      by (simp add: Cons o1 observe_def watch_of_def hm_simps verdict_def Let_def sat_add_min)
  next
    case False
    then show ?thesis using assms
      by (auto simp: Cons o1 observe_def watch_of_def hm_simps verdict_def Let_def baseline_def)
  qed
qed

lemma feed_refines:
  assumes "hm_get d h = None"
  shows "hm_get (snd (feed h thr mw hist d)) h = watch_of hist"
proof (induction hist)
  case Nil
  then show ?case using assms by (simp add: watch_of_def)
next
  case (Cons o1 hist)
  obtain c f where o1: "o1 = (c, f)" by (cases o1)
  show ?case using observe_refines [OF Cons] by (simp add: o1)
qed

lemma feed_verdict:
  assumes "hm_get d h = None"
  shows "fst (feed h thr mw (obs # older) d) = verdict thr mw (obs # older)"
proof -
  obtain c f where obs: "obs = (c, f)" by (cases obs)
  show ?thesis
    using observe_refines [OF feed_refines [OF assms, of thr mw older], of c f thr mw]
    by (simp add: obs) (metis fst_conv)
qed

lemma discarded_frozen:
  "discarded (map (\<lambda>i. (c, f + (n - i) * step)) [0..<Suc n]) = n * step \<and>
   quiet_passes (map (\<lambda>i. (c, f + (n - i) * step)) [0..<Suc n]) = n"
proof (induction n)
  case (Suc n)
  have eq: "map (\<lambda>i. (c, f + (Suc n - i) * step)) [0..<Suc (Suc n)] =
      (c, f + Suc n * step) # map (\<lambda>i. (c, f + (n - i) * step)) [0..<Suc n]"
    by (simp add: upt_conv_Cons map_Suc_upt [symmetric] del: upt_Suc)
  have hd: "map (\<lambda>i. (c, f + (n - i) * step)) [0..<Suc n] =
      (c, f + n * step) # map (\<lambda>i. (c, f + (n - i) * step)) [1..<Suc n]"
    by (simp add: upt_conv_Cons del: upt_Suc)
  show ?case using Suc unfolding eq hd by (simp add: algebra_simps)
qed simp

lemma wf_observe: "hm_wf d \<Longrightarrow> hm_wf (snd (observe h c f thr mw d))"
  by (auto simp: observe_def Let_def split: option.splits)

lemma wf_retain_only: "hm_wf d \<Longrightarrow> hm_wf (retain_only X d)"
  by (simp add: hm_wf_def retain_only_def distinct_map_filter)

lemma retain_only_get: "hm_get (retain_only X d) h = (if h \<in> X then hm_get d h else None)"
  by (induction d) (auto simp: retain_only_def)

section \<open>Properties\<close>

text \<open>C18. The detector implements its specification: after any history of passes over one torrent, the
  verdict of the last pass is the one computed from the history, that is, a trip exactly when the quiet
  passes reach \<open>min_windows\<close> (at least one) and the bytes received over them reach the threshold, with
  those two numbers in the verdict.\<close>

theorem detector_refines_history:
  assumes "hm_get d h = None"
  shows "fst (feed h thr mw (obs # older) d) = verdict thr mw (obs # older)"
  using assms by (rule feed_verdict)

theorem detector_refines_history_witness:
  "fst (feed ''aa'' 300 2 [(50, 900), (50, 700), (50, 500)] detector_new) = Some \<lparr>wasted_bytes = 400, windows = 2\<rparr>"
  using detector_refines_history [of detector_new "''aa''" 300 2 "(50, 900)" "[(50, 700), (50, 500)]"]
  by (simp add: detector_new_def verdict_def Let_def)

text \<open>Liveness of the watchdog: a torrent that receives at least one threshold's worth of bytes over
  enough passes while verifying none is reported, and one that verified a byte in the last pass is not.\<close>

theorem detector_trips_on_waste:
  assumes "hm_get d h = None" "thr \<le> n * step" "max mw 1 \<le> n" "n \<le> u32_max" "n * step \<le> u64_max"
  shows "fst (feed h thr mw (map (\<lambda>i. (c, f + (n - i) * step)) [0..<Suc n]) d) =
      Some \<lparr>wasted_bytes = n * step, windows = n\<rparr> \<and>
    (\<forall>older c0 f0 f1. c0 < c \<longrightarrow> fst (feed h thr mw ((c, f1) # (c0, f0) # older) d) = None)"
proof
  let ?hist = "map (\<lambda>i. (c, f + (n - i) * step)) [0..<Suc n]"
  obtain o1 r where hist: "?hist = o1 # r" by (cases ?hist) auto
  have "fst (feed h thr mw ?hist d) = verdict thr mw ?hist"
    unfolding hist using feed_verdict [OF assms(1)] .
  then show "fst (feed h thr mw ?hist d) = Some \<lparr>wasted_bytes = n * step, windows = n\<rparr>"
    using assms(2-5) discarded_frozen [of c f n step] by (simp add: verdict_def Let_def del: upt_Suc)
  show "\<forall>older c0 f0 f1. c0 < c \<longrightarrow> fst (feed h thr mw ((c, f1) # (c0, f0) # older) d) = None"
  proof (intro allI impI)
    fix older c0 f0 f1 assume "c0 < c"
    then show "fst (feed h thr mw ((c, f1) # (c0, f0) # older) d) = None"
      by (simp only: feed_verdict [OF assms(1)] verdict_def) simp
  qed
qed

theorem detector_trips_on_waste_witness:
  "fst (feed ''aa'' 100 2 (map (\<lambda>i. (7, 0 + (2 - i) * 60)) [0..<Suc 2]) []) = Some \<lparr>wasted_bytes = 120, windows = 2\<rparr>"
  using detector_trips_on_waste [of "[]" "''aa''" 100 2 60 2 7 0] by simp

text \<open>The cooldown of a new entry: it escalates to the far future exactly when retries are bounded
  and exceeded; otherwise it is one cooldown from now; either way it is never in the past and never past
  the last representable instant.\<close>

theorem next_entry_cooldown:
  assumes "now \<le> max_utc" "0 \<le> cooldown" "case prev of Some q \<Rightarrow> q_attempts q < u32_max | None \<Rightarrow> True"
  shows "let e = next_quarantine_entry max_utc prev title rb tr now cooldown max_retries in
    q_attempts e = (case prev of Some q \<Rightarrow> q_attempts q | None \<Rightarrow> 0) + 1 \<and>
    now \<le> q_cooldown_until e \<and> q_cooldown_until e \<le> max_utc \<and>
    (0 < max_retries \<and> max_retries < q_attempts e \<longrightarrow> q_cooldown_until e = far_future max_utc now) \<and>
    (\<not> (0 < max_retries \<and> max_retries < q_attempts e) \<longrightarrow> now + cooldown \<le> max_utc \<longrightarrow>
      q_cooldown_until e = now + cooldown)"
  using assms
  by (auto simp: next_quarantine_entry_def Let_def far_future_def checked_add_signed_def weeks_def wrap32_def
      split: option.splits)

theorem next_entry_cooldown_witness:
  "q_cooldown_until (next_quarantine_entry 10000 None ''t'' (\<lambda>_. ''r'') \<lparr>wasted_bytes = 1, windows = 2\<rparr> 100 50 0) = 150"
  using next_entry_cooldown [of 100 10000 50 None "''t''" "\<lambda>_. ''r''" "\<lparr>wasted_bytes = 1, windows = 2\<rparr>" 0]
  by (simp add: Let_def)

end
