(* ===== verification/Blocklist.thy ===== *)
theory Blocklist
  imports Text
begin

text \<open>\<open>src/filter.rs\<close>: the keyword blocklist, matched case-insensitively against title and description.\<close>

section \<open>Definitions\<close>

record keyword_blocklist =
  bl_keywords :: "string list"

definition blocklist_new :: "string list \<Rightarrow> keyword_blocklist" where
  "blocklist_new ks = \<lparr>bl_keywords = filter (\<lambda>k. k \<noteq> []) (map to_lowercase ks)\<rparr>"

definition blocks :: "keyword_blocklist \<Rightarrow> string \<Rightarrow> string \<Rightarrow> string option" where
  "blocks b title description =
     (if bl_keywords b = [] then None
      else let title = to_lowercase title; desc = to_lowercase description
           in find (\<lambda>k. contains title k \<or> contains desc k) (bl_keywords b))"

section \<open>Lemmas\<close>

lemma find_SomeD: "find P xs = Some x \<Longrightarrow> x \<in> set xs \<and> P x"
  by (induction xs) (auto split: if_splits)

lemma to_lowercase_Nil [simp]: "to_lowercase s = [] \<longleftrightarrow> s = []"
  by (simp add: to_lowercase_def)

section \<open>Properties\<close>

text \<open>A blocklist built from operator keywords blocks an item exactly when some non-empty keyword,
  lowercased, occurs in the lowercased title or description, and the keyword it reports is such a one; an
  empty keyword never blocks.\<close>

theorem blocks_iff_keyword_occurs:
  "(blocks (blocklist_new ks) title desc \<noteq> None \<longleftrightarrow>
     list_ex (\<lambda>k. k \<noteq> [] \<and> (sublist (to_lowercase k) (to_lowercase title) \<or>
                         sublist (to_lowercase k) (to_lowercase desc))) ks) \<and>
   (case blocks (blocklist_new ks) title desc of None \<Rightarrow> True
    | Some k \<Rightarrow> k \<noteq> [] \<and> (sublist k (to_lowercase title) \<or> sublist k (to_lowercase desc)))"
proof (cases "blocks (blocklist_new ks) title desc")
  case None
  then show ?thesis
    by (auto simp: blocks_def blocklist_new_def find_None_iff contains_sublist list_ex_iff filter_empty_conv
        to_lowercase_def Let_def split: if_splits)
next
  case (Some k)
  then have "k \<in> set (bl_keywords (blocklist_new ks))"
    "sublist k (to_lowercase title) \<or> sublist k (to_lowercase desc)"
    by (auto simp: blocks_def contains_sublist Let_def split: if_splits dest!: find_SomeD)
  then show ?thesis using Some by (auto simp: blocklist_new_def list_ex_iff)
qed

end
