(* ===== verification/Humanize.thy ===== *)
theory Humanize
  imports F64 Text
begin

text \<open>
  \<open>src/humanize.rs\<close>: byte counts, rates and durations for people, and the sanitising of remote titles.
  \<open>human_bytes\<close> negates and recurses on a negative count; at the smallest \<open>i64\<close> the negation wraps
  to itself, so the function is a partial one here and the lemmas say exactly where it returns.
\<close>

section \<open>Definitions\<close>

definition UNITS :: "string list" where
  "UNITS = [''B'', ''KiB'', ''MiB'', ''GiB'', ''TiB'', ''PiB'']"

definition sanitize_title :: "string \<Rightarrow> string" where
  "sanitize_title s = filter (\<lambda>c. \<not> is_control c) s"

text \<open>\<open>while v >= 1024.0 && u + 1 < UNITS.len()\<close>.\<close>

function scale_units :: "f64 \<Rightarrow> nat \<Rightarrow> f64 \<times> nat" where
  "scale_units v u = (if f_le (Fin 1024) v \<and> u + 1 < length UNITS
                      then scale_units (f_div v (Fin 1024)) (u + 1) else (v, u))"
  by pat_completeness auto
termination
  by (relation "measure (\<lambda>(v, u). length UNITS - u)") auto

declare scale_units.simps [simp del]

text \<open>\<open>{v:.1}\<close> on a finite non-negative value: the exact value rounded to tenths, ties to even.\<close>

definition show_tenths :: "f64 \<Rightarrow> string" where
  "show_tenths v = (case v of
      Fin q \<Rightarrow> (let t = nat (round_half_even (q * 10)) in show_nat (t div 10) @ ''.'' @ show_nat (t mod 10))
    | NaN \<Rightarrow> ''NaN'' | PInf \<Rightarrow> ''inf'' | NInf \<Rightarrow> ''-inf'')"

definition human_bytes_nonneg :: "int \<Rightarrow> string" where
  "human_bytes_nonneg n =
     (case scale_units (f_of_int n) 0 of
        (v, u) \<Rightarrow> if u = 0 then show_nat (nat n) @ '' B'' else show_tenths v @ '' '' @ UNITS ! u)"

partial_function (option) human_bytes :: "int \<Rightarrow> string option" where
  "human_bytes n =
     (if n < 0 then Option.bind (human_bytes (neg_i64 n)) (\<lambda>s. Some (''-'' @ s))
      else Some (human_bytes_nonneg n))"

text \<open>The cast \<open>bps as i64\<close> saturates; only non-negative rates occur.\<close>

definition human_bytes_per_sec :: "f64 \<Rightarrow> string option" where
  "human_bytes_per_sec bps =
     Option.bind (human_bytes (min (int (f_to_u64 bps)) i64_max)) (\<lambda>s. Some (s @ ''/s''))"

fun duration_parts :: "nat \<Rightarrow> (nat \<times> string) list \<Rightarrow> string \<Rightarrow> string" where
  "duration_parts rest [] out = out"
| "duration_parts rest ((len, sfx) # parts) out =
     (let q = rest div len
      in duration_parts (rest mod len) parts
           (if 0 < q \<or> out \<noteq> [] then out @ show_nat q @ sfx else out))"

definition human_duration :: "duration \<Rightarrow> string" where
  "human_duration d =
     (let s = d div 1000000000
      in if s = 0 then show_nat (d div 1000000) @ ''ms''
         else let out = duration_parts s [(86400, ''d''), (3600, ''h''), (60, ''m''), (1, ''s'')] []
              in if out = [] then ''0s'' else out)"

section \<open>Lemmas\<close>

lemma scale_units_bound: "u < length UNITS \<Longrightarrow> snd (scale_units v u) < length UNITS"
proof (induction v u rule: scale_units.induct)
  case (1 v u)
  then show ?case by (subst scale_units.simps) auto
qed

lemma human_bytes_nonneg_eq: "0 \<le> n \<Longrightarrow> human_bytes n = Some (human_bytes_nonneg n)"
  by (simp add: human_bytes.simps)

lemma human_bytes_neg_eq:
  "n < 0 \<Longrightarrow> - 9223372036854775808 < n \<Longrightarrow> human_bytes n = Some (''-'' @ human_bytes_nonneg (- n))"
  by (subst human_bytes.simps) (simp add: neg_i64_def human_bytes_nonneg_eq)

text \<open>At the smallest \<open>i64\<close> every unfolding asks for the same value again.\<close>

lemma human_bytes_min_diverges: "human_bytes (- 9223372036854775808) = None"
proof -
  have "False" if "human_bytes n = Some r" "n = - 9223372036854775808" for n r
  proof -
    have "n = - 9223372036854775808 \<longrightarrow> False"
      by (rule human_bytes.raw_induct [where P = "\<lambda>n r. n = - 9223372036854775808 \<longrightarrow> False", OF _ that(1)])
        (auto simp: neg_i64_def bind_eq_Some_conv split: if_splits)
    with that(2) show False by simp
  qed
  then show ?thesis by (cases "human_bytes (- 9223372036854775808)") auto
qed

lemma human_bytes_as_i64_None: "human_bytes (as_i64 n) = None \<longleftrightarrow> as_i64 n = - 9223372036854775808"
proof -
  consider "0 \<le> as_i64 n" | "- 9223372036854775808 < as_i64 n" "as_i64 n < 0" | "as_i64 n = - 9223372036854775808"
    | "as_i64 n < - 9223372036854775808" by linarith
  then show ?thesis
    using human_bytes_min_diverges
    by cases (simp_all add: human_bytes_nonneg_eq human_bytes_neg_eq, simp add: as_i64_def split: if_splits)
qed

section \<open>Properties\<close>

text \<open>Formatting a byte count returns for every \<open>i64\<close> but the smallest one, on which the release
  build recurses without end: the negation of \<open>i64::MIN\<close> wraps to itself.\<close>

theorem human_bytes_returns_iff:
  assumes "- 9223372036854775808 \<le> n" "n \<le> i64_max"
  shows "(\<exists>s. human_bytes n = Some s) \<longleftrightarrow> n \<noteq> - 9223372036854775808"
proof (cases "n = - 9223372036854775808")
  case True
  then show ?thesis by (simp add: human_bytes_min_diverges)
next
  case False
  then have "human_bytes n = Some (if n < 0 then ''-'' @ human_bytes_nonneg (- n) else human_bytes_nonneg n)"
    using assms human_bytes_neg_eq [of n] human_bytes_nonneg_eq [of n] by simp
  with False show ?thesis by blast
qed

theorem human_bytes_returns_iff_witness:
  "(\<exists>s. human_bytes (-1) = Some s) \<and> \<not> (\<exists>s. human_bytes (- 9223372036854775808) = Some s)"
  using human_bytes_returns_iff [of "-1"] human_bytes_returns_iff [of "- 9223372036854775808"] by simp

text \<open>A sanitised title carries no control character, is unchanged when it had none, and sanitising
  twice changes nothing: what reaches a terminal cannot contain an escape or a line break.\<close>

theorem sanitize_title_clean:
  "list_all (\<lambda>c. \<not> is_control c) (sanitize_title s) \<and> sanitize_title (sanitize_title s) = sanitize_title s \<and>
   (sanitize_title s = s \<longleftrightarrow> list_all (\<lambda>c. \<not> is_control c) s) \<and> subseq (sanitize_title s) s"
  by (auto simp: sanitize_title_def list_all_iff filter_id_conv)

end
