(* ===== verification/Config.thy ===== *)
theory Config
  imports Humanize
begin

text \<open>
  \<open>src/config.rs\<close>: byte-size syntax, storage limits, the settings records with their defaults, the
  validation every entry point runs, and the API-key split of load and save.

  Outside the program and so arguments: \<open>canonicalize\<close> (the file system's answer, \<open>None\<close> for an
  error), the decoded YAML document, what reading a file gives, and whether a write succeeds.  Each
  \<open>bail!\<close> of the source is a constructor of an error type; log lines are left out.
\<close>

section \<open>Constants\<close>

definition DEFAULT_PORT :: nat where "DEFAULT_PORT = 37550"
definition DEFAULT_AGGRESSIVENESS :: f64 where "DEFAULT_AGGRESSIVENESS = f_lit (6/10)"
definition DEFAULT_MIN_SEED_MARGIN :: int where "DEFAULT_MIN_SEED_MARGIN = 4"
definition DEFAULT_CATALOG_COLLAPSE_PERCENT :: nat where "DEFAULT_CATALOG_COLLAPSE_PERCENT = 30"
definition DEFAULT_SCAN_INTERVAL :: duration where "DEFAULT_SCAN_INTERVAL = secs (14 * 24 * 3600)"
definition DEFAULT_MODERATION_DELAY :: duration where "DEFAULT_MODERATION_DELAY = secs (7 * 24 * 3600)"
definition DEFAULT_RATE_LIMIT_PER_SEC :: f64 where "DEFAULT_RATE_LIMIT_PER_SEC = f_lit (5/10)"
definition DEFAULT_STATS_INTERVAL :: duration where "DEFAULT_STATS_INTERVAL = secs (30 * 60)"
definition DEFAULT_STALL_EVICTION_TIMEOUT :: duration where
  "DEFAULT_STALL_EVICTION_TIMEOUT = secs (90 * 24 * 3600)"
definition DEFAULT_VANISHED_EVICTION_TIMEOUT :: duration where
  "DEFAULT_VANISHED_EVICTION_TIMEOUT = secs (90 * 24 * 3600)"
definition DEFAULT_QUARANTINE_CHECK_INTERVAL :: duration where
  "DEFAULT_QUARANTINE_CHECK_INTERVAL = secs (30 * 60)"
definition DEFAULT_BROKEN_PIECE_DISCARD_BYTES :: nat where
  "DEFAULT_BROKEN_PIECE_DISCARD_BYTES = 256 * 1024 * 1024"
definition DEFAULT_BROKEN_PIECE_MIN_WINDOWS :: nat where "DEFAULT_BROKEN_PIECE_MIN_WINDOWS = 2"
definition DEFAULT_QUARANTINE_COOLDOWN :: duration where "DEFAULT_QUARANTINE_COOLDOWN = secs (3 * 24 * 3600)"
definition DEFAULT_QUARANTINE_MAX_RETRIES :: nat where "DEFAULT_QUARANTINE_MAX_RETRIES = 0"
definition MIN_STORAGE_LIMIT :: nat where "MIN_STORAGE_LIMIT = 100 * 1024 * 1024"
definition MIN_BANDWIDTH_LIMIT :: nat where "MIN_BANDWIDTH_LIMIT = 100 * 1024"
definition MAX_DURATION_KNOB :: duration where "MAX_DURATION_KNOB = secs (366 * 24 * 3600)"
definition MIN_RATE_LIMIT_PER_SECOND :: f64 where "MIN_RATE_LIMIT_PER_SECOND = f_lit (1/1000000)"

section \<open>Byte sizes\<close>

datatype size_error = EmptySize | InvalidNumber | NegativeSize | NoNumber | UnknownSuffix | SizeOverflow

text \<open>\<open>str::parse::<f64>\<close> on a string of digits and dots.\<close>

definition parse_decimal :: "string \<Rightarrow> rat option" where
  "parse_decimal s =
     (let ip = takeWhile is_ascii_digit s
      in case dropWhile is_ascii_digit s of
           [] \<Rightarrow> if ip = [] then None else Some (of_nat (read_nat ip))
         | c # fp \<Rightarrow> if c = CHR ''.'' \<and> list_all is_ascii_digit fp \<and> (ip \<noteq> [] \<or> fp \<noteq> [])
                     then Some (of_nat (read_nat ip) + of_nat (read_nat fp) / 10 ^ length fp) else None)"

definition suffix_multiplier :: "string \<Rightarrow> f64 option" where
  "suffix_multiplier s =
     (if s \<in> {'''', ''B''} then Some (Fin 1)
      else if s \<in> {''K'', ''KB'', ''KI'', ''KIB''} then Some (Fin 1024)
      else if s \<in> {''M'', ''MB'', ''MI'', ''MIB''} then Some (f_mul (Fin 1024) (Fin 1024))
      else if s \<in> {''G'', ''GB'', ''GI'', ''GIB''} then Some (f_mul (f_mul (Fin 1024) (Fin 1024)) (Fin 1024))
      else if s \<in> {''T'', ''TB'', ''TI'', ''TIB''} then Some (f_powi (Fin 1024) 4)
      else if s \<in> {''P'', ''PB'', ''PI'', ''PIB''} then Some (f_powi (Fin 1024) 5)
      else None)"

definition size_char :: "char \<Rightarrow> bool" where
  "size_char c \<longleftrightarrow> is_ascii_digit c \<or> c = CHR ''.''"

definition parse_byte_size :: "string \<Rightarrow> size_error + nat" where
  "parse_byte_size s =
     (let t = trim s
      in if t = [] then Inl EmptySize
         else let num = takeWhile size_char t; sfx = dropWhile size_char t
              in case parse_decimal num of
                   None \<Rightarrow> Inl InvalidNumber
                 | Some q \<Rightarrow>
                     let n = rnd q
                     in if f_lt n (Fin 0) then Inl NegativeSize
                        else if num = [] then Inl NoNumber
                        else case suffix_multiplier (map to_ascii_upper (trim sfx)) of
                               None \<Rightarrow> Inl UnknownSuffix
                             | Some mul \<Rightarrow>
                                 let bytes = f_mul n mul
                                 in if f_le (f_of_nat u64_max) bytes then Inl SizeOverflow
                                    else Inr (f_to_u64 bytes))"

text \<open>\<open>format_byte_size\<close> prints through \<open>human_bytes\<close> and drops the blank.\<close>

definition format_byte_size :: "nat \<Rightarrow> string option" where
  "format_byte_size n = map_option (filter (\<lambda>c. c \<noteq> CHR '' '')) (human_bytes (as_i64 n))"

datatype storage_limit = Unset | Bytes nat | All

definition storage_limit_parse :: "string \<Rightarrow> size_error + storage_limit" where
  "storage_limit_parse s =
     (let t = trim s
      in if eq_ignore_ascii_case t ''max'' \<or> eq_ignore_ascii_case t ''all'' then Inr All
         else map_sum id Bytes (parse_byte_size t))"

definition de_limit :: "string \<Rightarrow> size_error + storage_limit" where
  "de_limit s = storage_limit_parse s"

fun ser_limit :: "storage_limit \<Rightarrow> string option" where
  "ser_limit All = Some ''max''"
| "ser_limit (Bytes b) = format_byte_size b"
| "ser_limit Unset = Some ''''"

fun de_bytesize_opt :: "string option \<Rightarrow> size_error + nat" where
  "de_bytesize_opt None = Inr 0"
| "de_bytesize_opt (Some s) = parse_byte_size s"

text \<open>The outer option is the formatter not returning; the inner one is YAML's \<open>null\<close>.\<close>

definition ser_bytesize_opt :: "nat \<Rightarrow> string option option" where
  "ser_bytesize_opt v = (if v = 0 then Some None else map_option Some (format_byte_size v))"

definition de_duration_secs :: "nat option \<Rightarrow> duration \<Rightarrow> duration" where
  "de_duration_secs v fallback = (case v of Some n \<Rightarrow> secs n | None \<Rightarrow> fallback)"

definition ser_duration_secs_opt :: "duration \<Rightarrow> nat" where
  "ser_duration_secs_opt d = d div 1000000000"

section \<open>Settings\<close>

record storage_location =
  sl_path :: string
  sl_limit :: storage_limit

record scan_config =
  sc_interval :: duration
  sc_rate_limit_per_second :: f64
  sc_min_seed_margin :: int
  sc_moderation_delay :: duration
  sc_stall_eviction_timeout :: duration
  sc_vanished_eviction_timeout :: duration
  sc_quarantine_check_interval :: duration
  sc_broken_piece_discard_bytes :: nat
  sc_broken_piece_min_windows :: nat
  sc_quarantine_cooldown :: duration
  sc_quarantine_max_retries :: nat

record config =
  cfg_port :: nat
  cfg_data_dir :: string
  cfg_storage :: "storage_location list"
  cfg_scan :: scan_config
  cfg_aggressiveness :: f64
  cfg_keyword_blocklist :: "string list"
  cfg_preserve_deleted_torrents :: bool
  cfg_catalog_collapse_percent :: nat
  cfg_max_ram :: nat
  cfg_api_key :: string
  cfg_upload_rate_limit :: nat
  cfg_download_rate_limit :: nat
  cfg_stats_interval :: duration
  cfg_debug :: bool
  cfg_log_file :: "string option"

definition scan_config_default :: scan_config where
  "scan_config_default = \<lparr>sc_interval = DEFAULT_SCAN_INTERVAL,
     sc_rate_limit_per_second = DEFAULT_RATE_LIMIT_PER_SEC, sc_min_seed_margin = DEFAULT_MIN_SEED_MARGIN,
     sc_moderation_delay = DEFAULT_MODERATION_DELAY,
     sc_stall_eviction_timeout = DEFAULT_STALL_EVICTION_TIMEOUT,
     sc_vanished_eviction_timeout = DEFAULT_VANISHED_EVICTION_TIMEOUT,
     sc_quarantine_check_interval = DEFAULT_QUARANTINE_CHECK_INTERVAL,
     sc_broken_piece_discard_bytes = DEFAULT_BROKEN_PIECE_DISCARD_BYTES,
     sc_broken_piece_min_windows = DEFAULT_BROKEN_PIECE_MIN_WINDOWS,
     sc_quarantine_cooldown = DEFAULT_QUARANTINE_COOLDOWN,
     sc_quarantine_max_retries = DEFAULT_QUARANTINE_MAX_RETRIES\<rparr>"

text \<open>The default data directory reads \<open>$HOME\<close>: \<open>None\<close> when the variable is unset.\<close>

definition default_data_dir :: "string option \<Rightarrow> string" where
  "default_data_dir home = (case home of
      Some h \<Rightarrow> if h \<noteq> [] then h @ ''/.local/share/keep-at'' else ''/var/lib/keep-at''
    | None \<Rightarrow> ''/var/lib/keep-at'')"

definition default_storage_location :: "string option \<Rightarrow> string" where
  "default_storage_location home = default_data_dir home @ ''/storage''"

definition config_default :: "string option \<Rightarrow> config" where
  "config_default home = \<lparr>cfg_port = DEFAULT_PORT, cfg_data_dir = default_data_dir home, cfg_storage = [],
     cfg_scan = scan_config_default, cfg_aggressiveness = DEFAULT_AGGRESSIVENESS,
     cfg_keyword_blocklist = [], cfg_preserve_deleted_torrents = False,
     cfg_catalog_collapse_percent = DEFAULT_CATALOG_COLLAPSE_PERCENT, cfg_max_ram = 0, cfg_api_key = [],
     cfg_upload_rate_limit = 0, cfg_download_rate_limit = 0, cfg_stats_interval = DEFAULT_STATS_INTERVAL,
     cfg_debug = False, cfg_log_file = None\<rparr>"

text \<open>The starter file, written by hand so that it shows an empty limit; \<open>starter_config\<close> is what it decodes to.\<close>

definition starter_config :: "string option \<Rightarrow> config" where
  "starter_config home = (config_default home)\<lparr>cfg_storage := [\<lparr>sl_path = default_storage_location home, sl_limit = Unset\<rparr>]\<rparr>"

definition STARTER_HEADER :: "string list" where
  "STARTER_HEADER =
    [''# keep-at starter config. This is entirely optional - every field here has'',
     ''# a --flag equivalent (run `keep-at run --help`). Reach for a config file'',
     ''# once you want more than one storage location, or don'' @ [CHR 0x27] @ ''t want to repeat'',
     ''# flags every time.'',
     ''#'',
     ''# At minimum, set a real limit (e.g. 500G, 2T) below.'',
     ''#'',
     ''# To get credit for the torrents you seed, set an Academic Torrents API key'',
     ''# (https://academictorrents.com/my.php) via --api-key or <data_dir>/api_key'',
     ''# (owner-only file) - it'' @ [CHR 0x27] @ ''s only sent to AT'' @ [CHR 0x27] @ ''s own trackers and never logged.'',
     '''']"

definition starter_text :: "config \<Rightarrow> string" where
  "starter_text cfg = concat (map (\<lambda>l. l @ [CHR 0x0A])
     (STARTER_HEADER @ [''port: '' @ show_nat (cfg_port cfg), ''data_dir: '' @ cfg_data_dir cfg, ''storage:'',
        ''- path: '' @ sl_path (cfg_storage cfg ! 0), ''  limit: '' @ [CHR 0x22, CHR 0x22]]))"

datatype config_error =
    NoStorageLocations | EmptyStoragePath | NoPositiveLimit string | LimitTooSmall string
  | DuplicateLocation string | BadAggressiveness | BadCollapsePercent | NegativeMargin
  | ZeroMinWindows | ZeroDiscardBytes | BadCheckInterval | BadPort | RateNotPositive | RateTooLow
  | DurationTooLong string | LimitUnderFloor string
  | NoConfig | WroteStarter | StarterFailed | ReadDenied | ReadFailed | ParseFailed
  | CreateDirFailed | KeyWriteFailed | ConfigWriteFailed | StatFailed | WidenFailed

definition check_rate_limit :: "f64 \<Rightarrow> config_error + unit" where
  "check_rate_limit per_second =
     (if per_second = NaN \<or> f_le per_second (Fin 0) then Inl RateNotPositive
      else if f_lt per_second MIN_RATE_LIMIT_PER_SECOND then Inl RateTooLow
      else Inr ())"

definition check_duration_knob :: "string \<Rightarrow> duration \<Rightarrow> config_error + unit" where
  "check_duration_knob name d = (if 0 < d \<and> MAX_DURATION_KNOB < d then Inl (DurationTooLong name) else Inr ())"

definition check_storage_limit :: "string \<Rightarrow> storage_limit \<Rightarrow> config_error + unit" where
  "check_storage_limit path limit = (case limit of
      Bytes b \<Rightarrow> if b < MIN_STORAGE_LIMIT then Inl (LimitTooSmall path) else Inr ()
    | _ \<Rightarrow> Inr ())"

definition check_bandwidth_limit :: "string \<Rightarrow> nat \<Rightarrow> config_error + unit" where
  "check_bandwidth_limit flag bytes =
     (if bytes = 0 then Inr () else if bytes < MIN_BANDWIDTH_LIMIT then Inl (LimitUnderFloor flag) else Inr ())"

text \<open>\<open>a?; b\<close>.\<close>

definition and_then :: "'e + unit \<Rightarrow> 'e + unit \<Rightarrow> 'e + unit" where
  "and_then a b = (case a of Inl e \<Rightarrow> Inl e | Inr _ \<Rightarrow> b)"

definition bail_if :: "bool \<Rightarrow> 'e \<Rightarrow> 'e + unit" where
  "bail_if c e = (if c then Inl e else Inr ())"

definition canonical :: "(string \<Rightarrow> string option) \<Rightarrow> string \<Rightarrow> string" where
  "canonical canonicalize p = (case canonicalize p of Some c \<Rightarrow> c | None \<Rightarrow> p)"

fun check_locations :: "(string \<Rightarrow> string option) \<Rightarrow> storage_location list \<Rightarrow> string set \<Rightarrow> config_error + unit" where
  "check_locations canonicalize [] seen = Inr ()"
| "check_locations canonicalize (loc # locs) seen =
     and_then (bail_if (sl_path loc = []) EmptyStoragePath)
    (and_then (bail_if (sl_limit loc \<in> {Unset, Bytes 0}) (NoPositiveLimit (sl_path loc)))
    (and_then (check_storage_limit (sl_path loc) (sl_limit loc))
    (let key = canonical canonicalize (sl_path loc)
     in and_then (bail_if (key \<in> seen) (DuplicateLocation (sl_path loc)))
          (check_locations canonicalize locs (insert key seen)))))"

fun first_error :: "('e + unit) list \<Rightarrow> 'e + unit" where
  "first_error [] = Inr ()"
| "first_error (r # rs) = and_then r (first_error rs)"

definition duration_knobs :: "config \<Rightarrow> (string \<times> duration) list" where
  "duration_knobs cfg =
    [(''scan.interval'', sc_interval (cfg_scan cfg)),
     (''scan.moderation_delay'', sc_moderation_delay (cfg_scan cfg)),
     (''scan.stall_eviction_timeout'', sc_stall_eviction_timeout (cfg_scan cfg)),
     (''scan.vanished_eviction_timeout'', sc_vanished_eviction_timeout (cfg_scan cfg)),
     (''scan.quarantine_check_interval'', sc_quarantine_check_interval (cfg_scan cfg)),
     (''scan.quarantine_cooldown'', sc_quarantine_cooldown (cfg_scan cfg)),
     (''stats_interval'', cfg_stats_interval cfg)]"

definition validate :: "(string \<Rightarrow> string option) \<Rightarrow> config \<Rightarrow> config_error + unit" where
  "validate canonicalize cfg = first_error
     ([bail_if (cfg_storage cfg = []) NoStorageLocations,
       check_locations canonicalize (cfg_storage cfg) {},
       bail_if (\<not> (f_lt (Fin 0) (cfg_aggressiveness cfg) \<and> f_lt (cfg_aggressiveness cfg) (Fin 1))) BadAggressiveness,
       bail_if (100 < cfg_catalog_collapse_percent cfg) BadCollapsePercent,
       bail_if (sc_min_seed_margin (cfg_scan cfg) < 0) NegativeMargin,
       bail_if (sc_broken_piece_min_windows (cfg_scan cfg) = 0) ZeroMinWindows,
       bail_if (sc_broken_piece_discard_bytes (cfg_scan cfg) = 0) ZeroDiscardBytes,
       bail_if (0 < sc_quarantine_check_interval (cfg_scan cfg) \<and>
                sc_quarantine_check_interval (cfg_scan cfg) < secs 60) BadCheckInterval,
       bail_if (cfg_port cfg = 0) BadPort,
       check_rate_limit (sc_rate_limit_per_second (cfg_scan cfg))] @
      map (\<lambda>(name, d). check_duration_knob name d) (duration_knobs cfg) @
      [check_bandwidth_limit ''max_ram'' (cfg_max_ram cfg),
       check_bandwidth_limit ''upload_rate_limit'' (cfg_upload_rate_limit cfg),
       check_bandwidth_limit ''download_rate_limit'' (cfg_download_rate_limit cfg)])"

section \<open>Load and save\<close>

definition merge_key_file :: "string option \<Rightarrow> config \<Rightarrow> config" where
  "merge_key_file key_file cfg =
     (if cfg_api_key cfg \<noteq> [] then cfg
      else case key_file of
             Some k \<Rightarrow> (let k = trim k in if k \<noteq> [] then cfg\<lparr>cfg_api_key := k\<rparr> else cfg)
           | None \<Rightarrow> cfg)"

datatype file_read = Missing | Denied | IoError | Contents "config option"

text \<open>\<open>load_inner\<close>: the contents are already decoded (\<open>None\<close> for a document that does not parse); the
  second result says whether a starter file was written.  \<open>key_file\<close> reads the secret of a data
  directory.\<close>

definition load_inner :: "(string \<Rightarrow> string option) \<Rightarrow> (string \<Rightarrow> string option) \<Rightarrow> bool \<Rightarrow> file_read \<Rightarrow> bool \<Rightarrow>
    (config_error + config) \<times> bool" where
  "load_inner canonicalize key_file starter_write_ok contents write_starter = (case contents of
      Missing \<Rightarrow> if \<not> write_starter then (Inl NoConfig, False)
                 else if starter_write_ok then (Inl WroteStarter, True) else (Inl StarterFailed, False)
    | Denied \<Rightarrow> (Inl ReadDenied, False)
    | IoError \<Rightarrow> (Inl ReadFailed, False)
    | Contents None \<Rightarrow> (Inl ParseFailed, False)
    | Contents (Some cfg) \<Rightarrow>
        (let cfg = merge_key_file (key_file (cfg_data_dir cfg)) cfg
         in case validate canonicalize cfg of Inl e \<Rightarrow> (Inl e, False) | Inr _ \<Rightarrow> (Inr cfg, False)))"

text \<open>The two files \<open>save\<close> writes, with their modes.\<close>

record config_files =
  cf_config :: "(config \<times> nat) option"
  cf_key :: "(string \<times> nat) option"

definition write_api_key_file :: "bool \<Rightarrow> config \<Rightarrow> config_files \<Rightarrow> (config_error + unit) \<times> config_files" where
  "write_api_key_file key_ok cfg fs =
     (if key_ok then (Inr (), fs\<lparr>cf_key := Some (cfg_api_key cfg @ [CHR 0x0A], 384)\<rparr>)
      else (Inl KeyWriteFailed, fs))"

definition config_save :: "bool \<Rightarrow> bool \<Rightarrow> bool \<Rightarrow> config \<Rightarrow> config_files \<Rightarrow> (config_error + unit) \<times> config_files" where
  "config_save dir_ok key_ok cfg_ok cfg fs =
     (if \<not> dir_ok then (Inl CreateDirFailed, fs)
      else case (if cfg_api_key cfg \<noteq> [] then write_api_key_file key_ok cfg fs else (Inr (), fs)) of
             (Inl e, fs) \<Rightarrow> (Inl e, fs)
           | (Inr _, fs) \<Rightarrow> if cfg_ok then (Inr (), fs\<lparr>cf_config := Some (cfg\<lparr>cfg_api_key := []\<rparr>, 420)\<rparr>)
                            else (Inl ConfigWriteFailed, fs))"

text \<open>The mode test \<open>mode & 0o077 == 0\<close> is \<open>mode mod 64 = 0\<close>.\<close>

definition split_inline_secret :: "bool \<Rightarrow> bool \<Rightarrow> bool \<Rightarrow> bool \<Rightarrow> bool \<Rightarrow> config \<Rightarrow> config_files \<Rightarrow>
    (config_error + unit) \<times> config_files" where
  "split_inline_secret stat_ok chmod_ok dir_ok key_ok cfg_ok cfg fs =
    (if \<not> stat_ok then (Inl StatFailed, fs) else case cf_config fs of
      None \<Rightarrow> (Inr (), fs)
    | Some (on_disk, mode) \<Rightarrow>
        if cfg_api_key cfg = [] then
          (if mode mod 64 = 0
           then (if chmod_ok then (Inr (), fs\<lparr>cf_config := Some (on_disk, 420)\<rparr>) else (Inl WidenFailed, fs))
           else (Inr (), fs))
        else config_save dir_ok key_ok cfg_ok cfg fs)"

section \<open>The validated configuration\<close>

definition valid_location :: "storage_location \<Rightarrow> bool" where
  "valid_location loc \<longleftrightarrow> sl_path loc \<noteq> [] \<and>
     (case sl_limit loc of Unset \<Rightarrow> False | Bytes b \<Rightarrow> MIN_STORAGE_LIMIT \<le> b | All \<Rightarrow> True)"

definition valid_config :: "(string \<Rightarrow> string option) \<Rightarrow> config \<Rightarrow> bool" where
  "valid_config canonicalize cfg \<longleftrightarrow>
     cfg_storage cfg \<noteq> [] \<and> list_all valid_location (cfg_storage cfg) \<and>
     distinct (map (canonical canonicalize \<circ> sl_path) (cfg_storage cfg)) \<and>
     (\<exists>a. cfg_aggressiveness cfg = Fin a \<and> 0 < a \<and> a < 1) \<and>
     cfg_catalog_collapse_percent cfg \<le> 100 \<and> 0 \<le> sc_min_seed_margin (cfg_scan cfg) \<and>
     1 \<le> sc_broken_piece_min_windows (cfg_scan cfg) \<and> 1 \<le> sc_broken_piece_discard_bytes (cfg_scan cfg) \<and>
     (sc_quarantine_check_interval (cfg_scan cfg) = 0 \<or> secs 60 \<le> sc_quarantine_check_interval (cfg_scan cfg)) \<and>
     cfg_port cfg \<noteq> 0 \<and> f_le MIN_RATE_LIMIT_PER_SECOND (sc_rate_limit_per_second (cfg_scan cfg)) \<and>
     list_all (\<lambda>(_, d). d \<le> MAX_DURATION_KNOB) (duration_knobs cfg) \<and>
     list_all (\<lambda>b. b = 0 \<or> MIN_BANDWIDTH_LIMIT \<le> b)
       [cfg_max_ram cfg, cfg_upload_rate_limit cfg, cfg_download_rate_limit cfg]"

definition sample_config :: config where
  "sample_config = (config_default (Some ''/home/op''))\<lparr>cfg_api_key := ''k1'',
     cfg_storage := [\<lparr>sl_path = ''/data'', sl_limit = All\<rparr>]\<rparr>"

section \<open>Validation\<close>

lemma and_then_ok [simp]: "and_then a b = Inr () \<longleftrightarrow> a = Inr () \<and> b = Inr ()"
  by (cases a) (auto simp: and_then_def)

lemma bail_if_ok [simp]: "bail_if c e = Inr () \<longleftrightarrow> \<not> c"
  by (simp add: bail_if_def)

lemma first_error_ok: "first_error rs = Inr () \<longleftrightarrow> list_all (\<lambda>r. r = Inr ()) rs"
  by (induction rs) auto

lemma check_storage_limit_ok:
  "sl_limit loc \<notin> {Unset, Bytes 0} \<and> check_storage_limit p (sl_limit loc) = Inr () \<longleftrightarrow>
   (case sl_limit loc of Unset \<Rightarrow> False | Bytes b \<Rightarrow> MIN_STORAGE_LIMIT \<le> b | All \<Rightarrow> True)"
  by (auto simp: check_storage_limit_def MIN_STORAGE_LIMIT_def split: storage_limit.splits)

lemma check_locations_ok:
  "check_locations can locs seen = Inr () \<longleftrightarrow>
   list_all valid_location locs \<and> distinct (map (canonical can \<circ> sl_path) locs) \<and>
   set (map (canonical can \<circ> sl_path) locs) \<inter> seen = {}"
proof (induction locs arbitrary: seen)
  case (Cons loc locs)
  then show ?case using check_storage_limit_ok [of loc "sl_path loc"]
    by (auto simp: valid_location_def Let_def)
qed simp

lemma check_rate_limit_ok: "check_rate_limit r = Inr () \<longleftrightarrow> f_le MIN_RATE_LIMIT_PER_SECOND r"
proof -
  have "(0::rat) \<le> 1/1000000" "(1/1000000::rat) \<le> 1" by simp_all
  then have eq: "MIN_RATE_LIMIT_PER_SECOND = Fin (rnd_val (1/1000000))"
    using rnd_unit(1) by (simp only: MIN_RATE_LIMIT_PER_SECOND_def f_lit_def)
  have "rnd_val (2 powi (-20)) \<le> rnd_val (1/1000000)"
    by (rule rnd_val_mono) (simp add: power_int_def power_one_over)
  then have "0 < rnd_val (1/1000000)" using powi2_pos [of "-20"] rnd_val_powi2 [of "-20"] by linarith
  then show ?thesis unfolding eq check_rate_limit_def
    by (cases r) (auto simp: f_le_def)
qed

lemma aggressiveness_ok: "f_lt (Fin 0) x \<and> f_lt x (Fin 1) \<longleftrightarrow> (\<exists>a. x = Fin a \<and> 0 < a \<and> a < 1)"
  by (cases x) auto

lemma check_duration_knob_ok: "check_duration_knob n d = Inr () \<longleftrightarrow> d \<le> MAX_DURATION_KNOB"
  by (auto simp: check_duration_knob_def)

lemma check_bandwidth_limit_ok: "check_bandwidth_limit f b = Inr () \<longleftrightarrow> b = 0 \<or> MIN_BANDWIDTH_LIMIT \<le> b"
  by (auto simp: check_bandwidth_limit_def)

lemma duration_knobs_ok:
  "list_all (\<lambda>r. r = Inr ()) (map (\<lambda>(name, d). check_duration_knob name d) kds) \<longleftrightarrow>
   list_all (\<lambda>(_, d). d \<le> MAX_DURATION_KNOB) kds"
  by (induction kds) (auto simp: check_duration_knob_ok)

lemma validate_iff: "validate can cfg = Inr () \<longleftrightarrow> valid_config can cfg"
proof -
  have eq: "(\<not> (0 < d \<and> d < secs 60)) = (d = 0 \<or> secs 60 \<le> d)" for d :: nat by auto
  have loc: "set ps \<inter> {} = {}" for ps :: "string list" by simp
  show ?thesis
    unfolding validate_def first_error_ok valid_config_def list_all_append duration_knobs_ok
      list.pred_inject bail_if_ok check_locations_ok check_rate_limit_ok check_bandwidth_limit_ok
      not_not aggressiveness_ok eq not_less loc One_nat_def Suc_le_eq
    by (simp only: list.pred_inject simp_thms conj_ac neq0_conv)
qed

section \<open>Byte sizes\<close>

lemma rnd_scaled:
  assumes "k \<le> 2 ^ 53" "e \<le> 900"
  shows "rnd (of_nat k * 2 ^ e) = Fin (of_nat k * 2 ^ e)"
proof -
  have k: "\<bar>int k\<bar> \<le> 2 ^ 53" using assms(1) by (metis abs_of_nat of_nat_le_iff of_nat_numeral of_nat_power)
  have "rnd_val (of_int (int k) * 2 powi int e) = of_int (int k) * 2 powi int e"
    using k by (rule rnd_val_exact) simp
  then have v: "rnd_val (of_nat k * 2 ^ e) = of_nat k * 2 ^ e" by (simp only: powi2_nat of_int_of_nat_eq)
  have "(of_nat k :: rat) \<le> of_nat (2 ^ 53)" using assms(1) by (simp only: of_nat_le_iff)
  moreover have "(2::rat) ^ e \<le> 2 ^ 900" using assms(2) by (rule power_increasing) simp
  ultimately have "of_nat k * (2::rat) ^ e \<le> of_nat (2 ^ 53) * 2 ^ 900" by (intro mult_mono) auto
  then have "rnd (of_nat k * 2 ^ e) = Fin (rnd_val (of_nat k * 2 ^ e))"
    by (intro rnd_eq_Fin_le [of _ "of_nat (2 ^ 53) * 2 ^ 900"]) simp_all
  then show ?thesis by (simp only: v)
qed

lemma rnd_units:
  assumes "k < 1024" "u \<le> 5"
  shows "rnd (of_nat k * 1024 ^ u) = Fin (of_nat k * 1024 ^ u)"
proof -
  have "(1024::rat) ^ u = 2 ^ (10 * u)" by (simp add: power_mult)
  then show ?thesis using rnd_scaled [of k "10 * u"] assms by (simp only:) simp
qed

lemma scale_units_exact:
  assumes "0 < k" "k < 1024" "j + u \<le> 5"
  shows "scale_units (Fin (of_nat k * 1024 ^ u)) j = (Fin (of_nat k), j + u)"
  using assms
proof (induction u arbitrary: j)
  case 0
  then show ?case by (subst scale_units.simps) (simp add: UNITS_def)
next
  case (Suc u)
  have "(1::rat) * 1 \<le> of_nat k * 1024 ^ u" using Suc.prems by (intro mult_mono) (auto simp: Suc_le_eq)
  then have "(1024::rat) \<le> of_nat k * 1024 ^ Suc u" by simp
  moreover have "f_div (Fin (of_nat k * 1024 ^ Suc u)) (Fin 1024) = Fin (of_nat k * 1024 ^ u)"
    using rnd_units [of k u] Suc.prems by simp
  moreover have "j + 1 < length UNITS" using Suc.prems by (simp add: UNITS_def)
  ultimately show ?case using Suc.IH [of "j + 1"] Suc.prems by (subst scale_units.simps) (simp del: f_div.simps)
qed

lemma digit_char_0 [simp]: "digit_char 0 = CHR ''0''"
  by code_simp

lemma show_tenths_nat: "show_tenths (Fin (of_nat k)) = show_nat k @ ''.0''"
proof -
  have "round_half_even (of_nat k * 10) = int k * 10"
    using round_half_even_of_int [of "int k * 10"] by simp
  then show ?thesis by (simp add: show_tenths_def nat_mult_distrib show_nat.simps [of 0])
qed

lemma unit_count_lt:
  assumes "k < 1024" "u \<le> 5" shows "k * 1024 ^ u < (1024::nat) ^ 6"
proof -
  have "k * 1024 ^ u < 1024 * (1024::nat) ^ u" using assms(1) by simp
  also have "\<dots> = 1024 ^ Suc u" by simp
  also have "\<dots> \<le> 1024 ^ 6" using assms(2) by (intro power_increasing) auto
  finally show ?thesis .
qed

lemma digits_no_blank: "list_all is_ascii_digit s \<Longrightarrow> filter (\<lambda>c. c \<noteq> CHR '' '') s = s"
  by (auto simp: filter_id_conv list_all_iff is_ascii_digit_def code_def)

lemma format_units:
  assumes "0 < k" "k < 1024" "1 \<le> u" "u \<le> 5"
  shows "format_byte_size (k * 1024 ^ u) = Some (show_nat k @ ''.0'' @ UNITS ! u)"
proof -
  have "int (k * 1024 ^ u) < int (1024 ^ 6)" using unit_count_lt [of k u] assms by (simp only: of_nat_less_iff)
  then have i: "as_i64 (k * 1024 ^ u) = int (k * 1024 ^ u)" by (simp add: as_i64_def)
  have "scale_units (f_of_int (int (k * 1024 ^ u))) 0 = (Fin (of_nat k), u)"
    using scale_units_exact [of k 0 u] rnd_units [of k u] assms by (simp add: f_of_int_def)
  then have h: "human_bytes (as_i64 (k * 1024 ^ u)) = Some (show_nat k @ ''.0'' @ '' '' @ UNITS ! u)"
    using assms by (simp add: i human_bytes_nonneg_eq human_bytes_nonneg_def show_tenths_nat)
  have "u \<in> {1, 2, 3, 4, 5}" using assms by auto
  then have "filter (\<lambda>c. c \<noteq> CHR '' '') (UNITS ! u) = UNITS ! u" by (auto simp: UNITS_def)
  then show ?thesis by (simp add: format_byte_size_def h digits_no_blank show_nat_digits)
qed

lemma digit_not_whitespace: "is_ascii_digit c \<Longrightarrow> \<not> is_whitespace c"
  by (auto simp: is_ascii_digit_def is_whitespace_def)

lemma trim_id:
  assumes "\<not> is_whitespace (hd s)" "\<not> is_whitespace (last s)"
  shows "trim s = s"
proof (cases s)
  case (Cons c cs)
  then have "dropWhile is_whitespace s = s" using assms by simp
  moreover have "dropWhile is_whitespace (rev s) = rev s"
    using assms Cons by (cases "rev s") (auto simp: hd_rev [symmetric])
  ultimately show ?thesis by (simp add: trim_def)
qed (simp add: trim_def)

lemma takeWhile_digits_dot:
  "list_all is_ascii_digit s \<Longrightarrow> \<not> is_ascii_digit c \<Longrightarrow>
   takeWhile is_ascii_digit (s @ c # r) = s \<and> dropWhile is_ascii_digit (s @ c # r) = c # r"
  by (induction s) auto

lemma parse_decimal_tenth0: "parse_decimal (show_nat k @ ''.0'') = Some (of_nat k)"
proof -
  have "read_nat ''0'' = 0" by code_simp
  moreover have "\<not> is_ascii_digit CHR ''.''" "is_ascii_digit CHR ''0''" by code_simp+
  ultimately show ?thesis
    using takeWhile_digits_dot [OF show_nat_digits, of "CHR ''.''" k "''0''"]
    by (simp add: parse_decimal_def Let_def)
qed

lemma takeWhile_size_char:
  assumes "list_all size_char s" "\<not> size_char c"
  shows "takeWhile size_char (s @ c # r) = s" "dropWhile size_char (s @ c # r) = c # r"
  using assms by (induction s) auto

lemma f_mul_pow2: "a \<le> 400 \<Longrightarrow> b \<le> 400 \<Longrightarrow> f_mul (Fin (2 ^ a)) (Fin (2 ^ b)) = Fin (2 ^ (a + b))"
  using rnd_scaled [of 1 "a + b"] by (simp add: power_add)

lemma suffix_multiplier_units:
  assumes "1 \<le> u" "u \<le> 5"
  shows "suffix_multiplier (map to_ascii_upper (UNITS ! u)) = Some (Fin (1024 ^ u))"
proof -
  have p: "f_mul (Fin 1024) (Fin 1024) = Fin (1024 ^ 2)" "f_mul (Fin (1024 ^ 2)) (Fin 1024) = Fin (1024 ^ 3)"
    "f_mul (Fin (1024 ^ 2)) (Fin (1024 ^ 2)) = Fin (1024 ^ 4)" "f_mul (Fin 1) (Fin (1024 ^ 4)) = Fin (1024 ^ 4)"
    "f_mul (Fin 1) (Fin 1024) = Fin 1024" "f_mul (Fin 1024) (Fin (1024 ^ 4)) = Fin (1024 ^ 5)"
    using f_mul_pow2 [of 10 10] f_mul_pow2 [of 20 10] f_mul_pow2 [of 20 20] f_mul_pow2 [of 0 40]
      f_mul_pow2 [of 0 10] f_mul_pow2 [of 10 40] by simp_all
  have "f_powi (Fin 1024) 4 = Fin (1024 ^ 4)" "f_powi (Fin 1024) 5 = Fin (1024 ^ 5)"
    using p by (simp_all add: f_powi_def powi_loop.simps Let_def del: f_mul.simps)
  note powi = this
  have up: "map to_ascii_upper (UNITS ! 1) = ''KIB''" "map to_ascii_upper (UNITS ! 2) = ''MIB''"
    "map to_ascii_upper (UNITS ! 3) = ''GIB''" "map to_ascii_upper (UNITS ! 4) = ''TIB''"
    "map to_ascii_upper (UNITS ! 5) = ''PIB''"
    by code_simp+
  have "suffix_multiplier ''KIB'' = Some (Fin 1024)" "suffix_multiplier ''MIB'' = Some (Fin (1024 ^ 2))"
    "suffix_multiplier ''GIB'' = Some (Fin (1024 ^ 3))" "suffix_multiplier ''TIB'' = Some (Fin (1024 ^ 4))"
    "suffix_multiplier ''PIB'' = Some (Fin (1024 ^ 5))"
    using p(1,2) powi by (simp_all add: suffix_multiplier_def del: f_mul.simps)
  then have "\<forall>u \<in> {1, 2, 3, 4, 5}. suffix_multiplier (map to_ascii_upper (UNITS ! u)) = Some (Fin (1024 ^ u))"
    by (simp only: ball_simps insert_iff up) simp
  moreover have "u \<in> {1, 2, 3, 4, 5}" using assms by auto
  ultimately show ?thesis by blast
qed

lemma trim_units:
  assumes "1 \<le> u" "u \<le> 5"
  shows "trim (show_nat k @ ''.0'' @ UNITS ! u) = show_nat k @ ''.0'' @ UNITS ! u"
proof -
  have "\<forall>u \<in> {1, 2, 3, 4, 5}. \<not> is_whitespace (last (UNITS ! u)) \<and> UNITS ! u \<noteq> []" by code_simp
  moreover have "u \<in> {1, 2, 3, 4, 5}" using assms by auto
  ultimately have "\<not> is_whitespace (last (UNITS ! u))" "UNITS ! u \<noteq> []" by blast+
  moreover have "\<not> is_whitespace (hd (show_nat k))"
    using show_nat_digits [of k] digit_not_whitespace by (cases "show_nat k") auto
  ultimately show ?thesis by (intro trim_id) auto
qed

lemma digit_head_not_word:
  assumes "list_all is_ascii_digit s" "s \<noteq> []" "\<not> is_ascii_digit (to_ascii_lower c)"
  shows "\<not> eq_ignore_ascii_case (s @ r) (c # w)"
proof -
  obtain d ds where "s = d # ds" using assms(2) by (cases s) auto
  moreover have "is_ascii_digit d \<Longrightarrow> to_ascii_lower d = d"
    by (auto simp: is_ascii_digit_def to_ascii_lower_def)
  ultimately show ?thesis using assms by (auto simp: eq_ignore_ascii_case_def)
qed

lemma parse_units:
  assumes "0 < k" "k < 1024" "1 \<le> u" "u \<le> 5"
  shows "parse_byte_size (show_nat k @ ''.0'' @ UNITS ! u) = Inr (k * 1024 ^ u)"
proof -
  have u: "u \<in> {1, 2, 3, 4, 5}" using assms by auto
  obtain c r where cr: "UNITS ! u = c # r" "\<not> size_char c"
  proof -
    have "\<not> size_char CHR ''K''" "\<not> size_char CHR ''M''" "\<not> size_char CHR ''G''" "\<not> size_char CHR ''T''"
      "\<not> size_char CHR ''P''" by code_simp+
    then show ?thesis using u that by (auto simp: UNITS_def)
  qed
  have "\<forall>u \<in> {1, 2, 3, 4, 5}. trim (UNITS ! u) = UNITS ! u" by code_simp
  then have tu: "trim (UNITS ! u) = UNITS ! u" using u by blast
  have sd: "list_all size_char (show_nat k @ ''.0'')"
    using show_nat_digits [of k] by (auto simp: list_all_iff size_char_def is_ascii_digit_def code_def)
  let ?t = "show_nat k @ ''.0'' @ UNITS ! u"
  note trim = trim_units [OF assms(3,4), of k]
  have parts: "takeWhile size_char ?t = show_nat k @ ''.0''" "dropWhile size_char ?t = UNITS ! u"
    using takeWhile_size_char [OF sd cr(2), of r] by (simp_all add: cr(1))
  have n: "rnd (of_nat k) = Fin (of_nat k)" using rnd_units [of k 0] assms by simp
  have b: "f_mul (Fin (of_nat k)) (Fin (1024 ^ u)) = Fin (of_nat k * 1024 ^ u)"
    using rnd_units [of k u] assms by simp
  have lt: "k * 1024 ^ u < 1024 ^ 6" using unit_count_lt [of k u] assms by simp
  then have "(of_nat (k * 1024 ^ u) :: rat) < of_nat (1024 ^ 6)" by (simp only: of_nat_less_iff)
  moreover have "rnd_val (2 ^ 63) \<le> rnd_val (of_nat u64_max)" by (rule rnd_val_mono) simp
  ultimately have "of_nat k * 1024 ^ u < rnd_val (of_nat u64_max)" by (simp only: rnd_val_pow2) simp
  then have nov: "\<not> f_le (f_of_nat u64_max) (Fin (of_nat k * 1024 ^ u))"
    by (simp add: f_of_nat_eq)
  have fl: "f_to_u64 (Fin (of_nat k * 1024 ^ u)) = k * 1024 ^ u"
  proof -
    have "(of_nat k * 1024 ^ u :: rat) = of_nat (k * 1024 ^ u)" by simp
    then show ?thesis using lt by (simp only: f_to_u64.simps floor_of_nat nat_int) simp
  qed
  show ?thesis
    unfolding parse_byte_size_def Let_def trim parts parse_decimal_tenth0 option.case n tu
      suffix_multiplier_units [OF assms(3,4)] b
    using nov fl by simp
qed

section \<open>Properties\<close>

lemma default_literals:
  "\<exists>a. f_lit (6/10) = Fin a \<and> 0 < a \<and> a < 1" "f_le MIN_RATE_LIMIT_PER_SECOND (f_lit (5/10))"
proof -
  have e: "rnd_val (1/2) = 1/2" "rnd_val (3/4) = 3/4"
    using rnd_val_exact [of 1 "-1"] rnd_val_exact [of 3 "-2"] by (simp_all add: power_int_def power2_eq_square)
  have "rnd (6/10) = Fin (rnd_val (6/10)) \<and> 1/2 \<le> rnd_val (6/10) \<and> rnd_val (6/10) \<le> 3/4"
    using rnd_between [of "1/2" "6/10" "3/4"] e by simp
  moreover from this have "0 < rnd_val (6/10)" "rnd_val (6/10) < 1" by linarith+
  ultimately show "\<exists>a. f_lit (6/10) = Fin a \<and> 0 < a \<and> a < 1" by (auto simp: f_lit_def)
  have h: "rnd (5/10) = Fin (1/2)" using rnd_unit(1) [of "1/2"] e by simp
  have "rnd (1/1000000) = Fin (rnd_val (1/1000000))" using rnd_unit(1) by simp
  moreover have "rnd_val (1/1000000) \<le> 1/2" using rnd_val_mono [of "1/1000000" "1/2"] e by simp
  ultimately show "f_le MIN_RATE_LIMIT_PER_SECOND (f_lit (5/10))"
    unfolding MIN_RATE_LIMIT_PER_SECOND_def f_lit_def h by simp
qed

lemma sample_config_valid: "valid_config (\<lambda>_. None) sample_config"
proof -
  show ?thesis
    using default_literals
    by (simp add: valid_config_def sample_config_def config_default_def scan_config_default_def
        valid_location_def duration_knobs_def DEFAULT_PORT_def DEFAULT_AGGRESSIVENESS_def
        DEFAULT_MIN_SEED_MARGIN_def DEFAULT_CATALOG_COLLAPSE_PERCENT_def DEFAULT_SCAN_INTERVAL_def
        DEFAULT_MODERATION_DELAY_def DEFAULT_RATE_LIMIT_PER_SEC_def DEFAULT_STATS_INTERVAL_def
        DEFAULT_STALL_EVICTION_TIMEOUT_def DEFAULT_VANISHED_EVICTION_TIMEOUT_def
        DEFAULT_QUARANTINE_CHECK_INTERVAL_def DEFAULT_BROKEN_PIECE_DISCARD_BYTES_def
        DEFAULT_BROKEN_PIECE_MIN_WINDOWS_def DEFAULT_QUARANTINE_COOLDOWN_def MAX_DURATION_KNOB_def secs_def)
qed

lemma trim_newline: "trim k = k \<Longrightarrow> k \<noteq> [] \<Longrightarrow> trim (k @ [CHR 0x0A]) = k"
proof -
  assume t: "trim k = k" and k: "k \<noteq> []"
  have nl: "is_whitespace (CHR 0x0A)" by code_simp
  have le: "length (dropWhile is_whitespace k) \<le> length k" by (rule length_dropWhile_le)
  have "length (trim k) \<le> length (dropWhile is_whitespace k)"
    unfolding trim_def by (metis length_dropWhile_le length_rev)
  then have "length (dropWhile is_whitespace k) = length k" using le t by simp
  then have d: "dropWhile is_whitespace k = k"
    by (metis append_self_conv2 length_0_conv length_append add_cancel_left_left takeWhile_dropWhile_id)
  then have "\<not> is_whitespace (hd k)" using k by (metis hd_dropWhile)
  then have "dropWhile is_whitespace (k @ [CHR 0x0A]) = k @ [CHR 0x0A]" using k by (cases k) auto
  moreover have "rev (dropWhile is_whitespace (rev k)) = k" using t d by (simp add: trim_def)
  ultimately show ?thesis using nl by (simp add: trim_def)
qed

text \<open>Validation is exact: \<open>Config::load\<close> hands out a configuration only when it satisfies every
  documented range (at least one location, no empty path, limits at the floor or above, no two
  locations with the same canonical path, aggressiveness strictly between 0 and 1, and so on), with the
  API key it had inline or, failing that, the trimmed non-empty key file; and it hands one out for every
  readable document that satisfies them.\<close>

lemma load_inner_iff:
  "fst (load_inner can key_file starter_ok contents starter) = Inr cfg \<longleftrightarrow>
   (\<exists>doc. contents = Contents (Some doc) \<and> cfg = merge_key_file (key_file (cfg_data_dir doc)) doc \<and>
          valid_config can cfg)"
  by (auto simp: load_inner_def Let_def validate_iff [symmetric] split: file_read.splits option.splits sum.splits)



text \<open>A key is never lost half way: whatever step of \<open>save\<close> fails, either the configuration file is
  as it was before, or the key is in the key file; and no run of \<open>save\<close> puts a key in the
  world-readable file.\<close>

theorem config_save_keeps_key:
  "(case config_save dir_ok key_ok cfg_ok cfg fs of (r, fs') \<Rightarrow>
     (cf_config fs' = cf_config fs \<or>
        r = Inr () \<and> cf_config fs' = Some (cfg\<lparr>cfg_api_key := []\<rparr>, 420) \<and>
        (cfg_api_key cfg = [] \<or> cf_key fs' = Some (cfg_api_key cfg @ [CHR 0x0A], 384))) \<and>
     (r = Inr () \<or> cf_config fs' = cf_config fs))"
  by (auto simp: config_save_def write_api_key_file_def)

text \<open>A limit that is a whole number of KiB to PiB survives the YAML round trip through
  \<open>ser_limit\<close> and \<open>de_limit\<close>.\<close>

theorem limit_round_trip:
  assumes "0 < k" "k < 1024" "1 \<le> u" "u \<le> 5"
  shows "map_option de_limit (ser_limit (Bytes (k * 1024 ^ u))) = Some (Inr (Bytes (k * 1024 ^ u)))"
proof -
  have "\<not> is_ascii_digit (to_ascii_lower CHR ''m'')" "\<not> is_ascii_digit (to_ascii_lower CHR ''a'')" by code_simp+
  then have "\<not> eq_ignore_ascii_case (show_nat k @ ''.0'' @ UNITS ! u) ''max''"
    "\<not> eq_ignore_ascii_case (show_nat k @ ''.0'' @ UNITS ! u) ''all''"
    using digit_head_not_word [OF show_nat_digits show_nat_not_Nil] by blast+
  then show ?thesis
    unfolding ser_limit.simps format_units [OF assms] option.map de_limit_def storage_limit_parse_def Let_def
      trim_units [OF assms(3,4)] parse_units [OF assms]
    by simp
qed

theorem limit_round_trip_witness:
  "map_option de_limit (ser_limit (Bytes (500 * 1024 ^ 3))) = Some (Inr (Bytes (500 * 1024 ^ 3)))"
  using limit_round_trip [of 500 3] by simp

text \<open>The round trip is lossy outside the whole units: one byte over 1 GiB is printed as
  \<open>1.0GiB\<close> and read back as exactly 1 GiB.\<close>

theorem limit_round_trip_lossy:
  "map_option de_limit (ser_limit (Bytes 1073741825)) = Some (Inr (Bytes 1073741824))"
proof -
  have f: "rnd (of_int 1073741825) = Fin 1073741825" "rnd (1073741825 / 1024) = Fin (1073741825 / 1024)"
    "rnd (1073741825 / 1048576) = Fin (1073741825 / 1048576)"
    "rnd (1073741825 / 1073741824) = Fin (1073741825 / 1073741824)"
    using rnd_val_exact [of 1073741825 0] rnd_val_exact [of 1073741825 "-10"] rnd_val_exact [of 1073741825 "-20"]
      rnd_val_exact [of 1073741825 "-30"]
      rnd_eq_Fin_le [of _ "2 ^ 31"] by (simp_all add: power_int_def power_divide)
  have d: "show_nat 1 = ''1''" "show_nat 0 = ''0''" by code_simp+
  have "round_half_even (1073741825 / 1073741824 * 10) = 10" by code_simp
  then have "show_tenths (Fin (1073741825 / 1073741824)) = ''1.0''"
    using d by (simp add: show_tenths_def)
  then have "human_bytes_nonneg 1073741825 = ''1.0 GiB''"
    using f by (simp add: human_bytes_nonneg_def f_of_int_def scale_units.simps UNITS_def)
  then have "format_byte_size 1073741825 = Some ''1.0GiB''"
    by (simp add: format_byte_size_def as_i64_def human_bytes_nonneg_eq)
  moreover have "parse_byte_size ''1.0GiB'' = Inr 1073741824"
    using parse_units [of 1 3] d by (simp add: UNITS_def)
  moreover have "trim ''1.0GiB'' = ''1.0GiB''" "\<not> eq_ignore_ascii_case ''1.0GiB'' ''max''"
    "\<not> eq_ignore_ascii_case ''1.0GiB'' ''all''" by code_simp+
  ultimately show ?thesis by (simp add: de_limit_def storage_limit_parse_def)
qed

lemma validate_unset:
  assumes "cfg_storage cfg = [\<lparr>sl_path = p, sl_limit = Unset\<rparr>]" "p \<noteq> []"
  shows "validate can cfg = Inl (NoPositiveLimit p)"
proof -
  have "check_locations can (cfg_storage cfg) {} = Inl (NoPositiveLimit p)" using assms by (simp add: bail_if_def and_then_def)
  then show ?thesis using assms(1) by (simp add: validate_def bail_if_def and_then_def)
qed

text \<open>A starter file that was not edited is refused for the limit that its header asks for.\<close>

lemma starter_asks_for_limit:
  "fst (load_inner can key_file starter_ok (Contents (Some (starter_config home))) starter) =
     Inl (NoPositiveLimit (default_storage_location home))"
  "list_all (\<lambda>l. l = [] \<or> hd l = CHR ''#'') STARTER_HEADER"
proof -
  have "cfg_storage (merge_key_file k (starter_config home)) = [\<lparr>sl_path = default_storage_location home, sl_limit = Unset\<rparr>]" for k
    by (auto simp: merge_key_file_def starter_config_def Let_def split: option.split)
  from validate_unset [OF this] show "fst (load_inner can key_file starter_ok (Contents (Some (starter_config home))) starter) =
     Inl (NoPositiveLimit (default_storage_location home))"
    by (simp add: load_inner_def Let_def default_storage_location_def)
  show "list_all (\<lambda>l. l = [] \<or> hd l = CHR ''#'') STARTER_HEADER" by (simp add: STARTER_HEADER_def)
qed

end
