(* ===== verification/Storage.thy ===== *)
theory Storage
  imports Config
begin

text \<open>
  \<open>src/engine/storage.rs\<close> and the admission test of \<open>src/fdlimit.rs\<close>: the size of a directory tree,
  the device's free and total bytes, the resolution of \<open>limit: max\<close>, and the file-descriptor guard.

  A directory tree is what \<open>read_dir\<close> shows of it: entries that are directories (\<open>None\<close> when the
  directory cannot be read), files with their block count (\<open>None\<close> when \<open>stat\<close> fails), or anything
  else, symbolic links included.  \<open>statvfs\<close> is an argument giving the available blocks, the total
  blocks and the fragment size.
\<close>

section \<open>Definitions\<close>

definition ALL_LIMIT_FRACTION :: rat where "ALL_LIMIT_FRACTION = 975/1000"

datatype dir_node = DirNode "dir_node list option" | FileNode "nat option" | OtherNode

text \<open>The inner loop: directories go on the stack, files add their blocks.\<close>

fun visit_entries :: "dir_node list \<Rightarrow> dir_node list \<Rightarrow> nat \<Rightarrow> dir_node list \<times> nat" where
  "visit_entries [] stack acc = (stack, acc)"
| "visit_entries (DirNode d # es) stack acc = visit_entries es (DirNode d # stack) acc"
| "visit_entries (FileNode (Some blocks) # es) stack acc =
     visit_entries es stack (sat_add64 acc (sat_mul64 blocks 512))"
| "visit_entries (FileNode None # es) stack acc = visit_entries es stack acc"
| "visit_entries (OtherNode # es) stack acc = visit_entries es stack acc"

text \<open>Nodes of a tree, the measure of the outer loop.\<close>

fun node_count :: "dir_node \<Rightarrow> nat" where
  "node_count (DirNode (Some es)) = Suc (sum_list (map node_count es))"
| "node_count (DirNode None) = 1"
| "node_count (FileNode _) = 1"
| "node_count OtherNode = 1"

lemma visit_entries_count:
  "visit_entries es stack acc = (stack', acc') \<Longrightarrow>
   sum_list (map node_count stack') \<le> sum_list (map node_count es) + sum_list (map node_count stack)"
  by (induction es stack acc rule: visit_entries.induct) auto

function dir_walk :: "dir_node list \<Rightarrow> nat \<Rightarrow> nat" where
  "dir_walk [] acc = acc"
| "dir_walk (DirNode (Some es) # stack) acc =
     (case visit_entries es stack acc of (stack', acc') \<Rightarrow> dir_walk stack' acc')"
| "dir_walk (DirNode None # stack) acc = dir_walk stack acc"
| "dir_walk (FileNode b # stack) acc = dir_walk stack acc"
| "dir_walk (OtherNode # stack) acc = dir_walk stack acc"
  by pat_completeness auto
termination
  by (relation "measure (\<lambda>(stack, _). sum_list (map node_count stack))")
    (auto intro!: le_imp_less_Suc dest: visit_entries_count split: prod.splits)

text \<open>\<open>dir_size_bytes\<close>: the walk starts with the directory itself on the stack.\<close>

definition dir_size_bytes :: "dir_node \<Rightarrow> nat" where
  "dir_size_bytes d = dir_walk [d] 0"

text \<open>The specification: allocated bytes of the files below a directory, with no bound on the sum.\<close>

fun node_bytes :: "dir_node \<Rightarrow> nat" where
  "node_bytes (DirNode (Some es)) = sum_list (map node_bytes es)"
| "node_bytes (DirNode None) = 0"
| "node_bytes (FileNode (Some blocks)) = blocks * 512"
| "node_bytes (FileNode None) = 0"
| "node_bytes OtherNode = 0"

type_synonym statvfs = "string \<Rightarrow> (nat \<times> nat \<times> nat) option"

definition device_free_bytes :: "statvfs \<Rightarrow> string \<Rightarrow> nat option" where
  "device_free_bytes st path = map_option (\<lambda>(bavail, _, frsize). sat_mul64 bavail frsize) (st path)"

definition device_total_bytes :: "statvfs \<Rightarrow> string \<Rightarrow> nat option" where
  "device_total_bytes st path = map_option (\<lambda>(_, blocks, frsize). sat_mul64 blocks frsize) (st path)"

datatype resolve_error = CannotStat string | AliasedLocation string

definition resolve_location :: "(string \<Rightarrow> string option) \<Rightarrow> statvfs \<Rightarrow> storage_location \<Rightarrow>
    resolve_error + storage_location" where
  "resolve_location canonicalize st loc =
     (let loc = loc\<lparr>sl_path := canonical canonicalize (sl_path loc)\<rparr>
      in if sl_limit loc = All
         then (case device_total_bytes st (sl_path loc) of
                 None \<Rightarrow> Inl (CannotStat (sl_path loc))
               | Some acc \<Rightarrow>
                   Inr (loc\<lparr>sl_limit := Bytes (f_to_u64 (f_mul (f_of_nat acc) (f_lit ALL_LIMIT_FRACTION)))\<rparr>))
         else Inr loc)"

fun resolve_locations :: "(string \<Rightarrow> string option) \<Rightarrow> statvfs \<Rightarrow> storage_location list \<Rightarrow>
    resolve_error + storage_location list" where
  "resolve_locations canonicalize st [] = Inr []"
| "resolve_locations canonicalize st (loc # locs) =
     (case resolve_location canonicalize st loc of
        Inl e \<Rightarrow> Inl e
      | Inr l \<Rightarrow> (case resolve_locations canonicalize st locs of Inl e \<Rightarrow> Inl e | Inr ls \<Rightarrow> Inr (l # ls)))"

fun check_aliases :: "storage_location list \<Rightarrow> string set \<Rightarrow> resolve_error + unit" where
  "check_aliases [] seen = Inr ()"
| "check_aliases (loc # locs) seen =
     (if sl_path loc \<in> seen then Inl (AliasedLocation (sl_path loc))
      else check_aliases locs (insert (sl_path loc) seen))"

definition resolve_all_limits :: "(string \<Rightarrow> string option) \<Rightarrow> statvfs \<Rightarrow> config \<Rightarrow> resolve_error + config" where
  "resolve_all_limits canonicalize st cfg =
     (case resolve_locations canonicalize st (cfg_storage cfg) of
        Inl e \<Rightarrow> Inl e
      | Inr locs \<Rightarrow> (case check_aliases locs {} of
            Inl e \<Rightarrow> Inl e
          | Inr _ \<Rightarrow> Inr (cfg\<lparr>cfg_storage := locs\<rparr>)))"

definition TARGET_SOFT_LIMIT :: nat where "TARGET_SOFT_LIMIT = 65536"
definition SOCKET_RESERVE :: nat where "SOCKET_RESERVE = 512"

definition fd_headroom :: "(nat \<times> nat) option \<Rightarrow> nat option \<Rightarrow> nat option" where
  "fd_headroom limits open_fds = (case (limits, open_fds) of
      (Some (soft, _), Some n) \<Rightarrow> Some (soft - n) | _ \<Rightarrow> None)"

text \<open>\<open>raise_soft_limit\<close>: the limits afterwards; \<open>set_ok\<close> says whether \<open>setrlimit\<close> succeeds.\<close>

definition raise_soft_limit :: "bool \<Rightarrow> (nat \<times> nat) option \<Rightarrow> (nat \<times> nat) option" where
  "raise_soft_limit set_ok limits = (case limits of
      Some (soft, hard) \<Rightarrow>
        (let target = min TARGET_SOFT_LIMIT hard
         in if target \<le> soft then limits else if set_ok then Some (target, hard) else limits)
    | None \<Rightarrow> None)"

definition fits_in_headroom :: "nat \<Rightarrow> nat option \<Rightarrow> bool" where
  "fits_in_headroom need_files headroom = (case headroom of
      None \<Rightarrow> True | Some h \<Rightarrow> sat_add64 need_files SOCKET_RESERVE \<le> h)"

section \<open>Lemmas\<close>

lemma sat_fold: "sat_add64 (min a u64_max) (sat_mul64 b c) = min (a + b * c) u64_max"
  by (auto simp: rust_arith)

lemma visit_entries_bytes:
  assumes "visit_entries es stack (min n u64_max) = (stack', t')"
  shows "\<exists>m. t' = min m u64_max \<and> list_all (\<lambda>d. \<exists>x. d = DirNode x) stack = list_all (\<lambda>d. \<exists>x. d = DirNode x) stack' \<and>
    m + sum_list (map node_bytes stack') = n + sum_list (map node_bytes es) + sum_list (map node_bytes stack)"
  using assms
proof (induction es arbitrary: stack n)
  case (Cons e es)
  show ?case
  proof (cases e)
    case (DirNode x)
    with Cons.IH [of "e # stack" n] Cons.prems show ?thesis by (auto simp: add.assoc)
  next
    case (FileNode b)
    show ?thesis
    proof (cases b)
      case None
      with FileNode Cons.IH [of stack n] Cons.prems show ?thesis by simp
    next
      case (Some blocks)
      then have "visit_entries es stack (min (n + blocks * 512) u64_max) = (stack', t')"
        using FileNode Cons.prems sat_fold [of n blocks 512] by simp
      from Cons.IH [OF this] show ?thesis using FileNode Some by (simp add: add.assoc)
    qed
  next
    case OtherNode
    with Cons.IH [of stack n] Cons.prems show ?thesis by simp
  qed
qed auto

lemma dir_walk_bytes:
  "list_all (\<lambda>d. \<exists>x. d = DirNode x) stack \<Longrightarrow>
   dir_walk stack (min n u64_max) = min (n + sum_list (map node_bytes stack)) u64_max"
proof (induction "sum_list (map node_count stack)" arbitrary: stack n rule: less_induct)
  case less
  show ?case
  proof (cases stack)
    case (Cons d rest)
    with less.prems obtain x where d: "d = DirNode x" "list_all (\<lambda>d. \<exists>x. d = DirNode x) rest" by auto
    show ?thesis
    proof (cases x)
      case None
      with less.hyps [of rest n] Cons d show ?thesis by simp
    next
      case (Some es)
      obtain stack' t' where v: "visit_entries es rest (min n u64_max) = (stack', t')" by fastforce
      then obtain m where m: "t' = min m u64_max" "list_all (\<lambda>d. \<exists>x. d = DirNode x) stack'"
        "m + sum_list (map node_bytes stack') = n + sum_list (map node_bytes es) + sum_list (map node_bytes rest)"
        using visit_entries_bytes [OF v] d(2) by auto
      have "sum_list (map node_count stack') < sum_list (map node_count stack)"
        using visit_entries_count [OF v] Cons d Some by simp
      with less.hyps [of stack' m] m v Cons d Some show ?thesis by (simp add: add.assoc)
    qed
  qed simp
qed

lemma resolve_location_spec:
  assumes "resolve_location can st loc = Inr l"
  shows "sl_path l = canonical can (sl_path loc)" "sl_limit loc \<noteq> All \<Longrightarrow> sl_limit l = sl_limit loc"
    "sl_limit loc = All \<Longrightarrow> \<exists>acc b. device_total_bytes st (sl_path l) = Some acc \<and>
       sl_limit l = Bytes b \<and> b \<le> acc"
proof -
  show "sl_path l = canonical can (sl_path loc)" "sl_limit loc \<noteq> All \<Longrightarrow> sl_limit l = sl_limit loc"
    using assms by (auto simp: resolve_location_def Let_def split: if_splits option.splits)
  assume all: "sl_limit loc = All"
  then obtain acc where t: "device_total_bytes st (canonical can (sl_path loc)) = Some acc"
    "l = loc\<lparr>sl_path := canonical can (sl_path loc),
       sl_limit := Bytes (f_to_u64 (f_mul (f_of_nat acc) (f_lit ALL_LIMIT_FRACTION)))\<rparr>"
    using assms by (auto simp: resolve_location_def Let_def split: if_splits option.splits)
  then have "acc \<le> u64_max" by (auto simp: device_total_bytes_def rust_arith)
  then have "f_to_u64 (f_mul (f_of_nat acc) (f_lit ALL_LIMIT_FRACTION)) \<le> acc"
    by (rule fraction_le) (auto simp: ALL_LIMIT_FRACTION_def)
  then show "\<exists>acc b. device_total_bytes st (sl_path l) = Some acc \<and> sl_limit l = Bytes b \<and> b \<le> acc"
    using t by simp
qed

lemma resolve_locations_spec:
  "resolve_locations can st locs = Inr ls \<Longrightarrow> list_all2 (\<lambda>loc l. resolve_location can st loc = Inr l) locs ls"
  by (induction locs arbitrary: ls) (auto split: sum.splits)

lemma check_aliases_ok:
  "check_aliases locs seen = Inr () \<longleftrightarrow> distinct (map sl_path locs) \<and> set (map sl_path locs) \<inter> seen = {}"
  by (induction locs arbitrary: seen) auto

section \<open>Properties\<close>

text \<open>C28. The explicit-stack walk of \<open>dir_size_bytes\<close> terminates on every tree and returns the allocated
  bytes of all the files below the directory, saturating at the largest 64-bit value.\<close>

theorem dir_size_is_tree_sum: "dir_size_bytes (DirNode es) = min (node_bytes (DirNode es)) u64_max"
  using dir_walk_bytes [of "[DirNode es]" 0] by (simp add: dir_size_bytes_def)

lemma resolve_all_limits_spec:
  assumes "resolve_all_limits can st cfg = Inr cfg'"
  shows "map sl_path (cfg_storage cfg') = map (canonical can \<circ> sl_path) (cfg_storage cfg) \<and>
    distinct (map sl_path (cfg_storage cfg')) \<and>
    list_all2 (\<lambda>loc l. case sl_limit loc of
        All \<Rightarrow> (\<exists>acc b. device_total_bytes st (sl_path l) = Some acc \<and> sl_limit l = Bytes b \<and> b \<le> acc)
      | _ \<Rightarrow> sl_limit l = sl_limit loc) (cfg_storage cfg) (cfg_storage cfg')"
proof -
  obtain locs where l: "resolve_locations can st (cfg_storage cfg) = Inr locs" "check_aliases locs {} = Inr ()"
    "cfg' = cfg\<lparr>cfg_storage := locs\<rparr>"
    using assms by (auto simp: resolve_all_limits_def split: sum.splits)
  from resolve_locations_spec [OF l(1)]
  have "map sl_path locs = map (canonical can \<circ> sl_path) (cfg_storage cfg) \<and>
    list_all2 (\<lambda>loc l. case sl_limit loc of
        All \<Rightarrow> (\<exists>acc b. device_total_bytes st (sl_path l) = Some acc \<and> sl_limit l = Bytes b \<and> b \<le> acc)
      | _ \<Rightarrow> sl_limit l = sl_limit loc) (cfg_storage cfg) locs"
  proof (induction rule: list_all2_induct)
    case (Cons loc locs l ls)
    then show ?case using resolve_location_spec [OF Cons(1)] by (auto split: storage_limit.splits)
  qed simp
  then show ?thesis using l by (auto simp: check_aliases_ok)
qed

text \<open>Resolution leaves only concrete limits when it starts from validated locations, keeps every
  explicit limit, never gives \<open>limit: max\<close> more than the device's capacity, and returns canonical paths
  that are pairwise different, so no directory is budgeted twice.\<close>

theorem resolve_all_limits_sound:
  assumes "resolve_all_limits can st cfg = Inr cfg'"
  shows "map sl_path (cfg_storage cfg') = map (canonical can \<circ> sl_path) (cfg_storage cfg) \<and>
    distinct (map sl_path (cfg_storage cfg')) \<and>
    list_all2 (\<lambda>loc l. case sl_limit loc of
        All \<Rightarrow> (\<exists>acc b. device_total_bytes st (sl_path l) = Some acc \<and> sl_limit l = Bytes b \<and> b \<le> acc)
      | _ \<Rightarrow> sl_limit l = sl_limit loc) (cfg_storage cfg) (cfg_storage cfg')"
  using assms by (rule resolve_all_limits_spec)

theorem resolve_all_limits_sound_witness:
  "distinct (map sl_path (cfg_storage (case resolve_all_limits (\<lambda>_. None) (\<lambda>_. Some (10, 100, 4096))
     (sample_config\<lparr>cfg_storage := [\<lparr>sl_path = ''/a'', sl_limit = Bytes 7\<rparr>]\<rparr>) of
       Inr c \<Rightarrow> c | Inl _ \<Rightarrow> sample_config)))"
proof -
  let ?c = "sample_config\<lparr>cfg_storage := [\<lparr>sl_path = ''/a'', sl_limit = Bytes 7\<rparr>]\<rparr>"
  have "resolve_all_limits (\<lambda>_. None) (\<lambda>_. Some (10, 100, 4096)) ?c = Inr ?c"
    by (simp add: resolve_all_limits_def resolve_location_def canonical_def Let_def)
  from resolve_all_limits_sound [OF this] this show ?thesis by simp
qed

end
