(* ===== verification/Hex.thy ===== *)
theory Hex
  imports Text
begin

text \<open>
  Info hashes.  The program carries a hash as 20 bytes and keys every map on its lowercase hex form;
  the model keeps the hex form throughout, and this theory relates the two: the \<open>hex\<close> crate's
  documented \<open>encode\<close> and \<open>decode\<close>, and \<open>decode_hash\<close> of \<open>src/engine/scan.rs\<close>.
\<close>

section \<open>Definitions\<close>

definition hex_digit :: "nat \<Rightarrow> char" where
  "hex_digit d = (if d < 10 then char_of (48 + d) else char_of (87 + d))"

definition hex_val :: "char \<Rightarrow> nat option" where
  "hex_val c = (if is_ascii_digit c then Some (code c - 48)
                else if 97 \<le> code c \<and> code c \<le> 102 then Some (code c - 87)
                else if 65 \<le> code c \<and> code c \<le> 70 then Some (code c - 55) else None)"

fun hex_encode :: "nat list \<Rightarrow> string" where
  "hex_encode [] = []"
| "hex_encode (b # bs) = hex_digit (b div 16) # hex_digit (b mod 16) # hex_encode bs"

fun hex_decode :: "string \<Rightarrow> nat list option" where
  "hex_decode [] = Some []"
| "hex_decode [c] = None"
| "hex_decode (c # d # s) =
     (case (hex_val c, hex_val d, hex_decode s) of
        (Some h, Some l, Some bs) \<Rightarrow> Some ((16 * h + l) # bs)
      | _ \<Rightarrow> None)"

definition decode_hash :: "string \<Rightarrow> nat list option" where
  "decode_hash s = (case hex_decode (trim s) of
      Some b \<Rightarrow> if length b = 20 then Some b else None
    | None \<Rightarrow> None)"

text \<open>A hex string the program itself produced: forty lowercase digits.\<close>

definition is_hash_hex :: "string \<Rightarrow> bool" where
  "is_hash_hex s \<longleftrightarrow> (\<exists>b. length b = 20 \<and> list_all (\<lambda>x. x < 256) b \<and> s = hex_encode b)"

section \<open>Lemmas\<close>

lemma hex_val_digit [simp]: "d < 16 \<Longrightarrow> hex_val (hex_digit d) = Some d"
  by (auto simp: hex_val_def hex_digit_def is_ascii_digit_def code_def)

lemma hex_val_lt: "hex_val c = Some d \<Longrightarrow> d < 16"
  by (auto simp: hex_val_def is_ascii_digit_def split: if_splits)

lemma hex_decode_encode: "list_all (\<lambda>x. x < 256) b \<Longrightarrow> hex_decode (hex_encode b) = Some b"
  by (induction b) (auto simp: mult.commute)

lemma hex_decode_bytes: "hex_decode s = Some b \<Longrightarrow> list_all (\<lambda>x. x < 256) b"
proof (induction s arbitrary: b rule: hex_decode.induct)
  case (3 c d s)
  then show ?case using hex_val_lt [of c] hex_val_lt [of d] by (fastforce split: option.splits)
qed auto

lemma length_hex_encode [simp]: "length (hex_encode b) = 2 * length b"
  by (induction b) auto

lemma hex_digit_not_ws: "d < 16 \<Longrightarrow> \<not> is_whitespace (hex_digit d)"
  by (auto simp: hex_digit_def is_whitespace_def code_def)

lemma hex_encode_no_ws: "list_all (\<lambda>x. x < 256) b \<Longrightarrow> list_all (\<lambda>c. \<not> is_whitespace c) (hex_encode b)"
  by (induction b) (auto simp: hex_digit_not_ws)

lemma trim_no_ws:
  assumes "list_all (\<lambda>c. \<not> is_whitespace c) s" shows "trim s = s"
proof -
  have "dropWhile is_whitespace xs = xs" if "list_all (\<lambda>c. \<not> is_whitespace c) xs" for xs
    using that by (cases xs) auto
  from this [of s] this [of "rev s"] show ?thesis using assms by (simp add: trim_def)
qed

lemma decode_hash_encode: "length b = 20 \<Longrightarrow> list_all (\<lambda>x. x < 256) b \<Longrightarrow> decode_hash (hex_encode b) = Some b"
  by (simp add: decode_hash_def hex_decode_encode trim_no_ws hex_encode_no_ws)

lemma decode_hash_is_hash: "decode_hash s = Some b \<Longrightarrow> is_hash_hex (hex_encode b)"
  using hex_decode_bytes [of "trim s"]
  by (auto simp: decode_hash_def is_hash_hex_def split: option.splits if_splits)

lemma is_hash_decodes: "is_hash_hex s \<Longrightarrow> \<exists>b. decode_hash s = Some b \<and> hex_encode b = s"
  by (auto simp: is_hash_hex_def decode_hash_encode)

end
