(* ===== verification/Catalog.thy ===== *)
theory Catalog
  imports Hex Humanize
begin

text \<open>
  \<open>src/atcatalog.rs\<close>: the parse of the catalog feed into items, and the cached fetch.  The XML decoder
  is third-party: a document arrives decoded, \<open>None\<close> when it does not decode.  What the file system
  and the network answer are arguments; the last component of the fetch's result says whether the cache
  file is rewritten.
\<close>

section \<open>Definitions\<close>

record rss_item =
  rss_title :: string
  rss_category :: string
  rss_infohash :: string
  rss_guid :: string
  rss_link :: string
  rss_description :: string
  rss_size :: nat

record item =
  it_title :: string
  it_category :: string
  it_info_hash :: string
  it_guid :: string
  it_link :: string
  it_description :: string
  it_size_bytes :: nat

text \<open>One row; a bad infohash skips it.\<close>

definition parse_item :: "rss_item \<Rightarrow> item option" where
  "parse_item raw = (case hex_decode (trim (rss_infohash raw)) of
      Some b \<Rightarrow> if length b = 20
                then Some \<lparr>it_title = sanitize_title (rss_title raw), it_category = rss_category raw,
                           it_info_hash = hex_encode b, it_guid = rss_guid raw, it_link = rss_link raw,
                           it_description = rss_description raw, it_size_bytes = rss_size raw\<rparr>
                else None
    | None \<Rightarrow> None)"

definition catalog_parse :: "rss_item list option \<Rightarrow> item list result" where
  "catalog_parse doc = (case doc of
      None \<Rightarrow> Inl ''decoding database.xml''
    | Some rows \<Rightarrow> Inr (List.map_filter parse_item rows))"

text \<open>\<open>fetch_raw\<close>: transport error, an error status, an unreadable body, or a body.\<close>

datatype http_reply = HttpSendFailed | HttpStatus nat | HttpBodyFailed | HttpBody "rss_item list option"

definition fetch_raw :: "http_reply \<Rightarrow> rss_item list option result" where
  "fetch_raw r = (case r of
      HttpSendFailed \<Rightarrow> Inl ''fetching''
    | HttpStatus n \<Rightarrow> Inl (''returned '' @ show_nat n)
    | HttpBodyFailed \<Rightarrow> Inl ''reading database.xml''
    | HttpBody doc \<Rightarrow> Inr doc)"

definition usable_cache :: "rss_item list option option \<Rightarrow> item list option" where
  "usable_cache c = (case c of Some doc \<Rightarrow> ok (catalog_parse doc) | None \<Rightarrow> None)"

text \<open>\<open>Fetcher::load\<close>: \<open>age\<close> is the cache file's age when it has one, \<open>cached\<close> what reading the file
  gives (\<open>None\<close> an error), before and after the fetch attempt.\<close>

definition catalog_load :: "duration \<Rightarrow> duration option \<Rightarrow> rss_item list option option \<Rightarrow> http_reply \<Rightarrow>
    rss_item list option option \<Rightarrow> (item list \<times> bool) result \<times> bool" where
  "catalog_load max_age age cached reply cached_later =
     (let stale = (case age of Some a \<Rightarrow> max_age < a | None \<Rightarrow> True)
      in case (if stale then None else usable_cache cached) of
           Some items \<Rightarrow> (Inr (items, False), False)
         | None \<Rightarrow>
             (case fetch_raw reply of
                Inr doc \<Rightarrow> (case catalog_parse doc of
                    Inr items \<Rightarrow> (Inr (items, True), True)
                  | Inl e \<Rightarrow> (Inl e, False))
              | Inl e \<Rightarrow> (case usable_cache cached_later of
                    Some items \<Rightarrow> (Inr (items, False), False)
                  | None \<Rightarrow> (Inl e, False))))"

definition wf_item :: "item \<Rightarrow> bool" where
  "wf_item it \<longleftrightarrow> is_hash_hex (it_info_hash it) \<and> it_title it = sanitize_title (it_title it)"

section \<open>Lemmas\<close>

lemma sanitize_idem: "sanitize_title (sanitize_title s) = sanitize_title s"
  by (simp add: sanitize_title_def)

lemma parse_item_wf: "parse_item raw = Some it \<Longrightarrow> wf_item it"
  using decode_hash_is_hash [of "rss_infohash raw"]
  by (auto simp: parse_item_def wf_item_def decode_hash_def sanitize_idem split: option.splits if_splits)

lemma catalog_parse_wf: "catalog_parse doc = Inr items \<Longrightarrow> list_all wf_item items"
  by (auto simp: catalog_parse_def list_all_iff List.map_filter_def parse_item_wf split: option.splits)

lemma usable_cacheD:
  "usable_cache c = Some items \<Longrightarrow> list_all wf_item items \<and> (\<exists>doc. c = Some doc \<and> catalog_parse doc = Inr items)"
  by (auto simp: usable_cache_def catalog_parse_wf split: option.splits)

section \<open>Properties\<close>

text \<open>Loading the catalog: a document comes back fresh only from a successful fetch, otherwise from a
  cache file that parses; the load fails only when the fetch fails and no cache parses, or when the
  fetched document itself does not decode; and every item it returns has a forty-digit lowercase hash and
  a control-free title, whatever the feed contained.\<close>

theorem catalog_load_contract:
  "(case fst (catalog_load max_age age cached reply cached_later) of
      Inr (items, fresh) \<Rightarrow> list_all wf_item items \<and>
        (\<exists>doc. catalog_parse doc = Inr items \<and>
           (fresh \<and> reply = HttpBody doc \<or> \<not> fresh \<and> (cached = Some doc \<or> cached_later = Some doc)))
    | Inl _ \<Rightarrow> (\<exists>e. fetch_raw reply = Inl e) \<or> reply = HttpBody None) \<and>
   snd (catalog_load max_age age cached reply cached_later) =
     (case fst (catalog_load max_age age cached reply cached_later) of Inr (_, fresh) \<Rightarrow> fresh | Inl _ \<Rightarrow> False)"
proof -
  let ?stale = "case age of Some a \<Rightarrow> max_age < a | None \<Rightarrow> True"
  show ?thesis
  proof (cases "if ?stale then None else usable_cache cached")
    case (Some items)
    then have "usable_cache cached = Some items" by (auto split: if_splits)
    with Some show ?thesis using usable_cacheD by (fastforce simp: catalog_load_def)
  next
    case none: None
    show ?thesis
    proof (cases "fetch_raw reply")
      case (Inl e)
      show ?thesis
      proof (cases "usable_cache cached_later")
        case None
        with none Inl show ?thesis by (simp add: catalog_load_def)
      next
        case (Some items)
        with none Inl usable_cacheD [OF Some] show ?thesis by (auto simp: catalog_load_def)
      qed
    next
      case (Inr doc)
      then have r: "reply = HttpBody doc" by (auto simp: fetch_raw_def split: http_reply.splits)
      show ?thesis
      proof (cases "catalog_parse doc")
        case (Inl e)
        then have "doc = None" by (cases doc) (auto simp: catalog_parse_def)
        with none Inl Inr r show ?thesis by (simp add: catalog_load_def)
      next
        case (Inr items)
        then have "list_all wf_item items" by (rule catalog_parse_wf)
        with none Inr \<open>fetch_raw reply = Inr doc\<close> r show ?thesis by (auto simp: catalog_load_def)
      qed
    qed
  qed
qed

end
