(* ===== verification/Atkey.thy ===== *)
theory Atkey
  imports Text
begin

text \<open>
  \<open>src/atkey.rs\<close>: which tracker URLs may receive the operator's keyed announce URL, and how a tracker
  list is filtered down to Academic Torrents' own hosts.

  The \<open>url\<close> crate is not part of the sources: \<open>parse\<close> (its \<open>Url::parse\<close>) and \<open>set_host\<close> (setting
  a host and printing the result) are arguments of the definitions that use them.
\<close>

section \<open>Definitions\<close>

record url =
  u_scheme :: string
  u_host :: "string option"

type_synonym url_parser = "string \<Rightarrow> url option"

definition AT_HOST :: string where "AT_HOST = ''academictorrents.com''"
definition AT_HOST6 :: string where "AT_HOST6 = ''ipv6.academictorrents.com''"

text \<open>What the HTTP call to the user-announce endpoint gives: a transport error, a status with a body
  that decodes (with the \<open>userannounce\<close> field, empty when missing) or does not.\<close>

datatype announce_reply = SendFailed | BodyFailed | Reply bool "string option"

definition upgrade_to_ipv6_host :: "url_parser \<Rightarrow> (string \<Rightarrow> string \<Rightarrow> string option) \<Rightarrow> string \<Rightarrow> string" where
  "upgrade_to_ipv6_host parse set_host url =
     (case parse url of
        Some u \<Rightarrow> if u_host u = Some AT_HOST
                  then (case set_host url AT_HOST6 of Some s \<Rightarrow> s | None \<Rightarrow> [])
                  else []
      | None \<Rightarrow> [])"

definition resolve_user_announce :: "url_parser \<Rightarrow> (string \<Rightarrow> string \<Rightarrow> string option) \<Rightarrow> announce_reply \<Rightarrow>
    (string \<times> string) result" where
  "resolve_user_announce parse set_host reply = (case reply of
      SendFailed \<Rightarrow> Inl ''fetching user announce URL''
    | BodyFailed \<Rightarrow> Inl ''reading userannounce response''
    | Reply success body \<Rightarrow>
        if \<not> success then Inl ''userannounce endpoint returned''
        else (case body of
                None \<Rightarrow> Inl ''parsing userannounce response''
              | Some a \<Rightarrow> if a = [] then Inl ''userannounce response had no announce URL''
                          else Inr (a, upgrade_to_ipv6_host parse set_host a)))"

definition at_announce_url :: "url_parser \<Rightarrow> string \<Rightarrow> string \<Rightarrow> string \<Rightarrow> string option" where
  "at_announce_url parse announce user_announce user_announce_ipv6 =
     (case parse announce of
        None \<Rightarrow> None
      | Some u \<Rightarrow>
          if u_scheme u \<noteq> ''https'' then None
          else case u_host u of
                 None \<Rightarrow> None
               | Some h \<Rightarrow> if h = AT_HOST \<and> user_announce \<noteq> [] then Some user_announce
                           else if h = AT_HOST6 \<and> user_announce_ipv6 \<noteq> [] then Some user_announce_ipv6
                           else None)"

definition keyed_trackers :: "url_parser \<Rightarrow> string list list \<Rightarrow> string \<Rightarrow> string \<Rightarrow> string list list" where
  "keyed_trackers parse tiers ua ua6 =
     (if ua = [] then tiers
      else map (map (\<lambda>t. case at_announce_url parse t ua ua6 of Some k \<Rightarrow> k | None \<Rightarrow> t)) tiers)"

definition is_at_tracker_url :: "url_parser \<Rightarrow> string \<Rightarrow> bool" where
  "is_at_tracker_url parse s =
     (case parse s of
        Some u \<Rightarrow> (case u_host u of
            Some h \<Rightarrow> eq_ignore_ascii_case h AT_HOST \<or> ends_with (map to_ascii_lower h) (''.'' @ AT_HOST)
          | None \<Rightarrow> False)
      | None \<Rightarrow> False)"

definition at_trackers_only :: "url_parser \<Rightarrow> string list list \<Rightarrow> string \<Rightarrow> string \<Rightarrow> string list list" where
  "at_trackers_only parse tiers ua ua6 =
     (let found = list_ex (\<lambda>t. at_announce_url parse t ua ua \<noteq> None \<or> is_at_tracker_url parse t) (concat tiers)
      in if \<not> found then tiers
         else List.map_filter (\<lambda>tier.
                let kept = List.map_filter (\<lambda>t. if is_at_tracker_url parse t
                             then Some (case at_announce_url parse t ua ua6 of Some k \<Rightarrow> k | None \<Rightarrow> t)
                             else None) tier
                in if kept = [] then None else Some kept) tiers)"

section \<open>Lemmas\<close>

lemma at_announce_url_host:
  "at_announce_url parse t ua ua6 = Some k \<Longrightarrow>
   \<exists>u. parse t = Some u \<and> u_scheme u = ''https'' \<and> k \<noteq> [] \<and>
     (u_host u = Some AT_HOST \<and> k = ua \<or> u_host u = Some AT_HOST6 \<and> k = ua6)"
  by (auto simp: at_announce_url_def split: option.splits if_splits)

lemma AT_HOST6_suffix: "ends_with (map to_ascii_lower AT_HOST6) (''.'' @ AT_HOST)"
proof -
  have "map to_ascii_lower AT_HOST6 = ''ipv6'' @ ''.'' @ AT_HOST" unfolding AT_HOST6_def AT_HOST_def by code_simp
  then show ?thesis unfolding ends_with_def by (simp only:) (rule suffixI, rule refl)
qed

lemma at_announce_url_at_tracker:
  assumes "at_announce_url parse t ua ua6 = Some k" shows "is_at_tracker_url parse t"
  using at_announce_url_host [OF assms] AT_HOST6_suffix
  by (auto simp: is_at_tracker_url_def eq_ignore_ascii_case_def)

lemma concat_map_filter_nonempty:
  "concat (List.map_filter (\<lambda>x. let k = g x in if k = [] then None else Some k) xs) = concat (map g xs)"
  by (induction xs) (auto simp: List.map_filter_simps Let_def)

lemma at_trackers_only_concat:
  "concat (at_trackers_only parse tiers ua ua6) =
     (if list_ex (is_at_tracker_url parse) (concat tiers)
      then map (\<lambda>t. case at_announce_url parse t ua ua6 of Some k \<Rightarrow> k | None \<Rightarrow> t)
             (filter (is_at_tracker_url parse) (concat tiers))
      else concat tiers)"
proof -
  let ?k = "\<lambda>t. case at_announce_url parse t ua ua6 of Some k \<Rightarrow> k | None \<Rightarrow> t"
  have ex: "list_ex (\<lambda>t. at_announce_url parse t ua ua \<noteq> None \<or> is_at_tracker_url parse t) xs =
      list_ex (is_at_tracker_url parse) xs" for xs
    using at_announce_url_at_tracker by (fastforce simp: list_ex_iff)
  have f: "List.map_filter (\<lambda>t. if is_at_tracker_url parse t then Some (?k t) else None) xs =
      map ?k (filter (is_at_tracker_url parse) xs)" for xs
    by (induction xs) (auto simp: List.map_filter_simps)
  have "concat (map (\<lambda>tier. map ?k (filter (is_at_tracker_url parse) tier)) tiers) =
      map ?k (filter (is_at_tracker_url parse) (concat tiers))"
    by (induction tiers) auto
  then show ?thesis
    using concat_map_filter_nonempty [of "\<lambda>tier. map ?k (filter (is_at_tracker_url parse) tier)" tiers]
    unfolding at_trackers_only_def ex f by (simp add: Let_def)
qed

section \<open>Properties\<close>

text \<open>The keyed announce URL replaces nothing but an \<open>https\<close> URL on exactly one of the two Academic
  Torrents hosts, and the URL handed out is the one of that host.\<close>

theorem at_announce_url_contract:
  "at_announce_url parse t ua ua6 = Some k \<longleftrightarrow>
   (\<exists>u. parse t = Some u \<and> u_scheme u = ''https'' \<and>
      (u_host u = Some AT_HOST \<and> ua \<noteq> [] \<and> k = ua \<or> u_host u = Some AT_HOST6 \<and> ua6 \<noteq> [] \<and> k = ua6))"
proof -
  have "AT_HOST \<noteq> AT_HOST6" by (simp add: AT_HOST_def AT_HOST6_def)
  then show ?thesis by (auto simp: at_announce_url_def split: option.splits if_splits)
qed

text \<open>The announce list given to the session: in the order of the metainfo it is the Academic Torrents
  trackers, each keyed when the contract above allows it, and nothing else; only a torrent that lists no
  Academic Torrents tracker at all keeps its own list, unkeyed.  So a tracker that is not an Academic
  Torrents host never receives the key.\<close>

theorem at_trackers_only_exact:
  "concat (at_trackers_only parse tiers ua ua6) =
     (let own = filter (is_at_tracker_url parse) (concat tiers)
      in if own = [] then concat tiers
         else map (\<lambda>t. case at_announce_url parse t ua ua6 of Some k \<Rightarrow> k | None \<Rightarrow> t) own)"
proof -
  have "list_ex P xs \<longleftrightarrow> filter P xs \<noteq> []" for P and xs :: "string list"
    by (auto simp: list_ex_iff filter_empty_conv)
  then show ?thesis by (simp add: at_trackers_only_concat Let_def)
qed

end
