(* ===== verification/Attorrent.thy ===== *)
theory Attorrent
  imports Hex
begin

text \<open>
  \<open>src/attorrent.rs\<close>: the metadata kept of a \<open>.torrent\<close> file, the repair of tracker URLs that leak
  trailing bencode, the scrape URL and the decoding of a scrape response.

  \<open>librqbit\<close>'s metainfo and bencode parsers are third-party: their results are the types
  \<open>metainfo\<close> and \<open>bencode\<close>.  A byte string is a \<open>string\<close>, one character per byte.
\<close>

section \<open>Definitions\<close>

record swarm_counts =
  sw_seeders :: nat
  sw_leechers :: nat
  sw_completed :: nat

record torrent_meta =
  md_info_hash :: string
  md_trackers :: "string list"
  md_created_at :: "instant option"
  md_total_length :: nat
  md_piece_count :: nat
  md_file_count :: nat
  md_name :: string

text \<open>What the metainfo parser gives: the announce URLs as raw byte strings, one flag per file saying
  whether it is padding, and \<open>None\<close> for an info dictionary that does not validate.\<close>

record metainfo =
  mi_info_hash :: string
  mi_announce :: "string list"
  mi_creation_date :: "instant option"
  mi_validated :: "(nat \<times> nat \<times> bool list \<times> string option) option"

definition is_ascii_alphanumeric :: "char \<Rightarrow> bool" where
  "is_ascii_alphanumeric c \<longleftrightarrow> is_ascii_digit c \<or> (65 \<le> code c \<and> code c \<le> 90) \<or> (97 \<le> code c \<and> code c \<le> 122)"

definition scheme_char :: "char \<Rightarrow> bool" where
  "scheme_char c \<longleftrightarrow> is_ascii_alphanumeric c \<or> c \<in> {CHR ''+'', CHR ''-'', CHR ''.''}"

definition is_url :: "string \<Rightarrow> bool" where
  "is_url s \<longleftrightarrow> (let i = length (takeWhile scheme_char s)
                 in i \<noteq> 0 \<and> take 3 (drop i s) = ''://'' \<and> i + 3 < length s)"

definition printable :: "char \<Rightarrow> bool" where
  "printable c \<longleftrightarrow> 0x21 \<le> code c \<and> code c \<le> 0x7e"

text \<open>\<open>windows(3).position(|w| w == "://")\<close>.\<close>

fun find_sub :: "string \<Rightarrow> string \<Rightarrow> nat option" where
  "find_sub pat [] = (if pat = [] then Some 0 else None)"
| "find_sub pat (c # s) = (if prefix pat (c # s) then Some 0 else map_option Suc (find_sub pat s))"

definition auth_end :: "string \<Rightarrow> nat" where
  "auth_end raw = (case find_sub ''://'' raw of
      None \<Rightarrow> 0
    | Some p \<Rightarrow> p + 3 + length (takeWhile (\<lambda>c. c \<noteq> CHR ''/'') (drop (p + 3) raw)))"

function run_end :: "string \<Rightarrow> nat \<Rightarrow> nat \<Rightarrow> nat" where
  "run_end raw e j = (if j < e \<and> is_ascii_digit (raw ! j) then run_end raw e (j + 1) else j)"
  by pat_completeness auto
termination
  by (relation "measure (\<lambda>(raw, e, j). e - j)") auto

declare run_end.simps [simp del]

lemma run_end_ge: "j \<le> run_end raw e j"
proof (induction raw e j rule: run_end.induct)
  case (1 raw e j)
  then show ?case by (subst run_end.simps) (auto dest: Suc_leD)
qed

lemma run_end_gt: "j < e \<Longrightarrow> is_ascii_digit (raw ! j) \<Longrightarrow> j < run_end raw e j"
  using run_end_ge [of "j + 1" raw e] by (subst run_end.simps) auto

text \<open>The search for a leaked \<open><digits>:\<close> run after a complete URL; the result is the new end.\<close>

function leak_end :: "string \<Rightarrow> nat \<Rightarrow> nat \<Rightarrow> nat" where
  "leak_end raw e i =
     (if i < e then
        if is_ascii_digit (raw ! i) then
          let j = run_end raw e i
          in if j < e \<and> raw ! j = CHR '':'' \<and> i < j \<and> auth_end raw \<le> i
             then (if is_url (take i raw) then i else leak_end raw e (j + 1))
             else leak_end raw e j
        else leak_end raw e (i + 1)
      else e)"
  by pat_completeness auto
termination
proof (relation "measure (\<lambda>(raw, e, i). e - i)", goal_cases)
  case (2 raw e i j)
  then show ?case using run_end_ge [of i raw e] by auto
next
  case (3 raw e i j)
  then show ?case using run_end_gt [of i e raw] by auto
qed auto

declare leak_end.simps [simp del]

definition rposition :: "char \<Rightarrow> string \<Rightarrow> nat option" where
  "rposition c s = (case dropWhile (\<lambda>d. d \<noteq> c) (rev s) of [] \<Rightarrow> None | _ # r \<Rightarrow> Some (length r))"

lemma rposition_lt: "rposition c s = Some p \<Longrightarrow> p < length s"
  using length_dropWhile_le [of "\<lambda>d. d \<noteq> c" "rev s"] by (auto simp: rposition_def split: list.splits)

text \<open>The final loop: back off to the previous slash until what is left is a URL.\<close>

function back_off :: "string \<Rightarrow> nat \<Rightarrow> string" where
  "back_off raw e =
     (if e = 0 then []
      else if is_url (take e raw) then take e raw
      else case rposition (CHR ''/'') (take (e - 1) raw) of
             Some p \<Rightarrow> back_off raw p
           | None \<Rightarrow> [])"
  by pat_completeness auto
termination
  by (relation "measure snd") (auto dest!: rposition_lt)

declare back_off.simps [simp del]

definition trunc_url :: "string \<Rightarrow> string" where
  "trunc_url raw = (let e = length (takeWhile printable raw) in back_off raw (leak_end raw e 0))"

fun add_tracker :: "string list \<Rightarrow> string list \<Rightarrow> string list" where
  "add_tracker [] acc = acc"
| "add_tracker (raw # raws) acc =
     (let s = trunc_url raw in add_tracker raws (if s \<noteq> [] \<and> s \<notin> set acc then acc @ [s] else acc))"

definition parse_torrent_bytes :: "metainfo option \<Rightarrow> torrent_meta result" where
  "parse_torrent_bytes body = (case body of
      None \<Rightarrow> Inl ''parsing torrent file''
    | Some meta \<Rightarrow>
        (case mi_validated meta of
           None \<Rightarrow> Inl ''validating torrent info''
         | Some (total_length, pieces, paddings, name) \<Rightarrow>
             Inr \<lparr>md_info_hash = mi_info_hash meta, md_trackers = add_tracker (mi_announce meta) [],
                  md_created_at = mi_creation_date meta, md_total_length = total_length,
                  md_piece_count = pieces,
                  md_file_count = min (length (filter (\<lambda>p. \<not> p) paddings)) u32_max,
                  md_name = (case name of
                      Some n \<Rightarrow> if n = [] then mi_info_hash meta else n
                    | None \<Rightarrow> mi_info_hash meta)\<rparr>))"

definition derive_http_scrape_url :: "string \<Rightarrow> string option" where
  "derive_http_scrape_url announce_url = (case rposition (CHR ''/'') announce_url of
      None \<Rightarrow> None
    | Some slash \<Rightarrow>
        (let base = take (slash + 1) announce_url; segment = drop (slash + 1) announce_url
         in case find_sub ''announce'' segment of
              None \<Rightarrow> None
            | Some i \<Rightarrow> Some (base @ take i segment @ ''scrape'' @ drop (i + 8) segment)))"

datatype bencode = BInt int | BBytes string | BList "bencode list" | BDict "(string \<times> bencode) list"

definition bget :: "(string \<times> bencode) list \<Rightarrow> string \<Rightarrow> nat" where
  "bget d name = (case map_of d name of
      Some (BInt i) \<Rightarrow> if 0 \<le> i \<and> i \<le> int u32_max then nat i else 0
    | _ \<Rightarrow> 0)"

fun find_entry :: "string \<Rightarrow> (string \<times> bencode) list \<Rightarrow> (string \<times> bencode) list option" where
  "find_entry h [] = None"
| "find_entry h ((k, f) # rest) =
     (if k \<noteq> h then find_entry h rest
      else case f of BDict d \<Rightarrow> Some d | _ \<Rightarrow> find_entry h rest)"

definition decode_scrape_response :: "bencode option \<Rightarrow> string \<Rightarrow> swarm_counts result" where
  "decode_scrape_response body info_hash = (case body of
      None \<Rightarrow> Inl ''decoding scrape response''
    | Some (BDict dict) \<Rightarrow>
        (case map_of dict ''files'' of
           Some (BDict files) \<Rightarrow>
             (case find_entry info_hash files of
                Some d \<Rightarrow> Inr \<lparr>sw_seeders = bget d ''complete'', sw_leechers = bget d ''incomplete'',
                              sw_completed = bget d ''downloaded''\<rparr>
              | None \<Rightarrow> Inl ''scrape response had no entry for the requested hash'')
         | _ \<Rightarrow> Inl ''scrape response has no files dict'')
    | Some _ \<Rightarrow> Inl ''scrape response is not a dict'')"

text \<open>\<open>scrape_http\<close>: one hash for each request, its bytes percent-encoded with upper-case digits.  The reply of the HTTP
  client is an argument.\<close>

definition hex_digit_upper :: "nat \<Rightarrow> char" where
  "hex_digit_upper d = (if d < 10 then char_of (48 + d) else char_of (55 + d))"

fun percent_encode :: "nat list \<Rightarrow> string" where
  "percent_encode [] = []"
| "percent_encode (b # bs) = CHR ''%'' # hex_digit_upper (b div 16) # hex_digit_upper (b mod 16) # percent_encode bs"

datatype scrape_http_reply = ScrapeSendFailed | ScrapeStatus nat | ScrapeBodyFailed | ScrapeBody "bencode option"

definition scrape_http :: "(string \<Rightarrow> scrape_http_reply) \<Rightarrow> string \<Rightarrow> nat list \<Rightarrow> swarm_counts result" where
  "scrape_http get announce_url info_hash = (case derive_http_scrape_url announce_url of
      None \<Rightarrow> Inl ''tracker does not follow the announce/scrape URL convention''
    | Some scrape_url \<Rightarrow>
        (case get (scrape_url @ ''?info_hash='' @ percent_encode info_hash) of
           ScrapeSendFailed \<Rightarrow> Inl (''scrape request to '' @ scrape_url)
         | ScrapeStatus n \<Rightarrow> Inl (''scrape '' @ scrape_url @ '' returned '' @ show_nat n)
         | ScrapeBodyFailed \<Rightarrow> Inl ''reading scrape response''
         | ScrapeBody body \<Rightarrow> decode_scrape_response body (map char_of info_hash)))"

section \<open>Lemmas\<close>

lemma leak_end_le: "leak_end raw e i \<le> e"
proof (induction raw e i rule: leak_end.induct)
  case (1 raw e i)
  then show ?case by (subst leak_end.simps) (auto simp: Let_def)
qed

lemma back_off_prefix: "prefix (back_off raw e) (take e raw)"
proof (induction raw e rule: back_off.induct)
  case (1 raw e)
  show ?case
  proof (cases "rposition (CHR ''/'') (take (e - 1) raw)")
    case (Some p)
    then have "p < e" using rposition_lt [OF Some] by (simp add: less_diff_conv)
    then have "prefix (take p raw) (take e raw)" by (metis less_imp_le min.absorb1 take_is_prefix take_take)
    with 1 Some show ?thesis by (subst back_off.simps) (auto intro: prefix_order.trans)
  qed (subst back_off.simps, simp)
qed

lemma back_off_url: "back_off raw e = [] \<or> is_url (back_off raw e)"
proof (induction raw e rule: back_off.induct)
  case (1 raw e)
  then show ?case unfolding back_off.simps [of raw e] by (auto split: option.splits)
qed

lemma trunc_url_prefix: "prefix (trunc_url raw) (takeWhile printable raw)"
proof -
  let ?e = "length (takeWhile printable raw)"
  have "take n raw = take n (takeWhile printable raw)" if "n \<le> ?e" for n
    using that by (metis takeWhile_dropWhile_id append_Nil2 diff_is_0_eq take0 take_append)
  then have "prefix (take (leak_end raw ?e 0) raw) (takeWhile printable raw)"
    using leak_end_le [of raw ?e 0] by (metis take_is_prefix)
  then show ?thesis
    using back_off_prefix [of raw "leak_end raw ?e 0"] by (auto simp: trunc_url_def Let_def intro: prefix_order.trans)
qed

lemma add_tracker_distinct: "distinct acc \<Longrightarrow> distinct (add_tracker raws acc)"
  by (induction raws acc rule: add_tracker.induct) (auto simp: Let_def)

lemma add_tracker_mem: "set (add_tracker raws acc) = set acc \<union> (trunc_url ` set raws - {[]})"
  by (induction raws acc rule: add_tracker.induct) (auto simp: Let_def)

lemma find_sub_Some:
  "find_sub pat s = Some i \<Longrightarrow> s = take i s @ pat @ drop (i + length pat) s"
proof (induction pat s arbitrary: i rule: find_sub.induct)
  case (2 pat c s)
  show ?case
  proof (cases "prefix pat (c # s)")
    case True
    then have "c # s = pat @ drop (length pat) (c # s)" by (metis append_eq_conv_conj prefixE)
    then show ?thesis using 2(2) True by simp
  next
    case False
    then obtain j where "find_sub pat s = Some j" "i = Suc j" using 2(2) by auto
    with 2(1) False show ?thesis by auto
  qed
qed (auto split: if_splits)

lemma rposition_split:
  assumes "rposition c s = Some p"
  shows "s = take p s @ [c] @ drop (p + 1) s \<and> c \<notin> set (drop (p + 1) s)"
proof -
  let ?n = "\<lambda>d. d \<noteq> c"
  obtain d r where d: "dropWhile ?n (rev s) = d # r" "p = length r"
    using assms by (auto simp: rposition_def split: list.splits)
  then have "d = c" using hd_dropWhile [of ?n "rev s"] by simp
  with d have r: "dropWhile ?n (rev s) = c # r" "p = length r" by simp_all
  have "rev s = takeWhile ?n (rev s) @ c # r" using r(1) by (metis takeWhile_dropWhile_id)
  then have s: "s = rev r @ c # rev (takeWhile ?n (rev s))" by (metis rev_append rev_rev_ident rev.simps(2) append_assoc append_Cons append_Nil)
  have "c \<notin> set (takeWhile ?n (rev s))" by (metis (full_types) set_takeWhileD)
  moreover have "take p s = rev r" "drop (p + 1) s = rev (takeWhile ?n (rev s))"
    using arg_cong [OF s, of "take p"] arg_cong [OF s, of "drop (p + 1)"] r(2) by simp_all
  ultimately show ?thesis using s by simp
qed

section \<open>Properties\<close>

text \<open>The tracker URL repair returns a prefix of the raw bytes made of printable ASCII only, which is
  either empty or a URL with a scheme and a non-empty rest; so the tracker list of a parsed torrent holds
  distinct, printable URLs whatever bytes leaked into the file.\<close>

theorem trunc_url_sound:
  "prefix (trunc_url raw) raw \<and> list_all printable (trunc_url raw) \<and>
   (trunc_url raw = [] \<or> is_url (trunc_url raw)) \<and>
   (case parse_torrent_bytes body of
      Inr md \<Rightarrow> distinct (md_trackers md) \<and> list_all (\<lambda>s. is_url s \<and> list_all printable s) (md_trackers md)
    | Inl _ \<Rightarrow> True)"
proof -
  have p: "prefix (trunc_url raw) raw" for raw
    using trunc_url_prefix [of raw] by (metis prefix_order.trans takeWhile_is_prefix)
  have c: "list_all printable (trunc_url raw)" for raw
    using trunc_url_prefix [of raw] set_mono_prefix [OF trunc_url_prefix, of raw]
    by (auto simp: list_all_iff dest: set_takeWhileD)
  have u: "trunc_url raw = [] \<or> is_url (trunc_url raw)" for raw by (simp add: trunc_url_def Let_def back_off_url)
  have "distinct (add_tracker raws [])" "list_all (\<lambda>s. is_url s \<and> list_all printable s) (add_tracker raws [])" for raws
    using u c by (auto simp: add_tracker_distinct list_all_iff add_tracker_mem)
  with p c u show ?thesis by (auto simp: parse_torrent_bytes_def split: option.splits)
qed

text \<open>The scrape URL is the announce URL with one occurrence of \<open>announce\<close> in its last path segment
  replaced by \<open>scrape\<close>; nothing before the last slash changes.\<close>

theorem derive_scrape_segment:
  assumes "derive_http_scrape_url url = Some scrape"
  shows "\<exists>base pre post. url = base @ ''/'' @ pre @ ''announce'' @ post \<and>
    scrape = base @ ''/'' @ pre @ ''scrape'' @ post \<and> CHR ''/'' \<notin> set (pre @ post)"
proof -
  obtain slash i where sl: "rposition (CHR ''/'') url = Some slash"
    and i: "find_sub ''announce'' (drop (slash + 1) url) = Some i"
    and sc: "scrape = take (slash + 1) url @ take i (drop (slash + 1) url) @ ''scrape'' @
        drop (i + 8) (drop (slash + 1) url)"
    using assms by (auto simp: derive_http_scrape_url_def Let_def split: option.splits)
  let ?seg = "drop (slash + 1) url"
  have u: "url = take slash url @ ''/'' @ ?seg" and n: "CHR ''/'' \<notin> set ?seg"
    using rposition_split [OF sl] by simp_all
  have seg: "?seg = take i ?seg @ ''announce'' @ drop (i + 8) ?seg"
    using find_sub_Some [OF i] by (simp add: eval_nat_numeral)
  have b: "take (slash + 1) url = take slash url @ ''/''"
    using u rposition_lt [OF sl] by (metis append_assoc append_take_drop_id append_same_eq)
  have "CHR ''/'' \<notin> set (take i ?seg @ drop (i + 8) ?seg)"
    using n in_set_takeD [of _ i ?seg] in_set_dropD [of _ "i + 8" ?seg] by (auto simp del: drop_drop)
  moreover have "url = take slash url @ ''/'' @ take i ?seg @ ''announce'' @ drop (i + 8) ?seg"
    using u seg by simp
  ultimately show ?thesis using sc b by (metis append_assoc)
qed

theorem derive_scrape_segment_witness:
  "derive_http_scrape_url ''https://a.b/announce.php'' = Some ''https://a.b/scrape.php'' \<and>
   (\<exists>base pre post. ''https://a.b/announce.php'' = base @ ''/'' @ pre @ ''announce'' @ post \<and>
      ''https://a.b/scrape.php'' = base @ ''/'' @ pre @ ''scrape'' @ post \<and> CHR ''/'' \<notin> set (pre @ post))"
proof -
  have e: "derive_http_scrape_url ''https://a.b/announce.php'' = Some ''https://a.b/scrape.php''" by code_simp
  show ?thesis using e derive_scrape_segment [OF e] by blast
qed

section \<open>The scrape request\<close>

text \<open>The tracker's reading of the query: every byte is a percent sign and two digits.\<close>

fun percent_decode :: "string \<Rightarrow> nat list option" where
  "percent_decode [] = Some []"
| "percent_decode (p # c # d # s) =
     (case (p = CHR ''%'', hex_val c, hex_val d, percent_decode s) of
        (True, Some h, Some l, Some bs) \<Rightarrow> Some ((16 * h + l) # bs)
      | _ \<Rightarrow> None)"
| "percent_decode _ = None"

lemma hex_val_digit_upper [simp]: "d < 16 \<Longrightarrow> hex_val (hex_digit_upper d) = Some d"
  by (auto simp: hex_val_def hex_digit_upper_def is_ascii_digit_def code_def)

lemma percent_decode_encode: "list_all (\<lambda>x. x < 256) bs \<Longrightarrow> percent_decode (percent_encode bs) = Some bs"
  by (induction bs) (auto simp: mult.commute)

text \<open>A scrape asks for exactly the hash it was given, and its counts are those of that hash in the reply.\<close>

lemma scrape_http_counts:
  assumes "scrape_http get announce_url info_hash = Inr counts"
  obtains scrape_url dict files d where "derive_http_scrape_url announce_url = Some scrape_url"
    "get (scrape_url @ ''?info_hash='' @ percent_encode info_hash) = ScrapeBody (Some (BDict dict))"
    "map_of dict ''files'' = Some (BDict files)" "find_entry (map char_of info_hash) files = Some d"
    "sw_seeders counts = bget d ''complete''" "sw_leechers counts = bget d ''incomplete''"
  using assms
  by (auto simp: scrape_http_def decode_scrape_response_def split: option.splits scrape_http_reply.splits bencode.splits)

text \<open>An announce URL that has a query already gets a second question mark.\<close>

lemma scrape_url_two_queries:
  "derive_http_scrape_url ''http://t/announce?key=1'' = Some ''http://t/scrape?key=1''"
  by code_simp

end
