(* ===== verification/Scrape.thy ===== *)
theory Scrape
  imports Atkey Attorrent F64
begin

text \<open>
  The tracker side of \<open>src/engine/scan.rs\<close>: the shared rate limiter, the persisted scrape cache and the
  one scrape loop of the daemon, with its handling of throttling.  What a tracker answers is an argument;
  the requests made are the result's list of \<open>net_effect\<close>s, in order.
\<close>

section \<open>Definitions\<close>

text \<open>\<open>Duration::try_from_secs_f64\<close>: nanoseconds rounded to nearest, an error for negative, non-finite or
  too large values.\<close>

definition try_from_secs_f64 :: "f64 \<Rightarrow> duration option" where
  "try_from_secs_f64 x = (case x of
      Fin q \<Rightarrow> if q < 0 \<or> 2 ^ 64 \<le> q then None else Some (nat (round_half_even (q * 1000000000)))
    | _ \<Rightarrow> None)"

record rate_limiter =
  rl_per_second :: f64
  rl_next_allowed :: instant

definition rl_gap :: "rate_limiter \<Rightarrow> duration" where
  "rl_gap rl = (case try_from_secs_f64 (f_div (Fin 1) (rl_per_second rl)) of
      Some d \<Rightarrow> d | None \<Rightarrow> secs (365 * 24 * 3600))"

definition rl_active :: "rate_limiter \<Rightarrow> bool" where
  "rl_active rl \<longleftrightarrow> rl_per_second rl \<noteq> NaN \<and> \<not> f_le (rl_per_second rl) (Fin 0)"

text \<open>\<open>wait\<close>: how long it sleeps when called at \<open>now\<close>, and the limiter after it, when the sleep ended at
  \<open>woke\<close>.\<close>

definition rl_wait :: "rate_limiter \<Rightarrow> instant \<Rightarrow> instant \<Rightarrow> duration \<times> rate_limiter" where
  "rl_wait rl now woke =
     (if \<not> rl_active rl then (0, rl)
      else (if now < rl_next_allowed rl then nat (rl_next_allowed rl - now) else 0,
            rl\<lparr>rl_next_allowed := woke + int (rl_gap rl)\<rparr>))"

text \<open>A schedule of waits: for each call its start and its wake-up; the result is the grant times.\<close>

fun rl_grants :: "rate_limiter \<Rightarrow> (instant \<times> instant) list \<Rightarrow> instant list" where
  "rl_grants rl [] = []"
| "rl_grants rl ((now, woke) # calls) = woke # rl_grants (snd (rl_wait rl now woke)) calls"

text \<open>A wake-up is never before the end of the sleep.\<close>

fun rl_slept :: "rate_limiter \<Rightarrow> (instant \<times> instant) list \<Rightarrow> bool" where
  "rl_slept rl [] = True"
| "rl_slept rl ((now, woke) # calls) =
     (now + int (fst (rl_wait rl now woke)) \<le> woke \<and> rl_slept (snd (rl_wait rl now woke)) calls)"

record cached_swarm =
  cs_counts :: swarm_counts
  cs_at :: instant

record swarm_cache =
  ca_ttl :: duration
  ca_entries :: "(string, cached_swarm) hmap"

definition duration_max :: duration where
  "duration_max = u64_max * 1000000000 + 999999999"

definition cache_get :: "instant \<Rightarrow> swarm_cache \<Rightarrow> string \<Rightarrow> swarm_counts option" where
  "cache_get now c h = (case hm_get (ca_entries c) h of
      None \<Rightarrow> None
    | Some e \<Rightarrow>
        if ca_ttl c < (case to_std (now - cs_at e) of Some d \<Rightarrow> d | None \<Rightarrow> duration_max) then None
        else Some (cs_counts e))"

definition cache_insert :: "instant \<Rightarrow> string \<Rightarrow> swarm_counts \<Rightarrow> swarm_cache \<Rightarrow> swarm_cache" where
  "cache_insert now h counts c = c\<lparr>ca_entries := hm_insert h \<lparr>cs_counts = counts, cs_at = now\<rparr> (ca_entries c)\<rparr>"

record stored_entry =
  se_seeders :: nat
  se_leechers :: nat
  se_at :: instant

text \<open>\<open>SwarmCache::load\<close> from the decoded file (\<open>None\<close> when it is missing or does not parse); the keys of
  the file are hex strings.\<close>

definition cache_load :: "duration \<Rightarrow> (string \<times> stored_entry) list option \<Rightarrow> swarm_cache" where
  "cache_load ttl stored = \<lparr>ca_ttl = ttl, ca_entries = (case stored of
      None \<Rightarrow> []
    | Some es \<Rightarrow> fold (\<lambda>(k, e) m. case decode_hash k of
          Some b \<Rightarrow> hm_insert (hex_encode b)
                     \<lparr>cs_counts = \<lparr>sw_seeders = se_seeders e, sw_leechers = se_leechers e, sw_completed = 0\<rparr>,
                      cs_at = se_at e\<rparr> m
        | None \<Rightarrow> m) es [])\<rparr>"

definition cache_save :: "swarm_cache \<Rightarrow> (string \<times> stored_entry) list" where
  "cache_save c = map (\<lambda>(h, e). (h, \<lparr>se_seeders = sw_seeders (cs_counts e), se_leechers = sw_leechers (cs_counts e),
                                     se_at = cs_at e\<rparr>)) (ca_entries c)"

datatype scrape_reply = Counts swarm_counts | ScrapeErr string | TimedOut

datatype net_effect = RateWait | ScrapeReq string string | Backoff

definition is_rate_limited :: "string \<Rightarrow> bool" where
  "is_rate_limited s \<longleftrightarrow> contains s ''429'' \<or> contains (to_lowercase s) ''too many requests''"

definition http_tracker :: "string \<Rightarrow> bool" where
  "http_tracker t \<longleftrightarrow> starts_with t ''http://'' \<or> starts_with t ''https://''"

text \<open>The loop: \<open>shutdown\<close> says whether the shutdown signal arrives during the back-off.\<close>

fun scrape_trackers :: "url_parser \<Rightarrow> (string \<Rightarrow> scrape_reply) \<Rightarrow> bool \<Rightarrow> instant \<Rightarrow> string list \<Rightarrow> string \<Rightarrow> string option \<Rightarrow>
    swarm_cache \<Rightarrow> swarm_counts result \<times> swarm_cache \<times> net_effect list" where
  "scrape_trackers parse reply shutdown now [] h last_err c =
     (Inl (case last_err of Some e \<Rightarrow> e | None \<Rightarrow> ''no tracker returned scrape data''), c, [])"
| "scrape_trackers parse reply shutdown now (t # ts) h last_err c =
     (let pace = (if is_at_tracker_url parse t then [RateWait] else [])
      in if \<not> http_tracker t
         then (case scrape_trackers parse reply shutdown now ts h last_err c of (r, c, es) \<Rightarrow> (r, c, pace @ es))
         else case reply t of
                Counts n \<Rightarrow> (Inr n, cache_insert now h n c, pace @ [ScrapeReq t h])
              | ScrapeErr e \<Rightarrow>
                  if is_rate_limited e
                  then (Inl (if shutdown then ''scan interrupted by shutdown'' else ''tracker rate-limited''), c,
                        pace @ [ScrapeReq t h, Backoff])
                  else (case scrape_trackers parse reply shutdown now ts h (Some e) c of
                          (r, c, es) \<Rightarrow> (r, c, pace @ [ScrapeReq t h] @ es))
              | TimedOut \<Rightarrow>
                  (case scrape_trackers parse reply shutdown now ts h (Some ''scrape timed out'') c of
                     (r, c, es) \<Rightarrow> (r, c, pace @ [ScrapeReq t h] @ es)))"

definition scrape_swarm_cached :: "url_parser \<Rightarrow> (string \<Rightarrow> scrape_reply) \<Rightarrow> bool \<Rightarrow> instant \<Rightarrow> string list \<Rightarrow> string \<Rightarrow>
    swarm_cache \<Rightarrow> swarm_counts result \<times> swarm_cache \<times> net_effect list" where
  "scrape_swarm_cached parse reply shutdown now trackers h c = (case cache_get now c h of
      Some hit \<Rightarrow> (Inr hit, c, [])
    | None \<Rightarrow> scrape_trackers parse reply shutdown now trackers h None c)"

text \<open>Requests to Academic Torrents hosts that a rate-limiter wait does not directly precede.\<close>

fun unpaced :: "url_parser \<Rightarrow> bool \<Rightarrow> net_effect list \<Rightarrow> nat" where
  "unpaced parse waited [] = 0"
| "unpaced parse waited (RateWait # es) = unpaced parse True es"
| "unpaced parse waited (ScrapeReq t h # es) =
     (if is_at_tracker_url parse t \<and> \<not> waited then 1 else 0) + unpaced parse False es"
| "unpaced parse waited (Backoff # es) = unpaced parse False es"

section \<open>Lemmas\<close>

lemma rl_wait_active: "rl_active rl \<Longrightarrow> rl_active (snd (rl_wait rl now woke)) \<and> rl_gap (snd (rl_wait rl now woke)) = rl_gap rl"
  by (simp add: rl_wait_def rl_active_def rl_gap_def)

lemma rl_wait_sleep: "rl_active rl \<Longrightarrow> now + int (fst (rl_wait rl now woke)) \<le> woke \<Longrightarrow> rl_next_allowed rl \<le> woke"
  by (auto simp: rl_wait_def split: if_splits)

lemma rl_grants_ge:
  "rl_active rl \<Longrightarrow> rl_slept rl calls \<Longrightarrow> list_all (\<lambda>g. rl_next_allowed rl \<le> g) (rl_grants rl calls)"
proof (induction rl calls rule: rl_grants.induct)
  case (2 rl now woke calls)
  have "rl_next_allowed (snd (rl_wait rl now woke)) = woke + int (rl_gap rl)" using 2 by (simp add: rl_wait_def)
  moreover have "rl_next_allowed rl \<le> woke" using 2 rl_wait_sleep by auto
  ultimately show ?case using 2 rl_wait_active [of rl now woke] by (fastforce simp: list_all_iff)
qed simp

lemma scrape_trackers_result:
  "scrape_trackers parse reply shutdown now ts h le c = (r, c', es) \<Longrightarrow>
   (case r of Inr n \<Rightarrow> c' = cache_insert now h n c \<and> (\<exists>t \<in> set ts. http_tracker t \<and> reply t = Counts n)
    | Inl _ \<Rightarrow> c' = c)"
proof (induction ts arbitrary: le es)
  case (Cons t ts)
  then show ?case
    by (fastforce simp: Let_def split: if_splits scrape_reply.splits prod.splits sum.splits)
qed auto

lemma scrape_trackers_paced:
  "scrape_trackers parse reply shutdown now ts h le c = (r, c', es) \<Longrightarrow> unpaced parse waited es = 0"
proof (induction ts arbitrary: le es waited)
  case (Cons t ts)
  then show ?case
    by (fastforce simp: Let_def split: if_splits scrape_reply.splits prod.splits)
qed auto

lemma scrape_trackers_stops:
  "scrape_trackers parse reply shutdown now ts h le c = (r, c', es) \<Longrightarrow>
   (Backoff \<in> set (butlast es) \<longrightarrow> False) \<and>
   length (filter (\<lambda>x. x \<notin> {RateWait, Backoff}) es) \<le> length (filter http_tracker ts)"
proof (induction ts arbitrary: le es)
  case (Cons t ts)
  then show ?case
    by (fastforce simp: Let_def butlast_append split: if_splits scrape_reply.splits prod.splits)
qed auto

lemma load_fold:
  "list_all (\<lambda>(k, e). is_hash_hex k) es \<Longrightarrow> distinct (map fst (m @ es)) \<Longrightarrow>
   fold (\<lambda>(k, e) m. case decode_hash k of Some b \<Rightarrow> hm_insert (hex_encode b) (f e) m | None \<Rightarrow> m) es (map (\<lambda>(k, e). (k, f e)) m)
   = map (\<lambda>(k, e). (k, f e)) (m @ es)"
proof (induction es arbitrary: m)
  case (Cons x es)
  obtain k e where x: "x = (k, e)" by fastforce
  obtain b where b: "decode_hash k = Some b" "hex_encode b = k" using Cons.prems(1) is_hash_decodes x by auto
  have "hm_get (map (\<lambda>(k, e). (k, f e)) m) k = None"
    using Cons.prems(2) by (force simp: x map_of_eq_None_iff)
  then show ?case
    using Cons.IH [of "m @ [(k, e)]"] Cons.prems b by (simp add: x hm_insert_absent)
qed simp

section \<open>Properties\<close>




text \<open>The scrape cache survives a restart: reloading what \<open>save\<close> wrote gives the same entries, with the
  completed count, which is not stored, set to zero.\<close>

theorem cache_round_trip:
  assumes "hm_wf (ca_entries c)" "list_all (\<lambda>(k, e). is_hash_hex k) (ca_entries c)"
  shows "cache_load (ca_ttl c) (Some (cache_save c)) =
    c\<lparr>ca_entries := map (\<lambda>(k, e). (k, e\<lparr>cs_counts := (cs_counts e)\<lparr>sw_completed := 0\<rparr>\<rparr>)) (ca_entries c)\<rparr>"
proof -
  let ?f = "\<lambda>e. \<lparr>cs_counts = \<lparr>sw_seeders = se_seeders e, sw_leechers = se_leechers e, sw_completed = 0\<rparr>, cs_at = se_at e\<rparr>"
  have k: "map fst (cache_save c) = map fst (ca_entries c)" by (auto simp: cache_save_def)
  have "list_all (\<lambda>(k, e). is_hash_hex k) (cache_save c)" using assms(2) by (auto simp: cache_save_def list_all_iff)
  moreover have "distinct (map fst ([] @ cache_save c))" using assms(1) k by (simp add: hm_wf_def)
  ultimately have "ca_entries (cache_load (ca_ttl c) (Some (cache_save c))) = map (\<lambda>(k, e). (k, ?f e)) (cache_save c)"
    using load_fold [of "cache_save c" "[]" ?f] by (simp add: cache_load_def)
  moreover have "map (\<lambda>(k, e). (k, ?f e)) (cache_save c) =
      map (\<lambda>(k, e). (k, e\<lparr>cs_counts := (cs_counts e)\<lparr>sw_completed := 0\<rparr>\<rparr>)) (ca_entries c)"
    by (auto simp: cache_save_def)
  ultimately show ?thesis by (simp add: cache_load_def)
qed

theorem cache_round_trip_witness:
  "cache_load 9 (Some (cache_save \<lparr>ca_ttl = 9, ca_entries = [(hex_encode (replicate 20 7),
      \<lparr>cs_counts = \<lparr>sw_seeders = 3, sw_leechers = 1, sw_completed = 0\<rparr>, cs_at = 5\<rparr>)]\<rparr>)) =
   \<lparr>ca_ttl = 9, ca_entries = [(hex_encode (replicate 20 7),
      \<lparr>cs_counts = \<lparr>sw_seeders = 3, sw_leechers = 1, sw_completed = 0\<rparr>, cs_at = 5\<rparr>)]\<rparr>"
proof -
  have "is_hash_hex (hex_encode (replicate 20 7))"
    unfolding is_hash_hex_def by (intro exI [of _ "replicate 20 7"]) (simp add: list_all_iff)
  then show ?thesis
    using cache_round_trip [of "\<lparr>ca_ttl = 9, ca_entries = [(hex_encode (replicate 20 7),
      \<lparr>cs_counts = \<lparr>sw_seeders = 3, sw_leechers = 1, sw_completed = 0\<rparr>, cs_at = 5\<rparr>)]\<rparr>"]
    by (simp add: hm_wf_def)
qed

end
