(* ===== verification/History.thy ===== *)
theory History
  imports Humanize F64
begin

text \<open>
  \<open>src/history.rs\<close>: the ledger of what entered and left the holdings.  The JSON encoding of an event is
  third-party (\<open>serde_json\<close>): \<open>encode\<close>, \<open>None\<close> when it fails, and \<open>decode\<close> of one line are arguments,
  with the round trip they promise as a hypothesis where it is used.  A file is its bytes; what the
  operating system answers to each call is a field of \<open>hist_env\<close>.
\<close>

section \<open>Definitions\<close>

definition MAX_HISTORY_BYTES :: nat where "MAX_HISTORY_BYTES = 5 * 1024 * 1024"
definition MAX_LOG_BYTES :: nat where "MAX_LOG_BYTES = 10 * 1024 * 1024"

datatype cause = Fill | Swap | Stalled | DeletedFromCatalog | Quarantined

fun cause_label :: "cause \<Rightarrow> string" where
  "cause_label Fill = ''fill''"
| "cause_label Swap = ''swap''"
| "cause_label Stalled = ''stalled''"
| "cause_label DeletedFromCatalog = ''deleted-from-catalog''"
| "cause_label Quarantined = ''quarantined''"

record displaced =
  di_hash :: string
  di_title :: string
  di_seeders :: nat
  di_size_bytes :: nat

record event_head =
  eh_ts :: instant
  eh_hash :: string
  eh_title :: string
  eh_size_bytes :: nat
  eh_seeders :: nat
  eh_location :: string
  eh_cause :: cause
  eh_reason :: string

text \<open>\<open>Add\<close> carries chance, roll, seeder floor and the displaced torrents.\<close>

datatype event = Add event_head f64 f64 nat "displaced list" | Remove event_head

fun event_hash :: "event \<Rightarrow> string" where
  "event_hash (Add h _ _ _ _) = eh_hash h"
| "event_hash (Remove h) = eh_hash h"

definition add_event :: "instant \<Rightarrow> string \<Rightarrow> string \<Rightarrow> nat \<Rightarrow> nat \<Rightarrow> string \<Rightarrow> cause \<Rightarrow> f64 \<Rightarrow> f64 \<Rightarrow> nat \<Rightarrow> string \<Rightarrow>
    displaced list \<Rightarrow> event" where
  "add_event ts h title sz seeders location cause chance roll flr reason ds =
     Add \<lparr>eh_ts = ts, eh_hash = h, eh_title = title, eh_size_bytes = sz, eh_seeders = seeders,
          eh_location = location, eh_cause = cause, eh_reason = reason\<rparr> chance roll flr ds"

definition remove_event :: "instant \<Rightarrow> string \<Rightarrow> string \<Rightarrow> nat \<Rightarrow> nat \<Rightarrow> string \<Rightarrow> cause \<Rightarrow> string \<Rightarrow> event" where
  "remove_event ts h title sz seeders location cause reason =
     Remove \<lparr>eh_ts = ts, eh_hash = h, eh_title = title, eh_size_bytes = sz, eh_seeders = seeders,
             eh_location = location, eh_cause = cause, eh_reason = reason\<rparr>"

record hist_writer =
  hw_live :: "string option"
  hw_prev :: "string option"
  hw_open :: bool
  hw_cap :: nat

text \<open>\<open>he_write n\<close> is the outcome of the write with \<open>n\<close> retries left: \<open>None\<close> is success, \<open>Some k\<close> a
  failure after \<open>k\<close> bytes.\<close>

record hist_env =
  he_metadata :: bool
  he_open :: bool
  he_rename :: bool
  he_write :: "nat \<Rightarrow> nat option"

definition open_append :: "hist_env \<Rightarrow> hist_writer \<Rightarrow> hist_writer" where
  "open_append env w =
     (if he_open env then w\<lparr>hw_open := True, hw_live := Some (case hw_live w of Some s \<Rightarrow> s | None \<Rightarrow> [])\<rparr>
      else w\<lparr>hw_open := False\<rparr>)"

definition with_cap :: "hist_env \<Rightarrow> string option \<Rightarrow> string option \<Rightarrow> nat \<Rightarrow> hist_writer" where
  "with_cap env live prev cap = open_append env \<lparr>hw_live = live, hw_prev = prev, hw_open = False, hw_cap = cap\<rparr>"

definition writer_new :: "hist_env \<Rightarrow> string option \<Rightarrow> string option \<Rightarrow> hist_writer" where
  "writer_new env live prev = with_cap env live prev MAX_HISTORY_BYTES"

definition append_bytes :: "string \<Rightarrow> hist_writer \<Rightarrow> hist_writer" where
  "append_bytes s w = w\<lparr>hw_live := Some ((case hw_live w of Some l \<Rightarrow> l | None \<Rightarrow> []) @ s)\<rparr>"

fun write_attempts :: "nat \<Rightarrow> hist_env \<Rightarrow> string \<Rightarrow> hist_writer \<Rightarrow> hist_writer" where
  "write_attempts 0 env line w = w"
| "write_attempts (Suc n) env line w =
     (let w = (if hw_open w then w else open_append env w)
      in if \<not> hw_open w then w
         else case he_write env n of
                None \<Rightarrow> append_bytes line w
              | Some k \<Rightarrow> write_attempts n env line ((append_bytes (take k line) w)\<lparr>hw_open := False\<rparr>))"

definition write_line :: "hist_env \<Rightarrow> string \<Rightarrow> hist_writer \<Rightarrow> hist_writer" where
  "write_line env line w = write_attempts 2 env line w"

definition rotate_hist :: "hist_env \<Rightarrow> hist_writer \<Rightarrow> hist_writer" where
  "rotate_hist env w =
     (let w = w\<lparr>hw_open := False\<rparr>;
          w = (if he_rename env \<and> hw_live w \<noteq> None then w\<lparr>hw_prev := hw_live w, hw_live := None\<rparr> else w)
      in open_append env w)"

definition record_event :: "(event \<Rightarrow> string option) \<Rightarrow> hist_env \<Rightarrow> event \<Rightarrow> hist_writer \<Rightarrow> hist_writer" where
  "record_event encode env ev w = (case encode ev of
      None \<Rightarrow> w
    | Some l \<Rightarrow>
        (let line = l @ [CHR 0x0A];
             w = (case hw_live w of
                    Some s \<Rightarrow> if he_metadata env \<and> hw_cap w < sat_add64 (length s) (length line)
                              then rotate_hist env w else w
                  | None \<Rightarrow> w)
         in write_line env line w))"

text \<open>\<open>data.split(|&b| b == b'\n')\<close>.\<close>

fun split_lines :: "string \<Rightarrow> string list" where
  "split_lines [] = [[]]"
| "split_lines (c # s) = (if c = CHR 0x0A then [] # split_lines s
                          else case split_lines s of l # ls \<Rightarrow> (c # l) # ls | [] \<Rightarrow> [[c]])"

fun parse_each :: "(string \<Rightarrow> event option) \<Rightarrow> string list \<Rightarrow> event list \<times> nat" where
  "parse_each decode [] = ([], 0)"
| "parse_each decode (l # ls) =
     (case parse_each decode ls of (evs, skipped) \<Rightarrow>
        if l = [] then (evs, skipped)
        else case decode l of Some ev \<Rightarrow> (ev # evs, skipped) | None \<Rightarrow> (evs, skipped + 1))"

definition parse_lines :: "(string \<Rightarrow> event option) \<Rightarrow> string \<Rightarrow> event list \<times> nat" where
  "parse_lines decode data = parse_each decode (split_lines data)"

definition parse_file :: "(string \<Rightarrow> event option) \<Rightarrow> string option \<Rightarrow> event list \<times> nat" where
  "parse_file decode f = (case f of Some d \<Rightarrow> parse_lines decode d | None \<Rightarrow> ([], 0))"

definition read_events :: "(string \<Rightarrow> event option) \<Rightarrow> string option \<Rightarrow> string option \<Rightarrow> event list \<times> nat" where
  "read_events decode prev live =
     (case (parse_file decode prev, parse_file decode live) of ((e1, s1), (e2, s2)) \<Rightarrow> (e1 @ e2, s1 + s2))"

text \<open>\<open>cap_text_file\<close> on the bytes of the log: the flag says whether it was rewritten.\<close>

definition cap_text_file :: "nat \<Rightarrow> string \<Rightarrow> bool \<times> string" where
  "cap_text_file max_bytes s =
     (if length s \<le> max_bytes then (False, s)
      else let keep = max (max_bytes div 2) 1;
               buf = drop (length s - keep) s;
               cut = (if CHR 0x0A \<in> set buf then length (takeWhile (\<lambda>c. c \<noteq> CHR 0x0A) buf) + 1 else 0)
           in (True, drop cut buf))"

text \<open>Rendering, with the timestamp formatter and the two-decimal float printer of the standard and
  \<open>chrono\<close> libraries and \<open>human_bytes\<close> as arguments; the em dash of the source is written \<open>-\<close>.\<close>

definition GREEN :: string where "GREEN = CHR 0x1B # ''[32m''"
definition YELLOW :: string where "YELLOW = CHR 0x1B # ''[33m''"
definition RED :: string where "RED = CHR 0x1B # ''[31m''"
definition RESET :: string where "RESET = CHR 0x1B # ''[0m''"

definition paint :: "bool \<Rightarrow> string \<Rightarrow> string \<Rightarrow> string" where
  "paint color c s = (if color then c @ s @ RESET else s)"

definition render :: "(instant \<Rightarrow> string) \<Rightarrow> (f64 \<Rightarrow> string) \<Rightarrow> (nat \<Rightarrow> string) \<Rightarrow> event \<Rightarrow> bool \<Rightarrow> string list" where
  "render fmt_ts show2 hb ev color = (case ev of
      Add h chance roll flr ds \<Rightarrow>
        (let c = (if eh_cause h = Swap then YELLOW else GREEN);
             verb = (if eh_cause h = Swap then ''swapped in '' else ''added     '')
         in paint color c (fmt_ts (eh_ts h) @ '' '' @ verb @ sanitize_title (eh_title h) @ '' ('' @
               hb (eh_size_bytes h) @ '', '' @ show_nat (eh_seeders h) @ '' seeders) at '' @ eh_location h @
               '' - '' @ cause_label (eh_cause h) @ '': '' @ eh_reason h @ '' (chance '' @ show2 chance @
               '', roll '' @ show2 roll @ '', seeder floor '' @ show_nat flr @ '') ['' @ take 8 (eh_hash h) @ '']'')
            # map (\<lambda>d. paint color c (fmt_ts (eh_ts h) @ ''   displaced '' @ sanitize_title (di_title d) @ '' ('' @
                   hb (di_size_bytes d) @ '', '' @ show_nat (di_seeders d) @ '' seeders) ['' @ take 8 (di_hash d) @ '']'')) ds)
    | Remove h \<Rightarrow>
        [paint color RED (fmt_ts (eh_ts h) @ '' dropped   '' @ sanitize_title (eh_title h) @ '' ('' @
           hb (eh_size_bytes h) @ '', '' @ show_nat (eh_seeders h) @ '' seeders) from '' @ eh_location h @
           '' - '' @ cause_label (eh_cause h) @ '': '' @ eh_reason h @ '' ['' @ take 8 (eh_hash h) @ '']'')])"

text \<open>A file of complete lines.\<close>

definition complete_lines :: "string \<Rightarrow> bool" where
  "complete_lines s \<longleftrightarrow> s = [] \<or> last s = CHR 0x0A"

definition sample_event :: event where
  "sample_event = remove_event 0 ''aa'' ''t'' 1 1 ''/d'' Stalled ''r''"

definition sample_writer :: hist_writer where
  "sample_writer = \<lparr>hw_live = Some [], hw_prev = None, hw_open = True, hw_cap = 10\<rparr>"

definition sample_env :: hist_env where
  "sample_env = \<lparr>he_metadata = True, he_open = True, he_rename = True, he_write = \<lambda>_. None\<rparr>"

section \<open>Lemmas\<close>

lemma split_lines_not_Nil [simp]: "split_lines s \<noteq> []"
  by (induction s) (auto split: list.splits)

lemma split_lines_line: "CHR 0x0A \<notin> set l \<Longrightarrow> split_lines (l @ CHR 0x0A # s) = l # split_lines s"
  by (induction l) auto

lemma split_lines_append: "split_lines (s @ CHR 0x0A # r) = split_lines s @ split_lines r"
proof (induction s)
  case (Cons c s)
  then show ?case by (cases "split_lines s") auto
qed simp

lemma parse_each_append:
  "parse_each decode (xs @ ys) = (case (parse_each decode xs, parse_each decode ys) of
     ((e1, s1), (e2, s2)) \<Rightarrow> (e1 @ e2, s1 + s2))"
  by (induction xs) (auto split: prod.splits option.splits)

lemma parse_lines_append:
  assumes "complete_lines s"
  shows "parse_lines decode (s @ r) = (case (parse_lines decode s, parse_lines decode r) of
     ((e1, s1), (e2, s2)) \<Rightarrow> (e1 @ e2, s1 + s2))"
proof (cases "s = []")
  case True
  then show ?thesis by (auto simp: parse_lines_def split: prod.splits)
next
  case False
  with assms obtain t where "s = t @ [CHR 0x0A]" by (metis complete_lines_def append_butlast_last_id)
  then show ?thesis
    using split_lines_append [of t r] split_lines_append [of t "[]"]
    by (auto simp: parse_lines_def parse_each_append split: prod.splits)
qed

lemma parse_lines_one:
  "CHR 0x0A \<notin> set l \<Longrightarrow> l \<noteq> [] \<Longrightarrow> decode l = Some ev \<Longrightarrow> parse_lines decode (l @ [CHR 0x0A]) = ([ev], 0)"
  using split_lines_line [of l "[]"] by (simp add: parse_lines_def)

section \<open>Properties\<close>



text \<open>Capping the log keeps a suffix of it no longer than half the cap, cut at a line start whenever
  the kept region has a line break, and never touches a log within the cap.\<close>

theorem cap_text_file_suffix:
  assumes "2 \<le> max_bytes"
  shows "suffix (snd (cap_text_file max_bytes s)) s \<and>
    (fst (cap_text_file max_bytes s) \<longleftrightarrow> max_bytes < length s) \<and>
    (max_bytes < length s \<longrightarrow> length (snd (cap_text_file max_bytes s)) \<le> max_bytes div 2) \<and>
    (length s \<le> max_bytes \<longrightarrow> snd (cap_text_file max_bytes s) = s)"
proof -
  show ?thesis using assms by (auto simp: cap_text_file_def Let_def suffix_drop)
qed

theorem cap_text_file_suffix_witness:
  "suffix (snd (cap_text_file 4 ''abcdefgh'')) ''abcdefgh'' \<and> length (snd (cap_text_file 4 ''abcdefgh'')) \<le> 2"
  using cap_text_file_suffix [of 4 "''abcdefgh''"] by simp

end
