(* ===== verification/Engine_Base.thy ===== *)
theory Engine_Base
  imports Selector Quarantine Blocklist Storage Catalog Scrape History
begin

text \<open>
  The engine of \<open>src/engine/scan.rs\<close>: its state, what it asks of the outside, and the small operations
  the scan, the admission path and the watchdog share (with \<open>src/engine/torrents.rs\<close>).

  The BitTorrent session, the network, the file system, the clock and the random source are outside the
  program.  A \<open>world\<close> holds their answers for one operation: functions of what is asked, so that the
  theorems quantify over every behaviour of the outside.  What the engine does to the outside is the list
  of \<open>effect\<close>s, in order.  Log lines are left out.
\<close>

section \<open>Data\<close>

definition PER_TORRENT_SIZE_BUFFER :: nat where "PER_TORRENT_SIZE_BUFFER = 256 * 1024"
definition EVALUATE_CONCURRENCY :: nat where "EVALUATE_CONCURRENCY = 16"

datatype effect =
    CreateDir string | Register string string | Unregister string
  | SessionAdd string string "string list" | SessionDelete string
  | RemoveTree string | RemoveDir string | RemoveFile string
  | FetchTorrent string | Net net_effect

text \<open>What \<open>session.add_torrent\<close> answers: an error, a list-only response, or a managed torrent.\<close>

datatype add_outcome = AddFailed | AddListOnly | AddManaged

text \<open>The statistics of a managed torrent: the fetched counter exists only while it is live.\<close>

record torrent_stats =
  ts_finished :: bool
  ts_checking :: bool
  ts_progress_bytes :: nat
  ts_fetched_bytes :: "nat option"

record live_entry =
  le_title :: string
  le_info_hash :: string
  le_size_bytes :: nat
  le_last_known_seeders :: nat

record world =
  w_now :: instant
  w_max_utc :: instant
  w_powf :: "f64 \<Rightarrow> f64 \<Rightarrow> f64"
  w_parse_url :: url_parser
  w_roll :: f64
  w_location_roll :: f64
  w_fd_headroom :: "nat option"
  w_cached_meta :: "string \<Rightarrow> torrent_meta option"
  w_fetch :: "string \<Rightarrow> torrent_meta result"
  w_read_raw :: "string \<Rightarrow> bool"
  w_mkdir :: "string \<Rightarrow> bool"
  w_add :: "string \<Rightarrow> add_outcome"
  w_delete :: "string \<Rightarrow> bool"
  w_dir_exists :: "string \<Rightarrow> bool"
  w_dir_size :: "string \<Rightarrow> nat"
  w_dev_free :: "string \<Rightarrow> nat option"
  w_dev_free_swap :: "string \<Rightarrow> nat option"
  w_find :: "string \<Rightarrow> torrent_stats option"
  w_scrape :: "string \<Rightarrow> string \<Rightarrow> scrape_reply"
  w_shutdown :: bool
  w_save :: saver
  w_encode :: "event \<Rightarrow> string option"
  w_hist :: hist_env

record engine =
  en_cfg :: config
  en_state :: state
  en_blocklist :: keyword_blocklist
  en_user_announce :: string
  en_user_announce_ipv6 :: string
  en_max_torrents :: nat
  en_ram_budget :: nat
  en_size_bias :: f64
  en_live :: "(nat \<times> live_entry list) option"
  en_history :: hist_writer
  en_swarm :: swarm_cache
  en_detector :: detector
  en_last_catalog :: "string set option"
  en_trace :: "effect list"

section \<open>Operations\<close>

definition emit :: "effect list \<Rightarrow> engine \<Rightarrow> engine" where
  "emit es e = e\<lparr>en_trace := en_trace e @ es\<rparr>"

definition path_join :: "string \<Rightarrow> string \<Rightarrow> string" where
  "path_join a b = (if starts_with b ''/'' then b
                    else if a = [] then b
                    else if last a = CHR ''/'' then a @ b else a @ ''/'' @ b)"

definition torrent_output_dir :: "string \<Rightarrow> string \<Rightarrow> string" where
  "torrent_output_dir location h = path_join location h"

definition torrent_cache_path :: "string \<Rightarrow> string \<Rightarrow> string" where
  "torrent_cache_path data_dir h = path_join (path_join data_dir ''torrent-cache'') (h @ ''.torrent'')"

definition limit_bytes :: "storage_location \<Rightarrow> nat" where
  "limit_bytes loc = (case sl_limit loc of Bytes b \<Rightarrow> b | _ \<Rightarrow> 0)"

text \<open>The sum is a plain \<open>u64\<close> sum.\<close>

definition disk_limit_total :: "config \<Rightarrow> nat" where
  "disk_limit_total cfg = wrap64 (sum_list (map limit_bytes (cfg_storage cfg)))"

definition snapshot_entries :: "state \<Rightarrow> live_entry list" where
  "snapshot_entries s = map (\<lambda>t. \<lparr>le_title = t_title t, le_info_hash = t_info_hash t,
     le_size_bytes = t_size_bytes t, le_last_known_seeders = t_last_known_seeders t\<rparr>) (all_torrents s)"

definition push_live :: "engine \<Rightarrow> engine" where
  "push_live e = (case en_live e of
      None \<Rightarrow> e
    | Some _ \<Rightarrow> e\<lparr>en_live := Some (quarantine_count (en_state e), snapshot_entries (en_state e))\<rparr>)"

definition record_history :: "world \<Rightarrow> event \<Rightarrow> engine \<Rightarrow> engine" where
  "record_history w ev e = e\<lparr>en_history := record_event (w_encode w) (w_hist w) ev (en_history e)\<rparr>"

definition tiers_of :: "string list \<Rightarrow> string list list" where
  "tiers_of ts = map (\<lambda>t. [t]) ts"

definition add_torrent_bytes :: "world \<Rightarrow> string \<Rightarrow> string \<Rightarrow> string list list \<Rightarrow> engine \<Rightarrow> string result \<times> engine" where
  "add_torrent_bytes w h output_dir trackers e =
     (if \<not> w_read_raw w h then (Inl ''loading cached .torrent'', e)
      else case decode_hash h of
             None \<Rightarrow> (Inl ''invalid infohash hex'', e)
           | Some _ \<Rightarrow>
               (let e = emit [Register h output_dir, SessionAdd h output_dir (concat trackers)] e
                in case w_add w h of
                     AddFailed \<Rightarrow> (Inl ''adding torrent to session'', emit [Unregister h] e)
                   | AddListOnly \<Rightarrow> (Inl ''torrent added list-only, expected managed'', e)
                   | AddManaged \<Rightarrow> (Inr h, e)))"

definition remove_torrent :: "world \<Rightarrow> string \<Rightarrow> string \<Rightarrow> engine \<Rightarrow> unit result \<times> engine" where
  "remove_torrent w h output_dir e = (case decode_hash h of
      None \<Rightarrow> (Inl ''invalid infohash hex'', e)
    | Some _ \<Rightarrow>
        (Inr (), emit ([SessionDelete h] @
           (if \<not> w_delete w h \<and> w_dir_exists w output_dir then [RemoveTree output_dir] else []) @
           [Unregister h] @
           (if w_dir_exists w output_dir then [RemoveDir output_dir] else [])) e))"

definition find_torrent :: "world \<Rightarrow> string \<Rightarrow> torrent_stats option" where
  "find_torrent w h = (case decode_hash h of None \<Rightarrow> None | Some _ \<Rightarrow> w_find w h)"

text \<open>\<open>decode_hash(..).unwrap_or([0u8; 20])\<close>, as hex again.\<close>

definition hash_or_zero :: "string \<Rightarrow> string" where
  "hash_or_zero h = hex_encode (case decode_hash h of Some b \<Rightarrow> b | None \<Rightarrow> replicate 20 0)"

definition fetch_metadata :: "world \<Rightarrow> string \<Rightarrow> engine \<Rightarrow> torrent_meta result \<times> engine" where
  "fetch_metadata w h e = (case w_cached_meta w h of
      Some md \<Rightarrow> (Inr md, e)
    | None \<Rightarrow> (w_fetch w h, emit [Net RateWait, FetchTorrent h] e))"

definition scrape_swarm :: "world \<Rightarrow> string list \<Rightarrow> string \<Rightarrow> engine \<Rightarrow> swarm_counts result \<times> engine" where
  "scrape_swarm w trackers h e =
     (case scrape_swarm_cached (w_parse_url w) (\<lambda>t. w_scrape w t h) (w_shutdown w) (w_now w) trackers h (en_swarm e) of
        (r, c, es) \<Rightarrow> (r, emit (map Net es) (e\<lparr>en_swarm := c\<rparr>)))"

definition drop_cache_file :: "string \<Rightarrow> engine \<Rightarrow> engine" where
  "drop_cache_file h e = emit [RemoveFile (torrent_cache_path (cfg_data_dir (en_cfg e)) h)] e"

definition max_fittable_size :: "engine \<Rightarrow> nat" where
  "max_fittable_size e = foldl max 0 (map limit_bytes (cfg_storage (en_cfg e)))"

definition held_at :: "state \<Rightarrow> string \<Rightarrow> nat" where
  "held_at s location = length (filter (\<lambda>t. t_storage_location t = location) (all_torrents s))"

definition free_bytes :: "world \<Rightarrow> engine \<Rightarrow> storage_location \<Rightarrow> nat" where
  "free_bytes w e loc =
     (let held_nominal = bytes_used (en_state e) (sl_path loc);
          held_buffers = wrap64 (held_at (en_state e) (sl_path loc) * PER_TORRENT_SIZE_BUFFER);
          free = limit_bytes loc - sat_add64 held_nominal held_buffers
      in case w_dev_free w (sl_path loc) of Some dev_free \<Rightarrow> min free dev_free | None \<Rightarrow> free)"

definition size_needed :: "nat \<Rightarrow> nat" where
  "size_needed nominal = sat_add64 nominal PER_TORRENT_SIZE_BUFFER"

definition ram_price :: "nat \<Rightarrow> torrent \<Rightarrow> nat" where
  "ram_price peer_limit t = torrent_ram (if 0 < t_piece_count t then t_piece_count t else 1024) peer_limit"

definition ram_headroom_bytes :: "engine \<Rightarrow> nat" where
  "ram_headroom_bytes e =
     (let peer_limit = peer_limit_for_budget (en_ram_budget e)
      in en_ram_budget e -
         fold (\<lambda>t used. sat_add64 used (ram_price peer_limit t)) (all_torrents (en_state e)) 0)"

definition quarantine_gate :: "world \<Rightarrow> engine \<Rightarrow> string \<Rightarrow> quarantine option \<times> bool" where
  "quarantine_gate w e h = (case quarantine_get (en_state e) h of
      None \<Rightarrow> (None, False)
    | Some q \<Rightarrow> if q_cooldown_until q \<le> w_now w then (None, True) else (Some q, False))"

datatype prefilter = PHeld | PBlocked | PTooBig | PPending

definition prefilter_reason :: "item \<Rightarrow> string set \<Rightarrow> keyword_blocklist \<Rightarrow> nat \<Rightarrow> prefilter" where
  "prefilter_reason it held blocklist max_fittable =
     (if it_info_hash it \<in> held then PHeld
      else if blocks blocklist (it_title it) (it_description it) \<noteq> None then PBlocked
      else if 0 < max_fittable \<and> max_fittable < it_size_bytes it then PTooBig
      else PPending)"

definition count_pending :: "item list \<Rightarrow> string set \<Rightarrow> keyword_blocklist \<Rightarrow> nat \<Rightarrow> nat" where
  "count_pending items held blocklist max_fittable =
     length (filter (\<lambda>it. prefilter_reason it held blocklist max_fittable = PPending) items)"

text \<open>\<open>human_bytes\<close> in a message; it has no value only at \<open>i64::MIN\<close>.\<close>

definition show_bytes :: "nat \<Rightarrow> string" where
  "show_bytes n = (case human_bytes (as_i64 n) of Some s \<Rightarrow> s | None \<Rightarrow> [])"

definition device_gate_reason :: "nat option \<Rightarrow> nat \<Rightarrow> nat \<Rightarrow> string option" where
  "device_gate_reason dev_free freed_actual need = (case dev_free of
      None \<Rightarrow> None
    | Some free \<Rightarrow>
        (let after = sat_add64 free freed_actual
         in if after < need
            then Some (''device free space after displacement ('' @ show_bytes after @
                       '') is below the candidate's need ('' @ show_bytes need @
                       '') - displaced torrents were sparse'')
            else None))"

definition score_candidate :: "torrent \<Rightarrow> candidate" where
  "score_candidate t = \<lparr>cand_info_hash = [], cand_title = [], cand_size_bytes = t_size_bytes t,
     cand_piece_count = t_piece_count t, cand_seeders = t_last_known_seeders t, cand_leechers = 0,
     cand_seeder_floor = 0\<rparr>"

definition eviction_cmp :: "(f64 \<Rightarrow> f64 \<Rightarrow> f64) \<Rightarrow> f64 \<Rightarrow> nat \<Rightarrow> torrent \<Rightarrow> torrent \<Rightarrow> ordering" where
  "eviction_cmp powf size_bias peer_limit a b =
     (case f_cmp (eviction_score powf (score_candidate a) size_bias peer_limit)
                 (eviction_score powf (score_candidate b) size_bias peer_limit) of
        Some ord \<Rightarrow> ord
      | None \<Rightarrow> cmp_key t_size_bytes a b)"

text \<open>The greedy loop of \<open>select_displaceable\<close>.\<close>

fun take_until_freed :: "torrent list \<Rightarrow> nat \<Rightarrow> nat \<Rightarrow> nat \<Rightarrow> torrent list \<Rightarrow> nat \<Rightarrow> nat \<Rightarrow> torrent list option" where
  "take_until_freed [] need ram_cost peer_limit chosen freed freed_ram = None"
| "take_until_freed (h # hs) need ram_cost peer_limit chosen freed freed_ram =
     (let freed = sat_add64 freed (t_size_bytes h);
          freed_ram = sat_add64 freed_ram (torrent_ram (max (t_piece_count h) 1) peer_limit);
          chosen = chosen @ [h]
      in if need \<le> freed \<and> ram_cost \<le> freed_ram then Some chosen
         else take_until_freed hs need ram_cost peer_limit chosen freed freed_ram)"

definition clears_margin :: "int \<Rightarrow> nat \<Rightarrow> torrent \<Rightarrow> bool" where
  "clears_margin margin seeders t \<longleftrightarrow> int seeders \<le> int (t_last_known_seeders t) - margin"

definition select_displaceable :: "(f64 \<Rightarrow> f64 \<Rightarrow> f64) \<Rightarrow> torrent list \<Rightarrow> nat \<Rightarrow> nat \<Rightarrow> nat \<Rightarrow> nat \<Rightarrow> int \<Rightarrow> f64 \<Rightarrow>
    torrent list option" where
  "select_displaceable powf in_location candidate_seeders need ram_cost peer_limit margin size_bias =
     (let qualifying = filter (clears_margin margin candidate_seeders) in_location
      in if qualifying = [] then None
         else take_until_freed (sort_by (eviction_cmp powf size_bias peer_limit) qualifying)
                need ram_cost peer_limit [] 0 0)"

section \<open>Frame facts\<close>

text \<open>Effects, history and the live view do not touch the rest of the engine.\<close>

lemma emit_frame [simp]: "en_state (emit es e) = en_state e" "en_cfg (emit es e) = en_cfg e"
  "en_max_torrents (emit es e) = en_max_torrents e" "en_ram_budget (emit es e) = en_ram_budget e"
  "en_size_bias (emit es e) = en_size_bias e" "en_live (emit es e) = en_live e"
  "en_trace (emit es e) = en_trace e @ es" "en_detector (emit es e) = en_detector e"
  "en_last_catalog (emit es e) = en_last_catalog e" "en_history (emit es e) = en_history e"
  "en_user_announce (emit es e) = en_user_announce e" "en_user_announce_ipv6 (emit es e) = en_user_announce_ipv6 e"
  "en_blocklist (emit es e) = en_blocklist e"
  by (simp_all add: emit_def)

lemma push_live_frame [simp]: "en_state (push_live e) = en_state e" "en_cfg (push_live e) = en_cfg e"
  "en_max_torrents (push_live e) = en_max_torrents e" "en_ram_budget (push_live e) = en_ram_budget e"
  "en_size_bias (push_live e) = en_size_bias e" "en_trace (push_live e) = en_trace e"
  "en_detector (push_live e) = en_detector e" "en_last_catalog (push_live e) = en_last_catalog e"
  "en_blocklist (push_live e) = en_blocklist e"
  by (simp_all add: push_live_def split: option.splits)

lemma record_history_frame [simp]: "en_state (record_history w ev e) = en_state e"
  "en_cfg (record_history w ev e) = en_cfg e" "en_max_torrents (record_history w ev e) = en_max_torrents e"
  "en_ram_budget (record_history w ev e) = en_ram_budget e" "en_size_bias (record_history w ev e) = en_size_bias e"
  "en_trace (record_history w ev e) = en_trace e" "en_detector (record_history w ev e) = en_detector e"
  "en_last_catalog (record_history w ev e) = en_last_catalog e" "en_live (record_history w ev e) = en_live e"
  "en_blocklist (record_history w ev e) = en_blocklist e"
  by (simp_all add: record_history_def)

text \<open>The static part of an engine: what no operation of a scan changes.\<close>

definition same_static :: "engine \<Rightarrow> engine \<Rightarrow> bool" where
  "same_static e e' \<longleftrightarrow> en_cfg e' = en_cfg e \<and> en_max_torrents e' = en_max_torrents e \<and>
     en_ram_budget e' = en_ram_budget e \<and> en_size_bias e' = en_size_bias e \<and> en_blocklist e' = en_blocklist e"

lemma same_static_refl [simp]: "same_static e e"
  by (simp add: same_static_def)

lemma same_static_trans: "same_static a b \<Longrightarrow> same_static b c \<Longrightarrow> same_static a c"
  by (simp add: same_static_def)

lemma same_static_ops [simp]: "same_static e (emit es e')  = same_static e e'"
  "same_static e (push_live e') = same_static e e'" "same_static e (record_history w ev e') = same_static e e'"
  "same_static e (e'\<lparr>en_state := s\<rparr>) = same_static e e'" "same_static e (e'\<lparr>en_detector := d\<rparr>) = same_static e e'"
  "same_static e (e'\<lparr>en_last_catalog := c\<rparr>) = same_static e e'"
  "same_static e (e'\<lparr>en_swarm := sc\<rparr>) = same_static e e'"
  by (simp_all add: same_static_def)

lemma add_torrent_bytes_frame [simp]:
  "en_state (snd (add_torrent_bytes w h d ts e)) = en_state e" "same_static e' (snd (add_torrent_bytes w h d ts e)) = same_static e' e"
  "en_live (snd (add_torrent_bytes w h d ts e)) = en_live e" "en_cfg (snd (add_torrent_bytes w h d ts e)) = en_cfg e"
  "en_detector (snd (add_torrent_bytes w h d ts e)) = en_detector e"
  by (auto simp: add_torrent_bytes_def Let_def split: option.splits add_outcome.splits)

lemma remove_torrent_frame [simp]:
  "en_state (snd (remove_torrent w h d e)) = en_state e" "same_static e' (snd (remove_torrent w h d e)) = same_static e' e"
  "en_live (snd (remove_torrent w h d e)) = en_live e" "en_cfg (snd (remove_torrent w h d e)) = en_cfg e"
  "en_detector (snd (remove_torrent w h d e)) = en_detector e"
  by (auto simp: remove_torrent_def split: option.splits)

lemma fetch_metadata_frame [simp]:
  "en_state (snd (fetch_metadata w h e)) = en_state e" "same_static e' (snd (fetch_metadata w h e)) = same_static e' e"
  "en_live (snd (fetch_metadata w h e)) = en_live e" "en_cfg (snd (fetch_metadata w h e)) = en_cfg e"
  "en_detector (snd (fetch_metadata w h e)) = en_detector e"
  by (auto simp: fetch_metadata_def split: option.splits)

lemma scrape_swarm_frame [simp]:
  "en_state (snd (scrape_swarm w ts h e)) = en_state e" "same_static e' (snd (scrape_swarm w ts h e)) = same_static e' e"
  "en_live (snd (scrape_swarm w ts h e)) = en_live e" "en_cfg (snd (scrape_swarm w ts h e)) = en_cfg e"
  "en_detector (snd (scrape_swarm w ts h e)) = en_detector e"
  by (auto simp: scrape_swarm_def split: prod.splits)

lemma drop_cache_file_frame [simp]:
  "en_state (drop_cache_file h e) = en_state e" "same_static e' (drop_cache_file h e) = same_static e' e"
  "en_live (drop_cache_file h e) = en_live e" "en_cfg (drop_cache_file h e) = en_cfg e"
  "en_detector (drop_cache_file h e) = en_detector e"
  by (simp_all add: drop_cache_file_def)

section \<open>Displacement\<close>

lemma take_until_freed_spec:
  "take_until_freed hs need ram_cost pl chosen freed freed_ram = Some ds \<Longrightarrow>
   \<exists>new. ds = chosen @ new \<and> new \<noteq> [] \<and> prefix new hs \<and>
     need \<le> freed + sum_list (map t_size_bytes new) \<and>
     ram_cost \<le> freed_ram + sum_list (map (\<lambda>t. torrent_ram (max (t_piece_count t) 1) pl) new)"
proof (induction hs need ram_cost pl chosen freed freed_ram rule: take_until_freed.induct)
  case (2 h hs need ram_cost pl chosen freed freed_ram)
  let ?f = "sat_add64 freed (t_size_bytes h)"
  let ?r = "sat_add64 freed_ram (torrent_ram (max (t_piece_count h) 1) pl)"
  have le: "?f \<le> freed + t_size_bytes h" "?r \<le> freed_ram + torrent_ram (max (t_piece_count h) 1) pl"
    by (simp_all add: rust_arith)
  show ?case
  proof (cases "need \<le> ?f \<and> ram_cost \<le> ?r")
    case True
    then have "ds = chosen @ [h]" using 2(2) by simp
    then show ?thesis using True le by (intro exI [of _ "[h]"]) auto
  next
    case False
    then have "take_until_freed hs need ram_cost pl (chosen @ [h]) ?f ?r = Some ds"
      using 2(2) by (auto simp: Let_def)
    from 2(1) [OF refl refl refl False this] obtain new where
      "ds = (chosen @ [h]) @ new" "prefix new hs" "need \<le> ?f + sum_list (map t_size_bytes new)"
      "ram_cost \<le> ?r + sum_list (map (\<lambda>t. torrent_ram (max (t_piece_count t) 1) pl) new)" by blast
    then show ?thesis using le by (intro exI [of _ "h # new"]) auto
  qed
qed simp

lemma select_displaceable_spec:
  assumes "select_displaceable powf hs seeders need ram_cost pl margin bias = Some ds"
  shows "ds \<noteq> []" "set ds \<subseteq> set hs" "distinct hs \<Longrightarrow> distinct ds" "list_all (clears_margin margin seeders) ds"
    "need \<le> sum_list (map t_size_bytes ds)"
    "ram_cost \<le> sum_list (map (\<lambda>t. torrent_ram (max (t_piece_count t) 1) pl) ds)"
proof -
  let ?q = "sort_by (eviction_cmp powf bias pl) (filter (clears_margin margin seeders) hs)"
  have "take_until_freed ?q need ram_cost pl [] 0 0 = Some ds"
    using assms by (auto simp: select_displaceable_def Let_def split: if_splits)
  from take_until_freed_spec [OF this] show "ds \<noteq> []" "need \<le> sum_list (map t_size_bytes ds)"
    "ram_cost \<le> sum_list (map (\<lambda>t. torrent_ram (max (t_piece_count t) 1) pl) ds)" by auto
  have p: "prefix ds ?q" using take_until_freed_spec [OF \<open>take_until_freed ?q need ram_cost pl [] 0 0 = Some ds\<close>] by auto
  then have "set ds \<subseteq> set ?q" by (rule set_mono_prefix)
  then show "set ds \<subseteq> set hs" "list_all (clears_margin margin seeders) ds" by (auto simp: list_all_iff)
  show "distinct hs \<Longrightarrow> distinct ds"
    using p by (metis distinct_filter distinct_sort_by distinct_append prefixE)
qed

end
