(* ===== verification/Pool.thy ===== *)
theory Pool
  imports Engine_Base
begin

text \<open>
  The bounded file-handle pool of \<open>src/engine/pool_storage.rs\<close>: the registry of output folders, the LRU
  pool, and the storage view that routes every read and write of a torrent through the pool.

  The file system below it is modelled as the operating system documents it: names refer to inodes, an open
  handle keeps its inode when the name goes away, and reads and writes at an offset move no cursor.  Which
  opens the system refuses is an argument of every operation.  The theorems show that the pool never
  holds more handles than its cap, that it is an LRU cache, and that caching is invisible: what a storage
  writes is what it reads back, whatever the other storages do in between.
\<close>

section \<open>The file system\<close>

datatype io_error = Emfile | NoEntry | UnexpectedEof | AlreadyExists | OtherIo

type_synonym bytes = "nat list"
type_synonym inode = nat

record fs =
  fs_names :: "(string, inode) hmap"
  fs_data :: "inode \<Rightarrow> bytes"
  fs_fresh :: inode
  fs_dirs :: "string list"

definition fs_open :: "io_error option \<Rightarrow> string \<Rightarrow> fs \<Rightarrow> io_error + inode" where
  "fs_open refuse path f = (case refuse of
      Some e \<Rightarrow> Inl e
    | None \<Rightarrow> (case hm_get (fs_names f) path of Some i \<Rightarrow> Inr i | None \<Rightarrow> Inl NoEntry))"

text \<open>\<open>O_CREAT\<close> without truncation: an existing name keeps its inode and its bytes.\<close>

definition fs_create :: "string \<Rightarrow> fs \<Rightarrow> fs" where
  "fs_create path f = (case hm_get (fs_names f) path of
      Some _ \<Rightarrow> f
    | None \<Rightarrow> f\<lparr>fs_names := hm_insert path (fs_fresh f) (fs_names f), fs_data := (fs_data f)(fs_fresh f := []), fs_fresh := fs_fresh f + 1\<rparr>)"

definition read_exact_at :: "inode \<Rightarrow> nat \<Rightarrow> nat \<Rightarrow> fs \<Rightarrow> io_error + bytes" where
  "read_exact_at i off len f =
     (if len = 0 \<or> off + len \<le> length (fs_data f i) then Inr (take len (drop off (fs_data f i))) else Inl UnexpectedEof)"

definition splice :: "bytes \<Rightarrow> nat \<Rightarrow> bytes \<Rightarrow> bytes" where
  "splice old off new =
     (if new = [] then old
      else take off (old @ replicate (off - length old) 0) @ new @ drop (off + length new) old)"

text \<open>A write may stop after some bytes, with an error.\<close>

definition write_all_at :: "nat option \<Rightarrow> inode \<Rightarrow> nat \<Rightarrow> bytes \<Rightarrow> fs \<Rightarrow> (io_error + unit) \<times> fs" where
  "write_all_at fails i off buf f =
     (let written = (case fails of None \<Rightarrow> buf | Some n \<Rightarrow> take n buf);
          f = f\<lparr>fs_data := (fs_data f)(i := splice (fs_data f i) off written)\<rparr>
      in (case fails of None \<Rightarrow> Inr () | Some _ \<Rightarrow> Inl OtherIo, f))"

definition set_len :: "bool \<Rightarrow> inode \<Rightarrow> nat \<Rightarrow> fs \<Rightarrow> (io_error + unit) \<times> fs" where
  "set_len fails i n f =
     (if fails then (Inl OtherIo, f)
      else (Inr (), f\<lparr>fs_data := (fs_data f)(i := take n (fs_data f i @ replicate (n - length (fs_data f i)) 0))\<rparr>))"

definition parent :: "string \<Rightarrow> string option" where
  "parent p = (if p = ''/'' then None else if CHR ''/'' \<in> set p
     then Some (let d = rev (tl (dropWhile (\<lambda>c. c \<noteq> CHR ''/'') (rev p))) in if d = [] then ''/'' else d)
     else if p = [] then None else Some [])"

text \<open>\<open>create_dir_all\<close> makes the directory and whatever is missing above it.\<close>

fun ancestors :: "nat \<Rightarrow> string \<Rightarrow> string list" where
  "ancestors 0 d = [d]"
| "ancestors (Suc n) d = d # (case parent d of None \<Rightarrow> [] | Some q \<Rightarrow> ancestors n q)"

definition create_dir_all :: "string \<Rightarrow> fs \<Rightarrow> fs" where
  "create_dir_all d f = f\<lparr>fs_dirs := fold List.insert (ancestors (length d) d) (fs_dirs f)\<rparr>"

section \<open>The registry of output folders\<close>

record registered =
  reg_output_folder :: string
  reg_overwrite :: bool

type_synonym registry = "(string, registered) hmap"

definition register_torrent :: "string \<Rightarrow> string \<Rightarrow> bool \<Rightarrow> registry \<Rightarrow> registry" where
  "register_torrent info_hash output_folder overwrite reg =
     hm_insert info_hash \<lparr>reg_output_folder = output_folder, reg_overwrite = overwrite\<rparr> reg"

definition unregister_torrent :: "string \<Rightarrow> registry \<Rightarrow> registry" where
  "unregister_torrent info_hash reg = hm_remove info_hash reg"

definition lookup_registered :: "string \<Rightarrow> registry \<Rightarrow> registered result" where
  "lookup_registered info_hash reg = (case hm_get reg info_hash of
      Some r \<Rightarrow> Inr r | None \<Rightarrow> Inl ''torrent not registered for pooled storage'')"

section \<open>The pool\<close>

definition POOL_CAP_MAX :: nat where "POOL_CAP_MAX = 4096"
definition FD_RESERVE :: nat where "FD_RESERVE = 2048"

type_synonym pool_key = "nat \<times> nat"

record file_pool =
  fp_map :: "(pool_key, inode \<times> string) hmap"
  fp_stamps :: "(pool_key, nat) hmap"
  fp_stamp :: nat
  fp_cap :: nat
  fp_opens :: nat
  fp_evictions :: nat

definition pool_with_cap :: "nat \<Rightarrow> file_pool" where
  "pool_with_cap cap = \<lparr>fp_map = [], fp_stamps = [], fp_stamp = 0, fp_cap = max cap 1, fp_opens = 0, fp_evictions = 0\<rparr>"

text \<open>
  The cap of the process-wide pool, from the descriptor limits and the environment override.  \<open>Ord::clamp\<close>
  panics when its bounds are crossed, which is \<open>None\<close> here.
\<close>

definition global_cap :: "(nat \<times> nat) option \<Rightarrow> nat option \<Rightarrow> nat option" where
  "global_cap limits override =
     (let hard = snd (case limits of Some l \<Rightarrow> l | None \<Rightarrow> (0, POOL_CAP_MAX + FD_RESERVE))
      in case override of
           Some v \<Rightarrow> if hard < 1 then None else Some (max (min (max v 1) hard) 1)
         | None \<Rightarrow> Some (max (min (hard - FD_RESERVE) POOL_CAP_MAX) 1))"

definition pool_evict :: "pool_key \<Rightarrow> file_pool \<Rightarrow> file_pool" where
  "pool_evict key p = p\<lparr>fp_map := hm_remove key (fp_map p), fp_stamps := hm_remove key (fp_stamps p)\<rparr>"

definition evict_by_path :: "string \<Rightarrow> file_pool \<Rightarrow> file_pool" where
  "evict_by_path path p = fold pool_evict (map fst (filter (\<lambda>(_, (_, q)). q = path) (fp_map p))) p"

text \<open>\<open>Iterator::min_by_key\<close> returns the first minimum.\<close>

fun oldest :: "(pool_key, nat) hmap \<Rightarrow> (pool_key \<times> nat) option" where
  "oldest [] = None"
| "oldest ((k, s) # r) = (case oldest r of
      None \<Rightarrow> Some (k, s)
    | Some (k', s') \<Rightarrow> if s' < s then Some (k', s') else Some (k, s))"

definition evict_counted :: "pool_key \<Rightarrow> file_pool \<Rightarrow> file_pool" where
  "evict_counted victim p = (pool_evict victim p)\<lparr>fp_evictions := wrap64 (fp_evictions p + 1)\<rparr>"

lemma oldest_in: "oldest st = Some (k, s) \<Longrightarrow> (k, s) \<in> set st"
  by (induction st arbitrary: k s) (auto split: option.splits if_splits)

lemma oldest_None [simp]: "oldest st = None \<longleftrightarrow> st = []"
  by (cases st) (auto split: option.splits)

lemma evict_counted_shorter:
  assumes "oldest (fp_stamps p) = Some (v, s)"
  shows "length (fp_stamps (evict_counted v p)) < length (fp_stamps p)"
proof -
  have "(v, s) \<in> set (fp_stamps p)" using assms by (rule oldest_in)
  then have "length (hm_remove v (fp_stamps p)) < length (fp_stamps p)"
    by (auto simp: AList.delete_eq intro: length_filter_less)
  then show ?thesis by (simp add: evict_counted_def pool_evict_def)
qed

function make_room :: "pool_key \<Rightarrow> file_pool \<Rightarrow> file_pool" where
  "make_room key p =
     (if fp_cap p \<le> length (fp_map p)
      then case oldest (fp_stamps p) of
             None \<Rightarrow> p
           | Some (victim, _) \<Rightarrow> if victim = key then p else make_room key (evict_counted victim p)
      else p)"
  by pat_completeness auto

termination
  by (relation "measure (\<lambda>(key, p). length (fp_stamps p))") (auto simp: evict_counted_shorter)

declare make_room.simps [simp del]

definition touch :: "pool_key \<Rightarrow> file_pool \<Rightarrow> file_pool" where
  "touch key p = p\<lparr>fp_stamps := hm_insert key (fp_stamp p) (fp_stamps p), fp_stamp := wrap64 (fp_stamp p + 1)\<rparr>"

definition pool_insert :: "pool_key \<Rightarrow> inode \<Rightarrow> string \<Rightarrow> file_pool \<Rightarrow> file_pool" where
  "pool_insert key i path p =
     (let p = touch key (make_room key p) in p\<lparr>fp_map := hm_insert key (i, path) (fp_map p)\<rparr>)"

text \<open>\<open>EMFILE\<close>: up to a quarter of the pool goes, oldest first.\<close>

fun shed :: "nat \<Rightarrow> file_pool \<Rightarrow> file_pool" where
  "shed 0 p = p"
| "shed (Suc n) p = (case oldest (fp_stamps p) of
      None \<Rightarrow> p
    | Some (victim, _) \<Rightarrow> shed n (evict_counted victim p))"

definition opened :: "pool_key \<Rightarrow> inode \<Rightarrow> string \<Rightarrow> file_pool \<Rightarrow> (io_error + inode) \<times> file_pool" where
  "opened key i path p = (Inr i, pool_insert key i path (p\<lparr>fp_opens := wrap64 (fp_opens p + 1)\<rparr>))"

definition get_or_open :: "(nat \<Rightarrow> io_error option) \<Rightarrow> fs \<Rightarrow> pool_key \<Rightarrow> string \<Rightarrow> file_pool \<Rightarrow> (io_error + inode) \<times> file_pool" where
  "get_or_open refuse f key path p = (case hm_get (fp_map p) key of
      Some (i, _) \<Rightarrow> (Inr i, touch key p)
    | None \<Rightarrow>
        (case fs_open (refuse 0) path f of
           Inr i \<Rightarrow> opened key i path p
         | Inl Emfile \<Rightarrow>
             (let p = shed (max (fp_cap p div 4) 1) p
              in case fs_open (refuse 1) path f of
                   Inr i \<Rightarrow> opened key i path p
                 | Inl e \<Rightarrow> (Inl e, p))
         | Inl e \<Rightarrow> (Inl e, p)))"

definition pool_stats :: "file_pool \<Rightarrow> nat \<times> nat \<times> nat \<times> nat" where
  "pool_stats p = (fp_opens p, fp_evictions p, length (fp_map p), fp_cap p)"

section \<open>The storage view of one torrent\<close>

record pooled_storage =
  ps_uid :: nat
  ps_output_folder :: string
  ps_overwrite :: bool
  ps_paths :: "string option list"

record file_info =
  fi_relative_filename :: string
  fi_padding :: bool

definition create_storage :: "string \<Rightarrow> registry \<Rightarrow> nat \<Rightarrow> pooled_storage result \<times> nat" where
  "create_storage info_hash reg uid = (case lookup_registered info_hash reg of
      Inl e \<Rightarrow> (Inl e, uid)
    | Inr r \<Rightarrow> (Inr \<lparr>ps_uid = uid, ps_output_folder = reg_output_folder r, ps_overwrite = reg_overwrite r, ps_paths = []\<rparr>,
                wrap64 (uid + 1)))"

definition full_path :: "pooled_storage \<Rightarrow> nat \<Rightarrow> string option" where
  "full_path s file_id = (if file_id < length (ps_paths s)
     then map_option (path_join (ps_output_folder s)) (ps_paths s ! file_id) else None)"

text \<open>The three ways an access fails: no such file, the pool could not open it, the access itself.\<close>

datatype access_error = NoSuchFile nat | Opening string io_error | Access io_error

definition storage_handle :: "(nat \<Rightarrow> io_error option) \<Rightarrow> fs \<Rightarrow> pooled_storage \<Rightarrow> nat \<Rightarrow> file_pool \<Rightarrow> (access_error + inode) \<times> file_pool" where
  "storage_handle refuse f s file_id p = (case full_path s file_id of
      None \<Rightarrow> (Inl (NoSuchFile file_id), p)
    | Some full \<Rightarrow>
        (case get_or_open refuse f (ps_uid s, file_id) full p of
           (Inl e, p) \<Rightarrow> (Inl (Opening full e), p)
         | (Inr i, p) \<Rightarrow> (Inr i, p)))"

text \<open>
  Creation of the files, empty and closed again.  Per file the system may refuse the directory or the open;
  without \<open>overwrite\<close> an existing file is an error.
\<close>

definition init_file :: "bool \<Rightarrow> bool \<Rightarrow> bool \<Rightarrow> string \<Rightarrow> fs \<Rightarrow> unit result \<times> fs" where
  "init_file mkdir_ok open_ok overwrite full f = (case parent full of
      None \<Rightarrow> (Inl ''no parent'', f)
    | Some d \<Rightarrow>
        if \<not> mkdir_ok then (Inl ''create_dir_all'', f)
        else let f = create_dir_all d f
             in if overwrite
                then if open_ok then (Inr (), fs_create full f) else (Inl ''opening read/write'', f)
                else if hm_get (fs_names f) full \<noteq> None \<or> \<not> open_ok then (Inl ''creating (no overwrite)'', f)
                else (Inr (), fs_create full f))"

fun init_files :: "(string \<Rightarrow> bool) \<Rightarrow> (string \<Rightarrow> bool) \<Rightarrow> pooled_storage \<Rightarrow> file_info list \<Rightarrow> string option list \<Rightarrow> fs \<Rightarrow> string option list result \<times> fs" where
  "init_files mk op s [] paths f = (Inr paths, f)"
| "init_files mk op s (fi # fis) paths f =
     (if fi_padding fi then init_files mk op s fis (paths @ [None]) f
      else let full = path_join (ps_output_folder s) (fi_relative_filename fi)
           in case init_file (mk full) (op full) (ps_overwrite s) full f of
                (Inl e, f) \<Rightarrow> (Inl e, f)
              | (Inr _, f) \<Rightarrow> init_files mk op s fis (paths @ [Some (fi_relative_filename fi)]) f)"

definition init_storage :: "(string \<Rightarrow> bool) \<Rightarrow> (string \<Rightarrow> bool) \<Rightarrow> file_info list \<Rightarrow> pooled_storage \<Rightarrow> fs \<Rightarrow> unit result \<times> pooled_storage \<times> fs" where
  "init_storage mk op fis s f = (case init_files mk op s fis [] f of
      (Inl e, f) \<Rightarrow> (Inl e, s, f)
    | (Inr paths, f) \<Rightarrow> (Inr (), s\<lparr>ps_paths := paths\<rparr>, f))"

definition pread_exact :: "(nat \<Rightarrow> io_error option) \<Rightarrow> pooled_storage \<Rightarrow> nat \<Rightarrow> nat \<Rightarrow> nat \<Rightarrow> fs \<Rightarrow> file_pool \<Rightarrow> (access_error + bytes) \<times> file_pool" where
  "pread_exact refuse s file_id off len f p = (case storage_handle refuse f s file_id p of
      (Inl e, p) \<Rightarrow> (Inl e, p)
    | (Inr i, p) \<Rightarrow> (case read_exact_at i off len f of Inl e \<Rightarrow> Inl (Access e) | Inr b \<Rightarrow> Inr b, p))"

definition pwrite_all ::
  "(nat \<Rightarrow> io_error option) \<Rightarrow> nat option \<Rightarrow> pooled_storage \<Rightarrow> nat \<Rightarrow> nat \<Rightarrow> bytes \<Rightarrow> fs \<Rightarrow> file_pool \<Rightarrow> (access_error + unit) \<times> fs \<times> file_pool" where
  "pwrite_all refuse fails s file_id off buf f p = (case storage_handle refuse f s file_id p of
      (Inl e, p) \<Rightarrow> (Inl e, f, p)
    | (Inr i, p) \<Rightarrow> (case write_all_at fails i off buf f of
        (Inl e, f) \<Rightarrow> (Inl (Access e), f, p) | (Inr u, f) \<Rightarrow> (Inr u, f, p)))"

definition ensure_file_length ::
  "(nat \<Rightarrow> io_error option) \<Rightarrow> bool \<Rightarrow> pooled_storage \<Rightarrow> nat \<Rightarrow> nat \<Rightarrow> fs \<Rightarrow> file_pool \<Rightarrow> (access_error + unit) \<times> fs \<times> file_pool" where
  "ensure_file_length refuse fails s file_id n f p = (case storage_handle refuse f s file_id p of
      (Inl e, p) \<Rightarrow> (Inl e, f, p)
    | (Inr i, p) \<Rightarrow> (case set_len fails i n f of
        (Inl e, f) \<Rightarrow> (Inl (Access e), f, p) | (Inr u, f) \<Rightarrow> (Inr u, f, p)))"

definition storage_take :: "pooled_storage \<Rightarrow> pooled_storage" where
  "storage_take s = s"

definition storage_remove_file :: "bool \<Rightarrow> pooled_storage \<Rightarrow> string \<Rightarrow> fs \<Rightarrow> file_pool \<Rightarrow> unit result \<times> fs \<times> file_pool" where
  "storage_remove_file unlink_ok s filename f p =
     (let full = path_join (ps_output_folder s) filename
      in if hm_get (fs_names f) full = None \<or> \<not> unlink_ok then (Inl ''removing'', f, p)
         else (Inr (), f\<lparr>fs_names := hm_remove full (fs_names f)\<rparr>, evict_by_path full p))"

text \<open>An entry of a directory is a name or a directory whose parent it is.\<close>

definition dir_entries :: "string \<Rightarrow> fs \<Rightarrow> string list" where
  "dir_entries d f = filter (\<lambda>q. parent q = Some d) (map fst (fs_names f) @ fs_dirs f)"

definition remove_directory_if_empty :: "bool \<Rightarrow> bool \<Rightarrow> pooled_storage \<Rightarrow> string \<Rightarrow> fs \<Rightarrow> unit result \<times> fs" where
  "remove_directory_if_empty read_ok rmdir_ok s path f =
     (let full = path_join (ps_output_folder s) path
      in if full \<notin> set (fs_dirs f) then (Inl ''cannot remove dir: not a directory'', f)
         else if \<not> read_ok then (Inl ''read_dir'', f)
         else if dir_entries full f = []
         then if rmdir_ok then (Inr (), f\<lparr>fs_dirs := removeAll full (fs_dirs f)\<rparr>) else (Inl ''removing'', f)
         else (Inr (), f))"


section \<open>The pool invariant\<close>

definition pool_wf :: "file_pool \<Rightarrow> bool" where
  "pool_wf p \<longleftrightarrow> hm_wf (fp_map p) \<and> hm_wf (fp_stamps p) \<and> fst ` set (fp_stamps p) = fst ` set (fp_map p) \<and>
     1 \<le> fp_cap p \<and> length (fp_map p) \<le> fp_cap p"

lemma keys_remove [simp]: "fst ` set (hm_remove k m) = fst ` set m - {k}"
  by (induction m) auto

lemma keys_insert [simp]: "fst ` set (hm_insert k v m) = insert k (fst ` set m)"
  by (induction m) auto

lemma hm_length_keys: "hm_wf m \<Longrightarrow> length m = card (fst ` set m)"
  by (metis distinct_card hm_wf_def length_map list.set_map)

lemma pool_lengths: "pool_wf p \<Longrightarrow> length (fp_stamps p) = length (fp_map p)"
  by (simp add: pool_wf_def hm_length_keys)

lemma length_remove_le: "length (hm_remove k m) \<le> length m"
  by (induction m) auto

lemma pool_wf_evict: "pool_wf p \<Longrightarrow> pool_wf (pool_evict k p)"
  using length_remove_le [of k "fp_map p"] by (simp add: pool_wf_def pool_evict_def)

lemma evict_counted_fields [simp]:
  "fp_map (evict_counted k p) = hm_remove k (fp_map p)" "fp_stamps (evict_counted k p) = hm_remove k (fp_stamps p)"
  "fp_cap (evict_counted k p) = fp_cap p" "fp_stamp (evict_counted k p) = fp_stamp p"
  by (simp_all add: evict_counted_def pool_evict_def)

lemma pool_wf_counted: "pool_wf p \<Longrightarrow> pool_wf (evict_counted k p)"
  using pool_wf_evict [of p k] by (simp add: pool_wf_def evict_counted_def pool_evict_def)

text \<open>Both loops of the pool only evict the oldest entry, again and again.\<close>

lemma make_room_invariant:
  assumes "P p" "\<And>q v t. P q \<Longrightarrow> oldest (fp_stamps q) = Some (v, t) \<Longrightarrow> P (evict_counted v q)"
  shows "P (make_room key p)"
  using assms(1)
proof (induction key p rule: make_room.induct)
  case (1 key p)
  show ?case
  proof (cases "oldest (fp_stamps p)")
    case None
    then show ?thesis using 1(2) by (subst make_room.simps) simp
  next
    case (Some vt)
    obtain v t where vt: "vt = (v, t)" by fastforce
    show ?thesis
    proof (cases "fp_cap p \<le> length (fp_map p) \<and> v \<noteq> key")
      case True
      then have "P (make_room key (evict_counted v p))" using 1(1) [OF _ Some vt [symmetric]] assms(2) [OF 1(2)] Some vt by simp
      then show ?thesis using True Some vt by (subst make_room.simps) simp
    next
      case False
      then show ?thesis using 1(2) Some vt by (subst make_room.simps) auto
    qed
  qed
qed

lemma shed_invariant:
  assumes "P p" "\<And>q v t. P q \<Longrightarrow> oldest (fp_stamps q) = Some (v, t) \<Longrightarrow> P (evict_counted v q)"
  shows "P (shed n p)"
  using assms(1)
proof (induction n arbitrary: p)
  case (Suc n)
  then show ?case using assms(2) by (cases "oldest (fp_stamps p)") auto
qed simp

lemma make_room_frame [simp]: "fp_cap (make_room key p) = fp_cap p" "fp_stamp (make_room key p) = fp_stamp p"
  by (rule make_room_invariant; simp)+

lemma make_room_wf: "pool_wf p \<Longrightarrow> pool_wf (make_room key p)"
  by (rule make_room_invariant) (simp_all add: pool_wf_counted)

text \<open>On a miss the loop ends with room for one more.\<close>

lemma make_room_miss:
  assumes "pool_wf p" "key \<notin> fst ` set (fp_map p)"
  shows "length (fp_map (make_room key p)) < fp_cap p \<and> fst ` set (fp_map (make_room key p)) \<subseteq> fst ` set (fp_map p)"
  using assms
proof (induction key p rule: make_room.induct)
  case (1 key p)
  show ?case
  proof (cases "fp_cap p \<le> length (fp_map p)")
    case True
    then have "fp_stamps p \<noteq> []" using 1 pool_lengths [of p] by (auto simp: pool_wf_def)
    then obtain v t where o: "oldest (fp_stamps p) = Some (v, t)" by (metis oldest_None option.exhaust surj_pair)
    have v: "v \<noteq> key" using oldest_in [OF o] 1(2,3) by (force simp: pool_wf_def)
    have m: "make_room key p = make_room key (evict_counted v p)" using True o v by (subst make_room.simps) simp
    have "key \<notin> fst ` set (fp_map (evict_counted v p))" using 1(3) by simp
    from 1(1) [OF True o refl v pool_wf_counted [OF 1(2)] this] show ?thesis unfolding m by auto
  qed (subst (1 2) make_room.simps, simp)
qed

lemma pool_wf_touch_hit: "pool_wf p \<Longrightarrow> k \<in> fst ` set (fp_map p) \<Longrightarrow> pool_wf (touch k p)"
  by (auto simp: pool_wf_def touch_def)

lemma pool_wf_insert:
  assumes "pool_wf p" "key \<notin> fst ` set (fp_map p)"
  shows "pool_wf (pool_insert key i path p)"
proof -
  let ?q = "make_room key p"
  have q: "pool_wf ?q" "length (fp_map ?q) < fp_cap ?q" "key \<notin> fst ` set (fp_map ?q)"
    using make_room_wf [OF assms(1)] make_room_miss [OF assms] assms(2) by auto
  then have "length (hm_insert key (i, path) (fp_map ?q)) = Suc (length (fp_map ?q))"
    by (simp add: pool_wf_def hm_length_keys)
  with q show ?thesis by (simp add: pool_wf_def pool_insert_def touch_def Let_def)
qed

lemma shed_wf:
  assumes "pool_wf p"
  shows "pool_wf (shed n p) \<and> fst ` set (fp_map (shed n p)) \<subseteq> fst ` set (fp_map p) \<and> fp_cap (shed n p) = fp_cap p"
  by (rule shed_invariant) (use assms in \<open>auto simp: pool_wf_counted\<close>)

lemma key_iff: "k \<in> fst ` set m \<longleftrightarrow> hm_get m k \<noteq> None"
  by (auto simp: map_of_eq_None_iff)

lemma opened_wf: "pool_wf p \<Longrightarrow> key \<notin> fst ` set (fp_map p) \<Longrightarrow> pool_wf (snd (opened key i path p))"
  unfolding opened_def using pool_wf_insert [of "p\<lparr>fp_opens := wrap64 (fp_opens p + 1)\<rparr>"] by (simp add: pool_wf_def)

lemma get_or_open_wf:
  assumes "pool_wf p"
  shows "pool_wf (snd (get_or_open refuse f key path p))"
proof (cases "hm_get (fp_map p) key")
  case (Some e)
  then show ?thesis using assms pool_wf_touch_hit [of p key] by (auto simp: get_or_open_def key_iff split: prod.splits)
next
  case None
  then have m: "key \<notin> fst ` set (fp_map p)" by (simp add: key_iff del: map_of_eq_None_iff)
  note sh = shed_wf [OF assms, of "max (fp_cap p div 4) 1"]
  have "key \<notin> fst ` set (fp_map (shed (max (fp_cap p div 4) 1) p))" using sh m by blast
  then show ?thesis
    using None assms m sh opened_wf by (auto simp: get_or_open_def Let_def split: sum.splits io_error.splits)
qed

lemma fold_evict_wf: "pool_wf p \<Longrightarrow> pool_wf (fold pool_evict ks p)"
  by (induction ks arbitrary: p) (auto simp: pool_wf_evict)

lemma evict_by_path_wf: "pool_wf p \<Longrightarrow> pool_wf (evict_by_path path p)"
  by (simp add: evict_by_path_def fold_evict_wf)


section \<open>The pool is an LRU cache\<close>

text \<open>The abstract cache is the list of its keys, the one used longest ago first.\<close>

definition recency :: "file_pool \<Rightarrow> pool_key list" where
  "recency p = map fst (sort_key snd (fp_stamps p))"

definition lru_touch :: "'k \<Rightarrow> 'k list \<Rightarrow> 'k list" where
  "lru_touch k xs = filter (\<lambda>x. x \<noteq> k) xs @ [k]"

definition lru_add :: "nat \<Rightarrow> 'k \<Rightarrow> 'k list \<Rightarrow> 'k list" where
  "lru_add cap k xs = drop (Suc (length xs) - cap) xs @ [k]"

definition lru_shed :: "nat \<Rightarrow> 'k list \<Rightarrow> 'k list" where
  "lru_shed cap xs = drop (max (cap div 4) 1) xs"

definition stamps_ok :: "file_pool \<Rightarrow> bool" where
  "stamps_ok p \<longleftrightarrow> hm_wf (fp_stamps p) \<and> distinct (map snd (fp_stamps p)) \<and> (\<forall>s \<in> snd ` set (fp_stamps p). s < fp_stamp p)"

lemma set_recency: "set (recency p) = fst ` set (fp_stamps p)"
  by (simp add: recency_def)

lemma length_recency: "length (recency p) = length (fp_stamps p)"
  by (simp add: recency_def)

lemma recency_remove: "map fst (sort_key snd (hm_remove k st)) = filter (\<lambda>x. x \<noteq> k) (map fst (sort_key snd st))"
proof -
  have "hm_remove k st = filter (\<lambda>e. fst e \<noteq> k) st" by (induction st) auto
  then show ?thesis by (simp add: filter_sort [symmetric] filter_map comp_def)
qed

lemma oldest_min: "oldest st = Some (k, s) \<Longrightarrow> (k', s') \<in> set st \<Longrightarrow> s \<le> s'"
proof (induction st arbitrary: k s)
  case (Cons e st)
  then show ?case by (cases e) (fastforce split: option.splits if_splits)
qed simp

lemma mset_remove: "hm_wf st \<Longrightarrow> (k, s) \<in> set st \<Longrightarrow> mset st = add_mset (k, s) (mset (hm_remove k st))"
proof (induction st)
  case (Cons e st)
  then show ?case by (cases e) (auto simp: hm_wf_def hm_remove_absent map_of_eq_None_iff rev_image_eqI)
qed simp

lemma recency_oldest:
  assumes "stamps_ok p" "oldest (fp_stamps p) = Some (k, s)"
  shows "recency p = k # map fst (sort_key snd (hm_remove k (fp_stamps p)))"
proof -
  let ?st = "fp_stamps p" and ?r = "sort_key snd (hm_remove k (fp_stamps p))"
  have i: "(k, s) \<in> set ?st" using assms(2) by (rule oldest_in)
  have "sort_key snd ?st = (k, s) # ?r"
  proof (rule sort_key_inj_key_eq)
    show "mset ?st = mset ((k, s) # ?r)" using mset_remove [OF _ i] assms(1) by (simp add: stamps_ok_def)
    show "inj_on snd (set ?st)" using assms(1) by (simp add: stamps_ok_def distinct_map)
    have "set (hm_remove k ?st) \<subseteq> set ?st" by (auto simp: AList.delete_eq)
    then show "sorted (map snd ((k, s) # ?r))" using oldest_min [OF assms(2)] by (auto simp: sorted_sort_key)
  qed
  then show ?thesis by (simp add: recency_def)
qed

lemma stamps_ok_remove: "stamps_ok p \<Longrightarrow> stamps_ok (evict_counted k p)"
  using hm.wf_del [of "fp_stamps p" k] by (auto simp: stamps_ok_def AList.delete_eq distinct_map_filter)

lemma recency_evict_oldest:
  "stamps_ok p \<Longrightarrow> oldest (fp_stamps p) = Some (k, s) \<Longrightarrow> recency (evict_counted k p) = tl (recency p)"
  by (simp add: recency_oldest) (simp add: recency_def)

lemma recency_make_room:
  assumes "pool_wf p" "stamps_ok p" "key \<notin> fst ` set (fp_map p)"
  shows "recency (make_room key p) = drop (Suc (length (recency p)) - fp_cap p) (recency p) \<and> stamps_ok (make_room key p)"
  using assms
proof (induction key p rule: make_room.induct)
  case (1 key p)
  show ?case
  proof (cases "fp_cap p \<le> length (fp_map p)")
    case True
    then have "fp_stamps p \<noteq> []" using 1 pool_lengths [of p] by (auto simp: pool_wf_def)
    then obtain v t where o: "oldest (fp_stamps p) = Some (v, t)" by (metis oldest_None option.exhaust surj_pair)
    have v: "v \<noteq> key" using oldest_in [OF o] 1(2,4) by (force simp: pool_wf_def)
    have m: "make_room key p = make_room key (evict_counted v p)" using True o v by (subst make_room.simps) simp
    have "key \<notin> fst ` set (fp_map (evict_counted v p))" using 1(4) by simp
    note ih = 1(1) [OF True o refl v pool_wf_counted [OF 1(2)] stamps_ok_remove [OF 1(3)] this]
    have "length (recency p) = fp_cap p" "1 \<le> fp_cap p" using 1(2) True pool_lengths [of p] length_recency [of p] by (auto simp: pool_wf_def)
    with ih show ?thesis unfolding m recency_evict_oldest [OF 1(3) o] by (simp add: drop_Suc)
  next
    case False
    then have "make_room key p = p" by (subst make_room.simps) simp
    with False 1 show ?thesis using pool_lengths [of p] length_recency [of p] by simp
  qed
qed

lemma recency_shed:
  "pool_wf p \<Longrightarrow> stamps_ok p \<Longrightarrow> recency (shed n p) = drop n (recency p) \<and> stamps_ok (shed n p) \<and> fp_stamp (shed n p) = fp_stamp p"
proof (induction n arbitrary: p)
  case (Suc n)
  show ?case
  proof (cases "oldest (fp_stamps p)")
    case None
    then show ?thesis using Suc.prems by (simp add: recency_def)
  next
    case (Some vt)
    obtain v t where vt: "vt = (v, t)" by fastforce
    show ?thesis
      using Suc.IH [OF pool_wf_counted [OF Suc.prems(1)] stamps_ok_remove [OF Suc.prems(2)], of v] Some vt
        recency_evict_oldest [OF Suc.prems(2), of v t] by (simp add: drop_Suc)
  qed
qed simp

lemma mset_insert: "hm_wf st \<Longrightarrow> mset (hm_insert k s st) = add_mset (k, s) (mset (hm_remove k st))"
proof (induction st)
  case (Cons e st)
  then show ?case by (cases e) (auto simp: hm_wf_def hm_remove_absent map_of_eq_None_iff)
qed simp

lemma recency_touch:
  assumes "stamps_ok p" "fp_stamp p < u64_max"
  shows "recency (touch k p) = lru_touch k (recency p) \<and> stamps_ok (touch k p)"
proof -
  let ?st = "fp_stamps p" and ?s = "fp_stamp p"
  have wf: "hm_wf ?st" using assms(1) by (simp add: stamps_ok_def)
  have sub: "set (hm_remove k ?st) \<subseteq> set ?st" by (auto simp: AList.delete_eq)
  have lt: "s < ?s" if "(k', s) \<in> set (hm_remove k ?st)" for k' s using that sub assms(1) by (force simp: stamps_ok_def)
  have inj: "inj_on snd (set (hm_remove k ?st))" using assms(1) sub by (auto simp: stamps_ok_def distinct_map intro: inj_on_subset)
  have set: "set (hm_insert k ?s ?st) = insert (k, ?s) (set (hm_remove k ?st))"
    using mset_insert [OF wf, of k ?s] by (metis set_mset_add_mset_insert set_mset_mset)
  have inj2: "inj_on snd (set (hm_insert k ?s ?st))" unfolding set using inj lt by (auto simp: inj_on_def) blast+
  have "sort_key snd (hm_insert k ?s ?st) = sort_key snd (hm_remove k ?st) @ [(k, ?s)]"
  proof (rule sort_key_inj_key_eq [OF _ inj2])
    show "mset (hm_insert k ?s ?st) = mset (sort_key snd (hm_remove k ?st) @ [(k, ?s)])" using mset_insert [OF wf] by simp
    show "sorted (map snd (sort_key snd (hm_remove k ?st) @ [(k, ?s)]))"
      using lt by (auto simp: sorted_append sorted_sort_key less_imp_le)
  qed
  then have r: "recency (touch k p) = lru_touch k (recency p)" by (simp add: recency_def touch_def lru_touch_def recency_remove)
  have "distinct (hm_insert k ?s ?st)" using hm.wf_ins [OF wf, of k ?s] by (simp add: hm_wf_def distinct_map)
  then have "distinct (map snd (hm_insert k ?s ?st))" using inj2 by (simp add: distinct_map)
  moreover have "fp_stamp (touch k p) = Suc ?s" using assms(2) by (simp add: touch_def rust_arith)
  ultimately have "stamps_ok (touch k p)" using wf lt set by (auto simp: stamps_ok_def touch_def less_Suc_eq)
  with r show ?thesis by simp
qed


lemma recency_opened:
  assumes "pool_wf p" "stamps_ok p" "fp_stamp p < u64_max" "key \<notin> fst ` set (fp_map p)"
  shows "recency (snd (opened key i path p)) = lru_add (fp_cap p) key (recency p) \<and> stamps_ok (snd (opened key i path p))"
proof -
  let ?p = "p\<lparr>fp_opens := wrap64 (fp_opens p + 1)\<rparr>"
  let ?q = "make_room key ?p"
  have q: "recency ?q = drop (Suc (length (recency p)) - fp_cap p) (recency p)" "stamps_ok ?q"
    using recency_make_room [of ?p key] assms(1,2,4) by (simp_all add: pool_wf_def stamps_ok_def recency_def)
  have "key \<notin> set (recency p)" using assms(1,4) by (simp add: set_recency pool_wf_def)
  then have "key \<notin> set (recency ?q)" using q(1) in_set_dropD by metis
  then have "filter (\<lambda>x. x \<noteq> key) (recency ?q) = recency ?q" by (metis (mono_tags, lifting) filter_True)
  moreover have "recency (touch key ?q) = lru_touch key (recency ?q)" "stamps_ok (touch key ?q)"
    using recency_touch [OF q(2)] assms(3) by simp_all
  moreover have "recency (x\<lparr>fp_map := m\<rparr>) = recency x" "stamps_ok (x\<lparr>fp_map := m\<rparr>) = stamps_ok x" for x m
    by (simp_all add: recency_def stamps_ok_def)
  ultimately show ?thesis using q(1) by (simp add: opened_def pool_insert_def Let_def lru_touch_def lru_add_def)
qed

section \<open>The storage's view of a cache\<close>

text \<open>
  What a storage relies on: a fetch answers with the handle cached for the key or opens the path, it caches
  nothing else, and forgetting a path leaves no handle to it.  Everything about reads and writes follows from
  these laws alone.
\<close>

locale handle_cache =
  fixes cached :: "'p \<Rightarrow> pool_key \<Rightarrow> (inode \<times> string) option"
    and fetch :: "(nat \<Rightarrow> io_error option) \<Rightarrow> fs \<Rightarrow> pool_key \<Rightarrow> string \<Rightarrow> 'p \<Rightarrow> (io_error + inode) \<times> 'p"
    and forget_path :: "string \<Rightarrow> 'p \<Rightarrow> 'p"
  assumes fetch_hit: "fetch r f k path p = (Inr i, p') \<Longrightarrow> cached p k = Some (j, q) \<Longrightarrow> i = j"
    and fetch_miss: "fetch r f k path p = (Inr i, p') \<Longrightarrow> cached p k = None \<Longrightarrow> hm_get (fs_names f) path = Some i"
    and fetch_caches: "fetch r f k path p = (res, p') \<Longrightarrow> cached p' k' = Some (j, q) \<Longrightarrow>
      cached p k' = Some (j, q) \<or> (k' = k \<and> q = path \<and> hm_get (fs_names f) path = Some j)"
    and forgotten: "cached (forget_path path p) k = Some (j, q) \<Longrightarrow> cached p k = Some (j, q) \<and> q \<noteq> path"
begin

text \<open>Coherence: a cached handle is the inode its path names, and its key belongs to that path.\<close>

definition coherent :: "(pool_key \<Rightarrow> string option) \<Rightarrow> fs \<Rightarrow> 'p \<Rightarrow> bool" where
  "coherent path_of f p \<longleftrightarrow>
     (\<forall>k j q. cached p k = Some (j, q) \<longrightarrow> hm_get (fs_names f) q = Some j \<and> path_of k = Some q)"

lemma fetch_coherent:
  assumes "coherent path_of f p" "path_of k = Some path" "fetch r f k path p = (res, p')"
  shows "coherent path_of f p'"
  using assms fetch_caches [OF assms(3)] unfolding coherent_def by blast

lemma fetch_names:
  assumes "coherent path_of f p" "path_of k = Some path" "fetch r f k path p = (Inr i, p')"
  shows "hm_get (fs_names f) path = Some i"
proof (cases "cached p k")
  case None
  then show ?thesis using fetch_miss [OF assms(3)] by simp
next
  case (Some e)
  then show ?thesis using fetch_hit [OF assms(3)] assms(1,2) unfolding coherent_def by (metis option.inject surj_pair)
qed

lemma forget_coherent:
  assumes "coherent path_of f p" "\<And>q. q \<noteq> path \<Longrightarrow> hm_get (fs_names f') q = hm_get (fs_names f) q"
  shows "coherent path_of f' (forget_path path p)"
  using assms forgotten unfolding coherent_def by metis

lemma coherent_extend:
  assumes "coherent path_of f p" "\<And>q j. hm_get (fs_names f) q = Some j \<Longrightarrow> hm_get (fs_names f') q = Some j"
  shows "coherent path_of f' p"
  using assms unfolding coherent_def by blast

end

lemma removed_get: "hm_get (fp_map (fold pool_evict ks p)) k = (if k \<in> set ks then None else hm_get (fp_map p) k)"
  by (induction ks arbitrary: p) (auto simp: pool_evict_def hm_simps)

lemma make_room_get: "hm_get (fp_map (make_room key p)) k = Some e \<Longrightarrow> hm_get (fp_map p) k = Some e"
  by (rule make_room_invariant [where P = "\<lambda>q. hm_get (fp_map q) k = Some e \<longrightarrow> hm_get (fp_map p) k = Some e", THEN mp])
    (auto simp: hm_simps split: if_splits)

lemma shed_get: "hm_get (fp_map (shed n p)) k = Some e \<Longrightarrow> hm_get (fp_map p) k = Some e"
  by (rule shed_invariant [where P = "\<lambda>q. hm_get (fp_map q) k = Some e \<longrightarrow> hm_get (fp_map p) k = Some e", THEN mp])
    (auto simp: hm_simps split: if_splits)

lemma opened_get: "hm_get (fp_map (snd (opened key i path p))) k = Some e \<Longrightarrow> hm_get (fp_map p) k = Some e \<or> (k = key \<and> e = (i, path))"
  using make_room_get [of key "p\<lparr>fp_opens := wrap64 (fp_opens p + 1)\<rparr>" k e]
  by (auto simp: opened_def pool_insert_def touch_def Let_def hm_simps split: if_splits)

lemma fs_open_Inr: "fs_open r path f = Inr i \<Longrightarrow> hm_get (fs_names f) path = Some i"
  by (auto simp: fs_open_def split: option.splits)

text \<open>The outcomes of a lookup in the pool.\<close>

lemma get_or_open_cases:
  assumes "get_or_open refuse f key path p = (res, p')"
  obtains (hit) i q where "hm_get (fp_map p) key = Some (i, q)" "res = Inr i" "p' = touch key p"
    | (open1) i where "hm_get (fp_map p) key = None" "fs_open (refuse 0) path f = Inr i" "res = Inr i" "p' = snd (opened key i path p)"
    | (open2) i where "hm_get (fp_map p) key = None" "fs_open (refuse 0) path f = Inl Emfile" "fs_open (refuse 1) path f = Inr i" "res = Inr i"
        "p' = snd (opened key i path (shed (max (fp_cap p div 4) 1) p))"
    | (failed2) e where "hm_get (fp_map p) key = None" "fs_open (refuse 0) path f = Inl Emfile" "fs_open (refuse 1) path f = Inl e" "res = Inl e"
        "p' = shed (max (fp_cap p div 4) 1) p"
    | (failed) e where "hm_get (fp_map p) key = None" "fs_open (refuse 0) path f = Inl e" "e \<noteq> Emfile" "res = Inl e" "p' = p"
proof (cases "hm_get (fp_map p) key")
  case (Some e)
  then show ?thesis using hit assms by (cases e) (simp add: get_or_open_def)
next
  case None
  show ?thesis
  proof (cases "fs_open (refuse 0) path f")
    case (Inr i)
    then show ?thesis using open1 None assms by (simp add: get_or_open_def opened_def)
  next
    case (Inl e)
    show ?thesis
    proof (cases "e = Emfile")
      case True
      show ?thesis
      proof (cases "fs_open (refuse 1) path f")
        case (Inl e2)
        then show ?thesis using failed2 None assms True \<open>fs_open (refuse 0) path f = Inl e\<close> by (simp add: get_or_open_def Let_def)
      next
        case (Inr i)
        then show ?thesis using open2 None assms True Inl by (simp add: get_or_open_def Let_def opened_def)
      qed
    next
      case False
      then show ?thesis using failed None assms Inl by (cases e) (simp_all add: get_or_open_def)
    qed
  qed
qed

interpretation pool_cache: handle_cache "\<lambda>p. hm_get (fp_map p)" get_or_open evict_by_path
proof
  fix r f k path p i p' j q assume g: "get_or_open r f k path p = (Inr i, p')"
  show "hm_get (fp_map p) k = Some (j, q) \<Longrightarrow> i = j" using g by (cases rule: get_or_open_cases) auto
  show "hm_get (fp_map p) k = None \<Longrightarrow> hm_get (fs_names f) path = Some i"
    using g by (cases rule: get_or_open_cases) (auto dest: fs_open_Inr)
next
  fix r f k path p res p' k' j q
  assume g: "get_or_open r f k path p = (res, p')" and c: "hm_get (fp_map p') k' = Some (j, q)"
  show "hm_get (fp_map p) k' = Some (j, q) \<or> k' = k \<and> q = path \<and> hm_get (fs_names f) path = Some j"
    using g
  proof (cases rule: get_or_open_cases)
    case (open1 i)
    then show ?thesis using opened_get [of k i path p k' "(j, q)"] c by (auto dest: fs_open_Inr)
  next
    case (open2 i)
    then show ?thesis
      using opened_get [of k i path "shed (max (fp_cap p div 4) 1) p" k' "(j, q)"] shed_get [of _ p k'] c by (auto dest: fs_open_Inr)
  qed (use c in \<open>auto simp: touch_def dest: shed_get\<close>)
next
  fix path p k j q assume "hm_get (fp_map (evict_by_path path p)) k = Some (j, q)"
  then have "hm_get (fp_map p) k = Some (j, q)" "k \<notin> set (map fst (filter (\<lambda>(_, (_, q)). q = path) (fp_map p)))"
    by (auto simp: evict_by_path_def removed_get simp del: set_map set_filter split: if_splits)
  then show "hm_get (fp_map p) k = Some (j, q) \<and> q \<noteq> path" by (force dest: map_of_SomeD)
qed


section \<open>Sequences of storage operations\<close>

text \<open>
  The operations of all storages of the process, in the order the pool's lock and the positioned accesses put
  them.  \<open>refuse\<close> says which opens the system refuses.
\<close>

datatype storage_op =
    OpRead pooled_storage nat nat nat
  | OpWrite "nat option" pooled_storage nat nat bytes
  | OpSetLen bool pooled_storage nat nat
  | OpRemove bool pooled_storage string
  | OpInit "string \<Rightarrow> bool" "string \<Rightarrow> bool" pooled_storage "file_info list"

fun run_op :: "(nat \<Rightarrow> io_error option) \<Rightarrow> storage_op \<Rightarrow> fs \<times> file_pool \<Rightarrow> fs \<times> file_pool" where
  "run_op refuse (OpRead s i off len) (f, p) = (f, snd (pread_exact refuse s i off len f p))"
| "run_op refuse (OpWrite fails s i off buf) (f, p) = snd (pwrite_all refuse fails s i off buf f p)"
| "run_op refuse (OpSetLen fails s i n) (f, p) = snd (ensure_file_length refuse fails s i n f p)"
| "run_op refuse (OpRemove unlink s name) (f, p) = snd (storage_remove_file unlink s name f p)"
| "run_op refuse (OpInit mk op s fis) (f, p) = (snd (snd (init_storage mk op fis s f)), p)"

fun run_ops :: "((nat \<Rightarrow> io_error option) \<times> storage_op) list \<Rightarrow> fs \<times> file_pool \<Rightarrow> fs \<times> file_pool" where
  "run_ops [] fp = fp"
| "run_ops ((refuse, op) # ops) fp = run_ops ops (run_op refuse op fp)"

text \<open>Which storage accesses the pool for an operation, and which file the operation may change.\<close>

fun accessor :: "storage_op \<Rightarrow> pooled_storage option" where
  "accessor (OpRead s _ _ _) = Some s"
| "accessor (OpWrite _ s _ _ _) = Some s"
| "accessor (OpSetLen _ s _ _) = Some s"
| "accessor _ = None"

fun changes :: "storage_op \<Rightarrow> string option" where
  "changes (OpWrite _ s i _ _) = full_path s i"
| "changes (OpSetLen _ s i _) = full_path s i"
| "changes (OpRemove _ s name) = Some (path_join (ps_output_folder s) name)"
| "changes _ = None"

definition names_of :: "(nat \<Rightarrow> pooled_storage) \<Rightarrow> pool_key \<Rightarrow> string option" where
  "names_of views = (\<lambda>(uid, i). full_path (views uid) i)"

definition pool_coherent :: "(nat \<Rightarrow> pooled_storage) \<Rightarrow> fs \<Rightarrow> file_pool \<Rightarrow> bool" where
  "pool_coherent views f p \<longleftrightarrow> (\<forall>k j q. hm_get (fp_map p) k = Some (j, q) \<longrightarrow>
     hm_get (fs_names f) q = Some j \<and> names_of views k = Some q)"

lemma pool_coherent_cache: "pool_coherent views f p = pool_cache.coherent (names_of views) f p"
  by (simp add: pool_coherent_def pool_cache.coherent_def)

text \<open>No two names share an inode, and new files get new inodes.\<close>

definition fs_wf :: "fs \<Rightarrow> bool" where
  "fs_wf f \<longleftrightarrow> (\<forall>a b i. hm_get (fs_names f) a = Some i \<longrightarrow> hm_get (fs_names f) b = Some i \<longrightarrow> a = b) \<and>
     (\<forall>a i. hm_get (fs_names f) a = Some i \<longrightarrow> i < fs_fresh f)"

definition sound :: "(nat \<Rightarrow> pooled_storage) \<Rightarrow> fs \<times> file_pool \<Rightarrow> bool" where
  "sound views = (\<lambda>(f, p). fs_wf f \<and> pool_coherent views f p \<and> pool_wf p)"

text \<open>The storages an operation acts for are the ones the process created, one per \<open>uid\<close>.\<close>

definition known :: "(nat \<Rightarrow> pooled_storage) \<Rightarrow> storage_op \<Rightarrow> bool" where
  "known views op = (case accessor op of Some s \<Rightarrow> views (ps_uid s) = s | None \<Rightarrow> True)"

lemma handle_spec:
  assumes "sound views (f, p)" "views (ps_uid s) = s" "storage_handle refuse f s i p = (res, p')"
  shows "sound views (f, p')" "\<And>j. res = Inr j \<Longrightarrow> \<exists>x. full_path s i = Some x \<and> hm_get (fs_names f) x = Some j"
proof -
  have "sound views (f, p') \<and> (\<forall>j. res = Inr j \<longrightarrow> (\<exists>x. full_path s i = Some x \<and> hm_get (fs_names f) x = Some j))"
  proof (cases "full_path s i")
    case None
    then show ?thesis using assms by (auto simp: storage_handle_def)
  next
    case (Some x)
    obtain r q where g: "get_or_open refuse f (ps_uid s, i) x p = (r, q)" by fastforce
    have n: "names_of views (ps_uid s, i) = Some x" using Some assms(2) by (simp add: names_of_def)
    have c: "pool_cache.coherent (names_of views) f p" using assms(1) by (simp add: sound_def pool_coherent_cache)
    have "pool_wf q" using get_or_open_wf [of p refuse f "(ps_uid s, i)" x] g assms(1) by (simp add: sound_def)
    then have q: "sound views (f, q)"
      using pool_cache.fetch_coherent [OF c n g] assms(1) by (simp add: sound_def pool_coherent_cache)
    show ?thesis
    proof (cases r)
      case (Inl e)
      then show ?thesis using q g Some assms(3) by (auto simp: storage_handle_def)
    next
      case (Inr j)
      then have "hm_get (fs_names f) x = Some j" using pool_cache.fetch_names [OF c n] g by blast
      then show ?thesis using q g Some Inr assms(3) by (auto simp: storage_handle_def)
    qed
  qed
  then show "sound views (f, p')" "\<And>j. res = Inr j \<Longrightarrow> \<exists>x. full_path s i = Some x \<and> hm_get (fs_names f) x = Some j" by auto
qed

text \<open>Changing the bytes of an inode keeps everything but those bytes.\<close>

lemma sound_data: "sound views (f, p) \<Longrightarrow> sound views (f\<lparr>fs_data := d\<rparr>, p)"
  by (simp add: sound_def fs_wf_def pool_coherent_def)

lemma other_inode:
  "fs_wf f \<Longrightarrow> hm_get (fs_names f) x = Some i \<Longrightarrow> hm_get (fs_names f) y = Some j \<Longrightarrow> x \<noteq> y \<Longrightarrow> i \<noteq> j"
  unfolding fs_wf_def by blast

text \<open>A file that an operation does not change keeps its inode and its bytes.\<close>

definition untouched :: "string \<Rightarrow> fs \<Rightarrow> fs \<Rightarrow> bool" where
  "untouched x f f' \<longleftrightarrow> (\<forall>i. hm_get (fs_names f) x = Some i \<longrightarrow> hm_get (fs_names f') x = Some i \<and> fs_data f' i = fs_data f i)"

lemma untouched_refl [simp]: "untouched x f f"
  by (simp add: untouched_def)

lemma untouched_trans: "untouched x f g \<Longrightarrow> untouched x g h \<Longrightarrow> untouched x f h"
  by (simp add: untouched_def)

lemma create_spec:
  assumes "fs_wf f"
  shows "fs_wf (fs_create y f) \<and> untouched x f (fs_create y f) \<and>
    (\<forall>q j. hm_get (fs_names f) q = Some j \<longrightarrow> hm_get (fs_names (fs_create y f)) q = Some j)"
proof (cases "hm_get (fs_names f) y")
  case None
  have "i \<noteq> fs_fresh f" if "hm_get (fs_names f) a = Some i" for a i using that assms unfolding fs_wf_def by blast
  with assms None show ?thesis
    by (simp add: fs_create_def fs_wf_def untouched_def hm_simps) (metis less_Suc_eq option.distinct(1))
qed (simp add: fs_create_def assms)

lemma init_file_spec:
  assumes "fs_wf f" "init_file a b ov y f = (r, f')"
  shows "fs_wf f' \<and> untouched x f f' \<and> (\<forall>q j. hm_get (fs_names f) q = Some j \<longrightarrow> hm_get (fs_names f') q = Some j)"
proof -
  have d: "fs_wf (create_dir_all d f)" "untouched x f (create_dir_all d f)" "fs_names (create_dir_all d f) = fs_names f" for d
    using assms(1) by (simp_all add: create_dir_all_def fs_wf_def untouched_def)
  have "f' \<in> {f} \<union> range (\<lambda>d. create_dir_all d f) \<union> range (\<lambda>d. fs_create y (create_dir_all d f))"
    using assms(2) by (auto simp: init_file_def Let_def split: option.splits if_splits)
  moreover have "fs_wf (fs_create y (create_dir_all d f)) \<and> untouched x f (fs_create y (create_dir_all d f)) \<and>
      (\<forall>q j. hm_get (fs_names f) q = Some j \<longrightarrow> hm_get (fs_names (fs_create y (create_dir_all d f))) q = Some j)" for d
    using create_spec [OF d(1) [of d], of y x] untouched_trans [OF d(2) [of d]] d(3) by auto
  ultimately show ?thesis using assms(1) d by auto
qed

lemma init_files_spec:
  "fs_wf f \<Longrightarrow> init_files mk op s fis ps f = (r, f') \<Longrightarrow>
   fs_wf f' \<and> untouched x f f' \<and> (\<forall>q j. hm_get (fs_names f) q = Some j \<longrightarrow> hm_get (fs_names f') q = Some j)"
proof (induction fis arbitrary: ps f)
  case (Cons fi fis)
  show ?case
  proof (cases "fi_padding fi")
    case True
    then show ?thesis using Cons by simp
  next
    case False
    let ?y = "path_join (ps_output_folder s) (fi_relative_filename fi)"
    obtain r1 f1 where i: "init_file (mk ?y) (op ?y) (ps_overwrite s) ?y f = (r1, f1)" by fastforce
    note i1 = init_file_spec [OF Cons.prems(1) i, of x]
    show ?thesis
    proof (cases r1)
      case (Inl e)
      then show ?thesis using i i1 Cons.prems(2) False by (simp add: Let_def)
    next
      case (Inr u)
      then have "init_files mk op s fis (ps @ [Some (fi_relative_filename fi)]) f1 = (r, f')"
        using i Cons.prems(2) False by (simp add: Let_def)
      then show ?thesis using Cons.IH i1 untouched_trans by blast
    qed
  qed
qed simp


text \<open>What an operation does through a handle stays within its own file.\<close>

lemma handle_writes:
  assumes "sound views (f, p)" "views (ps_uid s) = s" "storage_handle refuse f s i p = (Inr j, q)" "full_path s i \<noteq> Some x"
  shows "sound views (f\<lparr>fs_data := (fs_data f)(j := d)\<rparr>, q) \<and> untouched x f (f\<lparr>fs_data := (fs_data f)(j := d)\<rparr>)"
proof -
  note hs = handle_spec [OF assms(1-3)]
  obtain y where y: "full_path s i = Some y" "hm_get (fs_names f) y = Some j" using hs(2) by blast
  then have "untouched x f (f\<lparr>fs_data := (fs_data f)(j := d)\<rparr>)"
    using other_inode [OF _ _ y(2)] assms(1,4) by (auto simp: untouched_def sound_def)
  then show ?thesis using sound_data [OF hs(1)] by blast
qed

lemma remove_spec:
  assumes "sound views (f, p)" "path_join (ps_output_folder s) name \<noteq> x" "storage_remove_file unlink s name f p = (r, f', p')"
  shows "sound views (f', p') \<and> untouched x f f'"
proof -
  let ?y = "path_join (ps_output_folder s) name" and ?f = "f\<lparr>fs_names := hm_remove (path_join (ps_output_folder s) name) (fs_names f)\<rparr>"
  have "pool_cache.coherent (names_of views) f p" using assms(1) by (simp add: sound_def pool_coherent_cache)
  then have "pool_cache.coherent (names_of views) ?f (evict_by_path ?y p)"
    by (rule pool_cache.forget_coherent) (simp add: hm_simps)
  then have "sound views (?f, evict_by_path ?y p)"
    using assms(1) evict_by_path_wf by (auto simp: sound_def pool_coherent_cache fs_wf_def hm_simps)
  moreover have "untouched x f ?f" using assms(2) by (auto simp: untouched_def hm_simps)
  ultimately show ?thesis
    using assms(1,3) by (auto simp: storage_remove_file_def Let_def split: if_splits)
qed

lemma init_spec:
  assumes "sound views (f, p)" "init_files mk op s fis [] f = (r, g)"
  shows "sound views (g, p) \<and> untouched x f g"
proof -
  have "fs_wf f" using assms(1) by (simp add: sound_def)
  note g = init_files_spec [OF this assms(2), of x]
  have c: "pool_cache.coherent (names_of views) f p" using assms(1) by (simp add: sound_def pool_coherent_cache)
  have "pool_cache.coherent (names_of views) g p" by (rule pool_cache.coherent_extend [OF c]) (use g in blast)
  then show ?thesis using g assms(1) by (simp add: sound_def pool_coherent_cache)
qed

lemma run_op_spec:
  assumes "sound views (f, p)" "known views op" "changes op \<noteq> Some x" "run_op refuse op (f, p) = (f', p')"
  shows "sound views (f', p') \<and> untouched x f f'"
proof (cases op)
  case (OpRead s i off len)
  obtain r q where h: "storage_handle refuse f s i p = (r, q)" by fastforce
  have "sound views (f, q)" using handle_spec(1) [OF assms(1) _ h] assms(2) OpRead by (simp add: known_def)
  then show ?thesis using assms(4) OpRead h by (cases r) (auto simp: pread_exact_def)
next
  case (OpWrite fails s i off buf)
  obtain r q where h: "storage_handle refuse f s i p = (r, q)" by fastforce
  have v: "views (ps_uid s) = s" "full_path s i \<noteq> Some x" using assms(2,3) OpWrite by (auto simp: known_def)
  show ?thesis
    using handle_spec(1) [OF assms(1) v(1) h] handle_writes [OF assms(1) v(1) _ v(2)] h assms(4) OpWrite
    by (cases r) (auto simp: pwrite_all_def write_all_at_def Let_def split: option.splits)
next
  case (OpSetLen fails s i n)
  obtain r q where h: "storage_handle refuse f s i p = (r, q)" by fastforce
  have v: "views (ps_uid s) = s" "full_path s i \<noteq> Some x" using assms(2,3) OpSetLen by (auto simp: known_def)
  show ?thesis
    using handle_spec(1) [OF assms(1) v(1) h] handle_writes [OF assms(1) v(1) _ v(2)] h assms(4) OpSetLen
    by (cases r) (auto simp: ensure_file_length_def set_len_def split: if_splits)
next
  case (OpRemove unlink s name)
  then show ?thesis
    using remove_spec [OF assms(1), of s name x unlink "fst (storage_remove_file unlink s name f p)" f' p'] assms(3,4)
    by (auto simp: prod_eq_iff)
next
  case (OpInit mk op' s fis)
  obtain r g where i: "init_files mk op' s fis [] f = (r, g)" by fastforce
  have "f' = g" "p' = p" using assms(4) OpInit i by (auto simp: init_storage_def split: sum.splits)
  then show ?thesis using init_spec [OF assms(1) i] by simp
qed

lemma run_ops_spec:
  "sound views fp \<Longrightarrow> list_all (\<lambda>(_, op). known views op \<and> changes op \<noteq> Some x) ops \<Longrightarrow> run_ops ops fp = fp' \<Longrightarrow>
   sound views fp' \<and> untouched x (fst fp) (fst fp')"
proof (induction ops arbitrary: fp)
  case (Cons o1 ops)
  obtain refuse op where o: "o1 = (refuse, op)" by fastforce
  obtain f p where fp: "fp = (f, p)" by fastforce
  obtain f1 p1 where r: "run_op refuse op (f, p) = (f1, p1)" by fastforce
  have "sound views (f1, p1) \<and> untouched x f f1" using run_op_spec [OF _ _ _ r] Cons.prems o fp by auto
  then show ?case using Cons.IH [of "(f1, p1)"] Cons.prems o fp r untouched_trans by fastforce
qed simp

lemma read_spliced: "take (length new) (drop off (splice old off new)) = new \<and> (new = [] \<or> off + length new \<le> length (splice old off new))"
  by (auto simp: splice_def)


section \<open>Properties\<close>

lemma handle_wf: "pool_wf p \<Longrightarrow> pool_wf (snd (storage_handle refuse f s i p))"
proof (cases "full_path s i")
  case (Some x)
  assume "pool_wf p"
  from get_or_open_wf [OF this, of refuse f "(ps_uid s, i)" x] Some show ?thesis
    by (cases "get_or_open refuse f (ps_uid s, i) x p"; cases "fst (get_or_open refuse f (ps_uid s, i) x p)") (auto simp: storage_handle_def)
qed (simp add: storage_handle_def)

text \<open>Only the handle lookup and the removal of a file change the pool.\<close>

lemma run_op_pool:
  "snd (run_op refuse (OpRead s i off len) (f, p)) = snd (storage_handle refuse f s i p)"
  "snd (run_op refuse (OpWrite fails s i off buf) (f, p)) = snd (storage_handle refuse f s i p)"
  "snd (run_op refuse (OpSetLen b s i n) (f, p)) = snd (storage_handle refuse f s i p)"
proof -
  obtain r q where h: "storage_handle refuse f s i p = (r, q)" by fastforce
  show "snd (run_op refuse (OpRead s i off len) (f, p)) = snd (storage_handle refuse f s i p)"
    "snd (run_op refuse (OpWrite fails s i off buf) (f, p)) = snd (storage_handle refuse f s i p)"
    "snd (run_op refuse (OpSetLen b s i n) (f, p)) = snd (storage_handle refuse f s i p)"
    using h by (cases r; simp add: pread_exact_def pwrite_all_def ensure_file_length_def write_all_at_def set_len_def Let_def split: option.splits)+
qed

lemma run_op_wf: "pool_wf p \<Longrightarrow> pool_wf (snd (run_op refuse op (f, p)))"
  by (cases op) (simp_all add: run_op_pool handle_wf del: run_op.simps(1-3), simp_all add: storage_remove_file_def Let_def evict_by_path_wf)

lemma run_ops_wf: "pool_wf (snd fp) \<Longrightarrow> pool_wf (snd (run_ops ops fp))"
proof (induction ops arbitrary: fp)
  case (Cons o1 ops)
  then show ?case using run_op_wf [of "snd fp" "fst o1" "snd o1" "fst fp"] by (cases o1) simp
qed simp

lemma run_op_cap: "fp_cap (snd (run_op refuse op (f, p))) = fp_cap p"
proof -
  have f: "fp_cap (fold pool_evict ks q) = fp_cap q" for ks q by (induction ks arbitrary: q) (auto simp: pool_evict_def)
  have sh: "fp_cap (shed n q) = fp_cap q" for n q by (rule shed_invariant) simp_all
  have "fp_cap (snd (get_or_open refuse f k x p)) = fp_cap p" for k x
    by (auto simp: get_or_open_def opened_def pool_insert_def touch_def Let_def sh split: option.splits sum.splits io_error.splits)
  then have h: "fp_cap (snd (storage_handle refuse f s i p)) = fp_cap p" for s i
    by (auto simp: storage_handle_def split: option.splits prod.splits sum.splits) (metis snd_conv)+
  show ?thesis
    by (cases op) (simp_all add: run_op_pool h del: run_op.simps(1-3), simp_all add: storage_remove_file_def Let_def evict_by_path_def f)
qed

lemma run_ops_cap: "fp_cap (snd (run_ops ops fp)) = fp_cap (snd fp)"
proof (induction ops arbitrary: fp)
  case (Cons o1 ops)
  then show ?case using run_op_cap [of "fst o1" "snd o1" "fst fp" "snd fp"] by (cases o1) simp
qed simp

text \<open>Whatever the storages do, in whatever order, and whatever opens the system refuses, the pool never holds
  more open handles than its cap.\<close>

theorem pool_bounded:
  "length (fp_map (snd (run_ops ops (f, pool_with_cap cap)))) \<le> max cap 1"
proof -
  have "pool_wf (pool_with_cap cap)" by (simp add: pool_with_cap_def pool_wf_def)
  then show ?thesis
    using run_ops_wf [of "(f, pool_with_cap cap)" ops] run_ops_cap [of ops "(f, pool_with_cap cap)"] by (simp add: pool_wf_def pool_with_cap_def)
qed

text \<open>C20. The pool with its use stamps is the LRU cache: a hit moves the key to the recent end, a miss drops as many
  of the oldest keys as it must and adds the new one, and \<open>EMFILE\<close> first drops the oldest quarter and
  retries once.\<close>

theorem pool_is_lru:
  assumes "pool_wf p" "stamps_ok p" "fp_stamp p < u64_max"
  shows "recency (snd (get_or_open refuse f key path p)) =
    (if key \<in> set (recency p) then lru_touch key (recency p)
     else case fs_open (refuse 0) path f of
            Inr _ \<Rightarrow> lru_add (fp_cap p) key (recency p)
          | Inl Emfile \<Rightarrow> (case fs_open (refuse 1) path f of
                Inr _ \<Rightarrow> lru_add (fp_cap p) key (lru_shed (fp_cap p) (recency p))
              | Inl _ \<Rightarrow> lru_shed (fp_cap p) (recency p))
          | Inl _ \<Rightarrow> recency p) \<and>
    stamps_ok (snd (get_or_open refuse f key path p))"
proof -
  have mem: "key \<in> set (recency p) \<longleftrightarrow> hm_get (fp_map p) key \<noteq> None"
    using assms(1) by (simp add: set_recency pool_wf_def key_iff del: map_of_eq_None_iff)
  let ?sh = "shed (max (fp_cap p div 4) 1) p"
  have sh: "pool_wf ?sh" "stamps_ok ?sh" "fp_stamp ?sh < u64_max" "fp_cap ?sh = fp_cap p" "recency ?sh = lru_shed (fp_cap p) (recency p)"
    "hm_get (fp_map p) key = None \<Longrightarrow> key \<notin> fst ` set (fp_map ?sh)"
    using shed_wf [OF assms(1), of "max (fp_cap p div 4) 1"] recency_shed [OF assms(1,2), of "max (fp_cap p div 4) 1"] assms(3)
    by (auto simp: lru_shed_def map_of_eq_None_iff)
  obtain res p' where g: "get_or_open refuse f key path p = (res, p')" by fastforce
  from g show ?thesis
  proof (cases rule: get_or_open_cases)
    case (hit i q)
    then show ?thesis using g mem recency_touch [OF assms(2,3), of key] by simp
  next
    case (open1 i)
    then have "key \<notin> fst ` set (fp_map p)" by (simp add: map_of_eq_None_iff)
    then show ?thesis using g open1 mem recency_opened [OF assms] by simp
  next
    case (open2 i)
    then show ?thesis using g mem recency_opened [OF sh(1-3) sh(6)] sh(4,5) by simp
  next
    case (failed2 e)
    then show ?thesis using g mem sh(2,5) by simp
  next
    case (failed e)
    then show ?thesis using g mem assms(2) by (cases e) simp_all
  qed
qed

text \<open>C19. Pooling is invisible: after a successful write, and after any further operations of any storages that do
  not change that file, the same range reads back as it was written, unless the system refuses to open the
  file.  In particular storages never see each other's handles, evictions lose nothing, and a handle of a
  removed file is never served.\<close>

theorem pooled_write_read:
  assumes "sound views (f, p)" "views (ps_uid s) = s" "full_path s i = Some x"
    and "pwrite_all refuse None s i off buf f p = (Inr (), f1, p1)"
    and "list_all (\<lambda>(_, op). known views op \<and> changes op \<noteq> Some x) ops" "run_ops ops (f1, p1) = (f2, p2)"
  shows "fst (pread_exact refuse' s i off (length buf) f2 p2) = Inr buf \<or>
    (\<exists>e. fst (pread_exact refuse' s i off (length buf) f2 p2) = Inl (Opening x e) \<and> refuse' 0 \<noteq> None)"
proof -
  obtain r q where h: "storage_handle refuse f s i p = (r, q)" by fastforce
  note hs = handle_spec [OF assms(1,2) h]
  from assms(4) h obtain j where j: "r = Inr j" "p1 = q" "f1 = f\<lparr>fs_data := (fs_data f)(j := splice (fs_data f j) off buf)\<rparr>"
    by (cases r) (auto simp: pwrite_all_def write_all_at_def Let_def)
  have x: "hm_get (fs_names f1) x = Some j" using hs(2) [OF j(1)] assms(3) j(3) by auto
  have "sound views (f1, p1)" using sound_data [OF hs(1)] j by simp
  from run_ops_spec [OF this assms(5,6)] have s2: "sound views (f2, p2)"
    and x2: "hm_get (fs_names f2) x = Some j" "fs_data f2 j = splice (fs_data f j) off buf"
    using x j(3) by (auto simp: untouched_def)
  obtain r' q' where h': "storage_handle refuse' f2 s i p2 = (r', q')" by fastforce
  show ?thesis
  proof (cases r')
    case (Inr k)
    then have "k = j" using handle_spec(2) [OF s2 assms(2) h'] assms(3) x2(1) by auto
    then show ?thesis using h' Inr x2(2) read_spliced [of buf off "fs_data f j"] by (auto simp: pread_exact_def read_exact_at_def)
  next
    case (Inl er)
    obtain g q'' where g: "get_or_open refuse' f2 (ps_uid s, i) x p2 = (g, q'')" by fastforce
    with h' Inl assms(3) obtain e where e: "g = Inl e" "er = Opening x e" by (cases g) (auto simp: storage_handle_def)
    have "fs_open None x f2 = Inr j" using x2(1) by (simp add: fs_open_def)
    then have "refuse' 0 \<noteq> None" using g e(1) by (cases "refuse' 0") (auto elim!: get_or_open_cases)
    then show ?thesis using h' Inl e by (auto simp: pread_exact_def)
  qed
qed

text \<open>The cap of the process-wide pool leaves the descriptor reserve free wherever the hard limit allows it,
  and is at least one and at most 4096 handles.\<close>

theorem global_cap_leaves_reserve:
  assumes "global_cap (Some (soft, hard)) None = Some c"
  shows "1 \<le> c \<and> c \<le> POOL_CAP_MAX \<and> (c = 1 \<or> c + FD_RESERVE \<le> hard)"
  using assms by (auto simp: global_cap_def Let_def POOL_CAP_MAX_def FD_RESERVE_def)

section \<open>Example\<close>

definition sample_storage :: pooled_storage where
  "sample_storage = \<lparr>ps_uid = 0, ps_output_folder = ''/d'', ps_overwrite = True, ps_paths = [Some ''a'', None]\<rparr>"

definition sample_fs :: fs where
  "sample_fs = \<lparr>fs_names = [(''/d/a'', 0)], fs_data = (\<lambda>_. []), fs_fresh = 1, fs_dirs = [''/d'']\<rparr>"

lemma sample_sound: "sound (\<lambda>_. sample_storage) (sample_fs, pool_with_cap 1)"
  by (simp add: sound_def fs_wf_def sample_fs_def pool_coherent_def pool_with_cap_def pool_wf_def)

lemma sample_path: "full_path sample_storage 0 = Some ''/d/a''"
  by (simp add: full_path_def sample_storage_def path_join_def starts_with_def)

theorem pooled_write_read_witness:
  "\<exists>f p. pwrite_all (\<lambda>_. None) None sample_storage 0 2 [7, 8] sample_fs (pool_with_cap 1) = (Inr (), f, p) \<and>
     fst (pread_exact (\<lambda>_. None) sample_storage 0 2 2 f p) = Inr [7, 8]"
proof -
  let ?p = "pool_insert (0, 0) 0 ''/d/a'' ((pool_with_cap 1)\<lparr>fp_opens := 1\<rparr>)"
  have w: "pwrite_all (\<lambda>_. None) None sample_storage 0 2 [7, 8] sample_fs (pool_with_cap 1) =
      (Inr (), sample_fs\<lparr>fs_data := (fs_data sample_fs)(0 := [0, 0, 7, 8])\<rparr>, ?p)"
    by (simp add: pwrite_all_def storage_handle_def sample_path get_or_open_def pool_with_cap_def fs_open_def sample_fs_def opened_def
        write_all_at_def splice_def rust_arith numeral_2_eq_2) (simp add: sample_storage_def)
  from pooled_write_read [OF sample_sound _ sample_path w, of "[]" _ _ "\<lambda>_. None"] w show ?thesis
    by (auto simp: numeral_2_eq_2)
qed

theorem pool_is_lru_witness:
  "recency (snd (get_or_open (\<lambda>_. None) sample_fs (0, 0) ''/d/a'' (pool_with_cap 1))) = lru_add 1 (0, 0) []"
  using pool_is_lru [of "pool_with_cap 1" "\<lambda>_. None" sample_fs "(0, 0)" "''/d/a''"]
  by (simp add: pool_with_cap_def pool_wf_def stamps_ok_def recency_def fs_open_def sample_fs_def)

theorem global_cap_leaves_reserve_witness:
  "global_cap (Some (1024, 65536)) None = Some 4096 \<and> (4096 = (1 :: nat) \<or> 4096 + FD_RESERVE \<le> 65536)"
  using global_cap_leaves_reserve [of 1024 65536 4096] by (simp add: global_cap_def POOL_CAP_MAX_def FD_RESERVE_def)

end
