(* ===== verification/Updater.thy ===== *)
theory Updater
  imports Engine_Base Splitting
begin

text \<open>
  Self-update, \<open>src/updater.rs\<close> and the decision part of \<open>cmd_self_update\<close> in \<open>src/bin/keep-at.rs\<close>:
  release channels by tag shape, the version comparison, the guard against downgrades, the choice of release and
  asset, and the replacement of the executable.

  HTTP, JSON, gzip and tar are other crates: what they deliver is an argument.  The theorems say that the
  version comparison is a total preorder, that an update always moves strictly up in it, that channels do not
  leak into each other, and that the executable is replaced whole or not at all.
\<close>

section \<open>Channels and versions\<close>

datatype channel = Stable | Beta

definition trim_v :: "string \<Rightarrow> string" where
  "trim_v s = dropWhile (\<lambda>c. c = CHR ''v'') s"

definition channel_of :: "string \<Rightarrow> channel option" where
  "channel_of tag =
     (let t = trim_v tag
      in case split_once CHR ''-'' t of
           Some (_, sfx) \<Rightarrow>
             (let sfx = map to_ascii_lower sfx
              in if starts_with sfx ''beta'' \<or> starts_with sfx ''rc'' \<or> starts_with sfx ''alpha'' then Some Beta else None)
         | None \<Rightarrow> if length (split_on CHR ''.'' t) = 2 then Some Stable else None)"

text \<open>A segment counts by its leading digits; none of them, or a number past 64 bits, counts as zero.\<close>

definition segment :: "string \<Rightarrow> nat" where
  "segment p = (let d = takeWhile is_ascii_digit p in if d = [] \<or> u64_max < read_nat d then 0 else read_nat d)"

definition parts :: "string \<Rightarrow> nat list" where
  "parts v = map segment (split_on CHR ''.'' (trim_v v))"

definition get_or_zero :: "nat list \<Rightarrow> nat \<Rightarrow> nat" where
  "get_or_zero xs i = (if i < length xs then xs ! i else 0)"

definition parts_le :: "nat list \<Rightarrow> nat list \<Rightarrow> bool" where
  "parts_le pa pb =
     (case find (\<lambda>i. get_or_zero pa i \<noteq> get_or_zero pb i) [0..<max (length pa) (length pb)] of
        Some i \<Rightarrow> get_or_zero pa i < get_or_zero pb i
      | None \<Rightarrow> True)"

definition version_older_or_equal :: "string \<Rightarrow> string \<Rightarrow> bool" where
  "version_older_or_equal a b = parts_le (parts a) (parts b)"

datatype update_decision = AlreadyCurrent | NotNewer | Upgrade

definition decide :: "string \<Rightarrow> string \<Rightarrow> update_decision" where
  "decide latest current =
     (if trim_v latest = trim_v current \<or> latest = current then AlreadyCurrent
      else if version_older_or_equal latest current then NotNewer
      else Upgrade)"

section \<open>Choosing and installing\<close>

record asset =
  as_name :: string
  as_url :: string

record release =
  re_tag_name :: string
  re_draft :: bool
  re_assets :: "asset list"

text \<open>What the release list request gives: no answer, a failure status, a body that decodes or does not.\<close>

datatype list_reply = ListFailed | ListStatus | ListBody "release list option"

definition fetch_latest :: "bool \<Rightarrow> list_reply \<Rightarrow> release result" where
  "fetch_latest include_beta reply =
     (let want = (if include_beta then Beta else Stable)
      in case reply of
           ListFailed \<Rightarrow> Inl ''fetching releases''
         | ListStatus \<Rightarrow> Inl ''fetching releases returned''
         | ListBody None \<Rightarrow> Inl ''parsing release metadata''
         | ListBody (Some rs) \<Rightarrow>
             (case find (\<lambda>r. channel_of (re_tag_name r) = Some want) (filter (\<lambda>r. \<not> re_draft r) rs) of
                Some r \<Rightarrow> Inr r
              | None \<Rightarrow> Inl ''no releases found''))"

definition asset_arch :: "string \<Rightarrow> string" where
  "asset_arch arch =
     (if arch = ''x86_64'' then ''amd64'' else if arch = ''aarch64'' then ''arm64''
      else if arch = ''arm'' then ''arm'' else if arch = ''x86'' then ''386'' else arch)"

definition asset_name :: "string \<Rightarrow> string" where
  "asset_name arch = ''keep-at_linux_'' @ asset_arch arch @ ''.tar.gz''"

text \<open>
  The entries of the archive, read one by one; an unreadable one ends the search.  \<open>base_name\<close> is
  \<open>Path::file_name\<close>, the last component but for empty ones and single dots, and none if it is a double dot.
\<close>

datatype tar_entry = TarEntry string "nat list option" | BadEntry

definition base_name :: "string \<Rightarrow> string" where
  "base_name p =
     (let cs = filter (\<lambda>c. c \<noteq> [] \<and> c \<noteq> ''.'') (split_on CHR ''/'' p)
      in if cs = [] \<or> last cs = ''..'' then [] else last cs)"

fun extract_binary :: "tar_entry list \<Rightarrow> nat list result" where
  "extract_binary [] = Inl ''archive did not contain a keep-at binary''"
| "extract_binary (BadEntry # es) = Inl ''reading tar archive''"
| "extract_binary (TarEntry path body # es) =
     (if base_name path = ''keep-at''
      then (case body of Some b \<Rightarrow> Inr b | None \<Rightarrow> Inl ''reading tar entry'')
      else extract_binary es)"

text \<open>The steps of the replacement on the directory: write, set the mode, rename.  Each may fail, a write after any prefix.\<close>

type_synonym dir = "string \<Rightarrow> (nat list \<times> nat) option"

datatype step_outcome = StepOk | StepFails "nat option"

definition replace_executable :: "(nat \<Rightarrow> step_outcome) \<Rightarrow> string option \<Rightarrow> string \<Rightarrow> nat list \<Rightarrow> dir \<Rightarrow> unit result \<times> dir" where
  "replace_executable outcome tmp_in_parent target bin d =
     (let mode = (case d target of Some (_, m) \<Rightarrow> m | None \<Rightarrow> 493)
      in case tmp_in_parent of
           None \<Rightarrow> (Inl ''executable has no parent dir'', d)
         | Some tmp \<Rightarrow>
             (let tmp_mode = (case d tmp of Some (_, m) \<Rightarrow> m | None \<Rightarrow> 420)
              in case outcome 0 of
                   StepFails None \<Rightarrow> (Inl ''writing'', d)
                 | StepFails (Some n) \<Rightarrow> (Inl ''writing'', d(tmp \<mapsto> (take n bin, tmp_mode)))
                 | StepOk \<Rightarrow>
                     (case outcome 1 of
                        StepFails _ \<Rightarrow> (Inl ''setting permissions'', d(tmp \<mapsto> (bin, tmp_mode)))
                      | StepOk \<Rightarrow>
                          (case outcome 2 of
                             StepFails _ \<Rightarrow> (Inl ''replacing'', d(tmp \<mapsto> (bin, mode)))
                           | StepOk \<Rightarrow> (Inr (), (d(tmp := None))(target \<mapsto> (bin, mode)))))))"

datatype download_reply = DownloadFailed | DownloadStatus | DownloadBody "tar_entry list option"

definition apply_update ::
  "bool \<Rightarrow> list_reply \<Rightarrow> string \<Rightarrow> (string \<Rightarrow> download_reply) \<Rightarrow> (nat \<Rightarrow> step_outcome) \<Rightarrow> string option \<Rightarrow> string \<Rightarrow> dir \<Rightarrow> string result \<times> dir" where
  "apply_update include_beta reply arch download outcome tmp target d =
     (case fetch_latest include_beta reply of
        Inl e \<Rightarrow> (Inl e, d)
      | Inr rel \<Rightarrow>
          (case find (\<lambda>a. as_name a = asset_name arch) (re_assets rel) of
             None \<Rightarrow> (Inl ''no release asset'', d)
           | Some a \<Rightarrow>
               (case download (as_url a) of
                  DownloadFailed \<Rightarrow> (Inl ''downloading'', d)
                | DownloadStatus \<Rightarrow> (Inl ''downloading returned'', d)
                | DownloadBody None \<Rightarrow> (Inl ''reading download'', d)
                | DownloadBody (Some es) \<Rightarrow>
                    (case extract_binary es of
                       Inl e \<Rightarrow> (Inl e, d)
                     | Inr bin \<Rightarrow>
                         (case replace_executable outcome tmp target bin d of
                            (Inl e, d) \<Rightarrow> (Inl e, d) | (Inr _, d) \<Rightarrow> (Inr (re_tag_name rel), d))))))"

text \<open>
  \<open>cmd_self_update\<close>: the decision rests on one reply of the release list, the installation on a second one.
  In between the state file is copied aside, whatever becomes of the copy, and the executable is made replaceable,
  by elevation where that is needed; \<open>data_dir\<close> and \<open>replaceable\<close> are the outcomes of those.
\<close>

definition snapshot_state :: "step_outcome \<Rightarrow> string option \<Rightarrow> string \<Rightarrow> dir \<Rightarrow> dir" where
  "snapshot_state copied data_dir latest d =
     (case data_dir of
        None \<Rightarrow> d
      | Some dd \<Rightarrow>
          (case d (path_join dd ''state.json'') of
             None \<Rightarrow> d
           | Some (body, mode) \<Rightarrow>
               (let to = path_join dd (''state.json.pre-'' @ latest)
                in case copied of
                     StepOk \<Rightarrow> d(to \<mapsto> (body, mode))
                   | StepFails None \<Rightarrow> d
                   | StepFails (Some n) \<Rightarrow> d(to \<mapsto> (take n body, mode)))))"

definition self_update ::
  "bool \<Rightarrow> string \<Rightarrow> list_reply \<Rightarrow> list_reply \<Rightarrow> step_outcome \<Rightarrow> string option \<Rightarrow> unit result \<Rightarrow> string \<Rightarrow>
   (string \<Rightarrow> download_reply) \<Rightarrow> (nat \<Rightarrow> step_outcome) \<Rightarrow> string option \<Rightarrow> string \<Rightarrow> dir \<Rightarrow>
     (update_decision \<times> string option) result \<times> dir" where
  "self_update beta current reply1 reply2 copied data_dir replaceable arch download outcome tmp target d =
     (case fetch_latest beta reply1 of
        Inl e \<Rightarrow> (Inl e, d)
      | Inr rel \<Rightarrow>
          (case decide (re_tag_name rel) current of
             Upgrade \<Rightarrow>
               (let d = snapshot_state copied data_dir (re_tag_name rel) d
                in case replaceable of
                     Inl e \<Rightarrow> (Inl e, d)
                   | Inr _ \<Rightarrow>
                       (case apply_update beta reply2 arch download outcome tmp target d of
                          (Inl e, d) \<Rightarrow> (Inl e, d) | (Inr v, d) \<Rightarrow> (Inr (Upgrade, Some v), d)))
           | other \<Rightarrow> (Inr (other, None), d)))"

section \<open>Lemmas\<close>

text \<open>The comparison is the lexicographic order on versions read as endless sequences with zeros at the end.\<close>

lemma get_or_zero_beyond: "max (length xs) (length ys) \<le> i \<Longrightarrow> get_or_zero xs i = get_or_zero ys i"
  by (simp add: get_or_zero_def)

lemma parts_le_lex:
  "parts_le xs ys \<longleftrightarrow>
     (\<forall>i. get_or_zero xs i = get_or_zero ys i) \<or>
     (\<exists>i. get_or_zero xs i < get_or_zero ys i \<and> (\<forall>j<i. get_or_zero xs j = get_or_zero ys j))"
proof (cases "find (\<lambda>i. get_or_zero xs i \<noteq> get_or_zero ys i) [0..<max (length xs) (length ys)]")
  case None
  then have "\<forall>i<max (length xs) (length ys). get_or_zero xs i = get_or_zero ys i" by (auto simp: find_None_iff)
  then have "get_or_zero xs i = get_or_zero ys i" for i using get_or_zero_beyond [of xs ys i] by (meson not_less)
  then show ?thesis using None by (simp add: parts_le_def)
next
  case (Some i)
  then have d: "get_or_zero xs i \<noteq> get_or_zero ys i" "\<forall>j<i. get_or_zero xs j = get_or_zero ys j"
    by (auto simp: find_Some_iff)
  show ?thesis
  proof
    assume "parts_le xs ys"
    then show "(\<forall>i. get_or_zero xs i = get_or_zero ys i) \<or>
        (\<exists>i. get_or_zero xs i < get_or_zero ys i \<and> (\<forall>j<i. get_or_zero xs j = get_or_zero ys j))"
      using Some d by (auto simp: parts_le_def)
  next
    assume "(\<forall>i. get_or_zero xs i = get_or_zero ys i) \<or>
        (\<exists>i. get_or_zero xs i < get_or_zero ys i \<and> (\<forall>j<i. get_or_zero xs j = get_or_zero ys j))"
    then obtain k where k: "get_or_zero xs k < get_or_zero ys k" "\<forall>j<k. get_or_zero xs j = get_or_zero ys j"
      using d(1) by blast
    have "k = i" using k d by (metis linorder_neqE_nat nat_less_le)
    then show "parts_le xs ys" using Some k by (simp add: parts_le_def)
  qed
qed

lemma parts_le_refl [simp]: "parts_le xs xs"
  by (simp add: parts_le_lex)

lemma first_difference: "(\<exists>i. f i \<noteq> g i) \<Longrightarrow> \<exists>i. f i \<noteq> g i \<and> (\<forall>j<i. f j = g j)"
  for f g :: "nat \<Rightarrow> 'a"
  using exists_least_iff [of "\<lambda>i. f i \<noteq> g i"] by auto

lemma parts_le_total: "parts_le xs ys \<or> parts_le ys xs"
proof (cases "\<forall>i. get_or_zero xs i = get_or_zero ys i")
  case False
  then obtain i where "get_or_zero xs i \<noteq> get_or_zero ys i" "\<forall>j<i. get_or_zero xs j = get_or_zero ys j"
    using first_difference [of "get_or_zero xs" "get_or_zero ys"] by auto
  then show ?thesis unfolding parts_le_lex by (metis linorder_neqE_nat)
qed (simp add: parts_le_lex)

lemma parts_le_trans:
  assumes "parts_le xs ys" "parts_le ys zs"
  shows "parts_le xs zs"
proof -
  consider "\<forall>i. get_or_zero xs i = get_or_zero ys i" | "\<forall>i. get_or_zero ys i = get_or_zero zs i"
    | i k where "get_or_zero xs i < get_or_zero ys i" "\<forall>j<i. get_or_zero xs j = get_or_zero ys j"
        "get_or_zero ys k < get_or_zero zs k" "\<forall>j<k. get_or_zero ys j = get_or_zero zs j"
    using assms unfolding parts_le_lex by blast
  then show ?thesis
  proof cases
    case (3 i k)
    have "get_or_zero xs (min i k) < get_or_zero zs (min i k)"
      using 3 by (cases i k rule: linorder_cases) (auto simp: min_def)
    moreover have "\<forall>j<min i k. get_or_zero xs j = get_or_zero zs j" using 3 by simp
    ultimately show ?thesis unfolding parts_le_lex by blast
  qed (use assms in \<open>simp_all add: parts_le_lex\<close>)
qed

section \<open>Theorems\<close>

lemma decide_upgrade_iff: "decide a b = Upgrade \<longleftrightarrow> \<not> version_older_or_equal a b"
  by (auto simp: decide_def version_older_or_equal_def parts_def)

text \<open>Upgrades are a strict order: an upgrade's reverse is never one, and two in a row make one.\<close>

theorem upgrades_strictly_ascend:
  "(decide a b = Upgrade \<longrightarrow> decide b a = NotNewer) \<and>
   (decide a b = Upgrade \<and> decide b c = Upgrade \<longrightarrow> decide a c = Upgrade)"
proof (intro conjI impI)
  assume u: "decide a b = Upgrade"
  then have "\<not> parts_le (parts a) (parts b)" by (simp add: decide_upgrade_iff version_older_or_equal_def)
  moreover from this have "parts_le (parts b) (parts a)" using parts_le_total by blast
  moreover have "trim_v b \<noteq> trim_v a" "b \<noteq> a" using calculation by (auto simp: parts_def)
  ultimately show "decide b a = NotNewer" by (simp add: decide_def version_older_or_equal_def)
next
  assume "decide a b = Upgrade \<and> decide b c = Upgrade"
  then show "decide a c = Upgrade"
    unfolding decide_upgrade_iff version_older_or_equal_def using parts_le_trans parts_le_total by blast
qed

theorem upgrades_strictly_ascend_witness:
  "decide ''v1.0'' ''0.9.1-beta'' = Upgrade \<and> decide ''0.9.1-beta'' ''0.9'' = Upgrade \<and>
   decide ''0.9'' ''0.9.1-beta'' = NotNewer \<and> decide ''v1.0'' ''0.9'' = Upgrade"
proof -
  have u: "decide ''v1.0'' ''0.9.1-beta'' = Upgrade" "decide ''0.9.1-beta'' ''0.9'' = Upgrade"
    by (simp_all add: decide_def trim_v_def version_older_or_equal_def parts_le_def parts_def segment_def
        get_or_zero_def upt_rec is_ascii_digit_def read_nat_def digit_val_def code_def)
  show ?thesis
    using u upgrades_strictly_ascend [of "''v1.0''" "''0.9.1-beta''" "''0.9''"]
      upgrades_strictly_ascend [of "''0.9.1-beta''" "''0.9''" "''0.9''"] by simp
qed

text \<open>The channel filter: what is chosen is listed, is no draft and has the tag of the wanted channel.\<close>

theorem fetch_latest_stays_in_channel:
  assumes "fetch_latest beta (ListBody (Some rs)) = Inr r"
  shows "r \<in> set rs \<and> \<not> re_draft r \<and> channel_of (re_tag_name r) = Some (if beta then Beta else Stable) \<and>
    channel_of (re_tag_name r) \<noteq> Some (if beta then Stable else Beta)"
  using assms by (auto simp: fetch_latest_def find_Some_iff split: option.splits if_splits
      dest!: nth_mem [of _ "filter (\<lambda>r. \<not> re_draft r) rs"])

theorem fetch_latest_stays_in_channel_witness:
  "let r = \<lparr>re_tag_name = ''v0.9'', re_draft = False, re_assets = []\<rparr>;
       b = \<lparr>re_tag_name = ''v0.9.1-beta'', re_draft = False, re_assets = []\<rparr>
   in fetch_latest False (ListBody (Some [b, r])) = Inr r \<and> r \<in> set [b, r] \<and> channel_of (re_tag_name r) = Some Stable"
proof -
  let ?r = "\<lparr>re_tag_name = ''v0.9'', re_draft = False, re_assets = []\<rparr>"
  let ?b = "\<lparr>re_tag_name = ''v0.9.1-beta'', re_draft = False, re_assets = []\<rparr>"
  have "fetch_latest False (ListBody (Some [?b, ?r])) = Inr ?r"
    by (simp add: fetch_latest_def channel_of_def trim_v_def split_once_def starts_with_def to_ascii_lower_def
        code_def Let_def)
  from this fetch_latest_stays_in_channel [OF this] show ?thesis by (simp add: Let_def)
qed

lemma replacement_is_atomic_core:
  assumes "tmp \<noteq> Some target" "replace_executable outcome tmp target bin d = (r, d')"
  shows "(case r of Inl _ \<Rightarrow> d' target = d target
           | Inr _ \<Rightarrow> d' target = Some (bin, case d target of Some (_, m) \<Rightarrow> m | None \<Rightarrow> 493)) \<and>
    (\<forall>p. Some p \<noteq> tmp \<and> p \<noteq> target \<longrightarrow> d' p = d p)"
  using assms by (auto simp: replace_executable_def Let_def split: option.splits step_outcome.splits prod.splits)

text \<open>C22. The executable is replaced whole or not at all, whatever step fails and however much of the write was done; on
  success it has the new bytes and the mode it had.
\<close>

theorem replacement_is_atomic:
  assumes "tmp \<noteq> Some target" "replace_executable outcome tmp target bin d = (r, d')"
  shows "(case r of Inl _ \<Rightarrow> d' target = d target
           | Inr _ \<Rightarrow> d' target = Some (bin, case d target of Some (_, m) \<Rightarrow> m | None \<Rightarrow> 493)) \<and>
    (\<forall>p. Some p \<noteq> tmp \<and> p \<noteq> target \<longrightarrow> d' p = d p)"
  by (rule replacement_is_atomic_core [OF assms])

theorem replacement_is_atomic_witness:
  "(let d = [''/b/keep-at'' \<mapsto> ([3, 2], 457), ''/b/other'' \<mapsto> ([9], 420)];
        d' = snd (replace_executable (\<lambda>i. if i = 2 then StepFails None else StepOk) (Some ''/b/.tmp'') ''/b/keep-at'' [7, 8, 9] d)
    in d' ''/b/keep-at'' = Some ([3, 2], 457)) \<and>
   (let d = [''/b/keep-at'' \<mapsto> ([3, 2], 457)];
        d' = snd (replace_executable (\<lambda>_. StepOk) (Some ''/b/.tmp'') ''/b/keep-at'' [7, 8, 9] d)
    in d' ''/b/keep-at'' = Some ([7, 8, 9], 457))"
proof -
  let ?d = "[''/b/keep-at'' \<mapsto> ([3, 2], 457), ''/b/other'' \<mapsto> ([9], 420)]"
  let ?e = "[''/b/keep-at'' \<mapsto> ([3, 2], 457)] :: dir"
  let ?o = "\<lambda>i::nat. if i = 2 then StepFails None else StepOk"
  have a: "replace_executable ?o (Some ''/b/.tmp'') ''/b/keep-at'' [7, 8, 9] ?d =
      (Inl ''replacing'', ?d(''/b/.tmp'' \<mapsto> ([7, 8, 9], 457)))"
    by (simp add: replace_executable_def)
  have b: "replace_executable (\<lambda>_. StepOk) (Some ''/b/.tmp'') ''/b/keep-at'' [7, 8, 9] ?e =
      (Inr (), (?e(''/b/.tmp'' := None))(''/b/keep-at'' \<mapsto> ([7, 8, 9], 457)))"
    by (simp add: replace_executable_def)
  show ?thesis
    using replacement_is_atomic [OF _ a] replacement_is_atomic [OF _ b] by (simp add: a b Let_def)
qed

lemma apply_update_sound:
  assumes "apply_update beta reply arch download outcome tmp target d = (r, d')" "tmp \<noteq> Some target" "d' target \<noteq> d target"
  shows "\<exists>rel a es bin. fetch_latest beta reply = Inr rel \<and> a \<in> set (re_assets rel) \<and> as_name a = asset_name arch \<and>
    download (as_url a) = DownloadBody (Some es) \<and> extract_binary es = Inr bin \<and>
    r = Inr (re_tag_name rel) \<and> d' target = Some (bin, case d target of Some (_, m) \<Rightarrow> m | None \<Rightarrow> 493)"
proof -
  obtain rel where f: "fetch_latest beta reply = Inr rel"
    using assms by (cases "fetch_latest beta reply") (auto simp: apply_update_def)
  obtain a where a: "find (\<lambda>a. as_name a = asset_name arch) (re_assets rel) = Some a"
    using assms f by (cases "find (\<lambda>a. as_name a = asset_name arch) (re_assets rel)") (auto simp: apply_update_def)
  obtain es where es: "download (as_url a) = DownloadBody (Some es)"
    using assms f a by (auto simp: apply_update_def split: download_reply.splits option.splits)
  obtain bin where bin: "extract_binary es = Inr bin"
    using assms f a es by (cases "extract_binary es") (auto simp: apply_update_def)
  obtain q dq where q: "replace_executable outcome tmp target bin d = (q, dq)" by fastforce
  have dq: "dq = d'" using assms f a es bin q by (auto simp: apply_update_def split: sum.splits)
  have "\<exists>u. q = Inr u" using replacement_is_atomic_core [OF assms(2) q] assms(3) dq by (cases q) auto
  then show ?thesis
    using assms f a es bin q dq replacement_is_atomic_core [OF assms(2) q]
    by (auto simp: apply_update_def find_Some_iff)
qed

lemma apply_update_other:
  assumes "apply_update beta reply arch download outcome tmp target d = (r, d')" "p \<noteq> target" "p \<noteq> the tmp"
  shows "d' p = d p"
  using assms
  by (auto simp: apply_update_def replace_executable_def Let_def split: sum.splits option.splits download_reply.splits
      prod.splits step_outcome.splits)

lemma snapshot_state_other: "(\<And>dd. data_dir = Some dd \<Longrightarrow> p \<noteq> path_join dd (''state.json.pre-'' @ latest)) \<Longrightarrow>
    snapshot_state copied data_dir latest d p = d p"
  by (auto simp: snapshot_state_def Let_def split: option.splits step_outcome.splits)



end
