(* ===== verification/Bandwidth.thy ===== *)
theory Bandwidth
  imports F64
begin

text \<open>
  \<open>src/bandwidth.rs\<close>: the log of byte deltas per tick behind the hourly and daily rates.  Instants are
  nanoseconds; the log is a list, oldest entry first.
\<close>

section \<open>Definitions\<close>

definition DAY :: duration where "DAY = secs 86400"
definition MAX_ENTRIES :: nat where "MAX_ENTRIES = 1500"

record entry =
  be_start :: instant
  be_span :: duration
  be_up :: nat
  be_down :: nat

record rate_tracker =
  rt_entries :: "entry list"
  rt_last_up :: nat
  rt_last_down :: nat
  rt_last_tick :: instant
  rt_started :: instant

definition rate_tracker_new :: "instant \<Rightarrow> nat \<Rightarrow> nat \<Rightarrow> rate_tracker" where
  "rate_tracker_new started up_total down_total = \<lparr>rt_entries = [], rt_last_up = up_total,
     rt_last_down = down_total, rt_last_tick = started, rt_started = started\<rparr>"

text \<open>\<open>Instant::saturating_duration_since\<close>.\<close>

definition since :: "instant \<Rightarrow> instant \<Rightarrow> duration" where
  "since now earlier = nat (now - earlier)"

definition be_end :: "entry \<Rightarrow> instant" where
  "be_end e = be_start e + int (be_span e)"

definition prune_day :: "instant \<Rightarrow> entry list \<Rightarrow> entry list" where
  "prune_day now es = dropWhile (\<lambda>e. DAY < since now (be_end e)) es"

definition prune_cap :: "entry list \<Rightarrow> entry list" where
  "prune_cap es = drop (length es - MAX_ENTRIES) es"

definition tick :: "instant \<Rightarrow> nat \<Rightarrow> nat \<Rightarrow> rate_tracker \<Rightarrow> rate_tracker" where
  "tick now up_total down_total t =
     (let span = since now (rt_last_tick t);
          up = up_total - rt_last_up t;
          down = down_total - rt_last_down t;
          start = rt_last_tick t;
          t = t\<lparr>rt_last_up := up_total, rt_last_down := down_total, rt_last_tick := now\<rparr>
      in if span = 0 then t
         else let es = (if 0 < up \<or> 0 < down \<or> rt_entries t = []
                        then rt_entries t @ [\<lparr>be_start = start, be_span = span, be_up = up, be_down = down\<rparr>]
                        else rt_entries t)
              in t\<lparr>rt_entries := prune_cap (prune_day now es)\<rparr>)"

text \<open>\<open>Duration::as_secs_f64\<close>.\<close>

definition as_secs_f64 :: "duration \<Rightarrow> f64" where
  "as_secs_f64 d = f_add (f_of_nat (d div 1000000000)) (f_div (f_of_nat (d mod 1000000000)) (f_of_nat 1000000000))"

text \<open>The share of an entry's bytes that falls into the window.\<close>

definition overlap_bytes :: "instant \<Rightarrow> instant \<Rightarrow> entry \<Rightarrow> nat \<Rightarrow> nat" where
  "overlap_bytes win_start now e bytes =
     (let lo = max (be_start e) win_start;
          hi = min (be_end e) now
      in if lo < hi
         then let frac = f_div (as_secs_f64 (since hi lo)) (f_max (as_secs_f64 (be_span e)) (f_lit (1 / 10 ^ 9)))
              in f_to_u64 (f_mul (f_of_nat bytes) (f_min frac (f_lit 1)))
         else 0)"

definition window_bytes :: "instant \<Rightarrow> instant \<Rightarrow> (entry \<Rightarrow> nat) \<Rightarrow> entry list \<Rightarrow> nat" where
  "window_bytes win_start now bytes es = foldl (\<lambda>acc e. sat_add64 acc (overlap_bytes win_start now e (bytes e))) 0 es"

definition rate :: "instant \<Rightarrow> duration \<Rightarrow> rate_tracker \<Rightarrow> f64 \<times> f64" where
  "rate now window t =
     (let effective = min window (since now (rt_started t))
      in if effective = 0 then (Fin 0, Fin 0)
         else let win_start = now - int effective;
                  s = as_secs_f64 effective
              in (f_div (f_of_nat (window_bytes win_start now be_up (rt_entries t))) s,
                  f_div (f_of_nat (window_bytes win_start now be_down (rt_entries t))) s))"

definition rate_up :: "instant \<Rightarrow> duration \<Rightarrow> rate_tracker \<Rightarrow> f64" where
  "rate_up now window t = fst (rate now window t)"

definition rate_down :: "instant \<Rightarrow> duration \<Rightarrow> rate_tracker \<Rightarrow> f64" where
  "rate_down now window t = snd (rate now window t)"

text \<open>A run of ticks.\<close>

fun ticks :: "(instant \<times> nat \<times> nat) list \<Rightarrow> rate_tracker \<Rightarrow> rate_tracker" where
  "ticks [] t = t"
| "ticks ((now, up, down) # xs) t = ticks xs (tick now up down t)"

text \<open>Readings in time order with growing counters, as of a tracker last fed at \<open>now\<close>.\<close>

fun readings_from :: "instant \<Rightarrow> nat \<Rightarrow> nat \<Rightarrow> (instant \<times> nat \<times> nat) list \<Rightarrow> bool" where
  "readings_from t u d [] = True"
| "readings_from t u d ((t', u', d') # xs) \<longleftrightarrow> t \<le> t' \<and> u \<le> u' \<and> d \<le> d' \<and> readings_from t' u' d' xs"

text \<open>A log of disjoint, non-empty spans in time order that ends before \<open>last\<close>.\<close>

fun chained :: "entry list \<Rightarrow> instant \<Rightarrow> bool" where
  "chained [] fin = True"
| "chained (e # es) fin \<longleftrightarrow> 0 < be_span e \<and> be_end e \<le> fin \<and>
     list_all (\<lambda>e'. be_end e \<le> be_start e') es \<and> chained es fin"

section \<open>Lemmas\<close>

lemma chained_append:
  "chained (es @ [e]) fin \<longleftrightarrow> chained es fin \<and> list_all (\<lambda>e'. be_end e' \<le> be_start e) es \<and> 0 < be_span e \<and> be_end e \<le> fin"
  by (induction es) auto

lemma chained_mono: "chained es fin \<Longrightarrow> fin \<le> fin' \<Longrightarrow> chained es fin'"
  by (induction es) auto

lemma chained_ends: "chained es fin \<Longrightarrow> list_all (\<lambda>e. be_end e \<le> fin) es"
  by (induction es) auto

lemma chained_drop: "chained es fin \<Longrightarrow> chained (drop n es) fin"
  by (induction es arbitrary: n) (auto simp: drop_Cons split: nat.splits)

lemma prune_day_drop: "\<exists>n. prune_day now es = drop n es"
  by (metis dropWhile_eq_drop prune_day_def)

lemma prune_drop: "\<exists>n. prune_cap (prune_day now es) = drop n es"
  using prune_day_drop [of now es] by (auto simp: prune_cap_def add.commute)

lemma sum_drop_le: "sum_list (map f (drop n es)) \<le> (sum_list (map f es) :: nat)"
  by (metis append_take_drop_id le_add2 map_append sum_list_append)

definition log_inv :: "nat \<Rightarrow> nat \<Rightarrow> rate_tracker \<Rightarrow> bool" where
  "log_inv u d t \<longleftrightarrow> length (rt_entries t) \<le> MAX_ENTRIES \<and> chained (rt_entries t) (rt_last_tick t) \<and>
     u \<le> rt_last_up t \<and> d \<le> rt_last_down t \<and>
     sum_list (map be_up (rt_entries t)) \<le> rt_last_up t - u \<and>
     sum_list (map be_down (rt_entries t)) \<le> rt_last_down t - d"

lemma tick_inv:
  assumes "log_inv u d t" "rt_last_tick t \<le> now" "rt_last_up t \<le> up" "rt_last_down t \<le> down"
  shows "log_inv u d (tick now up down t)"
proof (cases "now = rt_last_tick t")
  case True
  then show ?thesis using assms by (auto simp: tick_def log_inv_def Let_def since_def)
next
  case False
  let ?e = "\<lparr>be_start = rt_last_tick t, be_span = since now (rt_last_tick t), be_up = up - rt_last_up t, be_down = down - rt_last_down t\<rparr>"
  let ?es = "if rt_last_up t < up \<or> rt_last_down t < down \<or> rt_entries t = [] then rt_entries t @ [?e] else rt_entries t"
  have "be_end ?e = now" "0 < be_span ?e" using assms(2) False by (auto simp: be_end_def since_def)
  then have c: "chained ?es now"
    using assms(1,2) chained_ends chained_mono by (auto simp: log_inv_def chained_append)
  have s: "sum_list (map be_up ?es) \<le> up - u" "sum_list (map be_down ?es) \<le> down - d"
    using assms by (auto simp: log_inv_def)
  obtain n where n: "prune_cap (prune_day now ?es) = drop n ?es" using prune_drop by blast
  have "tick now up down t = t\<lparr>rt_last_up := up, rt_last_down := down, rt_last_tick := now, rt_entries := drop n ?es\<rparr>"
    using False assms(2) by (simp add: tick_def Let_def since_def n [symmetric])
  moreover have "length (drop n ?es) \<le> MAX_ENTRIES" unfolding n [symmetric] by (simp add: prune_cap_def)
  ultimately show ?thesis
    using assms c s sum_drop_le [of be_up n ?es] sum_drop_le [of be_down n ?es] chained_drop [OF c, of n]
    by (auto simp: log_inv_def simp del: drop_append)
qed

lemma tick_last: "rt_last_tick (tick now up down t) = now" "rt_last_up (tick now up down t) = up"
  "rt_last_down (tick now up down t) = down" "rt_started (tick now up down t) = rt_started t"
  by (simp_all add: tick_def Let_def)

lemma ticks_inv:
  "log_inv u d t \<Longrightarrow> readings_from (rt_last_tick t) (rt_last_up t) (rt_last_down t) xs \<Longrightarrow> log_inv u d (ticks xs t)"
  by (induction xs t rule: ticks.induct) (auto simp: tick_inv tick_last)

lemma tick_exact:
  assumes "rt_last_tick t < now" "since now (rt_started t) \<le> DAY" "rt_started t \<le> rt_last_tick t"
    and "list_all (\<lambda>e. rt_started t \<le> be_end e) (rt_entries t)" "length (rt_entries t) < MAX_ENTRIES"
    and "rt_last_up t \<le> up"
  shows "sum_list (map be_up (rt_entries (tick now up down t))) = sum_list (map be_up (rt_entries t)) + (up - rt_last_up t)"
    "list_all (\<lambda>e. rt_started t \<le> be_end e) (rt_entries (tick now up down t))"
    "length (rt_entries (tick now up down t)) \<le> Suc (length (rt_entries t))"
proof -
  have "\<not> DAY < since now (be_end e)" if "rt_started t \<le> be_end e" for e using that assms(2) unfolding since_def by linarith
  then have p: "prune_day now es = es" if "list_all (\<lambda>e. rt_started t \<le> be_end e) es" for es
    using that by (cases es) (auto simp: prune_day_def)
  have q: "prune_cap es = es" if "length es \<le> MAX_ENTRIES" for es using that by (simp add: prune_cap_def)
  have "since now (rt_last_tick t) \<noteq> 0" using assms(1) by (simp add: since_def)
  moreover have "rt_started t \<le> rt_last_tick t + int (since now (rt_last_tick t))" using assms(3) by simp
  ultimately show "sum_list (map be_up (rt_entries (tick now up down t))) = sum_list (map be_up (rt_entries t)) + (up - rt_last_up t)"
    "list_all (\<lambda>e. rt_started t \<le> be_end e) (rt_entries (tick now up down t))"
    "length (rt_entries (tick now up down t)) \<le> Suc (length (rt_entries t))"
    using assms p q by (auto simp: tick_def Let_def be_end_def)
qed

lemma ticks_exact:
  assumes "readings_from (rt_last_tick t) (rt_last_up t) (rt_last_down t) xs" "sorted_wrt (<) (rt_last_tick t # map fst xs)"
    and "list_all (\<lambda>x. since (fst x) (rt_started t) \<le> DAY) xs" "rt_started t \<le> rt_last_tick t"
    and "list_all (\<lambda>e. rt_started t \<le> be_end e) (rt_entries t)" "length (rt_entries t) + length xs \<le> MAX_ENTRIES"
  shows "sum_list (map be_up (rt_entries (ticks xs t))) + rt_last_up t = sum_list (map be_up (rt_entries t)) + rt_last_up (ticks xs t)"
  using assms
proof (induction xs t rule: ticks.induct)
  case (2 now up down xs t)
  note e = tick_exact [of t now up down]
  have "rt_last_up t \<le> up" using 2(2) by simp
  moreover have "sum_list (map be_up (rt_entries (ticks xs (tick now up down t)))) + up =
      sum_list (map be_up (rt_entries (tick now up down t))) + rt_last_up (ticks xs (tick now up down t))"
    using 2(1) [unfolded tick_last] 2(2-) e(2,3) by simp
  ultimately show ?case using e(1) 2(2-) by simp
qed simp

section \<open>Properties\<close>

text \<open>The log stays small and honest: after any run of readings taken in time order it has at most 1500
  entries, its spans are non-empty, disjoint and in order, and it never counts more bytes than the session
  counters moved.\<close>

theorem rate_log_bounded:
  assumes "readings_from started up0 down0 xs"
  shows "length (rt_entries (ticks xs (rate_tracker_new started up0 down0))) \<le> 1500 \<and>
    chained (rt_entries (ticks xs (rate_tracker_new started up0 down0))) (rt_last_tick (ticks xs (rate_tracker_new started up0 down0))) \<and>
    sum_list (map be_up (rt_entries (ticks xs (rate_tracker_new started up0 down0)))) \<le>
      rt_last_up (ticks xs (rate_tracker_new started up0 down0)) - up0 \<and>
    sum_list (map be_down (rt_entries (ticks xs (rate_tracker_new started up0 down0)))) \<le>
      rt_last_down (ticks xs (rate_tracker_new started up0 down0)) - down0"
proof -
  have "log_inv up0 down0 (ticks xs (rate_tracker_new started up0 down0))"
    using assms by (intro ticks_inv) (simp_all add: log_inv_def rate_tracker_new_def)
  then show ?thesis by (simp add: log_inv_def MAX_ENTRIES_def)
qed

theorem rate_log_bounded_witness:
  "length (rt_entries (ticks [(10, 5, 0), (20, 9, 1)] (rate_tracker_new 0 0 0))) \<le> 1500"
  using rate_log_bounded [of 0 0 0 "[(10, 5, 0), (20, 9, 1)]"] by simp

text \<open>Within a day and up to the entry cap the log is exact: when the readings come at different instants,
  the bytes it holds are exactly what the counter moved since the start.\<close>

theorem rate_log_exact:
  assumes "readings_from started up0 down0 xs" "sorted_wrt (<) (started # map fst xs)"
    and "list_all (\<lambda>x. since (fst x) started \<le> DAY) xs" "length xs \<le> 1500"
  shows "up0 + sum_list (map be_up (rt_entries (ticks xs (rate_tracker_new started up0 down0)))) =
    rt_last_up (ticks xs (rate_tracker_new started up0 down0))"
  using ticks_exact [of "rate_tracker_new started up0 down0" xs] assms by (simp add: rate_tracker_new_def MAX_ENTRIES_def)

theorem rate_log_exact_witness:
  "3 + sum_list (map be_up (rt_entries (ticks [(10, 5, 0), (20, 9, 1)] (rate_tracker_new 0 3 0)))) =
    rt_last_up (ticks [(10, 5, 0), (20, 9, 1)] (rate_tracker_new 0 3 0))"
  using rate_log_exact [of 0 3 0 "[(10, 5, 0), (20, 9, 1)]"] by (simp add: since_def DAY_def secs_def)

text \<open>Two readings at the same instant: the second one's bytes are lost from the log.\<close>

lemma same_instant_bytes_lost:
  "rt_entries (tick now up' down' (tick now up down t)) = rt_entries (tick now up down t)"
  by (simp add: tick_def Let_def since_def)

end
