(* ===== verification/Netstats.thy ===== *)
theory Netstats
  imports F64
begin

text \<open>
  \<open>src/netstats.rs\<close>: the scan snapshot (\<open>network-stats.json\<close>), the runtime summary
  (\<open>runtime-stats.json\<close>) and the accumulator of peer observations.  A file is missing, unreadable (or not
  valid JSON), or holds a value; the JSON encoding itself is \<open>serde_json\<close>'s.
\<close>

section \<open>Definitions\<close>

datatype 'a json_file = NoFile | BadFile | JsonFile 'a

record snapshot =
  sn_scan_started_at :: "instant option"
  sn_scan_completed_at :: "instant option"
  sn_total_candidates :: nat
  sn_processed_candidates :: nat
  sn_seeder_floor :: nat

definition snapshot_default :: snapshot where
  "snapshot_default = \<lparr>sn_scan_started_at = None, sn_scan_completed_at = None, sn_total_candidates = 0,
     sn_processed_candidates = 0, sn_seeder_floor = 0\<rparr>"

definition in_progress :: "snapshot \<Rightarrow> bool" where
  "in_progress s \<longleftrightarrow> sn_scan_started_at s \<noteq> None \<and> sn_scan_completed_at s = None"

definition progress_percent :: "snapshot \<Rightarrow> f64" where
  "progress_percent s =
     (if sn_total_candidates s = 0 then Fin 0
      else f_min (f_mul (f_div (f_of_nat (sn_processed_candidates s)) (f_of_nat (sn_total_candidates s))) (f_lit 100)) (f_lit 100))"

definition load_snapshot :: "snapshot json_file \<Rightarrow> snapshot result" where
  "load_snapshot f = (case f of NoFile \<Rightarrow> Inr snapshot_default | BadFile \<Rightarrow> Inl ''reading'' | JsonFile s \<Rightarrow> Inr s)"

text \<open>The write is atomic: it happens whole or not at all.\<close>

definition save_snapshot :: "bool \<Rightarrow> snapshot \<Rightarrow> snapshot json_file \<Rightarrow> unit result \<times> snapshot json_file" where
  "save_snapshot writable s f = (if writable then (Inr (), JsonFile s) else (Inl ''writing'', f))"

record runtime_stats =
  rs_collected_at :: "instant option"
  rs_uptime_seconds :: nat
  rs_held_torrents :: nat
  rs_seeding_torrents :: nat
  rs_downloading_torrents :: nat
  rs_quarantined_torrents :: nat
  rs_disk_used_bytes :: nat
  rs_disk_limit_bytes :: nat
  rs_disk_committed_bytes :: nat
  rs_useful_bytes_uploaded :: nat
  rs_useful_bytes_downloaded :: nat
  rs_total_bytes_uploaded :: nat
  rs_total_bytes_downloaded :: nat
  rs_active_peers :: nat
  rs_process_rss_bytes :: nat
  rs_heap_bytes :: nat
  rs_tasks :: nat

definition runtime_default :: runtime_stats where
  "runtime_default = \<lparr>rs_collected_at = None, rs_uptime_seconds = 0, rs_held_torrents = 0, rs_seeding_torrents = 0,
     rs_downloading_torrents = 0, rs_quarantined_torrents = 0, rs_disk_used_bytes = 0, rs_disk_limit_bytes = 0,
     rs_disk_committed_bytes = 0, rs_useful_bytes_uploaded = 0, rs_useful_bytes_downloaded = 0,
     rs_total_bytes_uploaded = 0, rs_total_bytes_downloaded = 0, rs_active_peers = 0, rs_process_rss_bytes = 0,
     rs_heap_bytes = 0, rs_tasks = 0\<rparr>"

definition uptime :: "runtime_stats \<Rightarrow> duration" where
  "uptime r = secs (rs_uptime_seconds r)"

definition upload_bits_per_sec :: "runtime_stats \<Rightarrow> f64" where
  "upload_bits_per_sec r = (if rs_uptime_seconds r = 0 then Fin 0
     else f_div (f_mul (f_of_nat (rs_total_bytes_uploaded r)) (f_lit 8)) (f_of_nat (rs_uptime_seconds r)))"

definition download_bits_per_sec :: "runtime_stats \<Rightarrow> f64" where
  "download_bits_per_sec r = (if rs_uptime_seconds r = 0 then Fin 0
     else f_div (f_mul (f_of_nat (rs_total_bytes_downloaded r)) (f_lit 8)) (f_of_nat (rs_uptime_seconds r)))"

definition disk_used_pct :: "runtime_stats \<Rightarrow> f64" where
  "disk_used_pct r = (if rs_disk_limit_bytes r = 0 then Fin 0
     else f_min (f_mul (f_div (f_of_nat (rs_disk_used_bytes r)) (f_of_nat (rs_disk_limit_bytes r))) (f_lit 100)) (f_lit 100))"

definition load_runtime :: "runtime_stats json_file \<Rightarrow> runtime_stats result" where
  "load_runtime f = (case f of NoFile \<Rightarrow> Inr runtime_default | BadFile \<Rightarrow> Inl ''reading'' | JsonFile s \<Rightarrow> Inr s)"

definition save_runtime :: "bool \<Rightarrow> runtime_stats \<Rightarrow> runtime_stats json_file \<Rightarrow> unit result \<times> runtime_stats json_file" where
  "save_runtime writable s f = (if writable then (Inr (), JsonFile s) else (Inl ''writing'', f))"

record tracker =
  tr_nodes :: "string set"
  tr_seeding_bytes :: nat
  tr_leeching_bytes :: nat

definition tracker_default :: tracker where
  "tracker_default = \<lparr>tr_nodes = {}, tr_seeding_bytes = 0, tr_leeching_bytes = 0\<rparr>"

definition tracker_observe :: "string \<Rightarrow> nat \<Rightarrow> bool \<Rightarrow> tracker \<Rightarrow> tracker" where
  "tracker_observe node_key torrent_size finished t =
     (let t = t\<lparr>tr_nodes := insert node_key (tr_nodes t)\<rparr>
      in if finished then t\<lparr>tr_seeding_bytes := wrap64 (tr_seeding_bytes t + torrent_size)\<rparr>
         else t\<lparr>tr_leeching_bytes := wrap64 (tr_leeching_bytes t + torrent_size)\<rparr>)"

definition tracker_node_count :: "tracker \<Rightarrow> nat" where
  "tracker_node_count t = card (tr_nodes t)"

section \<open>Properties\<close>

text \<open>A percentage of two byte counts is a number between 0 and 100, and at least 0 bits per second flow.\<close>

lemma rnd_val_nat_ge_1: "1 \<le> n \<Longrightarrow> 1 \<le> rnd_val (of_nat n)"
  using rnd_val_mono [of 1 "of_nat n"] by simp

lemma rnd_val_u64: "n \<le> u64_max \<Longrightarrow> rnd_val (of_nat n) \<le> 2 ^ 64"
  using rnd_val_mono [of "of_nat n" "2 ^ 64"] rnd_val_pow2 [of 64] of_nat_mono [of n u64_max, where ?'a = rat] by simp

lemma percent_bounds:
  assumes "a \<le> u64_max" "b \<le> u64_max" "b \<noteq> 0"
  shows "\<exists>q. f_min (f_mul (f_div (f_of_nat a) (f_of_nat b)) (f_lit 100)) (f_lit 100) = Fin q \<and> 0 \<le> q \<and> q \<le> 100"
proof -
  define x y where "x = rnd_val (of_nat a)" and "y = rnd_val (of_nat b)"
  have y: "1 \<le> y" using assms by (simp add: y_def rnd_val_nat_ge_1)
  have x: "0 \<le> x" "x \<le> 2 ^ 64" using rnd_val_u64 [OF assms(1)] by (simp_all add: x_def rnd_val_nonneg)
  have "x / y \<le> x / 1" using x y by (intro divide_left_mono) auto
  then have d: "0 \<le> x / y" "x / y \<le> 2 ^ 64" using x y by auto
  have r1: "rnd (x / y) = Fin (rnd_val (x / y))" "0 \<le> rnd_val (x / y)" "rnd_val (x / y) \<le> 2 ^ 64"
    using rnd_between [OF d] rnd_val_pow2 [of 64] by auto
  have h: "rnd 100 = Fin 100" using rnd_val_of_int [of 100] by (simp add: rnd_eq_Fin)
  have m: "rnd (rnd_val (x / y) * 100) = Fin (rnd_val (rnd_val (x / y) * 100))" "0 \<le> rnd_val (rnd_val (x / y) * 100)"
    using r1(2,3) rnd_eq_Fin_le [of "rnd_val (x / y) * 100" "2 ^ 64 * 100"] rnd_val_nonneg [of "rnd_val (x / y) * 100"] by auto
  have "f_mul (f_div (f_of_nat a) (f_of_nat b)) (f_lit 100) = Fin (rnd_val (rnd_val (x / y) * 100))"
    using assms y r1(1) h m(1) by (simp add: f_of_nat_eq x_def y_def f_lit_def)
  with h m(2) show ?thesis by (intro exI [of _ "min (rnd_val (rnd_val (x / y) * 100)) 100"]) (auto simp: f_min_def f_lit_def)
qed

text \<open>The two percentages the status screen shows are always numbers between 0 and 100: no NaN from an
  empty catalog or a zero limit, nothing above 100 when more was processed (or used) than planned.\<close>

theorem percentages_bounded:
  assumes "sn_processed_candidates s \<le> u64_max" "sn_total_candidates s \<le> u64_max"
    and "rs_disk_used_bytes r \<le> u64_max" "rs_disk_limit_bytes r \<le> u64_max"
  shows "f_le (Fin 0) (progress_percent s) \<and> f_le (progress_percent s) (Fin 100) \<and>
    f_le (Fin 0) (disk_used_pct r) \<and> f_le (disk_used_pct r) (Fin 100)"
  using percent_bounds [OF assms(1,2)] percent_bounds [OF assms(3,4)] by (auto simp: progress_percent_def disk_used_pct_def)

theorem percentages_bounded_witness:
  "f_le (progress_percent (snapshot_default\<lparr>sn_total_candidates := 3, sn_processed_candidates := 7\<rparr>)) (Fin 100) \<and>
   f_le (Fin 0) (disk_used_pct (runtime_default\<lparr>rs_disk_used_bytes := 5\<rparr>))"
  using percentages_bounded [of "snapshot_default\<lparr>sn_total_candidates := 3, sn_processed_candidates := 7\<rparr>"
      "runtime_default\<lparr>rs_disk_used_bytes := 5\<rparr>"]
  by (simp add: snapshot_default_def runtime_default_def)

end
