(* ===== verification/Live.thy ===== *)
theory Live
  imports Engine_Base Bandwidth Netstats "HOL-Library.List_Lexorder" "HOL-Library.Char_ord"
begin

text \<open>
  The live query socket of \<open>src/live.rs\<close> and the collection of runtime statistics of
  \<open>src/engine/stats.rs\<close>: the two-phase handle (booting, live), the views it serves, the disk-usage cache,
  the bounded reader of request lines, the bound on concurrent queries and the bind loop.

  What the session reports, the sizes a directory walk finds, the clock, and the JSON codec are arguments.
  The theorems say that a query sees what the engine pushed last, that no client can make the
  daemon buffer more than the request cap, and that the cached disk usage is never older than its TTL.
\<close>

section \<open>Constants and messages\<close>

definition QUERY_TIMEOUT :: duration where "QUERY_TIMEOUT = secs 5"
definition MAX_REQUEST_BYTES :: nat where "MAX_REQUEST_BYTES = 64 * 1024"
definition MAX_CONCURRENT_QUERIES :: nat where "MAX_CONCURRENT_QUERIES = 32"
definition BIND_RETRY_WINDOW :: duration where "BIND_RETRY_WINDOW = secs 30"
definition DISK_CACHE_TTL :: duration where "DISK_CACHE_TTL = secs 60"
definition SOCKET_NAME :: string where "SOCKET_NAME = ''keep-at.sock''"

definition socket_path :: "string \<Rightarrow> string" where
  "socket_path data_dir = path_join data_dir SOCKET_NAME"

datatype request = Runtime | Held

datatype activity = Booting | Seeding | Scanning

definition activity_str :: "activity \<Rightarrow> string" where
  "activity_str a = (case a of Booting \<Rightarrow> ''booting'' | Seeding \<Rightarrow> ''seeding'' | Scanning \<Rightarrow> ''scanning'')"

record runtime_view =
  rv_booting :: bool
  rv_activity :: activity
  rv_checks_in_progress :: nat
  rv_uptime_seconds :: nat
  rv_held_torrents :: nat
  rv_seeding_torrents :: nat
  rv_downloading_torrents :: nat
  rv_quarantined_torrents :: nat
  rv_disk_used_bytes :: nat
  rv_disk_limit_bytes :: nat
  rv_disk_committed_bytes :: nat
  rv_total_bytes_uploaded :: nat
  rv_total_bytes_downloaded :: nat
  rv_upload_bps_hour :: f64
  rv_download_bps_hour :: f64
  rv_upload_bps_day :: f64
  rv_download_bps_day :: f64
  rv_active_peers :: nat
  rv_process_rss_bytes :: nat

record held_torrent_view =
  hv_title :: string
  hv_info_hash :: string
  hv_size_bytes :: nat
  hv_progress_bytes :: nat
  hv_finished :: bool
  hv_verifying :: bool
  hv_last_known_seeders :: nat

record held_view =
  he_booting :: bool
  he_torrents :: "held_torrent_view list"

datatype response = RuntimeResp runtime_view | HeldResp held_view | ErrorResp string

section \<open>Runtime statistics\<close>

text \<open>\<open>disk_usage\<close>: what the walk of each location finds is an argument.\<close>

definition disk_usage :: "(string \<Rightarrow> nat) \<Rightarrow> (string \<times> nat) list \<Rightarrow> nat \<times> nat" where
  "disk_usage walk locations =
     foldl (\<lambda>(used, cap) (path, l). (sat_add64 used (walk path), sat_add64 cap l)) (0, 0) locations"

text \<open>\<open>str::split_whitespace\<close> and \<open>str::parse::<u64>\<close>.\<close>

fun split_ws :: "string \<Rightarrow> string \<Rightarrow> string list" where
  "split_ws cur [] = (if cur = [] then [] else [cur])"
| "split_ws cur (c # cs) = (if is_whitespace c then (if cur = [] then split_ws [] cs else cur # split_ws [] cs)
                            else split_ws (cur @ [c]) cs)"

definition parse_u64 :: "string \<Rightarrow> nat option" where
  "parse_u64 s = (let d = (if starts_with s ''+'' then tl s else s)
     in if d = [] \<or> \<not> list_all is_ascii_digit d \<or> u64_max < read_nat d then None else Some (read_nat d))"

definition process_rss_bytes :: "string option \<Rightarrow> nat" where
  "process_rss_bytes statm =
     (let fields = split_ws [] (case statm of Some s \<Rightarrow> s | None \<Rightarrow> []);
          pages = (if 1 < length fields then (case parse_u64 (fields ! 1) of Some n \<Rightarrow> n | None \<Rightarrow> 0) else 0)
      in wrap64 (pages * 4096))"

text \<open>What the session reports when asked.\<close>

record session_torrent =
  se_hash :: string
  se_progress :: nat
  se_finished :: bool
  se_initializing :: bool

record session_report =
  sr_torrents :: "session_torrent list"
  sr_uploaded :: nat
  sr_fetched :: nat
  sr_peers :: nat

definition collect ::
  "session_report \<Rightarrow> instant \<Rightarrow> instant \<Rightarrow> instant \<Rightarrow> string option \<Rightarrow> nat \<Rightarrow> nat \<Rightarrow> nat \<Rightarrow> nat \<Rightarrow> nat \<Rightarrow> nat \<Rightarrow> runtime_stats" where
  "collect sess utc now started_at statm held seeding quarantined disk_used disk_limit disk_committed =
     \<lparr>rs_collected_at = Some utc, rs_uptime_seconds = since now started_at div 1000000000,
      rs_held_torrents = held, rs_seeding_torrents = seeding, rs_downloading_torrents = held - seeding,
      rs_quarantined_torrents = quarantined, rs_disk_used_bytes = disk_used, rs_disk_limit_bytes = disk_limit,
      rs_disk_committed_bytes = disk_committed, rs_useful_bytes_uploaded = sr_uploaded sess,
      rs_useful_bytes_downloaded = sr_fetched sess, rs_total_bytes_uploaded = sr_uploaded sess,
      rs_total_bytes_downloaded = sr_fetched sess, rs_active_peers = sr_peers sess,
      rs_process_rss_bytes = process_rss_bytes statm, rs_heap_bytes = 0, rs_tasks = 0\<rparr>"

section \<open>The disk-usage cache\<close>

type_synonym disk_cache = "(instant \<times> nat \<times> nat) option"

definition from_snapshot :: "instant \<Rightarrow> runtime_stats json_file \<Rightarrow> disk_cache" where
  "from_snapshot now file = (case load_runtime file of
      Inr s \<Rightarrow> Some (now, rs_disk_used_bytes s, rs_disk_limit_bytes s)
    | Inl _ \<Rightarrow> Some (now, 0, 0))"

text \<open>\<open>later\<close> is the clock after the walk.\<close>

definition disk_get :: "(string \<Rightarrow> nat) \<Rightarrow> instant \<Rightarrow> instant \<Rightarrow> (string \<times> nat) list \<Rightarrow> disk_cache \<Rightarrow> (nat \<times> nat) \<times> disk_cache" where
  "disk_get walk now later storage slot =
     (let fresh = (disk_usage walk storage, Some (later, disk_usage walk storage))
      in case slot of
           Some (stored, used, cap) \<Rightarrow> if since now stored < DISK_CACHE_TTL then ((used, cap), slot) else fresh
         | None \<Rightarrow> fresh)"

section \<open>The handle\<close>

record live_state =
  lv_tracker :: rate_tracker
  lv_started_at :: instant
  lv_storage :: "(string \<times> nat) list"
  lv_held :: "live_entry list"
  lv_quarantined :: nat

datatype handle_phase =
    BootingPhase instant "(string \<times> nat) list" "held_torrent_view list"
  | LivePhase live_state

record live_handle =
  lh_inner :: handle_phase
  lh_activity :: activity
  lh_disk :: disk_cache

definition handle_booting :: "instant \<Rightarrow> (string \<times> nat) list \<Rightarrow> held_torrent_view list \<Rightarrow> live_handle" where
  "handle_booting started_at storage held = \<lparr>lh_inner = BootingPhase started_at storage held, lh_activity = Booting, lh_disk = None\<rparr>"

definition booting_with_snapshot ::
  "instant \<Rightarrow> instant \<Rightarrow> (string \<times> nat) list \<Rightarrow> held_torrent_view list \<Rightarrow> runtime_stats json_file \<Rightarrow> live_handle" where
  "booting_with_snapshot now started_at storage held file = (handle_booting started_at storage held)\<lparr>lh_disk := from_snapshot now file\<rparr>"

definition set_activity :: "activity \<Rightarrow> live_handle \<Rightarrow> live_handle" where
  "set_activity a h = h\<lparr>lh_activity := a\<rparr>"

definition activate :: "session_report \<Rightarrow> nat \<Rightarrow> live_entry list \<Rightarrow> live_handle \<Rightarrow> live_handle" where
  "activate sess quarantined torrents h = (case lh_inner h of
      LivePhase _ \<Rightarrow> h
    | BootingPhase started_at storage _ \<Rightarrow>
        set_activity Seeding (h\<lparr>lh_inner := LivePhase
          \<lparr>lv_tracker = rate_tracker_new started_at (sr_uploaded sess) (sr_fetched sess), lv_started_at = started_at,
           lv_storage = storage, lv_held = torrents, lv_quarantined = quarantined\<rparr>\<rparr>))"

definition booting_entry :: "live_entry \<Rightarrow> held_torrent_view" where
  "booting_entry t = \<lparr>hv_title = le_title t, hv_info_hash = le_info_hash t, hv_size_bytes = le_size_bytes t,
     hv_progress_bytes = 0, hv_finished = False, hv_verifying = True, hv_last_known_seeders = le_last_known_seeders t\<rparr>"

definition refresh_live :: "nat \<Rightarrow> live_entry list \<Rightarrow> live_handle \<Rightarrow> live_handle" where
  "refresh_live quarantined torrents h = (case lh_inner h of
      BootingPhase started_at storage _ \<Rightarrow> h\<lparr>lh_inner := BootingPhase started_at storage (map booting_entry torrents)\<rparr>
    | LivePhase l \<Rightarrow> h\<lparr>lh_inner := LivePhase (l\<lparr>lv_held := torrents, lv_quarantined := quarantined\<rparr>)\<rparr>)"

text \<open>A tick whose lock is taken is skipped.\<close>

definition tick_tracker :: "session_report \<Rightarrow> instant \<Rightarrow> bool \<Rightarrow> live_handle \<Rightarrow> live_handle" where
  "tick_tracker sess now lock_free h = (case lh_inner h of
      BootingPhase _ _ _ \<Rightarrow> h
    | LivePhase l \<Rightarrow> if lock_free
        then h\<lparr>lh_inner := LivePhase (l\<lparr>lv_tracker := tick now (sr_uploaded sess) (sr_fetched sess) (lv_tracker l)\<rparr>)\<rparr> else h)"

section \<open>The views\<close>

text \<open>What one runtime query meets: the session at its two readings, the clock, the locks, the walk.\<close>

record query_env =
  qe_session :: session_report
  qe_session_tick :: session_report
  qe_now_tick :: instant
  qe_now :: instant
  qe_tick_free :: bool
  qe_read_free :: bool
  qe_walk :: "string \<Rightarrow> nat"
  qe_walked_at :: instant
  qe_statm :: "string option"

fun count_one :: "session_torrent \<Rightarrow> nat \<times> nat \<times> nat \<Rightarrow> nat \<times> nat \<times> nat" where
  "count_one t (seeding, downloading, checks) =
     (if se_finished t then (seeding + 1, downloading, checks)
      else if se_initializing t then (seeding, downloading, checks + 1)
      else (seeding, downloading + 1, checks))"

definition count_torrents :: "session_torrent list \<Rightarrow> nat \<times> nat \<times> nat" where
  "count_torrents ts = fold count_one ts (0, 0, 0)"

definition phase_held :: "handle_phase \<Rightarrow> nat \<times> nat" where
  "phase_held ph = (case ph of
      BootingPhase _ _ held \<Rightarrow> (length held, wrap64 (sum_list (map hv_size_bytes held)))
    | LivePhase l \<Rightarrow> (length (lv_held l), wrap64 (sum_list (map le_size_bytes (lv_held l)))))"

definition phase_rates :: "query_env \<Rightarrow> handle_phase \<Rightarrow> f64 \<times> f64 \<times> f64 \<times> f64" where
  "phase_rates env ph = (case ph of
      LivePhase l \<Rightarrow> if qe_read_free env
        then (rate_up (qe_now env) (secs 3600) (lv_tracker l), rate_down (qe_now env) (secs 3600) (lv_tracker l),
              rate_up (qe_now env) (secs 86400) (lv_tracker l), rate_down (qe_now env) (secs 86400) (lv_tracker l))
        else (Fin 0, Fin 0, Fin 0, Fin 0)
    | BootingPhase _ _ _ \<Rightarrow> (Fin 0, Fin 0, Fin 0, Fin 0))"

definition phase_started :: "handle_phase \<Rightarrow> instant" where
  "phase_started ph = (case ph of BootingPhase s _ _ \<Rightarrow> s | LivePhase l \<Rightarrow> lv_started_at l)"

definition phase_storage :: "handle_phase \<Rightarrow> (string \<times> nat) list" where
  "phase_storage ph = (case ph of BootingPhase _ st _ \<Rightarrow> st | LivePhase l \<Rightarrow> lv_storage l)"

text \<open>Per-torrent counts, byte totals and peers: nothing is known of them while booting.\<close>

definition phase_counts :: "query_env \<Rightarrow> handle_phase \<Rightarrow> (nat \<times> nat \<times> nat) \<times> (nat \<times> nat) \<times> nat" where
  "phase_counts env ph = (case ph of
      LivePhase l \<Rightarrow> (count_torrents (sr_torrents (qe_session env)),
                      (sr_uploaded (qe_session env), sr_fetched (qe_session env)), sr_peers (qe_session env))
    | BootingPhase _ _ held \<Rightarrow> ((0, length held, 0), (0, 0), 0))"

definition handle_runtime_view :: "query_env \<Rightarrow> live_handle \<Rightarrow> runtime_view \<times> live_handle" where
  "handle_runtime_view env h =
     (let ph = lh_inner h;
          ((seeding, downloading, checks), (up_total, down_total), peers) = phase_counts env ph;
          h1 = tick_tracker (qe_session_tick env) (qe_now_tick env) (qe_tick_free env) h;
          (up_hour, down_hour, up_day, down_day) = phase_rates env (lh_inner h1);
          ((used, cap), slot) = disk_get (qe_walk env) (qe_now env) (qe_walked_at env) (phase_storage ph) (lh_disk h1)
      in (\<lparr>rv_booting = (case ph of BootingPhase _ _ _ \<Rightarrow> True | LivePhase _ \<Rightarrow> False), rv_activity = lh_activity h,
           rv_checks_in_progress = checks, rv_uptime_seconds = since (qe_walked_at env) (phase_started ph) div 1000000000,
           rv_held_torrents = fst (phase_held ph), rv_seeding_torrents = seeding, rv_downloading_torrents = downloading,
           rv_quarantined_torrents = (case ph of BootingPhase _ _ _ \<Rightarrow> 0 | LivePhase l \<Rightarrow> lv_quarantined l),
           rv_disk_used_bytes = used, rv_disk_limit_bytes = cap, rv_disk_committed_bytes = snd (phase_held ph),
           rv_total_bytes_uploaded = up_total, rv_total_bytes_downloaded = down_total,
           rv_upload_bps_hour = up_hour, rv_download_bps_hour = down_hour, rv_upload_bps_day = up_day,
           rv_download_bps_day = down_day, rv_active_peers = peers, rv_process_rss_bytes = process_rss_bytes (qe_statm env)\<rparr>,
          h1\<lparr>lh_disk := slot\<rparr>))"

definition live_map :: "session_torrent list \<Rightarrow> (string, nat \<times> bool \<times> bool) hmap" where
  "live_map ts = fold (\<lambda>t. hm_insert (se_hash t) (se_progress t, se_finished t, se_initializing t)) ts []"

definition held_entry :: "(string, nat \<times> bool \<times> bool) hmap \<Rightarrow> live_entry \<Rightarrow> held_torrent_view" where
  "held_entry m t =
     (let (progress, finished, verifying) = (case hm_get m (le_info_hash t) of Some x \<Rightarrow> x | None \<Rightarrow> (0, False, False))
      in \<lparr>hv_title = le_title t, hv_info_hash = le_info_hash t, hv_size_bytes = le_size_bytes t, hv_progress_bytes = progress,
          hv_finished = finished, hv_verifying = verifying, hv_last_known_seeders = le_last_known_seeders t\<rparr>)"

definition handle_held_view :: "session_report \<Rightarrow> live_handle \<Rightarrow> held_view" where
  "handle_held_view sess h = (case lh_inner h of
      BootingPhase _ _ held \<Rightarrow> \<lparr>he_booting = True, he_torrents = held\<rparr>
    | LivePhase l \<Rightarrow> \<lparr>he_booting = False,
        he_torrents = sort_by (cmp_key hv_title) (map (held_entry (live_map (sr_torrents sess))) (lv_held l))\<rparr>)"

section \<open>One query\<close>

text \<open>
  What the socket yields, read by read; an exhausted list is a client that stalls until the timeout.
  An empty buffer is the end of the stream.
\<close>

datatype read_event = Chunk "nat list" | ReadFailed

fun read_request :: "nat \<Rightarrow> nat list \<Rightarrow> read_event list \<Rightarrow> (nat list \<times> bool) result" where
  "read_request remaining line [] = Inl ''reading request (client timed out)''"
| "read_request remaining line (ReadFailed # es) = Inl ''reading request''"
| "read_request remaining line (Chunk buf # es) =
     (if buf = [] then Inr (line, False)
      else let taken = min (length buf) remaining;
               line = line @ take taken buf;
               found = 10 \<in> set line;
               remaining = remaining - taken
           in if found \<or> remaining = 0 then Inr (line, found) else read_request remaining line es)"

definition is_ascii_ws :: "nat \<Rightarrow> bool" where
  "is_ascii_ws b \<longleftrightarrow> b \<in> {9, 10, 12, 13, 32}"

definition trim_ascii :: "nat list \<Rightarrow> nat list" where
  "trim_ascii bs = rev (dropWhile is_ascii_ws (rev (dropWhile is_ascii_ws bs)))"

text \<open>The answer and the handle afterwards; \<open>parse\<close> is the JSON decoder, and writing the answer is not modelled.\<close>

definition serve_one :: "(nat list \<Rightarrow> request option) \<Rightarrow> query_env \<Rightarrow> read_event list \<Rightarrow> live_handle \<Rightarrow> response result \<times> live_handle" where
  "serve_one parse env events h = (case read_request (MAX_REQUEST_BYTES + 1) [] events of
      Inl e \<Rightarrow> (Inl e, h)
    | Inr (line, terminated) \<Rightarrow>
        if \<not> terminated \<or> MAX_REQUEST_BYTES < length line then (Inl ''request too large or unterminated'', h)
        else (case parse (trim_ascii line) of
                None \<Rightarrow> (Inl ''parsing request'', h)
              | Some Runtime \<Rightarrow> (case handle_runtime_view env h of (v, h) \<Rightarrow> (Inr (RuntimeResp v), h))
              | Some Held \<Rightarrow> (Inr (HeldResp (handle_held_view (qe_session env) h)), h)))"

section \<open>The accept loop\<close>

text \<open>Connections over capacity are dropped at once; \<open>QueryDone\<close> returns a permit.\<close>

datatype accept_event = Accepted | AcceptFailed | QueryDone

definition accept_step :: "accept_event \<Rightarrow> nat \<Rightarrow> nat" where
  "accept_step ev running = (case ev of
      Accepted \<Rightarrow> if running < MAX_CONCURRENT_QUERIES then running + 1 else running
    | AcceptFailed \<Rightarrow> running
    | QueryDone \<Rightarrow> running - 1)"

text \<open>
  The bind loop: per attempt whether the bind succeeds, the clock, and whether somebody answers on the socket.
  The result is whether the socket is bound, with the number of socket files it unlinked.
\<close>

record bind_attempt =
  ba_binds :: bool
  ba_now :: instant
  ba_answers :: bool

fun bind_loop :: "instant \<Rightarrow> bind_attempt list \<Rightarrow> nat \<Rightarrow> (bool \<times> nat) option" where
  "bind_loop deadline [] unlinked = None"
| "bind_loop deadline (a # attempts) unlinked =
     (if ba_binds a then Some (True, unlinked)
      else if ba_now a < deadline then bind_loop deadline attempts (if ba_answers a then unlinked else unlinked + 1)
      else Some (False, unlinked))"


section \<open>Lemmas\<close>

lemma read_request_length:
  "read_request remaining line es = Inr (line', t) \<Longrightarrow> length line' \<le> length line + remaining"
proof (induction es arbitrary: remaining line)
  case (Cons ev es)
  show ?case
  proof (cases ev)
    case (Chunk buf)
    then show ?thesis
      using Cons.prems Cons.IH [of "remaining - min (length buf) remaining" "line @ take (min (length buf) remaining) buf"]
      by (auto simp: Let_def split: if_splits)
  qed (use Cons.prems in simp)
qed simp

text \<open>How the stream is cut into reads makes no difference to a request that fits.\<close>

lemma read_request_chunks:
  "list_all (\<lambda>b. b \<noteq> []) bufs \<Longrightarrow> concat bufs = rest @ [10] \<Longrightarrow> 10 \<notin> set (line @ rest) \<Longrightarrow> length rest < remaining \<Longrightarrow>
   read_request remaining line (map Chunk bufs @ es) = Inr (line @ rest @ [10], True)"
proof (induction bufs arbitrary: line rest remaining)
  case (Cons buf bufs)
  have le: "length buf \<le> remaining"
    using Cons.prems(2,4) by (metis (no_types, lifting) Suc_leI append_eq_conv_conj concat.simps(2) length_append_singleton
      length_take le_trans min.cobounded1)
  show ?case
  proof (cases "concat bufs = []")
    case True
    then have "bufs = []" using Cons.prems(1) by (cases bufs) auto
    then show ?thesis using Cons.prems le by (simp add: Let_def)
  next
    case False
    then obtain ys where ys: "concat bufs = ys @ [10]"
      using Cons.prems(2) by (metis append_butlast_last_id concat.simps(2) last_appendR last_snoc)
    then have r: "rest = buf @ ys" using Cons.prems(2) by simp
    then have "read_request (remaining - length buf) (line @ buf) (map Chunk bufs @ es) = Inr ((line @ buf) @ ys @ [10], True)"
      using Cons.prems ys by (intro Cons.IH) auto
    moreover have "10 \<notin> set (line @ buf)" "remaining - length buf \<noteq> 0" using Cons.prems(3,4) r by auto
    ultimately show ?thesis using Cons.prems(1) le r by (simp add: Let_def)
  qed
qed simp

lemma count_fold:
  "fold count_one ts (s0, d0, c0) = (s, d, c) \<Longrightarrow> s + d + c = s0 + d0 + c0 + length ts \<and> s = s0 + length (filter se_finished ts)"
proof (induction ts arbitrary: s0 d0 c0)
  case (Cons t ts)
  obtain s1 d1 c1 where o: "count_one t (s0, d0, c0) = (s1, d1, c1)" by (metis surj_pair)
  from Cons.prems o have "fold count_one ts (s1, d1, c1) = (s, d, c)" by simp
  from Cons.IH [OF this] o show ?case by (auto split: if_splits)
qed simp

lemma count_torrents_sum:
  "count_torrents ts = (s, d, c) \<Longrightarrow> s + d + c = length ts \<and> s = length (filter se_finished ts)"
  using count_fold [of ts 0 0 0 s d c] by (simp add: count_torrents_def)

lemma live_map_get:
  assumes "distinct (map se_hash ts)" "t \<in> set ts"
  shows "hm_get (live_map ts) (se_hash t) = Some (se_progress t, se_finished t, se_initializing t)"
proof -
  have keep: "x \<notin> se_hash ` set us \<Longrightarrow> hm_get (fold (\<lambda>t. hm_insert (se_hash t) (se_progress t, se_finished t, se_initializing t)) us m) x = hm_get m x"
    for us x m by (induction us arbitrary: m) (auto simp: hm_simps)
  have "distinct (map se_hash us) \<Longrightarrow> t \<in> set us \<Longrightarrow>
      hm_get (fold (\<lambda>t. hm_insert (se_hash t) (se_progress t, se_finished t, se_initializing t)) us m) (se_hash t) =
        Some (se_progress t, se_finished t, se_initializing t)" for us m
  proof (induction us arbitrary: m)
    case (Cons u us)
    then show ?case by (cases "t = u") (auto simp: keep hm_simps)
  qed simp
  from this [OF assms, of "[]"] show ?thesis by (simp add: live_map_def)
qed

section \<open>Properties\<close>

text \<open>A query sees what the engine pushed last.  After a push of the state, the runtime view counts its
  torrents and sums their nominal sizes, in either phase; once live, it carries the quarantine count, and the
  held view lists exactly the state's torrents, by title, each with the session's progress.\<close>

theorem queries_see_last_push:
  "let h' = refresh_live (quarantine_count s) (snapshot_entries s) h in
    rv_held_torrents (fst (handle_runtime_view env h')) = length (all_torrents s) \<and>
    rv_disk_committed_bytes (fst (handle_runtime_view env h')) = wrap64 (sum_list (map t_size_bytes (all_torrents s))) \<and>
    mset (map (\<lambda>v. (hv_info_hash v, hv_title v, hv_size_bytes v)) (he_torrents (handle_held_view sess h'))) =
      mset (map (\<lambda>t. (t_info_hash t, t_title t, t_size_bytes t)) (all_torrents s)) \<and>
    (case lh_inner h of
       LivePhase _ \<Rightarrow> rv_quarantined_torrents (fst (handle_runtime_view env h')) = quarantine_count s \<and>
         sorted (map hv_title (he_torrents (handle_held_view sess h')))
     | BootingPhase _ _ _ \<Rightarrow> rv_booting (fst (handle_runtime_view env h')))"
proof -
  have e: "map hv_size_bytes (map booting_entry xs) = map le_size_bytes xs" for xs by (simp add: booting_entry_def)
  have m: "(\<lambda>v. (hv_info_hash v, hv_title v, hv_size_bytes v)) \<circ> held_entry mp = (\<lambda>x. (le_info_hash x, le_title x, le_size_bytes x))" for mp
    by (rule ext) (simp add: held_entry_def split: prod.splits)
  have b: "(\<lambda>v. (hv_info_hash v, hv_title v, hv_size_bytes v)) \<circ> booting_entry = (\<lambda>x. (le_info_hash x, le_title x, le_size_bytes x))"
    by (rule ext) (simp add: booting_entry_def)
  have sn: "map (\<lambda>x. (le_info_hash x, le_title x, le_size_bytes x)) (snapshot_entries s) = map (\<lambda>t. (t_info_hash t, t_title t, t_size_bytes t)) (all_torrents s)"
    "map le_size_bytes (snapshot_entries s) = map t_size_bytes (all_torrents s)" "length (snapshot_entries s) = length (all_torrents s)"
    by (simp_all add: snapshot_entries_def)
  have srt: "mset (map f (sort_by c xs)) = mset (map f xs)" for f :: "held_torrent_view \<Rightarrow> string \<times> string \<times> nat" and c xs
    by (metis mset_map mset_sort_by)
  show ?thesis
  proof (cases "lh_inner h")
    case (BootingPhase a st held)
    then show ?thesis
      using sn by (simp add: Let_def handle_runtime_view_def refresh_live_def phase_held_def handle_held_view_def map_map e b Let_def split_beta
          del: mset_map map_map) (simp add: b)
  next
    case (LivePhase l)
    then show ?thesis
      using sn sort_by_key_sorted [of hv_title]
      by (simp add: Let_def handle_runtime_view_def refresh_live_def phase_held_def handle_held_view_def srt m Let_def split_beta del: mset_map)
  qed
qed

text \<open>The progress of a held torrent in the answer is the session's, for every torrent the session manages.\<close>

theorem held_view_progress:
  assumes "lh_inner h = LivePhase l" "distinct (map se_hash (sr_torrents sess))" "t \<in> set (sr_torrents sess)"
    and "v \<in> set (he_torrents (handle_held_view sess h))" "hv_info_hash v = se_hash t"
  shows "hv_progress_bytes v = se_progress t \<and> hv_finished v = se_finished t \<and> hv_verifying v = se_initializing t"
proof -
  from assms(1,4) obtain x where v: "v = held_entry (live_map (sr_torrents sess)) x" by (auto simp: handle_held_view_def)
  then have "le_info_hash x = se_hash t" using assms(5) by (simp add: held_entry_def split_beta)
  with v live_map_get [OF assms(2,3)] show ?thesis by (simp add: held_entry_def)
qed

text \<open>The reader of a request never holds more than one byte over the cap, whatever a client sends, and a request
  that fits is read whole however the stream is cut into reads.\<close>

theorem request_reader_bounded:
  "(\<forall>line t. read_request (MAX_REQUEST_BYTES + 1) [] es = Inr (line, t) \<longrightarrow> length line \<le> MAX_REQUEST_BYTES + 1) \<and>
   (list_all (\<lambda>b. b \<noteq> []) bufs \<and> concat bufs = req @ [10] \<and> 10 \<notin> set req \<and> length req < MAX_REQUEST_BYTES \<longrightarrow>
     serve_one parse env (map Chunk bufs @ es) h =
       (case parse (trim_ascii (req @ [10])) of
          None \<Rightarrow> (Inl ''parsing request'', h)
        | Some Runtime \<Rightarrow> (Inr (RuntimeResp (fst (handle_runtime_view env h))), snd (handle_runtime_view env h))
        | Some Held \<Rightarrow> (Inr (HeldResp (handle_held_view (qe_session env) h)), h)))"
proof (intro conjI allI impI)
  fix line t assume "read_request (MAX_REQUEST_BYTES + 1) [] es = Inr (line, t)"
  from read_request_length [OF this] show "length line \<le> MAX_REQUEST_BYTES + 1" by simp
next
  assume a: "list_all (\<lambda>b. b \<noteq> []) bufs \<and> concat bufs = req @ [10] \<and> 10 \<notin> set req \<and> length req < MAX_REQUEST_BYTES"
  then have "read_request (MAX_REQUEST_BYTES + 1) [] (map Chunk bufs @ es) = Inr ([] @ req @ [10], True)"
    by (intro read_request_chunks) auto
  then show "serve_one parse env (map Chunk bufs @ es) h =
       (case parse (trim_ascii (req @ [10])) of
          None \<Rightarrow> (Inl ''parsing request'', h)
        | Some Runtime \<Rightarrow> (Inr (RuntimeResp (fst (handle_runtime_view env h))), snd (handle_runtime_view env h))
        | Some Held \<Rightarrow> (Inr (HeldResp (handle_held_view (qe_session env) h)), h))"
    using a by (auto simp: serve_one_def split: option.splits request.splits prod.splits)
qed

text \<open>The disk figures a query shows are a cached walk or snapshot younger than the TTL, or a walk made for this
  query, which is then cached.\<close>

theorem disk_cache_fresh:
  assumes "disk_get walk now later storage slot = (r, slot')"
  shows "\<exists>stored. slot' = Some (stored, r) \<and>
    (slot' = slot \<and> now - stored < int DISK_CACHE_TTL \<or> stored = later \<and> r = disk_usage walk storage)"
proof (cases slot)
  case (Some x)
  then show ?thesis using assms by (cases x) (auto simp: disk_get_def Let_def since_def split: if_splits)
qed (use assms in \<open>auto simp: disk_get_def Let_def\<close>)

theorem disk_cache_fresh_witness:
  "\<exists>stored. snd (disk_get (\<lambda>_. 5) 100000000000 100000000001 [(''/d'', 9)] (Some (0, 1, 9))) = Some (stored, (5, 9)) \<and> stored = 100000000001"
proof -
  have g: "disk_get (\<lambda>_. 5) 100000000000 100000000001 [(''/d'', 9)] (Some (0, 1, 9)) = ((5, 9), Some (100000000001, 5, 9))"
    by (simp add: disk_get_def since_def DISK_CACHE_TTL_def secs_def disk_usage_def rust_arith)
  from disk_cache_fresh [OF this] g show ?thesis by auto
qed

text \<open>The handle is promoted once: a second activation changes nothing.\<close>

theorem activate_once:
  "activate sess' q' ts' (activate sess q ts h) = activate sess q ts h \<and>
   (\<exists>l. lh_inner (activate sess q ts h) = LivePhase l)"
  by (cases "lh_inner h") (simp_all add: activate_def set_activity_def)

text \<open>The seeding, downloading and checking torrents of a view are all the torrents of the session.\<close>

theorem view_counts_partition:
  assumes "lh_inner h = LivePhase l"
  shows "rv_seeding_torrents (fst (handle_runtime_view env h)) + rv_downloading_torrents (fst (handle_runtime_view env h)) +
      rv_checks_in_progress (fst (handle_runtime_view env h)) = length (sr_torrents (qe_session env))"
  using assms count_torrents_sum [of "sr_torrents (qe_session env)"]
  by (auto simp: handle_runtime_view_def phase_counts_def Let_def split: prod.splits)

text \<open>At most 32 queries run at once, whatever connects.\<close>

theorem queries_bounded:
  "foldl (\<lambda>n ev. accept_step ev n) 0 evs \<le> MAX_CONCURRENT_QUERIES"
proof -
  have "n \<le> MAX_CONCURRENT_QUERIES \<Longrightarrow> foldl (\<lambda>n ev. accept_step ev n) n evs \<le> MAX_CONCURRENT_QUERIES" for n
  proof (induction evs arbitrary: n)
    case (Cons ev evs)
    then have "accept_step ev n \<le> MAX_CONCURRENT_QUERIES" by (cases ev) (auto simp: accept_step_def)
    with Cons.IH show ?case by simp
  qed simp
  then show ?thesis by simp
qed

text \<open>The bind loop ends at the first attempt after the deadline at the latest.\<close>

theorem bind_loop_ends:
  assumes "a \<in> set attempts" "deadline \<le> ba_now a"
  shows "bind_loop deadline attempts n \<noteq> None"
  using assms by (induction attempts arbitrary: n) auto


section \<open>Examples\<close>

definition sample_live :: live_handle where
  "sample_live = activate \<lparr>sr_torrents = [], sr_uploaded = 0, sr_fetched = 0, sr_peers = 0\<rparr> 0
     [\<lparr>le_title = ''t'', le_info_hash = ''aa'', le_size_bytes = 9, le_last_known_seeders = 1\<rparr>] (handle_booting 0 [(''/d'', 9)] [])"

definition sample_report :: session_report where
  "sample_report = \<lparr>sr_torrents = [\<lparr>se_hash = ''aa'', se_progress = 4, se_finished = False, se_initializing = True\<rparr>],
     sr_uploaded = 0, sr_fetched = 0, sr_peers = 0\<rparr>"

definition sample_query :: query_env where
  "sample_query = \<lparr>qe_session = sample_report, qe_session_tick = sample_report, qe_now_tick = 0, qe_now = 0, qe_tick_free = True,
     qe_read_free = True, qe_walk = (\<lambda>_. 0), qe_walked_at = 0, qe_statm = None\<rparr>"

lemma sample_live_phase: "\<exists>l. lh_inner sample_live = LivePhase l \<and> lv_held l =
    [\<lparr>le_title = ''t'', le_info_hash = ''aa'', le_size_bytes = 9, le_last_known_seeders = 1\<rparr>]"
  by (simp add: sample_live_def activate_def handle_booting_def set_activity_def)

theorem held_view_progress_witness:
  "\<exists>v \<in> set (he_torrents (handle_held_view sample_report sample_live)). hv_progress_bytes v = 4 \<and> hv_verifying v"
proof -
  obtain l where l: "lh_inner sample_live = LivePhase l"
    "lv_held l = [\<lparr>le_title = ''t'', le_info_hash = ''aa'', le_size_bytes = 9, le_last_known_seeders = 1\<rparr>]"
    using sample_live_phase by blast
  obtain v where v: "v \<in> set (he_torrents (handle_held_view sample_report sample_live))" "hv_info_hash v = ''aa''"
    using l by (auto simp: handle_held_view_def held_entry_def split_beta)
  have "hv_progress_bytes v = se_progress (hd (sr_torrents sample_report)) \<and> hv_finished v = se_finished (hd (sr_torrents sample_report)) \<and>
      hv_verifying v = se_initializing (hd (sr_torrents sample_report))"
    by (rule held_view_progress [OF l(1) _ _ v(1)]) (simp_all add: sample_report_def v(2))
  then show ?thesis using v(1) by (auto simp: sample_report_def)
qed

theorem request_reader_bounded_witness:
  "fst (serve_one (\<lambda>_. Some Held) sample_query [Chunk [123], Chunk [125, 10]] sample_live) =
     Inr (HeldResp (handle_held_view (qe_session sample_query) sample_live))"
  using request_reader_bounded [of "[]" "[[123], [125, 10]]" "[123, 125]" "\<lambda>_. Some Held" sample_query sample_live]
  by (simp add: MAX_REQUEST_BYTES_def)

end
