(* ===== verification/Cli.thy ===== *)
theory Cli
  imports Config Splitting
begin

text \<open>
  Resolution of the configuration from the command line, \<open>src/cli.rs\<close>: the flags, the storage flags in
  pairs, the precedence of flags, file, key file and service configuration, and the two resolvers of the
  read-only commands.  Parsing of the arguments themselves is the clap crate; durations arrive parsed.
\<close>

section \<open>Flags\<close>

record common_args =
  ca_config :: "string option"
  ca_data_dir :: "string option"

record config_args =
  ag_storage_location :: "string list"
  ag_storage_limit :: "string list"
  ag_storage :: "string option"
  ag_port :: "nat option"
  ag_rate_limit :: "f64 option"
  ag_api_key :: "string option"
  ag_aggressiveness :: "f64 option"
  ag_min_seed_margin :: "int option"
  ag_scan_interval :: "duration option"
  ag_moderation_delay :: "duration option"
  ag_stall_eviction_timeout :: "duration option"
  ag_vanished_eviction_timeout :: "duration option"
  ag_quarantine_check_interval :: "duration option"
  ag_broken_piece_discard_bytes :: "string option"
  ag_broken_piece_min_windows :: "nat option"
  ag_quarantine_cooldown :: "duration option"
  ag_quarantine_max_retries :: "nat option"
  ag_keyword_blocklist :: "string option"
  ag_preserve_deleted_torrents :: "bool option"
  ag_catalog_collapse_percent :: "nat option"
  ag_max_ram :: "string option"
  ag_upload_rate_limit :: "string option"
  ag_download_rate_limit :: "string option"
  ag_cfg_data_dir :: "string option"
  ag_stats_interval :: "duration option"
  ag_debug :: "bool option"
  ag_log_file :: "string option"

record census_args =
  na_common :: common_args
  na_probe_timeout :: "duration option"
  na_api_key :: "string option"
  na_rate_limit :: "f64 option"

datatype cli_error =
    BadSize string size_error | BadFlag string config_error
  | UnpairedLocation string | LimitRequired | StorageWithPairs | UnpairedLimits
  | LoadFailed config_error | ServiceConfigUnusable config_error | LegacyInstall config_error
  | StorageFlagsWithConfig string | NothingConfigured | Invalid config_error

definition storage_flags_set :: "config_args \<Rightarrow> bool" where
  "storage_flags_set a \<longleftrightarrow> ag_storage_location a \<noteq> [] \<or> ag_storage_limit a \<noteq> [] \<or> ag_storage a \<noteq> None"

definition any_set :: "config_args \<Rightarrow> bool" where
  "any_set a \<longleftrightarrow> ag_port a \<noteq> None \<or> ag_cfg_data_dir a \<noteq> None \<or> ag_aggressiveness a \<noteq> None \<or>
     ag_min_seed_margin a \<noteq> None \<or> ag_scan_interval a \<noteq> None \<or> ag_moderation_delay a \<noteq> None \<or>
     ag_rate_limit a \<noteq> None \<or> ag_stall_eviction_timeout a \<noteq> None \<or> ag_vanished_eviction_timeout a \<noteq> None \<or>
     ag_quarantine_check_interval a \<noteq> None \<or> ag_broken_piece_discard_bytes a \<noteq> None \<or>
     ag_broken_piece_min_windows a \<noteq> None \<or> ag_quarantine_cooldown a \<noteq> None \<or> ag_quarantine_max_retries a \<noteq> None \<or>
     ag_keyword_blocklist a \<noteq> None \<or> ag_preserve_deleted_torrents a \<noteq> None \<or> ag_catalog_collapse_percent a \<noteq> None \<or>
     ag_max_ram a \<noteq> None \<or> ag_api_key a \<noteq> None \<or> ag_upload_rate_limit a \<noteq> None \<or> ag_download_rate_limit a \<noteq> None \<or>
     ag_stats_interval a \<noteq> None \<or> ag_debug a \<noteq> None \<or> ag_log_file a \<noteq> None"

definition split_keywords :: "string \<Rightarrow> string list" where
  "split_keywords raw = filter (\<lambda>p. p \<noteq> []) (map trim (split_on CHR '','' raw))"

text \<open>\<open>if let Some(v) = flag { .. }\<close>, for a plain value, a size and a size with the bandwidth floor.\<close>

definition set_flag :: "'v option \<Rightarrow> ('v \<Rightarrow> config \<Rightarrow> config) \<Rightarrow> config \<Rightarrow> config" where
  "set_flag v upd cfg = (case v of Some x \<Rightarrow> upd x cfg | None \<Rightarrow> cfg)"

definition set_size :: "string \<Rightarrow> string option \<Rightarrow> (nat \<Rightarrow> config \<Rightarrow> config) \<Rightarrow> config \<Rightarrow> cli_error + config" where
  "set_size flag v upd cfg = (case v of
      None \<Rightarrow> Inr cfg
    | Some s \<Rightarrow> (case parse_byte_size s of Inl e \<Rightarrow> Inl (BadSize flag e) | Inr b \<Rightarrow> Inr (upd b cfg)))"

definition set_limit :: "string \<Rightarrow> string option \<Rightarrow> (nat \<Rightarrow> config \<Rightarrow> config) \<Rightarrow> config \<Rightarrow> cli_error + config" where
  "set_limit flag v upd cfg = (case v of
      None \<Rightarrow> Inr cfg
    | Some s \<Rightarrow> (case parse_byte_size s of
          Inl e \<Rightarrow> Inl (BadSize flag e)
        | Inr b \<Rightarrow> (case check_bandwidth_limit flag b of Inl e \<Rightarrow> Inl (BadFlag flag e) | Inr _ \<Rightarrow> Inr (upd b cfg))))"

definition on_scan :: "(scan_config \<Rightarrow> scan_config) \<Rightarrow> config \<Rightarrow> config" where
  "on_scan f cfg = cfg\<lparr>cfg_scan := f (cfg_scan cfg)\<rparr>"

definition try_then :: "'e + 'a \<Rightarrow> ('a \<Rightarrow> 'e + 'b) \<Rightarrow> 'e + 'b" where
  "try_then r f = (case r of Inl e \<Rightarrow> Inl e | Inr x \<Rightarrow> f x)"

definition apply_to :: "config_args \<Rightarrow> config \<Rightarrow> cli_error + config" where
  "apply_to a cfg =
    (let cfg = set_flag (ag_port a) (\<lambda>v c. c\<lparr>cfg_port := v\<rparr>) cfg;
         cfg = set_flag (ag_cfg_data_dir a) (\<lambda>v c. c\<lparr>cfg_data_dir := v\<rparr>) cfg;
         cfg = set_flag (ag_aggressiveness a) (\<lambda>v c. c\<lparr>cfg_aggressiveness := v\<rparr>) cfg;
         cfg = set_flag (ag_min_seed_margin a) (\<lambda>v. on_scan (\<lambda>s. s\<lparr>sc_min_seed_margin := v\<rparr>)) cfg;
         cfg = set_flag (ag_scan_interval a) (\<lambda>v. on_scan (\<lambda>s. s\<lparr>sc_interval := v\<rparr>)) cfg;
         cfg = set_flag (ag_moderation_delay a) (\<lambda>v. on_scan (\<lambda>s. s\<lparr>sc_moderation_delay := v\<rparr>)) cfg;
         cfg = set_flag (ag_rate_limit a) (\<lambda>v. on_scan (\<lambda>s. s\<lparr>sc_rate_limit_per_second := v\<rparr>)) cfg;
         cfg = set_flag (ag_stall_eviction_timeout a) (\<lambda>v. on_scan (\<lambda>s. s\<lparr>sc_stall_eviction_timeout := v\<rparr>)) cfg;
         cfg = set_flag (ag_vanished_eviction_timeout a) (\<lambda>v. on_scan (\<lambda>s. s\<lparr>sc_vanished_eviction_timeout := v\<rparr>)) cfg;
         cfg = set_flag (ag_quarantine_check_interval a) (\<lambda>v. on_scan (\<lambda>s. s\<lparr>sc_quarantine_check_interval := v\<rparr>)) cfg
     in try_then (set_size ''--broken-piece-discard-bytes'' (ag_broken_piece_discard_bytes a)
                    (\<lambda>b. on_scan (\<lambda>s. s\<lparr>sc_broken_piece_discard_bytes := b\<rparr>)) cfg) (\<lambda>cfg.
     let cfg = set_flag (ag_broken_piece_min_windows a) (\<lambda>v. on_scan (\<lambda>s. s\<lparr>sc_broken_piece_min_windows := v\<rparr>)) cfg;
         cfg = set_flag (ag_quarantine_cooldown a) (\<lambda>v. on_scan (\<lambda>s. s\<lparr>sc_quarantine_cooldown := v\<rparr>)) cfg;
         cfg = set_flag (ag_quarantine_max_retries a) (\<lambda>v. on_scan (\<lambda>s. s\<lparr>sc_quarantine_max_retries := v\<rparr>)) cfg;
         cfg = set_flag (ag_keyword_blocklist a) (\<lambda>v c. c\<lparr>cfg_keyword_blocklist := split_keywords v\<rparr>) cfg;
         cfg = set_flag (ag_preserve_deleted_torrents a) (\<lambda>v c. c\<lparr>cfg_preserve_deleted_torrents := v\<rparr>) cfg;
         cfg = set_flag (ag_catalog_collapse_percent a) (\<lambda>v c. c\<lparr>cfg_catalog_collapse_percent := v\<rparr>) cfg
     in try_then (set_limit ''--max-ram'' (ag_max_ram a) (\<lambda>b c. c\<lparr>cfg_max_ram := b\<rparr>) cfg) (\<lambda>cfg.
     let cfg = set_flag (ag_api_key a) (\<lambda>v c. c\<lparr>cfg_api_key := v\<rparr>) cfg
     in try_then (set_limit ''--upload-rate-limit'' (ag_upload_rate_limit a) (\<lambda>b c. c\<lparr>cfg_upload_rate_limit := b\<rparr>) cfg) (\<lambda>cfg.
     try_then (set_limit ''--download-rate-limit'' (ag_download_rate_limit a) (\<lambda>b c. c\<lparr>cfg_download_rate_limit := b\<rparr>) cfg) (\<lambda>cfg.
     let cfg = set_flag (ag_stats_interval a) (\<lambda>v c. c\<lparr>cfg_stats_interval := v\<rparr>) cfg;
         cfg = set_flag (ag_debug a) (\<lambda>v c. c\<lparr>cfg_debug := v\<rparr>) cfg;
         cfg = set_flag (ag_log_file a) (\<lambda>v c. c\<lparr>cfg_log_file := Some v\<rparr>) cfg
     in Inr cfg)))))"

section \<open>Storage flags\<close>

definition make_location :: "string \<Rightarrow> string \<Rightarrow> cli_error + storage_location" where
  "make_location path raw = (case storage_limit_parse raw of
      Inl e \<Rightarrow> Inl (BadSize raw e) | Inr l \<Rightarrow> Inr \<lparr>sl_path = path, sl_limit = l\<rparr>)"

text \<open>The loop over the locations, with the iterator over the limits it leaves behind.\<close>

fun pair_locations :: "string list \<Rightarrow> string list \<Rightarrow> cli_error + storage_location list \<times> string list" where
  "pair_locations [] limits = Inr ([], limits)"
| "pair_locations (path # paths) [] = Inl (UnpairedLocation path)"
| "pair_locations (path # paths) (raw # limits) =
     try_then (make_location path raw) (\<lambda>loc.
     try_then (pair_locations paths limits) (\<lambda>(locs, leftover). Inr (loc # locs, leftover)))"

definition storage_from_flags :: "string option \<Rightarrow> config_args \<Rightarrow> cli_error + storage_location list" where
  "storage_from_flags home a =
     try_then (pair_locations (ag_storage_location a) (ag_storage_limit a)) (\<lambda>(locs, leftover).
       case ag_storage a of
         Some path \<Rightarrow>
           (case leftover of
              [single] \<Rightarrow> try_then (make_location path single) (\<lambda>loc. Inr (locs @ [loc]))
            | [] \<Rightarrow> Inl LimitRequired
            | _ \<Rightarrow> Inl StorageWithPairs)
       | None \<Rightarrow>
           (case leftover of
              [single] \<Rightarrow> try_then (make_location (default_storage_location home) single) (\<lambda>loc. Inr (locs @ [loc]))
            | [] \<Rightarrow> Inr locs
            | _ \<Rightarrow> Inl UnpairedLimits))"

section \<open>Resolution\<close>

text \<open>What the resolvers read: files by path, key files by data directory, the home directory.\<close>

definition CONFIG_PATH :: string where "CONFIG_PATH = ''/etc/keep-at/config.yaml''"

record host =
  ho_home :: "string option"
  ho_canonicalize :: "string \<Rightarrow> string option"
  ho_key_file :: "string \<Rightarrow> string option"
  ho_read :: "string \<Rightarrow> file_read"
  ho_exists :: "string \<Rightarrow> bool"
  ho_starter_ok :: bool
  ho_pointer :: "string option"

definition service_config_if_present :: "host \<Rightarrow> string option" where
  "service_config_if_present h = (if ho_exists h CONFIG_PATH then Some CONFIG_PATH else None)"

definition config_load :: "host \<Rightarrow> string \<Rightarrow> config_error + config" where
  "config_load h p = fst (load_inner (ho_canonicalize h) (ho_key_file h) (ho_starter_ok h) (ho_read h p) True)"

definition load_readonly :: "host \<Rightarrow> string \<Rightarrow> config_error + config" where
  "load_readonly h p = fst (load_inner (ho_canonicalize h) (ho_key_file h) (ho_starter_ok h) (ho_read h p) False)"

definition chosen_config :: "host \<Rightarrow> common_args \<Rightarrow> config_args \<Rightarrow> string option \<times> bool" where
  "chosen_config h common a =
     (if ca_config common = None \<and> \<not> storage_flags_set a \<and> \<not> any_set a
      then (case service_config_if_present h of Some p \<Rightarrow> (Some p, True) | None \<Rightarrow> (None, False))
      else (ca_config common, False))"

definition base_config :: "host \<Rightarrow> string option \<times> bool \<Rightarrow> cli_error + config" where
  "base_config h = (\<lambda>(path, using_service_config). case path of
      None \<Rightarrow> Inr (config_default (ho_home h))
    | Some p \<Rightarrow> (case config_load h p of
          Inl e \<Rightarrow> Inl (if using_service_config then ServiceConfigUnusable e else LoadFailed e)
        | Inr cfg \<Rightarrow> Inr cfg))"

definition resolve_storage :: "host \<Rightarrow> config_args \<Rightarrow> string option \<Rightarrow> config \<Rightarrow> cli_error + config" where
  "resolve_storage h a path cfg =
     (if storage_flags_set a
      then (case path of
              Some p \<Rightarrow> Inl (StorageFlagsWithConfig p)
            | None \<Rightarrow> try_then (storage_from_flags (ho_home h) a) (\<lambda>locs.
                if locs = [] then Inl LimitRequired else Inr (cfg\<lparr>cfg_storage := locs\<rparr>)))
      else if path = None \<and> cfg_storage cfg = [] then Inl NothingConfigured
      else Inr cfg)"

definition resolve :: "host \<Rightarrow> common_args \<Rightarrow> config_args \<Rightarrow> cli_error + config" where
  "resolve h common a =
     (let choice = chosen_config h common a
      in try_then (base_config h choice) (\<lambda>cfg.
         try_then (apply_to a cfg) (\<lambda>cfg.
         let cfg = set_flag (ca_data_dir common) (\<lambda>d c. c\<lparr>cfg_data_dir := d\<rparr>) cfg;
             cfg = merge_key_file (ho_key_file h (cfg_data_dir cfg)) cfg
         in try_then (resolve_storage h a (fst choice) cfg) (\<lambda>cfg.
            case validate (ho_canonicalize h) cfg of Inl e \<Rightarrow> Inl (Invalid e) | Inr _ \<Rightarrow> Inr cfg))))"

definition resolve_data_dir :: "host \<Rightarrow> common_args \<Rightarrow> cli_error + string" where
  "resolve_data_dir h args =
     (case ca_data_dir args of
        Some d \<Rightarrow> Inr d
      | None \<Rightarrow>
     case ca_config args of
        Some p \<Rightarrow> (case load_readonly h p of Inl e \<Rightarrow> Inl (LoadFailed e) | Inr cfg \<Rightarrow> Inr (cfg_data_dir cfg))
      | None \<Rightarrow>
     case ho_pointer h of
        Some d \<Rightarrow> Inr d
      | None \<Rightarrow>
     case service_config_if_present h of
        Some p \<Rightarrow> (case load_readonly h p of Inl e \<Rightarrow> Inl (LegacyInstall e) | Inr cfg \<Rightarrow> Inr (cfg_data_dir cfg))
      | None \<Rightarrow> Inr (cfg_data_dir (config_default (ho_home h))))"

definition resolve_census :: "host \<Rightarrow> census_args \<Rightarrow> cli_error + config" where
  "resolve_census h args =
     (let path = (case ca_config (na_common args) of None \<Rightarrow> service_config_if_present h | p \<Rightarrow> p)
      in try_then (case path of
             None \<Rightarrow> Inr (config_default (ho_home h))
           | Some p \<Rightarrow> (case load_readonly h p of Inl e \<Rightarrow> Inl (LoadFailed e) | Inr cfg \<Rightarrow> Inr cfg)) (\<lambda>cfg.
         let cfg = set_flag (ca_data_dir (na_common args)) (\<lambda>d c. c\<lparr>cfg_data_dir := d\<rparr>) cfg;
             cfg = set_flag (na_api_key args) (\<lambda>k c. c\<lparr>cfg_api_key := k\<rparr>) cfg
         in case na_rate_limit args of
              None \<Rightarrow> Inr cfg
            | Some r \<Rightarrow> (case check_rate_limit r of
                  Inl e \<Rightarrow> Inl (Invalid e) | Inr _ \<Rightarrow> Inr (on_scan (\<lambda>s. s\<lparr>sc_rate_limit_per_second := r\<rparr>) cfg))))"

section \<open>The reference overlay\<close>

text \<open>What the flags mean, without an order: each names one setting, sizes as the parser reads them.\<close>

definition pick :: "'v option \<Rightarrow> 'v \<Rightarrow> 'v" where
  "pick v old = (case v of Some x \<Rightarrow> x | None \<Rightarrow> old)"

definition size_given :: "string option \<Rightarrow> nat option \<Rightarrow> bool" where
  "size_given v r \<longleftrightarrow> (case v of None \<Rightarrow> r = None | Some s \<Rightarrow> \<exists>b. parse_byte_size s = Inr b \<and> r = Some b)"

definition limit_given :: "string option \<Rightarrow> nat option \<Rightarrow> bool" where
  "limit_given v r \<longleftrightarrow> size_given v r \<and> (\<forall>b. r = Some b \<longrightarrow> b = 0 \<or> MIN_BANDWIDTH_LIMIT \<le> b)"

definition overlay :: "config_args \<Rightarrow> nat option \<Rightarrow> nat option \<Rightarrow> nat option \<Rightarrow> nat option \<Rightarrow> config \<Rightarrow> config" where
  "overlay a discard ram up down cfg =
    cfg\<lparr>cfg_port := pick (ag_port a) (cfg_port cfg),
     cfg_data_dir := pick (ag_cfg_data_dir a) (cfg_data_dir cfg),
     cfg_aggressiveness := pick (ag_aggressiveness a) (cfg_aggressiveness cfg),
     cfg_scan := (cfg_scan cfg)\<lparr>sc_min_seed_margin := pick (ag_min_seed_margin a) (sc_min_seed_margin (cfg_scan cfg)),
       sc_interval := pick (ag_scan_interval a) (sc_interval (cfg_scan cfg)),
       sc_moderation_delay := pick (ag_moderation_delay a) (sc_moderation_delay (cfg_scan cfg)),
       sc_rate_limit_per_second := pick (ag_rate_limit a) (sc_rate_limit_per_second (cfg_scan cfg)),
       sc_stall_eviction_timeout := pick (ag_stall_eviction_timeout a) (sc_stall_eviction_timeout (cfg_scan cfg)),
       sc_vanished_eviction_timeout := pick (ag_vanished_eviction_timeout a) (sc_vanished_eviction_timeout (cfg_scan cfg)),
       sc_quarantine_check_interval := pick (ag_quarantine_check_interval a) (sc_quarantine_check_interval (cfg_scan cfg)),
       sc_broken_piece_discard_bytes := pick discard (sc_broken_piece_discard_bytes (cfg_scan cfg)),
       sc_broken_piece_min_windows := pick (ag_broken_piece_min_windows a) (sc_broken_piece_min_windows (cfg_scan cfg)),
       sc_quarantine_cooldown := pick (ag_quarantine_cooldown a) (sc_quarantine_cooldown (cfg_scan cfg)),
       sc_quarantine_max_retries := pick (ag_quarantine_max_retries a) (sc_quarantine_max_retries (cfg_scan cfg))\<rparr>,
     cfg_keyword_blocklist := pick (map_option split_keywords (ag_keyword_blocklist a)) (cfg_keyword_blocklist cfg),
     cfg_preserve_deleted_torrents := pick (ag_preserve_deleted_torrents a) (cfg_preserve_deleted_torrents cfg),
     cfg_catalog_collapse_percent := pick (ag_catalog_collapse_percent a) (cfg_catalog_collapse_percent cfg),
     cfg_max_ram := pick ram (cfg_max_ram cfg),
     cfg_api_key := pick (ag_api_key a) (cfg_api_key cfg),
     cfg_upload_rate_limit := pick up (cfg_upload_rate_limit cfg),
     cfg_download_rate_limit := pick down (cfg_download_rate_limit cfg),
     cfg_stats_interval := pick (ag_stats_interval a) (cfg_stats_interval cfg),
     cfg_debug := pick (ag_debug a) (cfg_debug cfg),
     cfg_log_file := pick (map_option Some (ag_log_file a)) (cfg_log_file cfg)\<rparr>"

section \<open>Lemmas\<close>

lemma try_then_ok [simp]: "try_then r f = Inr y \<longleftrightarrow> (\<exists>x. r = Inr x \<and> f x = Inr y)"
  by (cases r) (auto simp: try_then_def)

lemma pick_simps [simp]: "pick None old = old" "pick (Some x) old = x"
  by (simp_all add: pick_def)

lemma set_flag_config:
  "set_flag v (\<lambda>v c. c\<lparr>cfg_port := v\<rparr>) c = c\<lparr>cfg_port := pick v (cfg_port c)\<rparr>"
  "set_flag k (\<lambda>v c. c\<lparr>cfg_data_dir := v\<rparr>) c = c\<lparr>cfg_data_dir := pick k (cfg_data_dir c)\<rparr>"
  "set_flag v' (\<lambda>v c. c\<lparr>cfg_aggressiveness := v\<rparr>) c = c\<lparr>cfg_aggressiveness := pick v' (cfg_aggressiveness c)\<rparr>"
  "set_flag k (\<lambda>v c. c\<lparr>cfg_keyword_blocklist := split_keywords v\<rparr>) c =
     c\<lparr>cfg_keyword_blocklist := pick (map_option split_keywords k) (cfg_keyword_blocklist c)\<rparr>"
  "set_flag b (\<lambda>v c. c\<lparr>cfg_preserve_deleted_torrents := v\<rparr>) c = c\<lparr>cfg_preserve_deleted_torrents := pick b (cfg_preserve_deleted_torrents c)\<rparr>"
  "set_flag n (\<lambda>v c. c\<lparr>cfg_catalog_collapse_percent := v\<rparr>) c = c\<lparr>cfg_catalog_collapse_percent := pick n (cfg_catalog_collapse_percent c)\<rparr>"
  "set_flag k (\<lambda>v c. c\<lparr>cfg_api_key := v\<rparr>) c = c\<lparr>cfg_api_key := pick k (cfg_api_key c)\<rparr>"
  "set_flag d (\<lambda>v c. c\<lparr>cfg_stats_interval := v\<rparr>) c = c\<lparr>cfg_stats_interval := pick d (cfg_stats_interval c)\<rparr>"
  "set_flag b (\<lambda>v c. c\<lparr>cfg_debug := v\<rparr>) c = c\<lparr>cfg_debug := pick b (cfg_debug c)\<rparr>"
  "set_flag l (\<lambda>v c. c\<lparr>cfg_log_file := Some v\<rparr>) c = c\<lparr>cfg_log_file := pick (map_option Some l) (cfg_log_file c)\<rparr>"
  by (simp_all add: set_flag_def split: option.split)

lemma set_flag_scan: "set_flag v (\<lambda>v. on_scan (f v)) c = on_scan (\<lambda>s. case v of Some x \<Rightarrow> f x s | None \<Rightarrow> s) c"
  by (simp add: set_flag_def on_scan_def split: option.split)

lemma scan_cases:
  "(case d of Some x \<Rightarrow> s\<lparr>sc_min_seed_margin := x\<rparr> | None \<Rightarrow> s) = s\<lparr>sc_min_seed_margin := pick d (sc_min_seed_margin s)\<rparr>"
  "(case t of Some x \<Rightarrow> s\<lparr>sc_interval := x\<rparr> | None \<Rightarrow> s) = s\<lparr>sc_interval := pick t (sc_interval s)\<rparr>"
  "(case t of Some x \<Rightarrow> s\<lparr>sc_moderation_delay := x\<rparr> | None \<Rightarrow> s) = s\<lparr>sc_moderation_delay := pick t (sc_moderation_delay s)\<rparr>"
  "(case r of Some x \<Rightarrow> s\<lparr>sc_rate_limit_per_second := x\<rparr> | None \<Rightarrow> s) = s\<lparr>sc_rate_limit_per_second := pick r (sc_rate_limit_per_second s)\<rparr>"
  "(case t of Some x \<Rightarrow> s\<lparr>sc_stall_eviction_timeout := x\<rparr> | None \<Rightarrow> s) = s\<lparr>sc_stall_eviction_timeout := pick t (sc_stall_eviction_timeout s)\<rparr>"
  "(case t of Some x \<Rightarrow> s\<lparr>sc_vanished_eviction_timeout := x\<rparr> | None \<Rightarrow> s) = s\<lparr>sc_vanished_eviction_timeout := pick t (sc_vanished_eviction_timeout s)\<rparr>"
  "(case t of Some x \<Rightarrow> s\<lparr>sc_quarantine_check_interval := x\<rparr> | None \<Rightarrow> s) = s\<lparr>sc_quarantine_check_interval := pick t (sc_quarantine_check_interval s)\<rparr>"
  "(case n of Some x \<Rightarrow> s\<lparr>sc_broken_piece_min_windows := x\<rparr> | None \<Rightarrow> s) = s\<lparr>sc_broken_piece_min_windows := pick n (sc_broken_piece_min_windows s)\<rparr>"
  "(case t of Some x \<Rightarrow> s\<lparr>sc_quarantine_cooldown := x\<rparr> | None \<Rightarrow> s) = s\<lparr>sc_quarantine_cooldown := pick t (sc_quarantine_cooldown s)\<rparr>"
  "(case n of Some x \<Rightarrow> s\<lparr>sc_quarantine_max_retries := x\<rparr> | None \<Rightarrow> s) = s\<lparr>sc_quarantine_max_retries := pick n (sc_quarantine_max_retries s)\<rparr>"
  by (simp_all split: option.split)

lemma set_size_ok:
  "set_size fl v (\<lambda>b. on_scan (\<lambda>s. s\<lparr>sc_broken_piece_discard_bytes := b\<rparr>)) c = Inr c' \<longleftrightarrow>
     (\<exists>r. size_given v r \<and> c' = on_scan (\<lambda>s. s\<lparr>sc_broken_piece_discard_bytes := pick r (sc_broken_piece_discard_bytes s)\<rparr>) c)"
  by (auto simp: set_size_def size_given_def on_scan_def split: option.splits sum.splits)

lemma set_limit_ok:
  "set_limit fl v upd c = Inr c' \<longleftrightarrow> (\<exists>r. limit_given v r \<and> c' = (case r of None \<Rightarrow> c | Some b \<Rightarrow> upd b c))"
proof (cases v)
  case (Some s)
  show ?thesis
  proof (cases "parse_byte_size s")
    case (Inr b)
    show ?thesis
    proof (cases "check_bandwidth_limit fl b")
      case (Inl e)
      then have "\<not> (b = 0 \<or> MIN_BANDWIDTH_LIMIT \<le> b)" using check_bandwidth_limit_ok [of fl b] by auto
      then show ?thesis using Some Inr Inl by (simp add: set_limit_def limit_given_def size_given_def)
    next
      case r: (Inr u)
      then have "b = 0 \<or> MIN_BANDWIDTH_LIMIT \<le> b" using check_bandwidth_limit_ok [of fl b] by simp
      then show ?thesis using Some Inr r by (auto simp: set_limit_def limit_given_def size_given_def)
    qed
  qed (use Some in \<open>simp add: set_limit_def limit_given_def size_given_def\<close>)
qed (auto simp: set_limit_def limit_given_def size_given_def)

lemma limit_cases:
  "(case r of None \<Rightarrow> c | Some b \<Rightarrow> c\<lparr>cfg_max_ram := b\<rparr>) = c\<lparr>cfg_max_ram := pick r (cfg_max_ram c)\<rparr>"
  "(case r of None \<Rightarrow> c | Some b \<Rightarrow> c\<lparr>cfg_upload_rate_limit := b\<rparr>) = c\<lparr>cfg_upload_rate_limit := pick r (cfg_upload_rate_limit c)\<rparr>"
  "(case r of None \<Rightarrow> c | Some b \<Rightarrow> c\<lparr>cfg_download_rate_limit := b\<rparr>) = c\<lparr>cfg_download_rate_limit := pick r (cfg_download_rate_limit c)\<rparr>"
  by (simp_all split: option.split)

lemma apply_to_overlay:
  "apply_to a cfg = Inr cfg' \<longleftrightarrow>
     (\<exists>discard ram up down. size_given (ag_broken_piece_discard_bytes a) discard \<and> limit_given (ag_max_ram a) ram \<and>
        limit_given (ag_upload_rate_limit a) up \<and> limit_given (ag_download_rate_limit a) down \<and>
        cfg' = overlay a discard ram up down cfg)"
  unfolding apply_to_def Let_def try_then_ok set_flag_config set_flag_scan scan_cases set_size_ok set_limit_ok limit_cases
  by (auto simp: overlay_def on_scan_def) (intro exI conjI, (assumption | rule refl | simp)+)+

lemma overlay_idle: "\<not> any_set a \<Longrightarrow> overlay a None None None None cfg = cfg"
  by (cases cfg, cases "cfg_scan cfg") (simp add: overlay_def any_set_def)

lemma given_None [simp]: "size_given None r \<longleftrightarrow> r = None" "limit_given None r \<longleftrightarrow> r = None"
  by (auto simp: size_given_def limit_given_def)

lemma pair_locations_ok:
  "pair_locations paths limits = Inr (locs, leftover) \<longleftrightarrow>
     map sl_path locs = paths \<and> (\<exists>taken. limits = taken @ leftover \<and> list_all2 (\<lambda>loc raw. storage_limit_parse raw = Inr (sl_limit loc)) locs taken)"
proof (induction paths limits arbitrary: locs rule: pair_locations.induct)
  case (3 path paths raw limits)
  show ?case
  proof
    assume "pair_locations (path # paths) (raw # limits) = Inr (locs, leftover)"
    then obtain l ls where "storage_limit_parse raw = Inr l" "pair_locations paths limits = Inr (ls, leftover)"
      "locs = \<lparr>sl_path = path, sl_limit = l\<rparr> # ls"
      by (auto simp: make_location_def split: sum.splits)
    moreover from this(2) 3 obtain taken where "map sl_path ls = paths" "limits = taken @ leftover"
      "list_all2 (\<lambda>loc raw. storage_limit_parse raw = Inr (sl_limit loc)) ls taken"
      by blast
    ultimately show "map sl_path locs = path # paths \<and> (\<exists>taken. raw # limits = taken @ leftover \<and>
        list_all2 (\<lambda>loc raw. storage_limit_parse raw = Inr (sl_limit loc)) locs taken)"
      by (auto intro!: exI [of _ "raw # taken"])
  next
    assume a: "map sl_path locs = path # paths \<and> (\<exists>taken. raw # limits = taken @ leftover \<and>
        list_all2 (\<lambda>loc raw. storage_limit_parse raw = Inr (sl_limit loc)) locs taken)"
    then obtain loc ls where l: "locs = loc # ls" "sl_path loc = path" "map sl_path ls = paths" by auto
    with a obtain taken where t: "limits = taken @ leftover" "storage_limit_parse raw = Inr (sl_limit loc)"
      "list_all2 (\<lambda>loc raw. storage_limit_parse raw = Inr (sl_limit loc)) ls taken"
      by (auto simp: list_all2_Cons1)
    have "pair_locations paths limits = Inr (ls, leftover)" using 3 l t by blast
    moreover have "make_location path raw = Inr loc" using l t by (cases loc) (simp add: make_location_def)
    ultimately show "pair_locations (path # paths) (raw # limits) = Inr (locs, leftover)" using l by simp
  qed
qed auto

lemma make_location_ok: "make_location p raw = Inr loc \<longleftrightarrow> sl_path loc = p \<and> storage_limit_parse raw = Inr (sl_limit loc)"
  by (cases loc) (auto simp: make_location_def split: sum.splits)

lemma check_rate_limit_unit: "check_rate_limit r = Inr u \<longleftrightarrow> f_le MIN_RATE_LIMIT_PER_SECOND r"
  using check_rate_limit_ok [of r] by (cases u) simp

lemma validated_ok:
  "(case validate c cfg of Inl e \<Rightarrow> Inl (Invalid e) | Inr _ \<Rightarrow> Inr cfg) = Inr cfg' \<longleftrightarrow> validate c cfg = Inr () \<and> cfg' = cfg"
  by (cases "validate c cfg") auto

lemma resolve_precedence_core:
  assumes "resolve h common a = Inr cfg"
  shows "valid_config (ho_canonicalize h) cfg \<and>
    (\<exists>base. base_config h (chosen_config h common a) = Inr base \<and>
      cfg_data_dir cfg = pick (ca_data_dir common) (pick (ag_cfg_data_dir a) (cfg_data_dir base)) \<and>
      cfg_api_key cfg = (let k = pick (ag_api_key a) (cfg_api_key base)
        in if k \<noteq> [] then k else case ho_key_file h (cfg_data_dir cfg) of Some s \<Rightarrow> trim s | None \<Rightarrow> []) \<and>
      (if storage_flags_set a then ca_config common = None \<and> storage_from_flags (ho_home h) a = Inr (cfg_storage cfg)
       else cfg_storage cfg = cfg_storage base)) \<and>
    (snd (chosen_config h common a) \<longrightarrow> ca_config common = None \<and> \<not> storage_flags_set a \<and> \<not> any_set a)"
proof -
  obtain base c1 where b: "base_config h (chosen_config h common a) = Inr base" and c1: "apply_to a base = Inr c1"
    using assms by (auto simp: resolve_def Let_def)
  define c2 where "c2 = set_flag (ca_data_dir common) (\<lambda>d c. c\<lparr>cfg_data_dir := d\<rparr>) c1"
  define c3 where "c3 = merge_key_file (ho_key_file h (cfg_data_dir c2)) c2"
  have r: "resolve_storage h a (fst (chosen_config h common a)) c3 = Inr cfg" and v: "validate (ho_canonicalize h) cfg = Inr ()"
    using assms b c1 by (auto simp: resolve_def Let_def c2_def c3_def validated_ok)
  obtain d m u dn where o: "c1 = overlay a d m u dn base" using c1 apply_to_overlay by blast
  have cfg: "cfg = cfg\<lparr>cfg_storage := cfg_storage cfg\<rparr>" "cfg_data_dir cfg = cfg_data_dir c3" "cfg_api_key cfg = cfg_api_key c3"
    using r by (auto simp: resolve_storage_def split: if_splits option.splits)
  have dd: "cfg_data_dir c3 = cfg_data_dir c2" by (simp add: c3_def merge_key_file_def Let_def split: option.split)
  have c2: "cfg_data_dir c2 = pick (ca_data_dir common) (pick (ag_cfg_data_dir a) (cfg_data_dir base))"
    "cfg_api_key c2 = pick (ag_api_key a) (cfg_api_key base)" "cfg_storage c2 = cfg_storage base"
    by (simp_all add: c2_def set_flag_config o overlay_def)
  have k: "cfg_api_key c3 = (if cfg_api_key c2 \<noteq> [] then cfg_api_key c2
      else case ho_key_file h (cfg_data_dir c2) of Some s \<Rightarrow> trim s | None \<Rightarrow> [])" "cfg_storage c3 = cfg_storage c2"
    by (auto simp: c3_def merge_key_file_def Let_def split: option.split)
  have st: "if storage_flags_set a then ca_config common = None \<and> storage_from_flags (ho_home h) a = Inr (cfg_storage cfg)
       else cfg_storage cfg = cfg_storage base"
    using r k(2) c2(3) by (auto simp: resolve_storage_def chosen_config_def split: if_splits option.splits)
  have s: "snd (chosen_config h common a) \<longrightarrow> ca_config common = None \<and> \<not> storage_flags_set a \<and> \<not> any_set a"
    by (auto simp: chosen_config_def split: if_splits)
  show ?thesis using b v cfg dd c2 k st s by (auto simp: validate_iff Let_def)
qed

lemma apply_to_is_overlay_core:
  "(apply_to a cfg = Inr cfg' \<longleftrightarrow>
     (\<exists>discard ram up down. size_given (ag_broken_piece_discard_bytes a) discard \<and> limit_given (ag_max_ram a) ram \<and>
        limit_given (ag_upload_rate_limit a) up \<and> limit_given (ag_download_rate_limit a) down \<and>
        cfg' = overlay a discard ram up down cfg)) \<and>
   (any_set a \<or> apply_to a cfg = Inr cfg)"
proof (rule conjI [OF apply_to_overlay], rule disjCI)
  assume n: "apply_to a cfg \<noteq> Inr cfg"
  show "any_set a"
  proof (rule ccontr)
    assume i: "\<not> any_set a"
    then have "ag_broken_piece_discard_bytes a = None" "ag_max_ram a = None" "ag_upload_rate_limit a = None"
      "ag_download_rate_limit a = None" by (auto simp: any_set_def)
    then have "apply_to a cfg = Inr cfg" unfolding apply_to_overlay using overlay_idle [OF i] by simp
    with n show False ..
  qed
qed

section \<open>Properties\<close>

text \<open>The flags are an overlay: applying them succeeds exactly when the sizes given parse and the bandwidth
  and memory limits reach their floor, and then every setting is the flag's where one is given and the old one
  otherwise, whatever the order in which the code goes through them; when none is set, nothing changes.\<close>

theorem apply_to_is_overlay:
  "(apply_to a cfg = Inr cfg' \<longleftrightarrow>
     (\<exists>discard ram up down. size_given (ag_broken_piece_discard_bytes a) discard \<and> limit_given (ag_max_ram a) ram \<and>
        limit_given (ag_upload_rate_limit a) up \<and> limit_given (ag_download_rate_limit a) down \<and>
        cfg' = overlay a discard ram up down cfg)) \<and>
   (any_set a \<or> apply_to a cfg = Inr cfg)"
  by (rule apply_to_is_overlay_core)

text \<open>Storage flags pair up: they are accepted exactly when there are as many limits as places, where the
  places are the locations in order, then the shorthand, or the default location when only a limit is left over;
  each place then has its own limit, in order.\<close>

theorem storage_flags_pair:
  "storage_from_flags home a = Inr locs \<longleftrightarrow>
     list_all2 (\<lambda>loc raw. storage_limit_parse raw = Inr (sl_limit loc)) locs (ag_storage_limit a) \<and>
     map sl_path locs = ag_storage_location a @
       (case ag_storage a of
          Some p \<Rightarrow> [p]
        | None \<Rightarrow> if length (ag_storage_limit a) = Suc (length (ag_storage_location a)) then [default_storage_location home] else [])"
  (is "?l \<longleftrightarrow> ?r")
proof
  assume l: ?l
  then obtain ls leftover where p: "pair_locations (ag_storage_location a) (ag_storage_limit a) = Inr (ls, leftover)"
    by (auto simp: storage_from_flags_def)
  then obtain taken where t: "map sl_path ls = ag_storage_location a" "ag_storage_limit a = taken @ leftover"
    "list_all2 (\<lambda>loc raw. storage_limit_parse raw = Inr (sl_limit loc)) ls taken"
    by (auto simp: pair_locations_ok)
  have n: "length taken = length (ag_storage_location a)" using t(1,3) by (metis length_map list_all2_lengthD)
  show ?r
  proof (cases leftover rule: remdups_adj.cases)
    case 1
    then show ?thesis using l p t n by (auto simp: storage_from_flags_def split: option.splits)
  next
    case (2 raw)
    then obtain q loc where "make_location q raw = Inr loc" "locs = ls @ [loc]"
      "q = (case ag_storage a of Some p \<Rightarrow> p | None \<Rightarrow> default_storage_location home)"
      using l p by (auto simp: storage_from_flags_def split: option.splits)
    then show ?thesis using t n 2 by (auto simp: make_location_ok intro!: list_all2_appendI split: option.split)
  next
    case 3
    then show ?thesis using l p by (auto simp: storage_from_flags_def split: option.splits)
  qed
next
  assume r: ?r
  define q where "q = (case ag_storage a of Some p \<Rightarrow> p | None \<Rightarrow> default_storage_location home)"
  show ?l
  proof (cases "ag_storage a = None \<and> length (ag_storage_limit a) \<noteq> Suc (length (ag_storage_location a))")
    case True
    then have "pair_locations (ag_storage_location a) (ag_storage_limit a) = Inr (locs, [])"
      using r by (auto simp: pair_locations_ok)
    then show ?thesis using True by (simp add: storage_from_flags_def)
  next
    case False
    then have "map sl_path locs = ag_storage_location a @ [q]" using r by (auto simp: q_def split: option.splits if_splits)
    then obtain ls loc where ls: "locs = ls @ [loc]" "map sl_path ls = ag_storage_location a" "sl_path loc = q"
      by (auto simp: map_eq_append_conv)
    with r obtain taken raw where t: "ag_storage_limit a = taken @ [raw]" "storage_limit_parse raw = Inr (sl_limit loc)"
      "list_all2 (\<lambda>loc raw. storage_limit_parse raw = Inr (sl_limit loc)) ls taken"
      by (auto simp: list_all2_append1 list_all2_Cons1)
    have "pair_locations (ag_storage_location a) (ag_storage_limit a) = Inr (ls, [raw])"
      using ls t by (auto simp: pair_locations_ok)
    moreover have "make_location q raw = Inr loc" using ls t by (simp add: make_location_ok)
    ultimately show ?thesis using ls(1) by (auto simp: storage_from_flags_def q_def split: option.split)
  qed
qed


text \<open>The commands that only look agree with the daemon: told the same directory or the same file, they
  resolve to the data directory the daemon resolved to.\<close>

theorem readers_find_daemon:
  assumes "resolve h common a = Inr cfg" "ca_data_dir common \<noteq> None \<or> ca_config common \<noteq> None" "ag_cfg_data_dir a = None"
  shows "resolve_data_dir h common = Inr (cfg_data_dir cfg)"
proof -
  from resolve_precedence_core [OF assms(1)] obtain base where b: "base_config h (chosen_config h common a) = Inr base"
    and d: "cfg_data_dir cfg = pick (ca_data_dir common) (pick (ag_cfg_data_dir a) (cfg_data_dir base))" by blast
  show ?thesis
  proof (cases "ca_data_dir common")
    case None
    then obtain p where p: "ca_config common = Some p" using assms(2) by auto
    then have "config_load h p = Inr base" using b by (auto simp: base_config_def chosen_config_def split: sum.splits)
    then have "load_readonly h p = Inr base"
      by (auto simp: config_load_def load_readonly_def load_inner_def split: file_read.splits if_splits option.splits)
    then show ?thesis using None p d assms(3) by (simp add: resolve_data_dir_def)
  qed (use d in \<open>simp add: resolve_data_dir_def\<close>)
qed

text \<open>Keywords survive the command line: a list of trimmed non-empty keywords without commas is what the
  flag with the joined list gives back.\<close>

theorem keywords_round_trip:
  assumes "list_all (\<lambda>p. p \<noteq> [] \<and> trim p = p \<and> CHR '','' \<notin> set p) ps"
  shows "split_keywords (join [CHR '',''] ps) = ps"
proof (cases "ps = []")
  case True
  then show ?thesis by (simp add: split_keywords_def trim_def)
next
  case False
  then have "split_on CHR '','' (join [CHR '',''] ps) = ps" using assms by (intro split_on_join) (auto simp: list_all_iff)
  moreover have "map trim ps = ps" using assms by (auto simp: list_all_iff intro: map_idI)
  ultimately show ?thesis using assms by (simp add: split_keywords_def list_all_iff)
qed

text \<open>The census runs at an admissible request rate, whether it comes from a flag, a file or the default.\<close>

theorem census_rate_admissible:
  assumes "resolve_census h args = Inr cfg"
  shows "f_le MIN_RATE_LIMIT_PER_SECOND (sc_rate_limit_per_second (cfg_scan cfg))"
proof -
  have v: "f_le MIN_RATE_LIMIT_PER_SECOND (sc_rate_limit_per_second (cfg_scan c))" if "load_readonly h p = Inr c" for p c
    using that by (auto simp: load_readonly_def load_inner_iff valid_config_def)
  have d: "f_le MIN_RATE_LIMIT_PER_SECOND (sc_rate_limit_per_second (cfg_scan (config_default home)))" for home
    using sample_config_valid by (simp add: valid_config_def sample_config_def config_default_def)
  show ?thesis
    using assms v d
    by (auto simp: resolve_census_def Let_def on_scan_def set_flag_config check_rate_limit_ok check_rate_limit_unit
        split: option.splits sum.splits)
qed

section \<open>Examples\<close>

definition no_flags :: config_args where
  "no_flags = \<lparr>ag_storage_location = [], ag_storage_limit = [], ag_storage = None,
     ag_port = None, ag_rate_limit = None, ag_api_key = None,
     ag_aggressiveness = None, ag_min_seed_margin = None, ag_scan_interval = None,
     ag_moderation_delay = None, ag_stall_eviction_timeout = None, ag_vanished_eviction_timeout = None,
     ag_quarantine_check_interval = None, ag_broken_piece_discard_bytes = None, ag_broken_piece_min_windows = None,
     ag_quarantine_cooldown = None, ag_quarantine_max_retries = None, ag_keyword_blocklist = None,
     ag_preserve_deleted_torrents = None, ag_catalog_collapse_percent = None, ag_max_ram = None,
     ag_upload_rate_limit = None, ag_download_rate_limit = None, ag_cfg_data_dir = None,
     ag_stats_interval = None, ag_debug = None, ag_log_file = None\<rparr>"

definition op_flags :: config_args where
  "op_flags = no_flags\<lparr>ag_storage := Some ''/data'', ag_storage_limit := [''max'']\<rparr>"

definition op_host :: host where
  "op_host = \<lparr>ho_home = Some ''/home/op'', ho_canonicalize = (\<lambda>_. None),
     ho_key_file = (\<lambda>d. if d = ''/d'' then Some ''k1'' else None), ho_read = (\<lambda>_. Missing), ho_exists = (\<lambda>_. False),
     ho_starter_ok = True, ho_pointer = None\<rparr>"

lemma op_resolves:
  "resolve op_host \<lparr>ca_config = None, ca_data_dir = Some ''/d''\<rparr> op_flags = Inr (sample_config\<lparr>cfg_data_dir := ''/d''\<rparr>)"
proof -
  let ?cfg = "sample_config\<lparr>cfg_data_dir := ''/d''\<rparr>"
  have "valid_config (\<lambda>_. None) ?cfg" using sample_config_valid by (simp add: valid_config_def duration_knobs_def)
  then have v: "validate (\<lambda>_. None) ?cfg = Inr ()" by (simp add: validate_iff)
  have "apply_to op_flags (config_default (Some ''/home/op'')) = Inr (config_default (Some ''/home/op''))"
    using apply_to_is_overlay_core [of op_flags] by (simp add: any_set_def op_flags_def no_flags_def)
  moreover have "trim ''k1'' = ''k1''" "trim ''max'' = ''max''" "eq_ignore_ascii_case ''max'' ''max''" by code_simp+
  ultimately show ?thesis
    using v
    by (simp add: resolve_def chosen_config_def base_config_def storage_flags_set_def resolve_storage_def try_then_def
        storage_from_flags_def make_location_def storage_limit_parse_def set_flag_config merge_key_file_def
        op_host_def op_flags_def no_flags_def sample_config_def config_default_def Let_def)
qed


theorem readers_find_daemon_witness:
  "resolve_data_dir op_host \<lparr>ca_config = None, ca_data_dir = Some ''/d''\<rparr> = Inr ''/d''"
  using readers_find_daemon [OF op_resolves] by (simp add: op_flags_def no_flags_def)

theorem keywords_round_trip_witness:
  "split_keywords (join '','' [''crypto'', ''leaked data'']) = [''crypto'', ''leaked data'']"
proof -
  have "trim ''crypto'' = ''crypto''" "trim ''leaked data'' = ''leaked data''" by code_simp+
  then show ?thesis using keywords_round_trip [of "[''crypto'', ''leaked data'']"] by simp
qed

theorem census_rate_admissible_witness:
  "f_le MIN_RATE_LIMIT_PER_SECOND DEFAULT_RATE_LIMIT_PER_SEC"
proof -
  have "resolve_census op_host \<lparr>na_common = \<lparr>ca_config = None, ca_data_dir = None\<rparr>, na_probe_timeout = None, na_api_key = None, na_rate_limit = None\<rparr> =
      Inr (config_default (Some ''/home/op''))"
    by (simp add: resolve_census_def op_host_def service_config_if_present_def try_then_def set_flag_def)
  from census_rate_admissible [OF this] show ?thesis by (simp add: config_default_def scan_config_default_def)
qed

end
