(* ===== verification/Service.thy ===== *)
theory Service
  imports Cli Splitting
begin

text \<open>
  The systemd service of \<open>src/service.rs\<close>: the pointer file, the unit with its quoting, the plan for elevation
  and its execution, and the install and uninstall sequences with every step that can fail.

  A run of another program (sudo, pkexec, systemctl) is an argument that gives its outcome.
\<close>

section \<open>The pointer to the data directory\<close>

definition pointer_body :: "string \<Rightarrow> string" where
  "pointer_body data_dir = data_dir @ [CHR 0x0A]"

text \<open>Written in a service context only, and best effort: \<open>written\<close> is the outcome of the write.\<close>

definition write_data_dir_pointer :: "bool \<Rightarrow> bool \<Rightarrow> string \<Rightarrow> string option \<Rightarrow> string option" where
  "write_data_dir_pointer config_dir written data_dir file =
     (if \<not> config_dir then file else if written then Some (pointer_body data_dir) else file)"

definition read_pointer_file_at :: "string option \<Rightarrow> string option" where
  "read_pointer_file_at file = (case file of
      None \<Rightarrow> None
    | Some s \<Rightarrow> (let t = trim s in if t = [] then None else Some t))"

section \<open>The unit\<close>

definition escape_char :: "char \<Rightarrow> string" where
  "escape_char c = (if c = CHR 0x22 then [CHR 0x5C, CHR 0x22] else [c])"

definition quote_if_needed :: "string \<Rightarrow> string" where
  "quote_if_needed s =
     (if CHR '' '' \<in> set s \<or> CHR 0x09 \<in> set s \<or> CHR 0x22 \<in> set s
      then [CHR 0x22] @ concat (map escape_char s) @ [CHR 0x22] else s)"

definition exec_start_line :: "string \<Rightarrow> string list \<Rightarrow> string" where
  "exec_start_line exec_path args = join '' '' (quote_if_needed exec_path # map quote_if_needed args)"

text \<open>\<open>str::replace\<close>: from the left, without overlaps.\<close>

function replace_all :: "string \<Rightarrow> string \<Rightarrow> string \<Rightarrow> string" where
  "replace_all pat to s =
     (if s = [] then []
      else if pat \<noteq> [] \<and> starts_with s pat then to @ replace_all pat to (drop (length pat) s)
      else hd s # replace_all pat to (tl s))"
  by pat_completeness auto
termination
  by (relation "measure (\<lambda>(pat, to, s). length s)") auto

declare replace_all.simps [simp del]

text \<open>The template, line by line; the dash in a comment is three bytes of UTF-8.\<close>

definition unit_head :: "string list" where
  "unit_head = [''[Unit]'', ''Description=keep-at - Academic Torrents smart seeding node'',
     ''After=network-online.target'', ''Wants=network-online.target'', '''', ''[Service]'', ''Type=simple'']"

definition unit_restart :: "string list" where
  "unit_restart = [''Restart=on-failure'', ''RestartSec=5'']"

definition unit_tail :: "string list" where
  "unit_tail = [
     ''# keep-at stops promptly even mid-scan (cancellation-aware scan loop), but'',
     ''# this caps how long systemd waits before force-killing it if something ever'',
     ''# hangs, so '' @ [CHR 0x27] @ ''systemctl stop keep-at'' @ [CHR 0x27] @ '' can'' @ [CHR 0x27] @ ''t block forever on a stuck process.'',
     ''TimeoutStopSec=30'',
     ''# keep-at holds one fd per file of every held torrent (rqbit opens all files'',
     ''# at add time and keeps them open), plus one fd per live peer connection '' @ [CHR 0xE2, CHR 0x80, CHR 0x94],
     ''# so a few hundred torrents easily exceed systemd'' @ [CHR 0x27] @ ''s 1024 default. The daemon'',
     ''# also raises its own soft limit toward the hard limit at startup (see'',
     ''# fdlimit), so manual `run` invocations get the same headroom.'',
     ''LimitNOFILE=65536'', '''', ''[Install]'', ''WantedBy=multi-user.target'', '''']"

definition UNIT_TEMPLATE :: string where
  "UNIT_TEMPLATE = join [CHR 0x0A] (unit_head @ [''ExecStart=__EXEC_START__''] @ unit_restart @ [''User=__USER__''] @ unit_tail)"

definition unit_text :: "string \<Rightarrow> string \<Rightarrow> string" where
  "unit_text exec_path user =
     replace_all ''__USER__'' user
       (replace_all ''__EXEC_START__'' (exec_start_line exec_path [''run'', ''--config'', CONFIG_PATH]) UNIT_TEMPLATE)"

section \<open>The command to re-run\<close>

text \<open>\<open>char::is_alphanumeric\<close> on the characters below 256.\<close>

definition is_alphanumeric :: "char \<Rightarrow> bool" where
  "is_alphanumeric c \<longleftrightarrow>
     (48 \<le> code c \<and> code c \<le> 57) \<or> (65 \<le> code c \<and> code c \<le> 90) \<or> (97 \<le> code c \<and> code c \<le> 122) \<or>
     code c \<in> {170, 178, 179, 181, 185, 186, 188, 189, 190} \<or> (192 \<le> code c \<and> code c \<noteq> 215 \<and> code c \<noteq> 247)"

definition plain_char :: "char \<Rightarrow> bool" where
  "plain_char c \<longleftrightarrow> is_alphanumeric c \<or> c \<in> set ''_-./=,:''"

definition shell_word :: "string \<Rightarrow> string" where
  "shell_word a = (if list_all plain_char a then a else CHR 0x27 # a @ [CHR 0x27])"

definition shell_join :: "string list \<Rightarrow> string" where
  "shell_join args = join '' '' (map shell_word args)"

definition rerun_hint :: "string \<Rightarrow> string list \<Rightarrow> string" where
  "rerun_hint exe args = ''sudo '' @ exe @ '' '' @ shell_join args"

text \<open>How a POSIX shell reads a line, as far as it is needed: blanks separate words, single quotes keep everything up to
  the next one, any other character that is special to the shell is refused.  \<open>word\<close> is the word being read.\<close>

definition shell_special :: "char \<Rightarrow> bool" where
  "shell_special c \<longleftrightarrow> code c < 32 \<or> code c = 127 \<or> c \<in> set ''|&;<>()$`*?[]#~!{}%^'' \<or> code c \<in> {0x22, 0x5C}"

fun shell_read :: "string option \<Rightarrow> bool \<Rightarrow> string \<Rightarrow> string list option" where
  "shell_read word quoted [] = (if quoted then None else Some (case word of None \<Rightarrow> [] | Some w \<Rightarrow> [w]))"
| "shell_read word quoted (c # s) =
     (let w = (case word of None \<Rightarrow> [] | Some w \<Rightarrow> w)
      in if quoted then (if c = CHR 0x27 then shell_read (Some w) False s else shell_read (Some (w @ [c])) True s)
         else if c = CHR '' '' then map_option (\<lambda>ws. case word of None \<Rightarrow> ws | Some w \<Rightarrow> w # ws) (shell_read None False s)
         else if c = CHR 0x27 then shell_read (Some w) True s
         else if shell_special c then None
         else shell_read (Some (w @ [c])) False s)"

definition shell_line :: "string \<Rightarrow> string list option" where
  "shell_line = shell_read None False"

section \<open>Elevation\<close>

definition elevation_command_on_path :: "string \<Rightarrow> string list \<Rightarrow> (string \<Rightarrow> bool) \<Rightarrow> bool \<Rightarrow> (string \<times> string list) list" where
  "elevation_command_on_path exe args has tty =
     (if has ''sudo'' then [(''sudo'', ''-n'' # exe # args)] @ (if tty then [(''sudo'', exe # args)] else []) else []) @
     (if has ''pkexec'' then [(''pkexec'', exe # args)] else [])"

definition noninteractive :: "string \<times> string list \<Rightarrow> bool" where
  "noninteractive = (\<lambda>(prog, argv). prog = ''sudo'' \<and> (case argv of a # _ \<Rightarrow> a = ''-n'' | [] \<Rightarrow> False))"

definition elevation_command_filtered :: "string \<Rightarrow> string list \<Rightarrow> (string \<Rightarrow> bool) \<Rightarrow> bool \<Rightarrow> bool \<Rightarrow> (string \<times> string list) list" where
  "elevation_command_filtered exe args has tty noninteractive_ok =
     filter (\<lambda>pa. noninteractive pa = noninteractive_ok \<or> fst pa \<noteq> ''sudo'') (elevation_command_on_path exe args has tty)"

text \<open>
  The helpers in turn: the first that launches ends this process with its exit code, a failed launch goes on.
  \<open>launch\<close> gives the child's exit code (\<open>None\<close> in it for a signal), or \<open>None\<close> when the helper cannot be started.
\<close>

datatype elevated = AlreadyRoot | ExitWith nat | ElevationError string

fun try_helpers :: "(string \<times> string list \<Rightarrow> nat option option) \<Rightarrow> (string \<times> string list) list \<Rightarrow> elevated" where
  "try_helpers launch [] = ElevationError ''elevation failed''"
| "try_helpers launch (pa # plan) =
     (case launch pa of
        None \<Rightarrow> try_helpers launch plan
      | Some st \<Rightarrow> ExitWith (case st of Some n \<Rightarrow> n | None \<Rightarrow> 1))"

record privileges =
  pv_root :: bool
  pv_marked :: bool
  pv_exe :: "string option"
  pv_args :: "string list"
  pv_has :: "string \<Rightarrow> bool"
  pv_tty :: bool
  pv_probe :: bool
  pv_launch :: "string \<times> string list \<Rightarrow> nat option option"

definition elevate_exec :: "privileges \<Rightarrow> string \<Rightarrow> elevated" where
  "elevate_exec p exe =
     (let plan = elevation_command_filtered exe (pv_args p) (pv_has p) (pv_tty p) (pv_probe p)
      in if plan = [] then ElevationError (''no elevation helper is available. Re-run with sudo, e.g.: '' @ rerun_hint exe (pv_args p)) else try_helpers (pv_launch p) plan)"

definition elevate :: "privileges \<Rightarrow> elevated" where
  "elevate p =
     (if pv_root p then AlreadyRoot
      else if pv_marked p then ElevationError ''tried to elevate but still not root''
      else case pv_exe p of
             None \<Rightarrow> ElevationError ''locating keep-at executable''
           | Some exe \<Rightarrow> elevate_exec p exe)"

section \<open>Install and uninstall\<close>

record system =
  sy_files :: config_files
  sy_pointer :: "string option"
  sy_unit :: "string option"
  sy_calls :: "string list list"

record install_env =
  ie_privileges :: privileges
  ie_systemd :: bool
  ie_dir_ok :: bool
  ie_key_ok :: bool
  ie_cfg_ok :: bool
  ie_pointer_ok :: bool
  ie_unit_ok :: bool
  ie_systemctl :: "string list \<Rightarrow> bool"

datatype outcome = Exited nat | Failed string | Completed

fun run_systemctl :: "(string list \<Rightarrow> bool) \<Rightarrow> string list list \<Rightarrow> system \<Rightarrow> outcome \<times> system" where
  "run_systemctl okay [] s = (Completed, s)"
| "run_systemctl okay (args # rest) s =
     (let s = s\<lparr>sy_calls := sy_calls s @ [args]\<rparr>
      in if okay args then run_systemctl okay rest s else (Failed ''systemctl failed'', s))"

definition install :: "install_env \<Rightarrow> string \<Rightarrow> config \<Rightarrow> string \<Rightarrow> system \<Rightarrow> outcome \<times> system" where
  "install env exec_path cfg user s =
     (case elevate (ie_privileges env) of
        ExitWith n \<Rightarrow> (Exited n, s)
      | ElevationError e \<Rightarrow> (Failed e, s)
      | AlreadyRoot \<Rightarrow>
          if \<not> ie_systemd env then (Failed ''systemd not available'', s)
          else case config_save (ie_dir_ok env) (ie_key_ok env) (ie_cfg_ok env) cfg (sy_files s) of
                 (Inl _, fs) \<Rightarrow> (Failed ''saving config'', s\<lparr>sy_files := fs\<rparr>)
               | (Inr _, fs) \<Rightarrow>
                   (let s = s\<lparr>sy_files := fs, sy_pointer := write_data_dir_pointer True (ie_pointer_ok env) (cfg_data_dir cfg) (sy_pointer s)\<rparr>
                    in if \<not> ie_unit_ok env then (Failed ''creating unit'', s)
                       else run_systemctl (ie_systemctl env) [[''daemon-reload''], [''enable'', ''keep-at''], [''start'', ''keep-at'']]
                              (s\<lparr>sy_unit := Some (unit_text exec_path user)\<rparr>)))"

text \<open>The outcome of removing the unit: gone, absent before, or an error.\<close>

datatype removal = Removed | WasAbsent | RemovalFailed

definition uninstall :: "install_env \<Rightarrow> removal \<Rightarrow> system \<Rightarrow> outcome \<times> system" where
  "uninstall env removal s =
     (case elevate (ie_privileges env) of
        ExitWith n \<Rightarrow> (Exited n, s)
      | ElevationError e \<Rightarrow> (Failed e, s)
      | AlreadyRoot \<Rightarrow>
          if \<not> ie_systemd env then (Failed ''systemd not available'', s)
          else let s = snd (run_systemctl (ie_systemctl env) [[''stop'', ''keep-at'']] s);
                   s = snd (run_systemctl (ie_systemctl env) [[''disable'', ''keep-at'']] s)
               in case removal of
                    RemovalFailed \<Rightarrow> (Failed ''removing unit'', s)
                  | _ \<Rightarrow> run_systemctl (ie_systemctl env) [[''daemon-reload'']] (s\<lparr>sy_unit := None\<rparr>))"

section \<open>Lemmas\<close>

lemma escape_injective: "concat (map escape_char s) = concat (map escape_char t) \<Longrightarrow> s = t"
proof (induction s arbitrary: t)
  case Nil
  then show ?case by (cases t) (auto simp: escape_char_def split: if_splits)
next
  case (Cons c s)
  then obtain d t' where t: "t = d # t'" by (cases t) (auto simp: escape_char_def split: if_splits)
  have q: "concat (map escape_char u) = CHR 0x22 # r \<Longrightarrow> False" for u r
    by (cases u) (auto simp: escape_char_def split: if_splits)
  consider "c = d" | "c = CHR 0x22" "d \<noteq> CHR 0x22" | "c \<noteq> CHR 0x22" "d = CHR 0x22"
    | "c \<noteq> CHR 0x22" "d \<noteq> CHR 0x22" "c \<noteq> d" by blast
  then show ?case
  proof cases
    case 1
    then show ?thesis using Cons t by simp
  next
    case 2
    then have "escape_char c = [CHR 0x5C, CHR 0x22]" "escape_char d = [d]" by (simp_all add: escape_char_def)
    then have "concat (map escape_char t') = CHR 0x22 # concat (map escape_char s)" using Cons.prems t by simp
    then show ?thesis using q by blast
  next
    case 3
    then have "escape_char d = [CHR 0x5C, CHR 0x22]" "escape_char c = [c]" by (simp_all add: escape_char_def)
    then have "concat (map escape_char s) = CHR 0x22 # concat (map escape_char t')" using Cons.prems t by simp
    then show ?thesis using q by blast
  next
    case 4
    then show ?thesis using Cons.prems t by (simp add: escape_char_def)
  qed
qed

lemma escape_keeps_quote: "CHR 0x22 \<in> set s \<Longrightarrow> CHR 0x22 \<in> set (concat (map escape_char s))"
  by (induction s) (auto simp: escape_char_def)

lemma elevate_root: "elevate p = AlreadyRoot \<longleftrightarrow> pv_root p"
proof -
  have "try_helpers launch plan \<noteq> AlreadyRoot" for launch plan
    by (induction launch plan rule: try_helpers.induct) (auto split: option.splits)
  then show ?thesis by (auto simp: elevate_def elevate_exec_def Let_def split: option.splits)
qed

lemma pointer_read_back: "trim d = d \<Longrightarrow> d \<noteq> [] \<Longrightarrow> read_pointer_file_at (Some (pointer_body d)) = Some d"
  using trim_newline [of d] by (simp add: read_pointer_file_at_def pointer_body_def)

lemma run_systemctl_frame:
  "run_systemctl okay cs s = (r, s') \<Longrightarrow> s' = s\<lparr>sy_calls := sy_calls s'\<rparr> \<and>
     (\<exists>done. prefix done cs \<and> sy_calls s' = sy_calls s @ done \<and> (r = Completed \<longrightarrow> done = cs \<and> list_all okay cs)) \<and>
     (r = Completed \<or> r = Failed ''systemctl failed'')"
proof (induction okay cs s rule: run_systemctl.induct)
  case (2 okay args rest s)
  show ?case
  proof (cases "okay args")
    case True
    with 2 have i: "s' = s\<lparr>sy_calls := sy_calls s'\<rparr>" "r = Completed \<or> r = Failed ''systemctl failed''"
      "\<exists>done. prefix done rest \<and> sy_calls s' = (sy_calls s @ [args]) @ done \<and> (r = Completed \<longrightarrow> done = rest \<and> list_all okay rest)"
      by (auto simp: Let_def)
    from i(3) obtain d where "prefix d rest" "sy_calls s' = (sy_calls s @ [args]) @ d" "r = Completed \<longrightarrow> d = rest \<and> list_all okay rest"
      by blast
    then have "\<exists>done. prefix done (args # rest) \<and> sy_calls s' = sy_calls s @ done \<and>
        (r = Completed \<longrightarrow> done = args # rest \<and> list_all okay (args # rest))"
      using True by (intro exI [of _ "args # d"]) auto
    with i show ?thesis by blast
  qed (use 2 in \<open>auto simp: Let_def intro: exI [of _ "[args]"]\<close>)
qed auto

lemma starts_with_append [simp]: "starts_with (p @ s) p"
  by (simp add: starts_with_def)

text \<open>Replacing skips what cannot begin the pattern and replaces what does.\<close>

lemma replace_all_skip: "c \<notin> set a \<Longrightarrow> replace_all (c # pat) to (a @ s) = a @ replace_all (c # pat) to s"
proof (induction a)
  case (Cons x a)
  then have "\<not> starts_with (x # a @ s) (c # pat)" by (simp add: starts_with_def)
  with Cons show ?case by (subst replace_all.simps) simp
qed simp

lemma replace_all_step: "\<not> starts_with (x # s) pat \<Longrightarrow> replace_all pat to (x # s) = x # replace_all pat to s"
  by (subst replace_all.simps) simp

lemma replace_all_hit: "pat \<noteq> [] \<Longrightarrow> replace_all pat to (pat @ s) = to @ replace_all pat to s"
  by (subst replace_all.simps) simp

lemma replace_all_free: "c \<notin> set a \<Longrightarrow> replace_all (c # pat) to a = a"
  using replace_all_skip [of c a pat to "[]"] by (simp add: replace_all.simps [of _ _ "[]"])

definition unit_before :: string where
  "unit_before = join [CHR 0x0A] unit_head @ [CHR 0x0A] @ ''ExecStart=''"

definition unit_between :: string where
  "unit_between = [CHR 0x0A] @ join [CHR 0x0A] unit_restart @ [CHR 0x0A] @ ''User=''"

definition unit_after :: string where
  "unit_after = [CHR 0x0A] @ join [CHR 0x0A] unit_tail"

lemma template_split: "UNIT_TEMPLATE = unit_before @ ''__EXEC_START__'' @ unit_between @ ''__USER__'' @ unit_after"
  by (simp add: UNIT_TEMPLATE_def unit_before_def unit_between_def unit_after_def unit_head_def unit_restart_def unit_tail_def)

lemma template_free: "CHR ''_'' \<notin> set unit_before" "CHR ''_'' \<notin> set unit_between" "CHR ''_'' \<notin> set unit_after"
  by code_simp+

section \<open>Properties\<close>

text \<open>Elevation never prompts behind the operator's back and never redirects: every planned command runs this
  executable by its own path with its own arguments, sudo only if it is on the path, without a terminal only
  non-interactively; once the probe says that passwordless sudo works it is the first helper, and once it says it
  does not, it is not tried.\<close>

theorem elevation_plan_sound:
  "(\<forall>(prog, argv) \<in> set (elevation_command_filtered exe args has tty probe).
      has prog \<and> prog \<in> {''sudo'', ''pkexec''} \<and> (argv = exe # args \<or> prog = ''sudo'' \<and> argv = ''-n'' # exe # args) \<and>
      (prog = ''sudo'' \<and> \<not> tty \<longrightarrow> argv = ''-n'' # exe # args) \<and>
      (prog = ''sudo'' \<and> argv = ''-n'' # exe # args \<longrightarrow> probe)) \<and>
   (probe \<and> has ''sudo'' \<longrightarrow> (\<exists>rest. elevation_command_filtered exe args has tty probe = (''sudo'', ''-n'' # exe # args) # rest))"
  by (auto simp: elevation_command_filtered_def elevation_command_on_path_def noninteractive_def split: if_splits)

theorem elevation_plan_sound_witness:
  "elevation_command_filtered ''/bin/keep-at'' [''self-update''] (\<lambda>p. p = ''sudo'') False True =
     [(''sudo'', [''-n'', ''/bin/keep-at'', ''self-update''])]"
  using elevation_plan_sound [of "''/bin/keep-at''" "[''self-update'']" "\<lambda>p. p = ''sudo''" False True]
  by (auto simp: elevation_command_filtered_def elevation_command_on_path_def noninteractive_def)

text \<open>Elevation ends: a process that already is the elevated half never launches a helper again, and one that
  returns at all is root; otherwise this process ends with the code of the first helper that launched.\<close>

theorem elevate_once:
  "(elevate p = AlreadyRoot \<longleftrightarrow> pv_root p) \<and>
   (pv_marked p \<longrightarrow> (\<forall>n. elevate p \<noteq> ExitWith n)) \<and>
   (elevate p = ExitWith n \<longrightarrow>
     (\<exists>exe tried pa rest st. pv_exe p = Some exe \<and>
        elevation_command_filtered exe (pv_args p) (pv_has p) (pv_tty p) (pv_probe p) = tried @ pa # rest \<and>
        list_all (\<lambda>x. pv_launch p x = None) tried \<and> pv_launch p pa = Some st \<and> n = (case st of Some k \<Rightarrow> k | None \<Rightarrow> 1)))"
proof -
  have h: "try_helpers launch plan = ExitWith n \<Longrightarrow> \<exists>tried pa rest st. plan = tried @ pa # rest \<and>
      list_all (\<lambda>x. launch x = None) tried \<and> launch pa = Some st \<and> n = (case st of Some k \<Rightarrow> k | None \<Rightarrow> 1)" for launch plan
  proof (induction launch plan rule: try_helpers.induct)
    case (2 launch pa plan)
    show ?case
    proof (cases "launch pa")
      case None
      with 2 obtain tried q rest st where "plan = tried @ q # rest" "list_all (\<lambda>x. launch x = None) tried" "launch q = Some st"
        "n = (case st of Some k \<Rightarrow> k | None \<Rightarrow> 1)" by auto
      then show ?thesis using None by (intro exI [of _ "pa # tried"]) auto
    next
      case (Some st)
      then show ?thesis using 2 by (intro exI [of _ "[]"] exI [of _ pa] exI [of _ plan] exI [of _ st]) auto
    qed
  qed simp
  show ?thesis
    using h elevate_root [of p] by (auto simp: elevate_def elevate_exec_def Let_def split: option.splits if_splits)
qed

text \<open>The unit runs the executable, quoted where needed, with the installed configuration, as the given user:
  whatever executable path without an underscore is installed, exactly the two placeholder lines are filled in.\<close>

theorem unit_text_lines:
  assumes "CHR ''_'' \<notin> set exec_path"
  shows "unit_text exec_path user = join [CHR 0x0A] (unit_head @
      [''ExecStart='' @ quote_if_needed exec_path @ '' run --config /etc/keep-at/config.yaml''] @
      unit_restart @ [''User='' @ user] @ unit_tail)"
proof -
  let ?line = "exec_start_line exec_path [''run'', ''--config'', CONFIG_PATH]"
  have line: "?line = quote_if_needed exec_path @ '' run --config /etc/keep-at/config.yaml''"
    by (simp add: exec_start_line_def CONFIG_PATH_def) (simp add: quote_if_needed_def)
  have free: "CHR ''_'' \<notin> set ?line"
    unfolding line using assms by (auto simp: quote_if_needed_def escape_char_def split: if_splits)
  have user: "replace_all ''__EXEC_START__'' l (''__USER__'' @ unit_after) = ''__USER__'' @ replace_all ''__EXEC_START__'' l unit_after" for l
    by (simp add: unit_after_def replace_all_step starts_with_def)
  have "replace_all ''__EXEC_START__'' ?line UNIT_TEMPLATE = unit_before @ ?line @ unit_between @ ''__USER__'' @ unit_after"
    unfolding template_split
    by (simp only: replace_all_skip template_free replace_all_hit user replace_all_free list.distinct not_False_eq_True)
  then have "unit_text exec_path user = (unit_before @ ?line @ unit_between) @ user @ unit_after"
    unfolding unit_text_def
    using replace_all_skip [of "CHR ''_''" "unit_before @ ?line @ unit_between" "''_USER__''" user "''__USER__'' @ unit_after"]
      replace_all_hit [of "''__USER__''" user unit_after] replace_all_free [of "CHR ''_''" unit_after "''_USER__''" user] template_free free
    by simp
  then show ?thesis
    unfolding line by (simp add: unit_before_def unit_between_def unit_after_def unit_head_def unit_restart_def unit_tail_def)
qed

theorem unit_text_lines_witness:
  "unit_text ''/opt/my apps/keep-at'' ''seed'' = join [CHR 0x0A] (unit_head @
      [''ExecStart='' @ [CHR 0x22] @ ''/opt/my apps/keep-at'' @ [CHR 0x22] @ '' run --config /etc/keep-at/config.yaml''] @
      unit_restart @ [''User=seed''] @ unit_tail)"
  using unit_text_lines [of "''/opt/my apps/keep-at''" "''seed''"] by (simp add: quote_if_needed_def escape_char_def)

text \<open>C36. An installation completes only with everything in place: the configuration world-readable and without the
  key, the key in its owner-only file, the unit, and the three systemctl calls in order.  One that does not
  complete never starts the service, unless the start itself is what failed.\<close>

theorem install_all_or_not_started:
  assumes "install env exec_path cfg user s = (r, s')" "sy_calls s = []"
  shows "(r = Completed \<longrightarrow>
      cf_config (sy_files s') = Some (cfg\<lparr>cfg_api_key := []\<rparr>, 420) \<and>
      (cfg_api_key cfg = [] \<or> cf_key (sy_files s') = Some (cfg_api_key cfg @ [CHR 0x0A], 384)) \<and>
      sy_unit s' = Some (unit_text exec_path user) \<and> pv_root (ie_privileges env) \<and>
      (ie_pointer_ok env \<and> trim (cfg_data_dir cfg) = cfg_data_dir cfg \<and> cfg_data_dir cfg \<noteq> [] \<longrightarrow>
         read_pointer_file_at (sy_pointer s') = Some (cfg_data_dir cfg)) \<and>
      sy_calls s' = [[''daemon-reload''], [''enable'', ''keep-at''], [''start'', ''keep-at'']]) \<and>
    ([''start'', ''keep-at''] \<in> set (sy_calls s') \<longrightarrow>
      sy_unit s' = Some (unit_text exec_path user) \<and>
      (r = Completed \<or> r = Failed ''systemctl failed'' \<and> \<not> ie_systemctl env [''start'', ''keep-at'']))"
proof (cases "pv_root (ie_privileges env) \<and> ie_systemd env")
  case False
  then have "r \<noteq> Completed \<and> sy_calls s' = []"
    using assms elevate_root by (auto simp: install_def split: elevated.splits if_splits)
  then show ?thesis by simp
next
  case True
  then have el: "elevate (ie_privileges env) = AlreadyRoot" by (simp add: elevate_root)
  obtain q fs where sv: "config_save (ie_dir_ok env) (ie_key_ok env) (ie_cfg_ok env) cfg (sy_files s) = (q, fs)" by fastforce
  show ?thesis
  proof (cases "q = Inr () \<and> ie_unit_ok env")
    case False
    then show ?thesis using assms True el sv by (cases q) (auto simp: install_def Let_def split: if_splits)
  next
    case ok: True
    let ?cs = "[[''daemon-reload''], [''enable'', ''keep-at''], [''start'', ''keep-at'']]"
    let ?s = "s\<lparr>sy_files := fs, sy_pointer := write_data_dir_pointer True (ie_pointer_ok env) (cfg_data_dir cfg) (sy_pointer s),
        sy_unit := Some (unit_text exec_path user)\<rparr>"
    have run: "run_systemctl (ie_systemctl env) ?cs ?s = (r, s')"
      using assms(1) True el sv ok by (simp add: install_def Let_def del: run_systemctl.simps)
    note fr = run_systemctl_frame [OF run]
    have key: "cf_config fs = Some (cfg\<lparr>cfg_api_key := []\<rparr>, 420)"
      "cfg_api_key cfg = [] \<or> cf_key fs = Some (cfg_api_key cfg @ [CHR 0x0A], 384)"
      using sv ok by (auto simp: config_save_def write_api_key_file_def split: if_splits)
    have calls: "[''start'', ''keep-at''] \<in> set (sy_calls s') \<longrightarrow> r = Completed \<or> r = Failed ''systemctl failed'' \<and> \<not> ie_systemctl env [''start'', ''keep-at'']"
      "r = Completed \<longrightarrow> sy_calls s' = ?cs"
      using run assms(2) by (auto simp: Let_def split: if_splits)
    have "sy_files s' = fs" "sy_unit s' = Some (unit_text exec_path user)"
      "sy_pointer s' = write_data_dir_pointer True (ie_pointer_ok env) (cfg_data_dir cfg) (sy_pointer s)"
      using fr by (metis system.select_convs system.surjective system.update_convs)+
    then show ?thesis using True key calls pointer_read_back by (auto simp: write_data_dir_pointer_def)
  qed
qed

definition root_env :: install_env where
  "root_env = \<lparr>ie_privileges = \<lparr>pv_root = True, pv_marked = False, pv_exe = None, pv_args = [], pv_has = (\<lambda>_. False), pv_tty = False,
     pv_probe = False, pv_launch = (\<lambda>_. None)\<rparr>, ie_systemd = True, ie_dir_ok = True, ie_key_ok = True, ie_cfg_ok = True,
     ie_pointer_ok = True, ie_unit_ok = True, ie_systemctl = (\<lambda>_. True)\<rparr>"

theorem install_all_or_not_started_witness:
  "cf_config (sy_files (snd (install root_env ''/bin/keep-at'' sample_config ''root''
      \<lparr>sy_files = \<lparr>cf_config = None, cf_key = None\<rparr>, sy_pointer = None, sy_unit = None, sy_calls = []\<rparr>))) =
    Some (sample_config\<lparr>cfg_api_key := []\<rparr>, 420)"
proof -
  let ?s = "\<lparr>sy_files = \<lparr>cf_config = None, cf_key = None\<rparr>, sy_pointer = None, sy_unit = None, sy_calls = []\<rparr> :: system"
  obtain r s' where i: "install root_env ''/bin/keep-at'' sample_config ''root'' ?s = (r, s')" by fastforce
  then have "r = Completed"
    by (auto simp: install_def root_env_def elevate_def config_save_def write_api_key_file_def Let_def split: if_splits)
  with install_all_or_not_started [OF i] show ?thesis using i by simp
qed

lemma plain_char_ordinary:
  assumes "plain_char c"
  shows "c \<noteq> CHR '' ''" "c \<noteq> CHR 0x27" "\<not> shell_special c"
  using assms by (auto simp: plain_char_def is_alphanumeric_def shell_special_def code_def)

lemma read_plain: "list_all plain_char a \<Longrightarrow> shell_read (Some w) False (a @ s) = shell_read (Some (w @ a)) False s"
  by (induction a arbitrary: w) (auto simp: plain_char_ordinary Let_def)

lemma read_quoted: "CHR 0x27 \<notin> set a \<Longrightarrow> shell_read (Some w) True (a @ CHR 0x27 # s) = shell_read (Some (w @ a)) False s"
  by (induction a arbitrary: w) (auto simp: Let_def)

lemma read_word:
  assumes "a \<noteq> []" "CHR 0x27 \<notin> set a"
  shows "shell_read None False (shell_word a @ s) = shell_read (Some a) False s"
proof (cases "list_all plain_char a")
  case True
  obtain c cs where a: "a = c # cs" using assms(1) by (cases a) auto
  then show ?thesis using True read_plain [of cs "[c]" s] by (simp add: shell_word_def plain_char_ordinary Let_def)
next
  case False
  then show ?thesis using read_quoted [OF assms(2), of "[]" s] by (simp add: shell_word_def Let_def)
qed

lemma join_Cons: "join sep (x # xs) = x @ (if xs = [] then [] else sep @ join sep xs)"
  by (cases xs) simp_all

text \<open>The command that a failed elevation tells the operator to run is the one that was run: the shell reads the
  printed arguments back as they were, when none is empty or has a single quote.\<close>

theorem rerun_hint_reads_back:
  assumes "\<forall>a \<in> set args. a \<noteq> [] \<and> CHR 0x27 \<notin> set a" "list_all plain_char exe" "exe \<noteq> []"
  shows "shell_line (rerun_hint exe args) = Some (''sudo'' # exe # args)"
proof -
  have *: "shell_read None False (shell_join args) = Some args"
    using assms(1)
  proof (induction args)
    case Nil
    then show ?case by (simp add: shell_join_def)
  next
    case (Cons a args)
    then have "shell_read None False (shell_word a @ s) = shell_read (Some a) False s" for s by (intro read_word) auto
    then show ?case using Cons by (simp add: shell_join_def join_Cons Let_def)
  qed
  obtain c cs where e: "exe = c # cs" using assms(3) by (cases exe) auto
  have "plain_char c" "list_all plain_char cs" using assms(2) by (simp_all add: e)
  moreover have "list_all plain_char ''udo''" "\<not> shell_special (CHR ''s'')"
    by (simp_all add: plain_char_def is_alphanumeric_def shell_special_def code_def)
  ultimately have "shell_line (rerun_hint exe args) = map_option (\<lambda>ws. ''sudo'' # exe # ws) (shell_read None False (shell_join args))"
    using read_plain [of "''udo''" "''s''"] read_plain [of cs "[c]"]
    by (simp add: shell_line_def rerun_hint_def e plain_char_ordinary Let_def option.map_comp comp_def)
  then show ?thesis using * by simp
qed

theorem rerun_hint_reads_back_witness:
  "shell_line (rerun_hint ''/usr/bin/keep-at'' [''service'', ''install'', ''--api-key'', ''uid=1;pass=x y'']) =
     Some [''sudo'', ''/usr/bin/keep-at'', ''service'', ''install'', ''--api-key'', ''uid=1;pass=x y'']"
  by (rule rerun_hint_reads_back) (simp_all add: plain_char_def is_alphanumeric_def code_def)

text \<open>An empty argument is lost, and a single quote is not escaped.\<close>

lemma rerun_hint_exceptions:
  "shell_line (shell_join [''a'', '''', ''b'']) = Some [''a'', ''b'']"
  "shell_line (shell_join [[CHR ''i'', CHR 0x27, CHR ''s'']]) = None"
  by (simp_all add: shell_join_def shell_word_def shell_line_def plain_char_def is_alphanumeric_def code_def shell_special_def Let_def)

end
