(* ===== verification/Daemon.thy ===== *)
theory Daemon
  imports Service Engine_Base
begin

text \<open>
  The daemon's life cycle, \<open>src/daemonctl.rs\<close> with \<open>cmd_stop\<close> and \<open>cmd_start\<close> of \<open>src/bin/keep-at.rs\<close>: the pid
  file, the identity of a process, the scan of the process table and what stop does with what it finds.

  The process table is an argument: the entries of \<open>/proc\<close> in the order the directory gives them, each with
  the argument vector its \<open>cmdline\<close> decodes to.  Paths are taken to be valid UTF-8.
\<close>

section \<open>Pid file and identity\<close>

text \<open>\<open>str::parse::<u32>\<close>.\<close>

definition parse_u32 :: "string \<Rightarrow> nat option" where
  "parse_u32 s =
     (let d = (case s of c # cs \<Rightarrow> if c = CHR ''+'' then cs else s | [] \<Rightarrow> [])
      in if d \<noteq> [] \<and> list_all is_ascii_digit d \<and> read_nat d \<le> u32_max then Some (read_nat d) else None)"

definition pid_path :: "string \<Rightarrow> string" where
  "pid_path data_dir = path_join data_dir ''keep-at.pid''"

text \<open>Pid files by path.\<close>

type_synonym pid_files = "string \<Rightarrow> string option"

definition write_pid :: "bool \<Rightarrow> nat \<Rightarrow> string \<Rightarrow> pid_files \<Rightarrow> unit result \<times> pid_files" where
  "write_pid written pid data_dir fs = (if written then (Inr (), fs(pid_path data_dir \<mapsto> show_nat pid)) else (Inl ''writing pid file'', fs))"

definition remove_pid :: "bool \<Rightarrow> string \<Rightarrow> pid_files \<Rightarrow> pid_files" where
  "remove_pid removed data_dir fs = (if removed then fs(pid_path data_dir := None) else fs)"

definition read_pid :: "pid_files \<Rightarrow> string \<Rightarrow> nat option" where
  "read_pid fs data_dir = (case fs (pid_path data_dir) of None \<Rightarrow> None | Some s \<Rightarrow> parse_u32 (trim s))"

definition is_keep_at_argv0 :: "string \<Rightarrow> bool" where
  "is_keep_at_argv0 argv0 = ends_with (last (split_on CHR ''/'' argv0)) ''keep-at''"

record process =
  pr_name :: string
  pr_cmdline :: string

definition argv_of :: "process \<Rightarrow> string list" where
  "argv_of p = split_on CHR 0x00 (pr_cmdline p)"

text \<open>\<open>/proc/PID/cmdline\<close>: the entry with that name, unreadable being empty.\<close>

definition cmdline_of :: "process list \<Rightarrow> nat \<Rightarrow> string" where
  "cmdline_of procs pid = (case find (\<lambda>p. pr_name p = show_nat pid) procs of Some p \<Rightarrow> pr_cmdline p | None \<Rightarrow> [])"

definition pid_alive :: "process list \<Rightarrow> nat \<Rightarrow> bool" where
  "pid_alive procs pid = (let c = cmdline_of procs pid in c \<noteq> [] \<and> is_keep_at_argv0 (hd (split_on CHR 0x00 c)))"

section \<open>The process table\<close>

definition daemon_proc :: "nat \<Rightarrow> process \<Rightarrow> (nat \<times> string list) option" where
  "daemon_proc own p = (case parse_u32 (pr_name p) of
      None \<Rightarrow> None
    | Some pid \<Rightarrow>
        if pid = own \<or> pr_cmdline p = [] then None
        else let parts = argv_of p
             in if length parts < 2 \<or> \<not> is_keep_at_argv0 (parts ! 0) then None
                else if parts ! 1 \<notin> {''run'', ''start''} then None
                else Some (pid, parts))"

definition keep_at_daemon_procs :: "nat \<Rightarrow> process list \<Rightarrow> (nat \<times> string list) list" where
  "keep_at_daemon_procs own procs = List.map_filter (daemon_proc own) procs"

fun scan_flags :: "string list \<Rightarrow> string option \<times> string option \<Rightarrow> string option \<times> string option" where
  "scan_flags [] dc = dc"
| "scan_flags (a # as) (dir_arg, config_arg) =
     (if a = ''--data-dir'' then (case as of [] \<Rightarrow> (None, config_arg) | v # vs \<Rightarrow> scan_flags vs (Some v, config_arg))
      else case strip_prefix ''--data-dir='' a of
             Some v \<Rightarrow> scan_flags as (Some v, config_arg)
           | None \<Rightarrow>
               if a = ''--config'' then (case as of [] \<Rightarrow> (dir_arg, None) | v # vs \<Rightarrow> scan_flags vs (dir_arg, Some v))
               else case strip_prefix ''--config='' a of
                      Some v \<Rightarrow> scan_flags as (dir_arg, Some v)
                    | None \<Rightarrow> scan_flags as (dir_arg, config_arg))"

definition data_dir_and_config_from_argv :: "string list \<Rightarrow> string option \<times> string option" where
  "data_dir_and_config_from_argv parts = scan_flags (drop 2 parts) (None, None)"

text \<open>The data directory a process' arguments name, if they name one that can be read.\<close>

definition dir_of_proc :: "host \<Rightarrow> string list \<Rightarrow> string option" where
  "dir_of_proc h parts = (case data_dir_and_config_from_argv parts of
      (Some d, _) \<Rightarrow> Some d
    | (None, Some c) \<Rightarrow> (case load_readonly h c of Inr cfg \<Rightarrow> Some (cfg_data_dir cfg) | Inl _ \<Rightarrow> None)
    | (None, None) \<Rightarrow> Some (default_data_dir (ho_home h)))"

definition find_foreground_in :: "host \<Rightarrow> nat \<Rightarrow> process list \<Rightarrow> string \<Rightarrow> nat option" where
  "find_foreground_in h own procs want =
     map_option fst (find (\<lambda>(_, parts). dir_of_proc h parts = Some want) (keep_at_daemon_procs own procs))"

fun first_daemon :: "host \<Rightarrow> (nat \<times> string list) list \<Rightarrow> (nat \<times> string) option" where
  "first_daemon h [] = None"
| "first_daemon h ((pid, parts) # ps) = (case dir_of_proc h parts of Some d \<Rightarrow> Some (pid, d) | None \<Rightarrow> first_daemon h ps)"

definition find_any_daemon_in :: "host \<Rightarrow> nat \<Rightarrow> process list \<Rightarrow> (nat \<times> string) option" where
  "find_any_daemon_in h own procs = first_daemon h (keep_at_daemon_procs own procs)"

section \<open>Status and stop\<close>

record view =
  vw_host :: host
  vw_own :: nat
  vw_procs :: "process list"
  vw_pids :: pid_files

definition daemon_status :: "view \<Rightarrow> string \<Rightarrow> nat option" where
  "daemon_status v data_dir =
     (case read_pid (vw_pids v) data_dir of
        Some pid \<Rightarrow> if pid_alive (vw_procs v) pid then Some pid else find_foreground_in (vw_host v) (vw_own v) (vw_procs v) data_dir
      | None \<Rightarrow> find_foreground_in (vw_host v) (vw_own v) (vw_procs v) data_dir)"

text \<open>The process \<open>stop\<close> would signal for a resolved directory; discovery only when nothing was named.\<close>

definition stop_target :: "view \<Rightarrow> common_args \<Rightarrow> string \<Rightarrow> nat option" where
  "stop_target v args dir =
     (case daemon_status v dir of
        Some pid \<Rightarrow> Some pid
      | None \<Rightarrow>
          if ca_data_dir args \<noteq> None \<or> ca_config args \<noteq> None then None
          else case find_any_daemon_in (vw_host v) (vw_own v) (vw_procs v) of
                 None \<Rightarrow> None
               | Some (pid, _) \<Rightarrow> if pid_alive (vw_procs v) pid then Some pid else None)"

text \<open>What \<open>kill\<close> answers: success, an error the kernel maps to "not found", another error.\<close>

datatype kill_reply = KillOk | KillNotFound | KillError

datatype stop_outcome = NotRunning | Stopped nat | CannotResolve cli_error | CannotSignal nat | StillRunning nat

text \<open>The wait: up to 60 polls, ended by the first that finds the process gone; \<open>alive i\<close> is poll \<open>i\<close>.\<close>

fun wait_exit :: "(nat \<Rightarrow> bool) \<Rightarrow> nat \<Rightarrow> nat \<Rightarrow> nat" where
  "wait_exit alive i 0 = i"
| "wait_exit alive i (Suc n) = (if \<not> alive i then Suc i else wait_exit alive (Suc i) n)"

definition cmd_stop :: "view \<Rightarrow> common_args \<Rightarrow> (nat \<Rightarrow> kill_reply) \<Rightarrow> (nat \<Rightarrow> nat \<Rightarrow> bool) \<Rightarrow> bool \<Rightarrow> stop_outcome \<times> nat list \<times> pid_files" where
  "cmd_stop v args kill alive removed =
     (case resolve_data_dir (vw_host v) args of
        Inl e \<Rightarrow> (CannotResolve e, [], vw_pids v)
      | Inr dir \<Rightarrow>
          (case stop_target v args dir of
             None \<Rightarrow> (NotRunning, [], vw_pids v)
           | Some pid \<Rightarrow>
               if kill pid = KillError then (CannotSignal pid, [pid], vw_pids v)
               else if alive pid (wait_exit (alive pid) 0 60) then (StillRunning pid, [pid], vw_pids v)
               else (Stopped pid, [pid], remove_pid removed dir (vw_pids v))))"

section \<open>Start\<close>

definition is_containerized :: "bool \<Rightarrow> (string \<Rightarrow> bool) \<Rightarrow> bool" where
  "is_containerized dockerenv env_set = (dockerenv \<or> env_set ''container'' \<or> env_set ''KUBERNETES_SERVICE_HOST'')"

text \<open>
  \<open>cmd_start\<close> either runs in the foreground or writes the resolved configuration and spawns
  \<open>run --config\<close> on it.
\<close>

datatype start_outcome = Foreground config | Spawned "string list" nat | StartFailed

definition logging_to_file :: "config \<Rightarrow> config" where
  "logging_to_file cfg = (if cfg_log_file cfg = None then cfg\<lparr>cfg_log_file := Some (path_join (cfg_data_dir cfg) ''keep-at.log'')\<rparr> else cfg)"

definition cmd_start :: "bool \<Rightarrow> bool \<Rightarrow> bool \<Rightarrow> bool \<Rightarrow> bool \<Rightarrow> bool \<Rightarrow> nat option \<Rightarrow> config \<Rightarrow> config_files \<Rightarrow> start_outcome \<times> config_files" where
  "cmd_start foreground containerized dir_ok key_ok cfg_ok exe_ok spawned cfg fs =
     (if foreground \<or> containerized then (Foreground cfg, fs)
      else let cfg = logging_to_file cfg;
               tmp_path = path_join (cfg_data_dir cfg) ''config.resolved.yaml''
           in case config_save dir_ok key_ok cfg_ok cfg fs of
                (Inl _, fs) \<Rightarrow> (StartFailed, fs)
              | (Inr _, fs) \<Rightarrow>
                  if \<not> exe_ok then (StartFailed, fs)
                  else case spawned of
                         None \<Rightarrow> (StartFailed, fs)
                       | Some pid \<Rightarrow> (Spawned [''run'', ''--config'', tmp_path] pid, fs))"

section \<open>Lemmas\<close>

text \<open>A table as the kernel shows it: one entry per process, named by its number.\<close>

definition table_wf :: "process list \<Rightarrow> bool" where
  "table_wf procs \<longleftrightarrow> distinct (map pr_name procs) \<and> (\<forall>p \<in> set procs. \<forall>n. parse_u32 (pr_name p) = Some n \<longrightarrow> pr_name p = show_nat n)"

lemma map_filter_mem: "y \<in> set (List.map_filter f xs) \<longleftrightarrow> (\<exists>x \<in> set xs. f x = Some y)"
  by (induction xs) (auto simp: List.map_filter_simps split: option.splits)

lemma daemon_proc_Some:
  "daemon_proc own p = Some (pid, parts) \<longleftrightarrow>
     parse_u32 (pr_name p) = Some pid \<and> pid \<noteq> own \<and> pr_cmdline p \<noteq> [] \<and> parts = argv_of p \<and> 2 \<le> length parts \<and>
     is_keep_at_argv0 (parts ! 0) \<and> parts ! 1 \<in> {''run'', ''start''}"
  by (auto simp: daemon_proc_def Let_def split: option.splits)

lemma find_distinct: "distinct (map f xs) \<Longrightarrow> x \<in> set xs \<Longrightarrow> find (\<lambda>y. f y = f x) xs = Some x"
  by (induction xs) auto

lemma find_mem: "find P xs = Some x \<Longrightarrow> x \<in> set xs \<and> P x"
  by (induction xs) (auto split: if_splits)

lemma daemon_proc_alive:
  assumes "table_wf procs" "p \<in> set procs" "daemon_proc own p = Some (pid, parts)"
  shows "pid_alive procs pid"
proof -
  note d = assms(3) [unfolded daemon_proc_Some]
  have n: "pr_name p = show_nat pid" using assms d by (auto simp: table_wf_def)
  have "find (\<lambda>p. pr_name p = show_nat pid) procs = Some p"
    using find_distinct [of pr_name procs p] assms(1,2) by (simp add: table_wf_def n)
  then have c: "cmdline_of procs pid = pr_cmdline p" by (simp add: cmdline_of_def)
  have "hd (argv_of p) = argv_of p ! 0" using d by (intro hd_conv_nth) auto
  then show ?thesis using d c by (auto simp: pid_alive_def argv_of_def Let_def)
qed

lemma first_daemon_Some:
  "first_daemon h ps = Some (pid, d) \<Longrightarrow> \<exists>parts. (pid, parts) \<in> set ps \<and> dir_of_proc h parts = Some d"
  by (induction h ps rule: first_daemon.induct) (auto split: option.splits)

lemma find_foreground_Some:
  assumes "find_foreground_in h own procs want = Some pid"
  shows "\<exists>p \<in> set procs. daemon_proc own p = Some (pid, argv_of p) \<and> dir_of_proc h (argv_of p) = Some want"
proof -
  obtain parts where "(pid, parts) \<in> set (keep_at_daemon_procs own procs)" "dir_of_proc h parts = Some want"
    using assms by (auto simp: find_foreground_in_def dest!: find_mem)
  then show ?thesis by (auto simp: keep_at_daemon_procs_def map_filter_mem daemon_proc_Some)
qed

lemma daemon_status_Some:
  assumes "daemon_status v dir = Some pid"
  shows "read_pid (vw_pids v) dir = Some pid \<and> pid_alive (vw_procs v) pid \<or>
    (\<exists>p \<in> set (vw_procs v). daemon_proc (vw_own v) p = Some (pid, argv_of p) \<and> dir_of_proc (vw_host v) (argv_of p) = Some dir)"
  using assms find_foreground_Some by (fastforce simp: daemon_status_def split: option.splits if_splits)

lemma stop_target_Some:
  assumes "stop_target v args dir = Some pid"
  shows "daemon_status v dir = Some pid \<or>
    ca_data_dir args = None \<and> ca_config args = None \<and> pid_alive (vw_procs v) pid \<and>
      (\<exists>p \<in> set (vw_procs v). daemon_proc (vw_own v) p = Some (pid, argv_of p))"
proof (cases "daemon_status v dir")
  case None
  with assms obtain d where f: "find_any_daemon_in (vw_host v) (vw_own v) (vw_procs v) = Some (pid, d)"
    and a: "ca_data_dir args = None" "ca_config args = None" "pid_alive (vw_procs v) pid"
    by (auto simp: stop_target_def split: if_splits option.splits prod.splits)
  from first_daemon_Some [OF f [unfolded find_any_daemon_in_def]]
  show ?thesis using a by (auto simp: keep_at_daemon_procs_def map_filter_mem daemon_proc_Some)
qed (use assms in \<open>simp add: stop_target_def\<close>)

lemma wait_exit_bounds: "i \<le> wait_exit alive i n \<and> wait_exit alive i n \<le> i + n"
proof (induction n arbitrary: i)
  case (Suc n)
  from Suc.IH [of "Suc i"] show ?case by simp
qed simp

lemma logging_to_file_dir [simp]: "cfg_data_dir (logging_to_file cfg) = cfg_data_dir cfg"
  by (simp add: logging_to_file_def)

lemma cmd_start_saved:
  assumes "cmd_start fg ct dir_ok key_ok cfg_ok exe_ok spawned cfg fs = (Spawned argv pid, fs')"
  shows "argv = [''run'', ''--config'', path_join (cfg_data_dir cfg) ''config.resolved.yaml''] \<and>
    cf_config fs' = Some ((logging_to_file cfg)\<lparr>cfg_api_key := []\<rparr>, 420)"
  using assms
  by (auto simp: cmd_start_def Let_def config_save_def write_api_key_file_def split: if_splits sum.splits prod.splits option.splits)

section \<open>Properties\<close>

text \<open>C31. \<open>stop\<close> never signals a bystander: at most one process is signalled, it is a live keep-at process, and when
  a directory or a configuration was named it is the one of the pid file there or a daemon whose own arguments name
  that directory.  It reports success only for a process found gone, and touches the pid file only then.\<close>

theorem stop_signals_only:
  assumes "cmd_stop v args kill alive removed = (r, signalled, pids)" "table_wf (vw_procs v)"
  shows "length signalled \<le> 1 \<and>
    (\<forall>pid \<in> set signalled. pid_alive (vw_procs v) pid \<and>
      (ca_data_dir args \<noteq> None \<or> ca_config args \<noteq> None \<longrightarrow>
        (\<exists>dir. resolve_data_dir (vw_host v) args = Inr dir \<and>
          (read_pid (vw_pids v) dir = Some pid \<or>
           (\<exists>p \<in> set (vw_procs v). daemon_proc (vw_own v) p = Some (pid, argv_of p) \<and> dir_of_proc (vw_host v) (argv_of p) = Some dir))))) \<and>
    (case r of Stopped pid \<Rightarrow> signalled = [pid] \<and> (\<exists>i \<le> 60. \<not> alive pid i) | _ \<Rightarrow> pids = vw_pids v)"
proof (cases "\<exists>dir pid. resolve_data_dir (vw_host v) args = Inr dir \<and> stop_target v args dir = Some pid")
  case False
  then have "signalled = [] \<and> pids = vw_pids v \<and> (\<forall>pid. r \<noteq> Stopped pid)"
    using assms(1) by (auto simp: cmd_stop_def split: sum.splits option.splits)
  then show ?thesis by (simp split: stop_outcome.split)
next
  case True
  then obtain dir pid where d: "resolve_data_dir (vw_host v) args = Inr dir" "stop_target v args dir = Some pid" by blast
  have s: "signalled = [pid]" using assms(1) d by (auto simp: cmd_stop_def split: if_splits)
  have k: "pid_alive (vw_procs v) pid"
    using stop_target_Some [OF d(2)] daemon_status_Some daemon_proc_alive [OF assms(2)] by blast
  have n: "wait_exit (alive pid) 0 60 \<le> 60" using wait_exit_bounds [of 0 "alive pid" 60] by simp
  have r: "case r of Stopped pid' \<Rightarrow> pid' = pid \<and> (\<exists>i \<le> 60. \<not> alive pid i) | _ \<Rightarrow> pids = vw_pids v"
    using assms(1) d n by (auto simp: cmd_stop_def split: if_splits)
  have e: "ca_data_dir args \<noteq> None \<or> ca_config args \<noteq> None \<longrightarrow> daemon_status v dir = Some pid"
    using stop_target_Some [OF d(2)] by auto
  show ?thesis using s k r e d(1) daemon_status_Some [of v dir pid] by (auto split: stop_outcome.splits)
qed

text \<open>The scan finds what is there: when some process is a keep-at daemon whose arguments name the directory,
  \<open>status\<close> reports a live process, whatever else is in the table and whether or not the pid file is stale.\<close>

theorem status_complete:
  assumes "table_wf (vw_procs v)" "p \<in> set (vw_procs v)" "daemon_proc (vw_own v) p = Some (pid, parts)"
    and "dir_of_proc (vw_host v) parts = Some dir"
  shows "\<exists>pid'. daemon_status v dir = Some pid' \<and> pid_alive (vw_procs v) pid'"
proof -
  have "(pid, parts) \<in> set (keep_at_daemon_procs (vw_own v) (vw_procs v))"
    using assms(2,3) by (auto simp: keep_at_daemon_procs_def map_filter_mem)
  then have "find_foreground_in (vw_host v) (vw_own v) (vw_procs v) dir \<noteq> None"
    using assms(4) by (auto simp: find_foreground_in_def find_None_iff)
  then have "daemon_status v dir \<noteq> None" by (auto simp: daemon_status_def split: option.split)
  then obtain pid' where "daemon_status v dir = Some pid'" by blast
  then show ?thesis using daemon_status_Some daemon_proc_alive [OF assms(1)] by blast
qed


section \<open>Examples\<close>

text \<open>A table with a kernel file, another program and a daemon started by flags.\<close>

definition daemon_argv :: "string list" where
  "daemon_argv = [''/usr/local/bin/keep-at'', ''run'', ''--data-dir=/srv/k'', '''']"

definition daemon_entry :: process where
  "daemon_entry = \<lparr>pr_name = ''42'', pr_cmdline = join [CHR 0x00] daemon_argv\<rparr>"

definition sample_view :: view where
  "sample_view = \<lparr>vw_host = op_host, vw_own = 9, vw_procs = [\<lparr>pr_name = ''acpi'', pr_cmdline = []\<rparr>,
      \<lparr>pr_name = ''7'', pr_cmdline = ''bash''\<rparr>, daemon_entry], vw_pids = (\<lambda>_. None)\<rparr>"

lemma sample_table: "table_wf (vw_procs sample_view)"
proof -
  have "show_nat 7 = ''7''" "show_nat 42 = ''42''" by code_simp+
  moreover have "parse_u32 ''acpi'' = None" "parse_u32 ''7'' = Some 7" "parse_u32 ''42'' = Some 42"
    by (simp_all add: parse_u32_def is_ascii_digit_def read_nat_def digit_val_def code_def)
  ultimately show ?thesis by (auto simp: table_wf_def sample_view_def daemon_entry_def)
qed

lemma sample_daemon: "daemon_proc 9 daemon_entry = Some (42, daemon_argv)" "dir_of_proc op_host daemon_argv = Some ''/srv/k''"
proof -
  have "parse_u32 ''42'' = Some 42" by (simp add: parse_u32_def is_ascii_digit_def read_nat_def digit_val_def code_def)
  moreover have "is_keep_at_argv0 ''/usr/local/bin/keep-at''" by code_simp
  moreover have "split_on CHR 0x00 (join [CHR 0x00] daemon_argv) = daemon_argv"
    unfolding daemon_argv_def by (rule split_on_join) auto
  moreover have "join [CHR 0x00] daemon_argv \<noteq> []" by (simp add: daemon_argv_def)
  ultimately show "daemon_proc 9 daemon_entry = Some (42, daemon_argv)"
    by (simp add: daemon_proc_def argv_of_def daemon_entry_def) (simp add: daemon_argv_def)
  show "dir_of_proc op_host daemon_argv = Some ''/srv/k''"
    by (simp add: dir_of_proc_def data_dir_and_config_from_argv_def strip_prefix_def starts_with_def daemon_argv_def)
qed

theorem status_complete_witness:
  "\<exists>pid'. daemon_status sample_view ''/srv/k'' = Some pid' \<and> pid_alive (vw_procs sample_view) pid'"
  by (rule status_complete [OF sample_table, of daemon_entry 42 daemon_argv])
    (use sample_daemon in \<open>simp_all add: sample_view_def\<close>)

theorem stop_signals_only_witness:
  "fst (snd (cmd_stop sample_view \<lparr>ca_config = None, ca_data_dir = Some ''/srv/k''\<rparr> (\<lambda>_. KillOk) (\<lambda>_ _. False) True)) = [42] \<and>
   pid_alive (vw_procs sample_view) 42"
proof -
  let ?a = "\<lparr>ca_config = None, ca_data_dir = Some ''/srv/k''\<rparr>"
  obtain r sg pids where c: "cmd_stop sample_view ?a (\<lambda>_. KillOk) (\<lambda>_ _. False) True = (r, sg, pids)" by (metis prod_cases3)
  have "daemon_proc 9 \<lparr>pr_name = ''acpi'', pr_cmdline = []\<rparr> = None" "daemon_proc 9 \<lparr>pr_name = ''7'', pr_cmdline = ''bash''\<rparr> = None"
    by (simp_all add: daemon_proc_def parse_u32_def is_ascii_digit_def read_nat_def digit_val_def code_def argv_of_def)
  then have "keep_at_daemon_procs 9 (vw_procs sample_view) = [(42, daemon_argv)]"
    using sample_daemon(1) by (simp add: keep_at_daemon_procs_def sample_view_def List.map_filter_simps)
  then have "find_foreground_in op_host 9 (vw_procs sample_view) ''/srv/k'' = Some 42"
    using sample_daemon(2) by (simp add: find_foreground_in_def)
  moreover have "vw_host sample_view = op_host" "vw_own sample_view = 9" "vw_pids sample_view = (\<lambda>_. None)" by (simp_all add: sample_view_def)
  ultimately have "daemon_status sample_view ''/srv/k'' = Some 42" by (simp add: daemon_status_def read_pid_def)
  then have "sg = [42]" using c by (auto simp: cmd_stop_def resolve_data_dir_def stop_target_def)
  then show ?thesis using stop_signals_only [OF c sample_table] c by simp
qed

definition started_files :: config_files where
  "started_files = \<lparr>cf_config = Some ((logging_to_file sample_config)\<lparr>cfg_api_key := []\<rparr>, 420),
     cf_key = (if cfg_api_key sample_config = [] then None else Some (cfg_api_key sample_config @ [CHR 0x0A], 384))\<rparr>"

lemma sample_start:
  "cmd_start False False True True True True (Some 77) sample_config \<lparr>cf_config = None, cf_key = None\<rparr> =
     (Spawned [''run'', ''--config'', path_join (cfg_data_dir sample_config) ''config.resolved.yaml''] 77, started_files)"
  by (simp add: cmd_start_def logging_to_file_def config_save_def write_api_key_file_def Let_def started_files_def)


end
