(* ===== verification/Atomic_Write.thy ===== *)
theory Atomic_Write
  imports Text "HOL-Library.Word"
begin

text \<open>
  The file writes of \<open>src/config.rs\<close>: \<open>atomic_write_mode\<close>, which every state, cache and configuration save goes
  through, over a file system that can lose power, and \<open>ensure_shared_dirs\<close>.

  The disk keeps what processes see and what a crash may leave: the directory entries a path has had since the
  directory was last synced, newest first, any of which may be the one on the platter, and for each dnode
  whether its data blocks are flushed; the content of one that is not is unspecified after a crash.
\<close>

unbundle bit_operations_syntax

section \<open>The disk\<close>

type_synonym mode = "32 word"

record dnode =
  no_data :: string
  no_mode :: mode
  no_synced :: bool

record platter =
  dk_entries :: "string \<Rightarrow> nat option list"
  dk_inodes :: "nat \<Rightarrow> dnode"
  dk_next :: nat
  dk_umask :: mode

definition dk_name :: "platter \<Rightarrow> string \<Rightarrow> nat option" where
  "dk_name d path = (case dk_entries d path of e # _ \<Rightarrow> e | [] \<Rightarrow> None)"

definition dk_read :: "platter \<Rightarrow> string \<Rightarrow> (string \<times> mode) option" where
  "dk_read d path = map_option (\<lambda>i. (no_data (dk_inodes d i), no_mode (dk_inodes d i))) (dk_name d path)"

definition dk_link :: "string \<Rightarrow> nat option \<Rightarrow> platter \<Rightarrow> platter" where
  "dk_link path e d = d\<lparr>dk_entries := (dk_entries d)(path := e # dk_entries d path)\<rparr>"

definition dk_modify :: "nat \<Rightarrow> (dnode \<Rightarrow> dnode) \<Rightarrow> platter \<Rightarrow> platter" where
  "dk_modify i f d = d\<lparr>dk_inodes := (dk_inodes d)(i := f (dk_inodes d i))\<rparr>"

text \<open>\<open>O_CREAT | O_TRUNC\<close>: the dnode it opens and the disk after it; a new file gets 0666 less the umask.\<close>

definition dk_create :: "string \<Rightarrow> platter \<Rightarrow> nat \<times> platter" where
  "dk_create path d = (case dk_name d path of
      Some i \<Rightarrow> (i, dk_modify i (\<lambda>n. n\<lparr>no_data := [], no_synced := False\<rparr>) d)
    | None \<Rightarrow> (dk_next d, dk_link path (Some (dk_next d))
        (dk_modify (dk_next d) (\<lambda>_. \<lparr>no_data = [], no_mode = 438 AND NOT (dk_umask d), no_synced = False\<rparr>)
          (d\<lparr>dk_next := Suc (dk_next d)\<rparr>))))"

text \<open>\<open>std::fs::write\<close>, of which the first bytes may be all that gets written; on an existing file and by path
  \<open>set_permissions\<close> and \<open>sync_all\<close>; \<open>rename\<close>; \<open>sync_all\<close> of the directory.\<close>

definition dk_write :: "string \<Rightarrow> string \<Rightarrow> platter \<Rightarrow> platter" where
  "dk_write path written d = (case dk_create path d of (i, d) \<Rightarrow> dk_modify i (\<lambda>n. n\<lparr>no_data := written\<rparr>) d)"

definition dk_chmod :: "string \<Rightarrow> mode \<Rightarrow> platter \<Rightarrow> platter" where
  "dk_chmod path m d = (case dk_name d path of Some i \<Rightarrow> dk_modify i (\<lambda>n. n\<lparr>no_mode := m\<rparr>) d | None \<Rightarrow> d)"

definition dk_fsync :: "string \<Rightarrow> platter \<Rightarrow> platter" where
  "dk_fsync path d = (case dk_name d path of Some i \<Rightarrow> dk_modify i (\<lambda>n. n\<lparr>no_synced := True\<rparr>) d | None \<Rightarrow> d)"

definition dk_rename :: "string \<Rightarrow> string \<Rightarrow> platter \<Rightarrow> platter" where
  "dk_rename from to d = dk_link from None (dk_link to (dk_name d from) d)"

definition dk_sync_dir :: "platter \<Rightarrow> platter" where
  "dk_sync_dir d = d\<lparr>dk_entries := (\<lambda>path. [dk_name d path])\<rparr>"

text \<open>What reading a path may give after a power loss.\<close>

definition survives :: "platter \<Rightarrow> string \<Rightarrow> string option \<Rightarrow> bool" where
  "survives d path c \<longleftrightarrow> list_ex (\<lambda>e. case e of
      None \<Rightarrow> c = None
    | Some i \<Rightarrow> if no_synced (dk_inodes d i) then c = Some (no_data (dk_inodes d i)) else c \<noteq> None) (dk_entries d path)"

section \<open>The write\<close>

datatype write_step = MakeDirs | WriteTmp | ChmodTmp | SyncTmp | RenameTmp | SyncDir | ChmodTarget

definition tmp_of :: "string \<Rightarrow> string" where
  "tmp_of path = path @ ''.tmp''"

text \<open>The effect of a step that succeeds, and what a failing one may leave: a write a prefix of the data.\<close>

definition step_done :: "string \<Rightarrow> string \<Rightarrow> mode \<Rightarrow> write_step \<Rightarrow> platter \<Rightarrow> platter" where
  "step_done path data m st d = (case st of
      MakeDirs \<Rightarrow> d
    | WriteTmp \<Rightarrow> dk_write (tmp_of path) data d
    | ChmodTmp \<Rightarrow> dk_chmod (tmp_of path) m d
    | SyncTmp \<Rightarrow> dk_fsync (tmp_of path) d
    | RenameTmp \<Rightarrow> dk_rename (tmp_of path) path d
    | SyncDir \<Rightarrow> dk_sync_dir d
    | ChmodTarget \<Rightarrow> dk_chmod path m d)"

definition step_failed :: "nat \<Rightarrow> string \<Rightarrow> string \<Rightarrow> write_step \<Rightarrow> platter \<Rightarrow> platter" where
  "step_failed k path data st d = (case st of WriteTmp \<Rightarrow> dk_write (tmp_of path) (take k data) d | _ \<Rightarrow> d)"

text \<open>The sequence: the error and every disk it passes through.  The last two steps are best effort.\<close>

fun run_write :: "(write_step \<Rightarrow> bool) \<Rightarrow> nat \<Rightarrow> string \<Rightarrow> string \<Rightarrow> mode \<Rightarrow> write_step list \<Rightarrow> platter \<Rightarrow> write_step option \<times> platter list" where
  "run_write okay k path data m [] d = (None, [d])"
| "run_write okay k path data m (st # steps) d =
     (if okay st
      then (case run_write okay k path data m steps (step_done path data m st d) of (r, ds) \<Rightarrow> (r, d # ds))
      else if st \<in> {SyncDir, ChmodTarget}
      then (case run_write okay k path data m steps d of (r, ds) \<Rightarrow> (r, d # ds))
      else (Some st, [d, step_failed k path data st d]))"

definition atomic_write_mode :: "(write_step \<Rightarrow> bool) \<Rightarrow> nat \<Rightarrow> string \<Rightarrow> string \<Rightarrow> mode \<Rightarrow> platter \<Rightarrow> write_step option \<times> platter list" where
  "atomic_write_mode okay k path data m d =
     run_write okay k path data m [MakeDirs, WriteTmp, ChmodTmp, SyncTmp, RenameTmp, SyncDir, ChmodTarget] d"

definition atomic_write :: "(write_step \<Rightarrow> bool) \<Rightarrow> nat \<Rightarrow> string \<Rightarrow> string \<Rightarrow> platter \<Rightarrow> write_step option \<times> platter list" where
  "atomic_write okay k path data d = atomic_write_mode okay k path data 420 d"

text \<open>A history of writes to one file, each with its own faults; the disk after them.\<close>

fun saves :: "string \<Rightarrow> mode \<Rightarrow> ((write_step \<Rightarrow> bool) \<times> nat \<times> string) list \<Rightarrow> platter \<Rightarrow> platter" where
  "saves path m [] d = d"
| "saves path m ((okay, k, data) # ws) d = saves path m ws (last (snd (atomic_write_mode okay k path data m d)))"

section \<open>Shared directories\<close>

definition ensure_shared_dirs :: "bool \<Rightarrow> string \<Rightarrow> (string \<Rightarrow> mode option) \<Rightarrow> (string \<Rightarrow> mode option)" where
  "ensure_shared_dirs chmod_ok dir modes = (case modes dir of
      None \<Rightarrow> modes
    | Some m \<Rightarrow> (let mode = m AND 511; fixed = mode OR 493
                 in if fixed \<noteq> mode \<and> chmod_ok then modes(dir \<mapsto> fixed) else modes))"

section \<open>Lemmas\<close>

text \<open>The inodes in use lie below the counter, and the temporary file shares none with the target.\<close>

definition platter_wf :: "string \<Rightarrow> platter \<Rightarrow> bool" where
  "platter_wf path d \<longleftrightarrow> dk_entries d path \<noteq> [] \<and>
     (\<forall>q i. Some i \<in> set (dk_entries d q) \<longrightarrow> i < dk_next d) \<and>
     (\<forall>i. dk_name d (tmp_of path) = Some i \<longrightarrow> Some i \<notin> set (dk_entries d path))"

definition settled :: "string \<Rightarrow> platter \<Rightarrow> bool" where
  "settled path d \<longleftrightarrow> (\<forall>i. Some i \<in> set (dk_entries d path) \<longrightarrow> no_synced (dk_inodes d i))"

lemma tmp_of_neq [simp]: "tmp_of path \<noteq> path" "path \<noteq> tmp_of path"
  by (simp_all add: tmp_of_def)

lemmas dk_defs = dk_name_def dk_link_def dk_modify_def dk_create_def dk_write_def dk_chmod_def dk_fsync_def dk_rename_def

lemma dk_name_mem: "dk_name d q = Some k \<Longrightarrow> Some k \<in> set (dk_entries d q)"
  by (auto simp: dk_name_def split: list.splits)

text \<open>Before the rename a step works on the temporary file only.\<close>

definition target_kept :: "string \<Rightarrow> platter \<Rightarrow> platter \<Rightarrow> bool" where
  "target_kept path d d' \<longleftrightarrow> dk_entries d' path = dk_entries d path \<and>
     (\<forall>i. Some i \<in> set (dk_entries d path) \<longrightarrow> dk_inodes d' i = dk_inodes d i)"

lemma target_kept_survives:
  assumes "target_kept path d d'"
  shows "survives d' path c = survives d path c"
  using assms unfolding survives_def target_kept_def list_ex_iff by (auto intro!: bex_cong split: option.split)

lemma target_kept_trans: "target_kept path d1 d2 \<Longrightarrow> target_kept path d2 d3 \<Longrightarrow> target_kept path d1 d3"
  by (simp add: target_kept_def)

lemma target_kept_read: "target_kept path d d' \<Longrightarrow> dk_entries d path \<noteq> [] \<Longrightarrow> dk_read d' path = dk_read d path"
  by (cases "dk_entries d path"; cases "hd (dk_entries d path)") (auto simp: target_kept_def dk_read_def dk_name_def)

lemma target_kept_settled: "target_kept path d d' \<Longrightarrow> settled path d' = settled path d"
  by (auto simp: target_kept_def settled_def)

text \<open>What the steps before the rename keep and establish.\<close>

lemma write_tmp:
  assumes "platter_wf path d"
  shows "target_kept path d (dk_write (tmp_of path) s d) \<and> platter_wf path (dk_write (tmp_of path) s d) \<and>
    (\<exists>i. dk_name (dk_write (tmp_of path) s d) (tmp_of path) = Some i \<and> no_data (dk_inodes (dk_write (tmp_of path) s d) i) = s)"
proof (cases "dk_name d (tmp_of path)")
  case None
  have n: "dk_next d \<noteq> i" if "Some i \<in> set (dk_entries d path)" for i using assms that by (auto simp: platter_wf_def)
  have "Some (dk_next d) \<notin> set (dk_entries d q)" for q using assms by (auto simp: platter_wf_def)
  then show ?thesis using assms None n
    by (fastforce simp: target_kept_def platter_wf_def dk_write_def dk_create_def dk_link_def dk_modify_def dk_name_def less_SucI)
next
  case (Some i)
  then have "Some i \<notin> set (dk_entries d path)" using assms by (auto simp: platter_wf_def)
  then show ?thesis using assms Some
    by (fastforce simp: target_kept_def platter_wf_def dk_write_def dk_create_def dk_modify_def dk_name_def)
qed

lemma modify_tmp:
  assumes "platter_wf path d" "dk_name d (tmp_of path) = Some i"
  shows "target_kept path d (dk_modify i f d) \<and> platter_wf path (dk_modify i f d)"
  using assms by (auto simp: target_kept_def platter_wf_def dk_modify_def dk_name_def)

lemma chmod_tmp: "platter_wf path d \<Longrightarrow> target_kept path d (dk_chmod (tmp_of path) m d) \<and> platter_wf path (dk_chmod (tmp_of path) m d)"
  using modify_tmp [of path d] by (auto simp: dk_chmod_def target_kept_def split: option.split)

lemma fsync_tmp: "platter_wf path d \<Longrightarrow> target_kept path d (dk_fsync (tmp_of path) d) \<and> platter_wf path (dk_fsync (tmp_of path) d)"
  using modify_tmp [of path d] by (auto simp: dk_fsync_def target_kept_def split: option.split)

text \<open>Disks at which the target still has its old fate, and ones at which the new content has joined it.\<close>

definition before :: "string \<Rightarrow> platter \<Rightarrow> platter \<Rightarrow> bool" where
  "before path d d' \<longleftrightarrow> target_kept path d d' \<and> platter_wf path d'"

definition after :: "string \<Rightarrow> string \<Rightarrow> mode \<Rightarrow> platter \<Rightarrow> platter \<Rightarrow> bool" where
  "after path data m d d' \<longleftrightarrow> platter_wf path d' \<and> dk_read d' path = Some (data, m) \<and>
     (settled path d \<longrightarrow> settled path d') \<and> (\<forall>c. survives d' path c \<longrightarrow> survives d path c \<or> c = Some data)"

lemma before_after_survives: "before path d d' \<or> after path data m d d' \<Longrightarrow> survives d' path c \<Longrightarrow> survives d path c \<or> c = Some data"
  by (auto simp: before_def after_def target_kept_survives)

lemma rename_after:
  assumes "before path d d'" "dk_name d' (tmp_of path) = Some i"
    and "dk_inodes d' i = \<lparr>no_data = data, no_mode = m, no_synced = True\<rparr>"
  shows "after path data m d (dk_rename (tmp_of path) path d')"
proof -
  let ?d = "dk_rename (tmp_of path) path d'"
  have wf: "platter_wf path d'" and kept: "target_kept path d d'" using assms(1) by (auto simp: before_def)
  have e: "dk_entries ?d path = Some i # dk_entries d' path" "dk_inodes ?d = dk_inodes d'"
    using assms(2) by (auto simp: dk_rename_def dk_link_def)
  have lt: "i < dk_next d'" using wf dk_name_mem [OF assms(2)] by (auto simp: platter_wf_def)
  have "platter_wf path ?d"
    using wf lt assms(2) by (auto simp: platter_wf_def dk_rename_def dk_link_def dk_name_def)
  moreover have "survives ?d path c \<Longrightarrow> c = Some data \<or> survives d' path c" for c
    unfolding survives_def e using assms(3) by (auto split: if_splits)
  then have "\<forall>c. survives ?d path c \<longrightarrow> survives d path c \<or> c = Some data"
    using target_kept_survives [OF kept] by blast
  moreover have "settled path d \<longrightarrow> settled path ?d"
    using e assms(3) kept by (auto simp: settled_def target_kept_def)
  ultimately show ?thesis
    using e assms(3) by (simp add: after_def dk_read_def dk_name_def)
qed

lemma sync_dir_after:
  assumes "after path data m d d'" shows "after path data m d (dk_sync_dir d')"
proof -
  have n: "dk_name (dk_sync_dir d') q = dk_name d' q" for q by (simp add: dk_sync_dir_def dk_name_def)
  have i: "dk_inodes (dk_sync_dir d') = dk_inodes d'" "dk_next (dk_sync_dir d') = dk_next d'" by (simp_all add: dk_sync_dir_def)
  have h: "dk_entries d' path \<noteq> []" using assms by (auto simp: after_def platter_wf_def)
  have sub: "set (dk_entries (dk_sync_dir d') path) \<subseteq> set (dk_entries d' path)"
    using h by (cases "dk_entries d' path") (auto simp: dk_sync_dir_def dk_name_def)
  have lt: "dk_name d' q = Some k \<Longrightarrow> k < dk_next d'" for k q
    using assms dk_name_mem [of d' q k] by (auto simp: after_def platter_wf_def)
  have ne: "dk_entries (dk_sync_dir d') q = [dk_name d' q]" for q by (simp add: dk_sync_dir_def)
  have "platter_wf path (dk_sync_dir d')"
    using assms sub unfolding after_def platter_wf_def n i by (auto simp: ne lt [OF sym])
  moreover have "survives (dk_sync_dir d') path c \<Longrightarrow> survives d' path c" for c
    using sub unfolding survives_def i list_ex_iff by blast
  moreover have "settled path d' \<Longrightarrow> settled path (dk_sync_dir d')" using sub by (auto simp: settled_def i)
  ultimately show ?thesis using assms by (auto simp: after_def dk_read_def n i)
qed

lemma chmod_same:
  assumes "after path data m d d'" shows "dk_chmod path m d' = d'"
proof -
  obtain i where i: "dk_name d' path = Some i" "no_data (dk_inodes d' i) = data" "no_mode (dk_inodes d' i) = m"
    using assms by (auto simp: after_def dk_read_def)
  then show ?thesis by (simp add: dk_chmod_def dk_modify_def) (simp flip: i(3))
qed

lemma sync_dir_durable:
  assumes "after path data m d d'" "settled path d" "survives (dk_sync_dir d') path c"
  shows "c = Some data"
proof -
  obtain i where i: "dk_name d' path = Some i" "no_data (dk_inodes d' i) = data"
    using assms(1) by (auto simp: after_def dk_read_def)
  then have "no_synced (dk_inodes d' i)"
    using assms(1,2) dk_name_mem [OF i(1)] by (auto simp: after_def settled_def)
  then show ?thesis using assms(3) i by (simp add: survives_def dk_sync_dir_def)
qed

lemma full_tmp:
  assumes "platter_wf path d"
    and d3: "d3 = dk_fsync (tmp_of path) (dk_chmod (tmp_of path) m (dk_write (tmp_of path) data d))"
  shows "\<exists>i. dk_name d3 (tmp_of path) = Some i \<and> dk_inodes d3 i = \<lparr>no_data = data, no_mode = m, no_synced = True\<rparr>"
proof -
  obtain i where "dk_name (dk_write (tmp_of path) data d) (tmp_of path) = Some i"
    "no_data (dk_inodes (dk_write (tmp_of path) data d) i) = data" using write_tmp [OF assms(1)] by blast
  then show ?thesis unfolding d3 by (intro exI [of _ i]) (simp add: dk_fsync_def dk_chmod_def dk_modify_def dk_name_def)
qed

lemma atomic_write_states:
  assumes "platter_wf path d" "atomic_write_mode okay k path data m d = (r, ds)"
  shows "(\<forall>d' \<in> set ds. before path d d' \<or> after path data m d d') \<and>
    (case r of None \<Rightarrow> after path data m d (last ds) | Some _ \<Rightarrow> before path d (last ds)) \<and>
    (r = None \<and> okay SyncDir \<and> settled path d \<longrightarrow> (\<forall>c. survives (last ds) path c \<longrightarrow> c = Some data))"
proof -
  define d1 d2 d3 d4 where "d1 = dk_write (tmp_of path) data d" and "d2 = dk_chmod (tmp_of path) m d1"
    and "d3 = dk_fsync (tmp_of path) d2" and "d4 = dk_rename (tmp_of path) path d3"
  have b: "before path d d" using assms(1) by (simp add: before_def target_kept_def)
  have w: "before path d (dk_write (tmp_of path) s d)" for s using write_tmp [OF assms(1)] by (simp add: before_def)
  have b1: "before path d d1" unfolding d1_def by (rule w)
  have b2: "before path d d2" unfolding d2_def using b1 chmod_tmp target_kept_trans by (fastforce simp: before_def)
  have b3: "before path d d3" unfolding d3_def using b2 fsync_tmp target_kept_trans by (fastforce simp: before_def)
  have a4: "after path data m d d4"
    unfolding d4_def using full_tmp [OF assms(1), of d3 m data] rename_after [OF b3] by (auto simp: d3_def d2_def d1_def)
  note a5 = sync_dir_after [OF a4]
  note steps = step_done_def d1_def [symmetric] d2_def [symmetric] d3_def [symmetric] d4_def [symmetric]
  show ?thesis
    using assms(2) b w b1 b2 b3 a4 a5 chmod_same [OF a4] chmod_same [OF a5] sync_dir_durable [OF a4]
    unfolding atomic_write_mode_def
    by (auto simp: steps step_failed_def split: if_splits) 
qed

text \<open>The contract of one write.\<close>

lemma atomic_write_crash_safe_core:
  assumes "platter_wf path d" "settled path d" "atomic_write_mode okay k path data m d = (r, ds)"
  shows "(\<forall>d' \<in> set ds. \<forall>c. survives d' path c \<longrightarrow> survives d path c \<or> c = Some data) \<and>
    (case r of
       None \<Rightarrow> dk_read (last ds) path = Some (data, m) \<and> (okay SyncDir \<longrightarrow> (\<forall>c. survives (last ds) path c \<longrightarrow> c = Some data))
     | Some _ \<Rightarrow> dk_read (last ds) path = dk_read d path) \<and>
    platter_wf path (last ds) \<and> settled path (last ds)"
proof -
  note st = atomic_write_states [OF assms(1,3)]
  have c: "\<forall>d' \<in> set ds. \<forall>c. survives d' path c \<longrightarrow> survives d path c \<or> c = Some data"
    using st before_after_survives by blast
  have ne: "dk_entries d path \<noteq> []" using assms(1) by (simp add: platter_wf_def)
  show ?thesis
  proof (cases r)
    case None
    then show ?thesis using st c assms(2) by (auto simp: after_def)
  next
    case (Some st)
    then have b: "before path d (last ds)" using st by auto
    then show ?thesis
      using c Some assms(2) target_kept_read [OF _ ne] target_kept_settled by (auto simp: before_def)
  qed
qed

text \<open>Histories of writes.\<close>

lemma saves_never_tear_core:
  assumes "platter_wf path d" "settled path d" "survives (saves path m ws d) path c"
  shows "survives d path c \<or> c \<in> (\<lambda>(okay, k, data). Some data) ` set ws"
  using assms
proof (induction path m ws d rule: saves.induct)
  case (2 path m okay k data ws d)
  obtain r ds where w: "atomic_write_mode okay k path data m d = (r, ds)" by fastforce
  then have ne: "ds \<noteq> []" by (auto simp: atomic_write_mode_def split: if_splits prod.splits)
  note s = atomic_write_crash_safe_core [OF 2(2,3) w]
  have "survives (saves path m ws (last ds)) path c" using 2(4) w by simp
  then have "survives (last ds) path c \<or> c \<in> (\<lambda>(okay, k, data). Some data) ` set ws"
    using 2(1) s w by (metis snd_conv)
  then show ?case using s last_in_set [OF ne] by force
qed simp

section \<open>Properties\<close>

text \<open>C34. A write through \<open>atomic_write_mode\<close> is all or nothing, for the processes that look on and across a power
  loss: at every disk it passes through, whichever step fails, a crash leaves what it could have left before or
  the complete new content; an error leaves the target as it was, success leaves the new content with its mode,
  durably once the directory is synced; and the next write starts from as good a disk.\<close>

theorem atomic_write_crash_safe:
  assumes "platter_wf path d" "settled path d" "atomic_write_mode okay k path data m d = (r, ds)"
  shows "(\<forall>d' \<in> set ds. \<forall>c. survives d' path c \<longrightarrow> survives d path c \<or> c = Some data) \<and>
    (case r of
       None \<Rightarrow> dk_read (last ds) path = Some (data, m) \<and> (okay SyncDir \<longrightarrow> (\<forall>c. survives (last ds) path c \<longrightarrow> c = Some data))
     | Some _ \<Rightarrow> dk_read (last ds) path = dk_read d path) \<and>
    platter_wf path (last ds) \<and> settled path (last ds)"
  by (rule atomic_write_crash_safe_core [OF assms])

text \<open>However many saves of a file succeed, fail half-way or lose power after, what is found at its path is the
  complete content of one of them or what was there at first.\<close>

theorem saves_never_tear:
  assumes "platter_wf path d" "settled path d" "survives (saves path m ws d) path c"
  shows "survives d path c \<or> c \<in> (\<lambda>(okay, k, data). Some data) ` set ws"
  by (rule saves_never_tear_core [OF assms])

text \<open>Repairing the data directory makes it traversable for everyone, takes no permission away that it had, and
  touches no other directory, whatever lies above it.\<close>

theorem shared_dirs_traversable:
  assumes "modes dir = Some m"
  shows "(chmod_ok \<longrightarrow> (\<exists>m'. ensure_shared_dirs chmod_ok dir modes dir = Some m' \<and> m' AND 493 = 493 \<and> m AND 511 AND m' = m AND 511)) \<and>
    (\<forall>other. other \<noteq> dir \<longrightarrow> ensure_shared_dirs chmod_ok dir modes other = modes other)"
proof -
  have 1: "(m AND 511 OR 493) AND 493 = 493" by (rule bit_eqI) (auto simp: bit_simps)
  have 2: "m AND 511 AND (m AND 511 OR 493) = m AND 511" by (rule bit_eqI) (auto simp: bit_simps)
  have 3: "m AND 493 = 493" if "m AND 511 OR 493 = m AND 511"
  proof -
    have "(m AND 511) AND 493 = 493" using 1 that by simp
    then show ?thesis by (simp add: and.assoc)
  qed
  have 4: "m AND 511 AND m = m AND 511" by (rule bit_eqI) (auto simp: bit_simps)
  show ?thesis using assms 1 2 3 4 by (auto simp: ensure_shared_dirs_def Let_def)
qed

section \<open>Examples\<close>

definition sample_platter :: platter where
  "sample_platter = \<lparr>dk_entries = (\<lambda>p. if p = ''state.json'' then [Some 0] else []),
     dk_inodes = (\<lambda>_. \<lparr>no_data = ''old'', no_mode = 420, no_synced = True\<rparr>), dk_next = 1, dk_umask = 18\<rparr>"

lemma sample_platter_ok: "platter_wf ''state.json'' sample_platter" "settled ''state.json'' sample_platter"
  by (auto simp: sample_platter_def platter_wf_def settled_def dk_name_def tmp_of_def)

theorem atomic_write_crash_safe_witness:
  "dk_read (last (snd (atomic_write_mode (\<lambda>st. st \<noteq> SyncTmp) 0 ''state.json'' ''new'' 420 sample_platter))) ''state.json'' =
     Some (''old'', 420)"
proof -
  obtain r ds where w: "atomic_write_mode (\<lambda>st. st \<noteq> SyncTmp) 0 ''state.json'' ''new'' 420 sample_platter = (r, ds)" by fastforce
  then have "r = Some SyncTmp" by (auto simp: atomic_write_mode_def)
  then show ?thesis using atomic_write_crash_safe [OF sample_platter_ok w] w by (simp add: sample_platter_def dk_read_def dk_name_def)
qed

theorem saves_never_tear_witness:
  "\<not> survives (saves ''state.json'' 420 [(\<lambda>_. True, 0, ''new'')] sample_platter) ''state.json'' (Some ''ne'')"
proof -
  have "\<not> survives sample_platter ''state.json'' (Some ''ne'')" by (simp add: sample_platter_def survives_def)
  then show ?thesis
    using saves_never_tear [OF sample_platter_ok, of 420 "[(\<lambda>_. True, 0, ''new'')]" "Some ''ne''"] by (auto simp del: saves.simps)
qed

theorem shared_dirs_traversable_witness:
  "ensure_shared_dirs True ''/d'' (\<lambda>p. if p = ''/d'' then Some 448 else Some 448) ''/d'' = Some 493"
  using shared_dirs_traversable [of "\<lambda>p. if p = ''/d'' then Some 448 else Some 448" "''/d''" 448 True]
  by (simp add: ensure_shared_dirs_def)

text \<open>The mode of a secret is set after its data is written: in between it is readable at the temporary path.\<close>

lemma secret_readable_meanwhile:
  "\<exists>d \<in> set (snd (atomic_write_mode okay k ''api_key'' ''secret'' 384 sample_platter)). okay MakeDirs \<and> okay WriteTmp \<longrightarrow>
     dk_read d (tmp_of ''api_key'') = Some (''secret'', 420)"
  by (auto simp: atomic_write_mode_def step_done_def dk_defs dk_read_def sample_platter_def tmp_of_def split: prod.split)

text \<open>The mode is cut to nine bits when it is repaired: a set-group-id directory loses the bit.\<close>

lemma shared_dir_loses_setgid: "ensure_shared_dirs True dir (\<lambda>_. Some 1472) dir = Some 493"
  by (simp add: ensure_shared_dirs_def)

end
