(* ===== verification/Status.thy ===== *)
theory Status
  imports Live Daemon Atomic_Write "HOL-Library.Monad_Syntax"
begin

text \<open>
  The commands that look at a daemon: the client side of the query socket (\<open>query\<close> of \<open>src/live.rs\<close>),
  \<open>status\<close> (\<open>src/status.rs\<close>) and \<open>hosted-torrents\<close> (\<open>src/hosted.rs\<close>).

  A command first decides what to show, from the daemon found, its answer and the files, and then prints it.
  Printing is partial because \<open>human_bytes\<close> is.  The em dash of the source is written \<open>-\<close>.
\<close>

section \<open>The query\<close>

text \<open>What the client meets: the connection, the timeouts, the write, and the line it reads.\<close>

datatype connect_reply = Connected | NoDaemon | ConnectFailed

record client_io =
  ci_connect :: connect_reply
  ci_timeouts :: bool
  ci_written :: bool
  ci_line :: "string option"

text \<open>The answer, and whether a warning was logged.\<close>

definition query :: "(string \<Rightarrow> response option) \<Rightarrow> client_io \<Rightarrow> response option \<times> bool" where
  "query decode io = (case ci_connect io of
      NoDaemon \<Rightarrow> (None, False)
    | ConnectFailed \<Rightarrow> (None, True)
    | Connected \<Rightarrow>
        if \<not> ci_timeouts io \<or> \<not> ci_written io then (None, True)
        else case ci_line io of
            None \<Rightarrow> (None, True)
          | Some resp \<Rightarrow>
              if trim resp = [] then (None, True)
              else case decode resp of Some r \<Rightarrow> (Some r, False) | None \<Rightarrow> (None, True))"

text \<open>\<open>ask\<close> answers a request to the socket of a data directory.  The discovery both commands share: only when nothing
  was named on the command line.\<close>

definition discovered :: "view \<Rightarrow> common_args \<Rightarrow> (string \<Rightarrow> response option) \<Rightarrow> (nat \<times> string \<times> response) option" where
  "discovered v args ask =
     (if ca_data_dir args \<noteq> None \<or> ca_config args \<noteq> None then None
      else case find_any_daemon_in (vw_host v) (vw_own v) (vw_procs v) of
             None \<Rightarrow> None
           | Some (pid, other) \<Rightarrow>
               if \<not> pid_alive (vw_procs v) pid then None
               else case ask other of None \<Rightarrow> None | Some r \<Rightarrow> Some (pid, other, r))"

text \<open>What the daemon's handle answers to a request.\<close>

definition view_of :: "request \<Rightarrow> query_env \<Rightarrow> live_handle \<Rightarrow> response" where
  "view_of req env h = (case req of
      Runtime \<Rightarrow> RuntimeResp (fst (handle_runtime_view env h)) | Held \<Rightarrow> HeldResp (handle_held_view (qe_session env) h))"

section \<open>Status\<close>

datatype headline = BootingAs nat | BootingUnknown | RunningAs nat | DiscoveredAs nat | SocketOnly | NotRunningAtAll

datatype status_body = LiveBody runtime_view | SnapshotBody bool "runtime_stats result"

record status_report =
  sp_headline :: headline
  sp_foreign :: "(string \<times> string) option"
  sp_body :: status_body

definition is_booting :: "response option \<Rightarrow> bool" where
  "is_booting live = (case live of Some (RuntimeResp v) \<Rightarrow> rv_booting v | _ \<Rightarrow> False)"

definition headline_of :: "nat option \<Rightarrow> nat option \<Rightarrow> response option \<Rightarrow> headline" where
  "headline_of st foreign_pid live =
     (if is_booting live
      then (case st of Some pid \<Rightarrow> BootingAs pid
            | None \<Rightarrow> (case foreign_pid of Some pid \<Rightarrow> BootingAs pid | None \<Rightarrow> BootingUnknown))
      else case st of
          Some pid \<Rightarrow> RunningAs pid
        | None \<Rightarrow> (case foreign_pid of
            Some pid \<Rightarrow> DiscoveredAs pid
          | None \<Rightarrow> if live \<noteq> None then SocketOnly else NotRunningAtAll))"

definition cmd_status :: "view \<Rightarrow> common_args \<Rightarrow> (string \<Rightarrow> request \<Rightarrow> response option) \<Rightarrow> (string \<Rightarrow> runtime_stats json_file) \<Rightarrow>
    bool \<Rightarrow> (string \<Rightarrow> mode option) \<Rightarrow> (cli_error + status_report) \<times> (string \<Rightarrow> mode option)" where
  "cmd_status v args ask files chmod_ok modes =
     (case resolve_data_dir (vw_host v) args of
        Inl e \<Rightarrow> (Inl e, modes)
      | Inr dir \<Rightarrow>
          (let st = daemon_status v dir;
               live = ask dir Runtime;
               found = (if st = None \<and> live = None then discovered v args (\<lambda>d. ask d Runtime) else None);
               (live, view_dir, foreign_pid) = (case found of
                   Some (pid, other, r) \<Rightarrow> (Some r, other, Some pid) | None \<Rightarrow> (live, dir, None));
               foreign = (case found of Some (_, other, _) \<Rightarrow> other \<noteq> dir | None \<Rightarrow> False)
           in (Inr \<lparr>sp_headline = headline_of st foreign_pid live,
                    sp_foreign = (if foreign then Some (dir, view_dir) else None),
                    sp_body = (case live of
                        Some (RuntimeResp r) \<Rightarrow> LiveBody r
                      | _ \<Rightarrow> SnapshotBody (st \<noteq> None) (load_runtime (files (path_join view_dir ''runtime-stats.json''))))\<rparr>,
               ensure_shared_dirs chmod_ok dir modes)))"

section \<open>Printing the status\<close>

definition show_headline :: "headline \<Rightarrow> string" where
  "show_headline hl = (case hl of
      BootingAs pid \<Rightarrow> ''keep-at is booting (pid '' @ show_nat pid @ '')''
    | BootingUnknown \<Rightarrow> ''keep-at is booting (pid file missing or stale; live socket answered)''
    | RunningAs pid \<Rightarrow> ''keep-at is running (pid '' @ show_nat pid @ '')''
    | DiscoveredAs pid \<Rightarrow> ''keep-at is running (pid '' @ show_nat pid @ '', discovered via /proc)''
    | SocketOnly \<Rightarrow> ''keep-at is running (pid file missing or stale; live socket answered)''
    | NotRunningAtAll \<Rightarrow> ''keep-at is not running'')"

definition plural :: "nat \<Rightarrow> string" where
  "plural n = (if n = 1 then [] else ''s'')"

definition state_line :: "runtime_view \<Rightarrow> string" where
  "state_line v =
     (let base = (case rv_activity v of
          Booting \<Rightarrow> ''starting up: resuming '' @ show_nat (rv_held_torrents v) @
            '' held torrents (existing data being verified, seeding begins as checks complete)''
        | Scanning \<Rightarrow> ''scanning the Academic Torrents catalog (fetch, scrape, evaluate)''
        | Seeding \<Rightarrow> ''seeding normally'')
      in ''  state: '' @ base @
         (if 0 < rv_checks_in_progress v
          then '' - '' @ show_nat (rv_checks_in_progress v) @ '' integrity check'' @ plural (rv_checks_in_progress v) @ '' running'' else []))"

definition bytes_text :: "nat \<Rightarrow> string option" where
  "bytes_text n = human_bytes (as_i64 n)"

definition share_text :: "nat \<Rightarrow> nat \<Rightarrow> string" where
  "share_text part whole = show_tenths (f_min (f_mul (f_div (f_of_nat part) (f_of_nat whole)) (f_lit 100)) (f_lit 100))"

record numbers =
  nu_held :: nat
  nu_seeding :: nat
  nu_downloading :: nat
  nu_quarantined :: nat
  nu_disk_used :: nat
  nu_disk_limit :: nat
  nu_disk_committed :: nat
  nu_sent :: nat
  nu_received :: nat
  nu_peers :: nat
  nu_rss :: nat

definition disk_line :: "numbers \<Rightarrow> string option" where
  "disk_line n =
     (if nu_disk_limit n = 0 then Some ''  disk: statistics unavailable - will appear once startup completes''
      else do {
        used \<leftarrow> bytes_text (nu_disk_used n);
        committed \<leftarrow> (if 0 < nu_disk_committed n
          then do { c \<leftarrow> bytes_text (nu_disk_committed n);
                    Some ('', '' @ c @ '' committed ('' @ share_text (nu_disk_committed n) (nu_disk_limit n) @ ''%)'') }
          else Some []);
        configured \<leftarrow> bytes_text (nu_disk_limit n);
        Some (''  disk: '' @ used @ '' used ('' @ share_text (nu_disk_used n) (nu_disk_limit n) @ ''%)'' @ committed @
          '', '' @ configured @ '' configured'') })"

definition print_numbers :: "numbers \<Rightarrow> string list option" where
  "print_numbers n = do {
     disk \<leftarrow> disk_line n;
     sent \<leftarrow> bytes_text (nu_sent n);
     received \<leftarrow> bytes_text (nu_received n);
     rss \<leftarrow> (if 0 < nu_rss n then do { r \<leftarrow> bytes_text (nu_rss n); Some [''  memory: '' @ r @ '' RSS''] } else Some []);
     Some ([''  torrents: '' @ show_nat (nu_held n) @ '' held, '' @ show_nat (nu_seeding n) @ '' seeding, '' @
              show_nat (nu_downloading n) @ '' downloading''] @
           (if 0 < nu_quarantined n
            then [''  quarantined: '' @ show_nat (nu_quarantined n) @ '' broken-swarm torrent'' @ plural (nu_quarantined n) @
                  '' (removed, re-probed after cooldown)''] else []) @
           [disk, ''  bandwidth since boot: sent '' @ sent @ '', received '' @ received,
            ''  active peers: '' @ show_nat (nu_peers n)] @ rss) }"

definition live_numbers :: "runtime_view \<Rightarrow> numbers" where
  "live_numbers v = \<lparr>nu_held = rv_held_torrents v, nu_seeding = rv_seeding_torrents v, nu_downloading = rv_downloading_torrents v,
     nu_quarantined = rv_quarantined_torrents v, nu_disk_used = rv_disk_used_bytes v, nu_disk_limit = rv_disk_limit_bytes v,
     nu_disk_committed = rv_disk_committed_bytes v, nu_sent = rv_total_bytes_uploaded v, nu_received = rv_total_bytes_downloaded v,
     nu_peers = rv_active_peers v, nu_rss = rv_process_rss_bytes v\<rparr>"

definition snapshot_numbers :: "runtime_stats \<Rightarrow> numbers" where
  "snapshot_numbers s = \<lparr>nu_held = rs_held_torrents s, nu_seeding = rs_seeding_torrents s, nu_downloading = rs_downloading_torrents s,
     nu_quarantined = rs_quarantined_torrents s, nu_disk_used = rs_disk_used_bytes s, nu_disk_limit = rs_disk_limit_bytes s,
     nu_disk_committed = rs_disk_committed_bytes s, nu_sent = rs_total_bytes_uploaded s, nu_received = rs_total_bytes_downloaded s,
     nu_peers = rs_active_peers s, nu_rss = rs_process_rss_bytes s\<rparr>"

definition print_live :: "runtime_view \<Rightarrow> string list option" where
  "print_live v = do {
     ns \<leftarrow> print_numbers (live_numbers v);
     rates \<leftarrow> (if rv_booting v then Some [] else do {
       uh \<leftarrow> human_bytes_per_sec (rv_upload_bps_hour v);
       ud \<leftarrow> human_bytes_per_sec (rv_upload_bps_day v);
       dh \<leftarrow> human_bytes_per_sec (rv_download_bps_hour v);
       dd \<leftarrow> human_bytes_per_sec (rv_download_bps_day v);
       Some [''  upload rate: '' @ uh @ '' past hour, '' @ ud @ '' past day'',
             ''  download rate: '' @ dh @ '' past hour, '' @ dd @ '' past day''] });
     let up = human_duration (secs (rv_uptime_seconds v));
     Some ([if rv_booting v
            then ''runtime stats (live, booting for '' @ up @ '' - full live counters once startup completes):''
            else ''runtime stats (live, uptime '' @ up @ ''):'', state_line v] @ ns @ rates) }"

definition print_snapshot :: "(instant \<Rightarrow> string) \<Rightarrow> runtime_stats \<Rightarrow> string list option" where
  "print_snapshot format_time s = (case rs_collected_at s of
      None \<Rightarrow> Some []
    | Some t \<Rightarrow> do {
        ns \<leftarrow> print_numbers (snapshot_numbers s);
        Some ((''runtime stats (snapshot from '' @ format_time t @ '', uptime '' @ human_duration (uptime s) @ ''):'') # ns) })"

text \<open>The output, ended by the error of an unreadable snapshot.\<close>

definition print_status :: "(instant \<Rightarrow> string) \<Rightarrow> status_report \<Rightarrow> (string list \<times> unit result) option" where
  "print_status format_time r =
     (let top = show_headline (sp_headline r) # (case sp_foreign r of
            None \<Rightarrow> []
          | Some (dir, other) \<Rightarrow> [''note: resolved data dir is '' @ dir @ '', but the running daemon uses '' @ other @
              '' - pass --data-dir '' @ other @ '' to target it directly''])
      in case sp_body r of
           LiveBody v \<Rightarrow> do { ls \<leftarrow> print_live v; Some (top @ ls, Inr ()) }
         | SnapshotBody silent f \<Rightarrow>
             (let top = top @ (if silent then [''  (live stats unavailable)''] else [])
              in case f of
                   Inl e \<Rightarrow> Some (top, Inl e)
                 | Inr s \<Rightarrow> do { ls \<leftarrow> print_snapshot format_time s; Some (top @ ls, Inr ()) }))"

section \<open>Hosted torrents\<close>

datatype hosted_body = HostedLive held_view | HostedOffline "torrent list result"

definition hosted_source :: "view \<Rightarrow> common_args \<Rightarrow> (string \<Rightarrow> request \<Rightarrow> response option) \<Rightarrow> (string \<Rightarrow> read_outcome) \<Rightarrow>
    bool \<Rightarrow> (string \<Rightarrow> mode option) \<Rightarrow> (cli_error + hosted_body) \<times> (string \<Rightarrow> mode option)" where
  "hosted_source v args ask states chmod_ok modes =
     (case resolve_data_dir (vw_host v) args of
        Inl e \<Rightarrow> (Inl e, modes)
      | Inr dir \<Rightarrow>
          (let live = ask dir Held;
               found = (if live = None then discovered v args (\<lambda>d. ask d Held) else None);
               (live, view_dir) = (case found of Some (_, other, r) \<Rightarrow> (Some r, other) | None \<Rightarrow> (live, dir))
           in (Inr (case live of
                 Some (HeldResp hv) \<Rightarrow> HostedLive hv
               | _ \<Rightarrow> HostedOffline (case state_load (states (path_join view_dir ''state.json'')) of
                     Inl e \<Rightarrow> Inl e
                   | Inr s \<Rightarrow> Inr (sort_by (cmp_key t_title) (all_torrents s)))),
               ensure_shared_dirs chmod_ok dir modes)))"

definition hosted_lines :: "string \<Rightarrow> string \<Rightarrow> string \<Rightarrow> string \<Rightarrow> nat \<Rightarrow> string list" where
  "hosted_lines title h status space seeders =
     [sanitize_title title, ''  link:        https://academictorrents.com/details/'' @ h, ''  status:      '' @ status,
      ''  space:       '' @ space, ''  last scrape: '' @ show_nat seeders @ '' seeders'']"

definition live_row :: "held_torrent_view \<Rightarrow> string list option" where
  "live_row t = do {
     present \<leftarrow> bytes_text (min (hv_progress_bytes t) (hv_size_bytes t));
     whole \<leftarrow> bytes_text (hv_size_bytes t);
     Some (hosted_lines (hv_title t) (hv_info_hash t)
       (if hv_finished t then ''seeding'' else if hv_verifying t then ''verifying (integrity check)'' else ''downloading'')
       (present @ '' present (torrent is '' @ whole @ '')'') (hv_last_known_seeders t)) }"

definition offline_seeding :: "(string \<Rightarrow> nat) \<Rightarrow> torrent \<Rightarrow> bool" where
  "offline_seeding on_disk t \<longleftrightarrow>
     t_size_bytes t \<le> on_disk (torrent_output_dir (t_storage_location t) (t_info_hash t)) \<and> 0 < t_size_bytes t"

definition offline_row :: "(string \<Rightarrow> nat) \<Rightarrow> torrent \<Rightarrow> string list option" where
  "offline_row on_disk t = do {
     present \<leftarrow> bytes_text (on_disk (torrent_output_dir (t_storage_location t) (t_info_hash t)));
     whole \<leftarrow> bytes_text (t_size_bytes t);
     Some (hosted_lines (t_title t) (t_info_hash t) (if offline_seeding on_disk t then ''seeding'' else ''downloading'')
       (present @ '' on disk (torrent is '' @ whole @ '')'') (t_last_known_seeders t)) }"

fun print_rows :: "('t \<Rightarrow> string list option) \<Rightarrow> 't list \<Rightarrow> string list option" where
  "print_rows row [] = Some []"
| "print_rows row (t # ts) = do { r \<leftarrow> row t; rs \<leftarrow> print_rows row ts; Some (r @ rs) }"

definition nothing_held :: string where
  "nothing_held = ''keep-at is not holding any torrents''"

definition print_hosted :: "(string \<Rightarrow> nat) \<Rightarrow> hosted_body \<Rightarrow> (string list \<times> unit result) option" where
  "print_hosted on_disk b = (case b of
      HostedLive hv \<Rightarrow>
        if he_torrents hv = [] then Some ([nothing_held], Inr ())
        else do {
          rows \<leftarrow> print_rows live_row (he_torrents hv);
          Some ((if he_booting hv then [''starting up: resuming '' @ show_nat (length (he_torrents hv)) @
                   '' held torrents (integrity checks run before each one seeds)''] else []) @ rows, Inr ()) }
    | HostedOffline (Inl e) \<Rightarrow> Some ([], Inl e)
    | HostedOffline (Inr ts) \<Rightarrow>
        if ts = [] then Some ([nothing_held], Inr ())
        else do { rows \<leftarrow> print_rows (offline_row on_disk) ts; Some (rows, Inr ()) })"

section \<open>Lemmas\<close>

lemma discovered_bare: "discovered v args ask = Some x \<Longrightarrow> ca_data_dir args = None \<and> ca_config args = None"
  by (auto simp: discovered_def split: if_splits)

lemma daemon_status_None:
  assumes "daemon_status v dir = None" "p \<in> set (vw_procs v)" "daemon_proc (vw_own v) p = Some (pid, parts)"
  shows "dir_of_proc (vw_host v) parts \<noteq> Some dir"
proof
  assume d: "dir_of_proc (vw_host v) parts = Some dir"
  have "(pid, parts) \<in> set (keep_at_daemon_procs (vw_own v) (vw_procs v))"
    using assms(2,3) by (auto simp: keep_at_daemon_procs_def map_filter_mem)
  then have "find_foreground_in (vw_host v) (vw_own v) (vw_procs v) dir \<noteq> None"
    using d by (auto simp: find_foreground_in_def find_None_iff)
  then show False using assms(1) by (auto simp: daemon_status_def split: option.splits if_splits)
qed

lemma bytes_text_None: "bytes_text n = None \<longleftrightarrow> as_i64 n = - 9223372036854775808"
  by (simp add: bytes_text_def human_bytes_as_i64_None)

lemma rate_text_returns [simp]: "human_bytes_per_sec r = None \<longleftrightarrow> False"
  by (simp add: human_bytes_per_sec_def human_bytes_nonneg_eq)

text \<open>The counts a block of numbers prints as byte counts.\<close>

definition byte_counts :: "numbers \<Rightarrow> nat set" where
  "byte_counts n = {nu_sent n, nu_received n, nu_rss n} \<union>
     (if nu_disk_limit n = 0 then {} else {nu_disk_used n, nu_disk_committed n, nu_disk_limit n})"

lemma bytes_text_0: "bytes_text 0 \<noteq> None"
  by (simp add: bytes_text_None as_i64_def)

lemma print_numbers_None: "print_numbers n = None \<longleftrightarrow> (\<exists>b \<in> byte_counts n. bytes_text b = None)"
proof -
  have z: "bytes_text x = None \<Longrightarrow> 0 < x" for x using bytes_text_0 by (cases x) auto
  have d: "disk_line n = None \<longleftrightarrow> nu_disk_limit n \<noteq> 0 \<and>
      (bytes_text (nu_disk_used n) = None \<or> bytes_text (nu_disk_committed n) = None \<or> bytes_text (nu_disk_limit n) = None)"
    using z [of "nu_disk_committed n"] by (auto simp: disk_line_def bind_eq_None_conv split: if_splits)
  have "print_numbers n = None \<longleftrightarrow> disk_line n = None \<or> bytes_text (nu_sent n) = None \<or> bytes_text (nu_received n) = None \<or>
      bytes_text (nu_rss n) = None"
    using z [of "nu_rss n"] by (auto simp: print_numbers_def bind_eq_None_conv split: if_splits)
  then show ?thesis unfolding d byte_counts_def by auto
qed

section \<open>Properties\<close>


text \<open>Printing the status comes to an end exactly when none of the byte counts it prints is \<open>2^63\<close>, read as the
  smallest \<open>i64\<close>: the one value on which \<open>human_bytes\<close> recurses without end.\<close>

theorem status_returns_iff:
  "print_status format_time r \<noteq> None \<longleftrightarrow>
     \<not> (case sp_body r of
          LiveBody v \<Rightarrow> \<exists>b \<in> byte_counts (live_numbers v). as_i64 b = - 9223372036854775808
        | SnapshotBody _ (Inl _) \<Rightarrow> False
        | SnapshotBody _ (Inr s) \<Rightarrow> rs_collected_at s \<noteq> None \<and> (\<exists>b \<in> byte_counts (snapshot_numbers s). as_i64 b = - 9223372036854775808))"
proof -
  have l: "print_live v = None \<longleftrightarrow> (\<exists>b \<in> byte_counts (live_numbers v). as_i64 b = - 9223372036854775808)" for v
    by (auto simp: print_live_def bind_eq_None_conv print_numbers_None bytes_text_None Let_def split: if_splits)
  have s: "print_snapshot format_time s = None \<longleftrightarrow>
      rs_collected_at s \<noteq> None \<and> (\<exists>b \<in> byte_counts (snapshot_numbers s). as_i64 b = - 9223372036854775808)" for s
    by (auto simp: print_snapshot_def bind_eq_None_conv print_numbers_None bytes_text_None split: option.splits)
  show ?thesis
    by (cases "sp_body r") (auto simp: print_status_def Let_def bind_eq_None_conv l s simp del: not_None_eq split: sum.splits)
qed

text \<open>\<open>hosted-torrents\<close> lists the same titles in the same order whether the daemon answers or its state file is
  read, and each time exactly the torrents of the state.\<close>

theorem listings_agree:
  assumes "resolve_data_dir (vw_host v) args = Inr dir" "lh_inner h = LivePhase l"
  shows "\<exists>hv ts.
    fst (hosted_source v args (\<lambda>_ _. Some (HeldResp (handle_held_view sess (refresh_live (quarantine_count s) (snapshot_entries s) h)))) states chmod_ok modes) =
      Inr (HostedLive hv) \<and>
    fst (hosted_source v args (\<lambda>_ _. None) (\<lambda>_. Decoded (stored_of s)) chmod_ok modes) = Inr (HostedOffline (Inr ts)) \<and>
    map hv_title (he_torrents hv) = map t_title ts \<and> sorted (map t_title ts) \<and> mset ts = mset (all_torrents s) \<and>
    mset (map hv_info_hash (he_torrents hv)) = mset (map t_info_hash ts)"
proof -
  define ts where "ts = sort_by (cmp_key t_title) (all_torrents s)"
  define vs where "vs = map (held_entry (live_map (sr_torrents sess))) (snapshot_entries s)"
  define hv where "hv = \<lparr>he_booting = False, he_torrents = sort_by (cmp_key hv_title) vs\<rparr>"
  have titles: "map hv_title vs = map t_title (all_torrents s)" "map hv_info_hash vs = map t_info_hash (all_torrents s)"
    by (auto simp: vs_def snapshot_entries_def held_entry_def split: prod.splits)
  have m: "mset (sort_by (cmp_key hv_title) vs) = mset vs" "mset ts = mset (all_torrents s)"
    by (simp_all add: mset_sort_by ts_def)
  have srt: "sorted (map hv_title (sort_by (cmp_key hv_title) vs))" "sorted (map t_title ts)"
    by (simp_all add: sort_by_key_sorted ts_def)
  have "mset (map hv_title (sort_by (cmp_key hv_title) vs)) = mset (map t_title ts)"
    using m titles(1) by (metis mset_map)
  then have eq: "map hv_title (sort_by (cmp_key hv_title) vs) = map t_title ts"
    using srt by (metis properties_for_sort)
  have hashes: "mset (map hv_info_hash (sort_by (cmp_key hv_title) vs)) = mset (map t_info_hash ts)"
    using m titles(2) by (metis mset_map)
  have "handle_held_view sess (refresh_live (quarantine_count s) (snapshot_entries s) h) = hv"
    using assms(2) by (simp add: refresh_live_def handle_held_view_def hv_def vs_def)
  moreover have "all_torrents \<lparr>st_torrents = st_torrents s, st_quarantined = st_quarantined s, st_disk = d\<rparr> = all_torrents s" for d
    by (simp add: all_torrents_def)
  moreover have "discovered v args (\<lambda>_. None) = None" by (auto simp: discovered_def split: option.splits)
  ultimately show ?thesis
    using assms(1) eq srt(2) m(2) hashes
    by (intro exI [of _ hv] exI [of _ ts]) (simp add: hosted_source_def Let_def stored_of_def ts_def hv_def)
qed

text \<open>A query is answered with the daemon's own view: the request the client writes, however the connection cuts it
  into reads, is served, and the answer it reads back is the view, given that the JSON coders are inverse and put
  each message on a line of its own.\<close>

theorem query_answers_view:
  assumes "parse (trim_ascii (enc req @ [10])) = Some req" "10 \<notin> set (enc req)" "length (enc req) < MAX_REQUEST_BYTES"
    and "list_all (\<lambda>b. b \<noteq> []) bufs" "concat bufs = enc req @ [10]"
    and "decode (enc_resp (view_of req env h)) = Some (view_of req env h)" "trim (enc_resp (view_of req env h)) \<noteq> []"
  shows "\<exists>resp h'. serve_one parse env (map Chunk bufs) h = (Inr resp, h') \<and> resp = view_of req env h \<and>
    query decode \<lparr>ci_connect = Connected, ci_timeouts = True, ci_written = True, ci_line = Some (enc_resp resp)\<rparr> = (Some resp, False)"
proof -
  have "read_request (MAX_REQUEST_BYTES + 1) [] (map Chunk bufs @ []) = Inr ([] @ enc req @ [10], True)"
    using assms(2-5) by (intro read_request_chunks) auto
  then obtain h' where "serve_one parse env (map Chunk bufs) h = (Inr (view_of req env h), h')"
    using assms(1,3) by (cases req) (auto simp: serve_one_def view_of_def case_prod_beta)
  then show ?thesis using assms(6,7) by (simp add: query_def)
qed

section \<open>Examples\<close>


theorem listings_agree_witness:
  "\<exists>hv ts. fst (hosted_source sample_view \<lparr>ca_config = None, ca_data_dir = Some ''/d''\<rparr> (\<lambda>_ _. Some (HeldResp (handle_held_view sample_report
       (refresh_live 0 [] (sample_live))))) (\<lambda>_. NotFound) True (\<lambda>_. None)) = Inr (HostedLive hv) \<and> ts = he_torrents hv \<and> ts = []"
proof -
  let ?s = "\<lparr>st_torrents = [], st_quarantined = [], st_disk = None\<rparr> :: state"
  have e: "quarantine_count ?s = 0" "snapshot_entries ?s = []" "all_torrents ?s = []"
    by (simp_all add: quarantine_count_def snapshot_entries_def all_torrents_def)
  obtain l where l: "lh_inner sample_live = LivePhase l" using sample_live_phase by blast
  have d: "resolve_data_dir (vw_host sample_view) \<lparr>ca_config = None, ca_data_dir = Some ''/d''\<rparr> = Inr ''/d''" by (simp add: resolve_data_dir_def)
  show ?thesis
    using listings_agree [OF d l, of sample_report ?s "\<lambda>_. NotFound" True "\<lambda>_. None"] unfolding e by auto
qed

theorem query_answers_view_witness:
  "\<exists>resp. fst (serve_one (\<lambda>b. if b = [72] then Some Held else None) sample_query [Chunk [72], Chunk [10]] sample_live) = Inr resp"
proof -
  let ?parse = "\<lambda>b. if b = [72] then Some Held else None"
  have "?parse (trim_ascii ([72] @ [10])) = Some Held" by (simp add: trim_ascii_def is_ascii_ws_def)
  moreover have "trim ''H'' \<noteq> []" by code_simp
  ultimately show ?thesis
    using query_answers_view [of ?parse "\<lambda>_. [72]" Held "[[72], [10]]" "\<lambda>_. Some (view_of Held sample_query sample_live)" "\<lambda>_. ''H''"
        sample_query sample_live] by (auto simp: MAX_REQUEST_BYTES_def)
qed

end
