(* ===== verification/Buildinfo.thy ===== *)
theory Buildinfo
  imports Splitting
begin

text \<open>
  \<open>src/buildinfo.rs\<close>: the identity strings a keep-at node shows to trackers and peers, and how the census tells a
  seeder from itself.  The version string of the build is an argument.
\<close>

section \<open>Definitions\<close>

definition CLIENT_NAME :: string where "CLIENT_NAME = ''keep-at''"
definition ROLE_SEEDER :: string where "ROLE_SEEDER = ''seeder''"
definition ROLE_SCRAPER :: string where "ROLE_SCRAPER = ''scraper''"
definition PEER_ID_PREFIX :: "nat list" where "PEER_ID_PREFIX = [45, 75, 65, 48, 49, 48, 48, 45]"

definition role_client_version :: "string \<Rightarrow> string \<Rightarrow> string" where
  "role_client_version version role = CLIENT_NAME @ ''/'' @ version @ '' ('' @ role @ '')''"

definition user_agent :: "string \<Rightarrow> string" where
  "user_agent version = CLIENT_NAME @ ''/'' @ version @ '' (+https://github.com/tweedge/keep-at)''"

definition seeder_user_agent :: "string \<Rightarrow> string" where
  "seeder_user_agent version = CLIENT_NAME @ ''/'' @ version @ '' ('' @ ROLE_SEEDER @ '') (+https://github.com/tweedge/keep-at)''"

definition scraper_user_agent :: "string \<Rightarrow> string" where
  "scraper_user_agent version = CLIENT_NAME @ ''/'' @ version @ '' ('' @ ROLE_SCRAPER @ '') (+https://github.com/tweedge/keep-at)''"

definition is_keep_at_seeder :: "string \<Rightarrow> bool" where
  "is_keep_at_seeder client_name \<longleftrightarrow>
     starts_with client_name CLIENT_NAME \<and> \<not> contains client_name (''('' @ ROLE_SCRAPER @ '')'')"

text \<open>The random bytes are an argument.\<close>

definition make_peer_id :: "nat list \<Rightarrow> nat list" where
  "make_peer_id random = PEER_ID_PREFIX @ take 12 random"

section \<open>Lemmas\<close>

lemma sublist_append_left: "sublist x (a @ x @ b)"
  by (auto simp: sublist_def)

lemma scraper_not_seeder: "\<not> is_keep_at_seeder (scraper_user_agent version)"
proof -
  have "scraper_user_agent version = (CLIENT_NAME @ ''/'' @ version @ '' '') @ (''('' @ ROLE_SCRAPER @ '')'') @ '' (+https://github.com/tweedge/keep-at)''"
    by (simp add: scraper_user_agent_def)
  then show ?thesis unfolding is_keep_at_seeder_def contains_sublist using sublist_append_left by metis
qed

lemma contains_skip: "c \<notin> set a \<Longrightarrow> contains (a @ b) (c # t) = contains b (c # t)"
  by (induction a) auto

lemma seeder_recognised:
  assumes "CHR ''('' \<notin> set version"
  shows "is_keep_at_seeder (seeder_user_agent version)" "is_keep_at_seeder (role_client_version version ROLE_SEEDER)"
proof -
  let ?tail = "''(seeder) (+https://github.com/tweedge/keep-at)''"
  have "seeder_user_agent version = (CLIENT_NAME @ ''/'' @ version @ '' '') @ ?tail"
    "role_client_version version ROLE_SEEDER = (CLIENT_NAME @ ''/'' @ version @ '' '') @ ''(seeder)''"
    by (simp_all add: seeder_user_agent_def role_client_version_def ROLE_SEEDER_def)
  moreover have "\<not> contains ?tail ''(scraper)''" "\<not> contains ''(seeder)'' ''(scraper)''" by code_simp+
  moreover have "CHR ''('' \<notin> set (CLIENT_NAME @ ''/'' @ version @ '' '')" using assms by (simp add: CLIENT_NAME_def)
  moreover have "starts_with (CLIENT_NAME @ x) CLIENT_NAME" for x by (simp add: starts_with_def)
  ultimately show "is_keep_at_seeder (seeder_user_agent version)" "is_keep_at_seeder (role_client_version version ROLE_SEEDER)"
    by (simp_all add: is_keep_at_seeder_def ROLE_SCRAPER_def contains_skip)
qed

section \<open>Properties\<close>

text \<open>The daemon's session is counted as a keep-at seeder and the census's own session never is, at any version string
  without a parenthesis.\<close>

theorem roles_distinguished:
  assumes "CHR ''('' \<notin> set version"
  shows "is_keep_at_seeder (seeder_user_agent version) \<and> is_keep_at_seeder (role_client_version version ROLE_SEEDER) \<and>
    \<not> is_keep_at_seeder (scraper_user_agent version) \<and> \<not> is_keep_at_seeder (role_client_version version ROLE_SCRAPER)"
proof -
  have "role_client_version version ROLE_SCRAPER = (CLIENT_NAME @ ''/'' @ version @ '' '') @ (''('' @ ROLE_SCRAPER @ '')'') @ []"
    by (simp add: role_client_version_def)
  then have "\<not> is_keep_at_seeder (role_client_version version ROLE_SCRAPER)"
    unfolding is_keep_at_seeder_def contains_sublist using sublist_append_left by metis
  then show ?thesis using seeder_recognised [OF assms] scraper_not_seeder by simp
qed

theorem roles_distinguished_witness: "is_keep_at_seeder (seeder_user_agent ''0.2.0'') \<and> \<not> is_keep_at_seeder (scraper_user_agent ''0.2.0'')"
  using roles_distinguished [of "''0.2.0''"] by simp

text \<open>A peer id starts with the client's prefix and has the 20 bytes of the protocol.\<close>

theorem peer_id_shape:
  assumes "12 \<le> length random"
  shows "length (make_peer_id random) = 20 \<and> take 8 (make_peer_id random) = PEER_ID_PREFIX"
  using assms by (simp add: make_peer_id_def PEER_ID_PREFIX_def)

theorem peer_id_shape_witness: "length (make_peer_id (replicate 12 7)) = 20"
  using peer_id_shape [of "replicate 12 7"] by simp

end
