(* ===== verification/Census.thy ===== *)
theory Census
  imports Buildinfo Scrape Netstats Selector Catalog Cli Engine_Base "HOL-Library.Monad_Syntax"
begin

text \<open>
  The census of the keep-at network, \<open>src/census.rs\<close>: each catalog
  item's metadata is fetched, its trackers are scraped, its swarm is joined for a moment, and the keep-at nodes seen
  there are counted.  What the network, the cache and the disposable session answer are arguments, one answer for each
  info hash; the requests made and the lines printed from the catalog walk on are part of the result, in order.
\<close>

section \<open>Peers\<close>

definition DEFAULT_PROBE_TIMEOUT :: duration where "DEFAULT_PROBE_TIMEOUT = secs 10"
definition PROGRESS_EVERY :: nat where "PROGRESS_EVERY = 25"
definition PROBE_POLL_INTERVAL :: duration where "PROBE_POLL_INTERVAL = 500000000"
definition PROBE_MAX_PEERS :: nat where "PROBE_MAX_PEERS = 8"

definition rsplit_once :: "char \<Rightarrow> string \<Rightarrow> (string \<times> string) option" where
  "rsplit_once c s = (case split_once c (rev s) of Some (b, a) \<Rightarrow> Some (rev a, rev b) | None \<Rightarrow> None)"

definition trim_brackets :: "string \<Rightarrow> string" where
  "trim_brackets s = (let out = (\<lambda>c. c \<in> {CHR ''['', CHR '']''}) in rev (dropWhile out (rev (dropWhile out s))))"

text \<open>\<open>parse_ip\<close> parses a socket address and prints its IP.\<close>

definition peer_host_key :: "(string \<Rightarrow> string option) \<Rightarrow> string \<Rightarrow> string" where
  "peer_host_key parse_ip addr = (case parse_ip addr of
      Some ip \<Rightarrow> ip
    | None \<Rightarrow> (case rsplit_once (CHR '':'') addr of Some (host, _) \<Rightarrow> trim_brackets host | None \<Rightarrow> addr))"

type_synonym peer_snapshot = "(string \<times> string option) list option"

definition keep_at_peers :: "(string \<Rightarrow> string option) \<Rightarrow> bool \<Rightarrow> peer_snapshot \<Rightarrow> (string \<times> bool) list" where
  "keep_at_peers parse_ip we_complete snap = (case snap of
      None \<Rightarrow> []
    | Some peers \<Rightarrow> List.map_filter (\<lambda>(addr, client_name). case client_name of
          Some name \<Rightarrow> if is_keep_at_seeder name then Some (peer_host_key parse_ip addr, we_complete) else None
        | None \<Rightarrow> None) peers)"

definition peer_count :: "peer_snapshot \<Rightarrow> nat" where
  "peer_count snap = (case snap of Some peers \<Rightarrow> length peers | None \<Rightarrow> 0)"

section \<open>Joining a swarm\<close>

text \<open>One poll: the two peer snapshots it takes, whether our copy is complete, and the clock.\<close>

record probe_poll =
  pp_seen :: peer_snapshot
  pp_finished :: bool
  pp_counted :: peer_snapshot
  pp_now :: instant

fun probe_loop :: "(string \<Rightarrow> string option) \<Rightarrow> (nat \<Rightarrow> probe_poll) \<Rightarrow> instant \<Rightarrow> nat \<Rightarrow> nat \<Rightarrow> (string \<times> bool) list option" where
  "probe_loop parse_ip poll deadline i 0 = None"
| "probe_loop parse_ip poll deadline i (Suc fuel) =
     (let p = poll i; out = keep_at_peers parse_ip (pp_finished p) (pp_seen p)
      in if out \<noteq> [] \<or> PROBE_MAX_PEERS \<le> peer_count (pp_counted p) \<or> deadline \<le> pp_now p then Some out
         else probe_loop parse_ip poll deadline (Suc i) fuel)"

text \<open>Polls are half a second apart, so this many reach the deadline.\<close>

definition probe_fuel :: "duration \<Rightarrow> nat" where
  "probe_fuel timeout = timeout div PROBE_POLL_INTERVAL + 2"

datatype probe_effect = OpenSession | JoinSwarm "string list" | TearDown

datatype add_reply = AddRefused | ListOnly | Joined

record probe_world =
  pw_session :: bool
  pw_raw :: bool
  pw_add :: add_reply
  pw_started :: instant
  pw_polls :: "nat \<Rightarrow> probe_poll"

definition probe_swarm :: "url_parser \<Rightarrow> (string \<Rightarrow> string option) \<Rightarrow> probe_world \<Rightarrow> string list \<Rightarrow> string \<Rightarrow> string \<Rightarrow> duration \<Rightarrow>
    ((string \<times> bool) list result \<times> probe_effect list) option" where
  "probe_swarm parse parse_ip w trackers ua ua6 timeout =
     (if \<not> pw_session w then Some (Inl ''creating probe session'', [])
      else let keyed = concat (at_trackers_only parse (map (\<lambda>t. [t]) trackers) ua ua6)
           in if \<not> pw_raw w then Some (Inl ''loading cached .torrent'', [OpenSession])
              else case pw_add w of
                  AddRefused \<Rightarrow> Some (Inl ''adding the torrent'', [OpenSession])
                | ListOnly \<Rightarrow> Some (Inl ''probe torrent added list-only'', [OpenSession, JoinSwarm keyed])
                | Joined \<Rightarrow> do {
                    out \<leftarrow> probe_loop parse_ip (pw_polls w) (pw_started w + int timeout) 0 (probe_fuel timeout);
                    Some (Inr out, [OpenSession, JoinSwarm keyed, TearDown]) })"

section \<open>Requests\<close>

record rate_state =
  ra_per_second :: f64
  ra_next_allowed :: instant

definition rate_state_new :: "f64 \<Rightarrow> instant \<Rightarrow> rate_state" where
  "rate_state_new per_second now = \<lparr>ra_per_second = per_second, ra_next_allowed = now\<rparr>"

definition rate_state_wait :: "rate_state \<Rightarrow> instant \<Rightarrow> instant \<Rightarrow> duration \<times> rate_state" where
  "rate_state_wait rs now woke =
     (if ra_per_second rs = NaN \<or> f_le (ra_per_second rs) (Fin 0) then (0, rs)
      else let slept = (if now < ra_next_allowed rs then nat (ra_next_allowed rs - now) else 0);
               gap = (case try_from_secs_f64 (f_div (Fin 1) (ra_per_second rs)) of Some d \<Rightarrow> d | None \<Rightarrow> secs (365 * 24 * 3600))
           in (slept, rs\<lparr>ra_next_allowed := woke + int gap\<rparr>))"

datatype census_effect = CensusNet net_effect | CensusFetch string | CensusProbe probe_effect | CensusReport string

record census_world =
  cw_cached :: "string \<Rightarrow> torrent_meta option"
  cw_fetch :: "string \<Rightarrow> torrent_meta result"
  cw_scrape :: "string \<Rightarrow> string \<Rightarrow> scrape_reply"
  cw_parse_url :: url_parser
  cw_parse_ip :: "string \<Rightarrow> string option"
  cw_probe :: "string \<Rightarrow> probe_world"
  cw_elapsed :: "nat \<Rightarrow> duration"

definition cached_or_fetch :: "census_world \<Rightarrow> string \<Rightarrow> torrent_meta result \<times> census_effect list" where
  "cached_or_fetch w h = (case cw_cached w h of
      Some md \<Rightarrow> (Inr md, [])
    | None \<Rightarrow> (cw_fetch w h, [CensusNet RateWait, CensusFetch h]))"

fun scrape_one :: "url_parser \<Rightarrow> (string \<Rightarrow> scrape_reply) \<Rightarrow> string list \<Rightarrow> string \<Rightarrow> string option \<Rightarrow> swarm_counts result \<times> net_effect list" where
  "scrape_one parse reply [] h last_err = (Inl (case last_err of Some e \<Rightarrow> e | None \<Rightarrow> ''no tracker returned scrape data''), [])"
| "scrape_one parse reply (t # ts) h last_err =
     (let pace = (if is_at_tracker_url parse t then [RateWait] else [])
      in if \<not> http_tracker t then (case scrape_one parse reply ts h last_err of (r, es) \<Rightarrow> (r, pace @ es))
         else case reply t of
             Counts n \<Rightarrow> (Inr n, pace @ [ScrapeReq t h])
           | ScrapeErr e \<Rightarrow>
               if is_rate_limited e then (Inl ''tracker rate-limited during census'', pace @ [ScrapeReq t h])
               else (case scrape_one parse reply ts h (Some e) of (r, es) \<Rightarrow> (r, pace @ [ScrapeReq t h] @ es))
           | TimedOut \<Rightarrow> (case scrape_one parse reply ts h (Some ''scrape timed out'') of (r, es) \<Rightarrow> (r, pace @ [ScrapeReq t h] @ es)))"

section \<open>The census\<close>

record census_result =
  cr_catalog_size :: nat
  cr_scraped :: nat
  cr_probed :: nat
  cr_failed :: nat
  cr_node_count :: nat
  cr_seeding_bytes :: nat
  cr_leeching_bytes :: nat
  cr_seeder_floor :: nat
  cr_elapsed :: duration

record census_state =
  cs_result :: census_result
  cs_tracker :: tracker
  cs_seeder_counts :: "nat list"
  cs_processed :: nat
  cs_effects :: "census_effect list"

definition census_start :: "nat \<Rightarrow> census_state" where
  "census_start n = \<lparr>cs_result = \<lparr>cr_catalog_size = n, cr_scraped = 0, cr_probed = 0, cr_failed = 0, cr_node_count = 0,
     cr_seeding_bytes = 0, cr_leeching_bytes = 0, cr_seeder_floor = 0, cr_elapsed = 0\<rparr>, cs_tracker = tracker_default,
     cs_seeder_counts = [], cs_processed = 0, cs_effects = []\<rparr>"

definition report :: "nat \<Rightarrow> nat \<Rightarrow> tracker \<Rightarrow> duration \<Rightarrow> bool \<Rightarrow> census_effect list" where
  "report processed planned tr elapsed loud =
     (if \<not> loud then []
      else let pct = (if 0 < planned then f_mul (f_div (f_of_nat processed) (f_of_nat planned)) (f_lit 100) else Fin 0)
           in [CensusReport (''  census in progress: '' @ show_nat processed @ ''/'' @ show_nat planned @ '' torrents ('' @ show_tenths pct @
                 ''%), keep-at nodes observed so far: '' @ show_nat (tracker_node_count tr) @ '', elapsed '' @ human_duration elapsed)])"

definition count_failure :: "census_world \<Rightarrow> census_state \<Rightarrow> census_state" where
  "count_failure w s =
     (let processed = Suc (cs_processed s)
      in s\<lparr>cs_result := (cs_result s)\<lparr>cr_failed := Suc (cr_failed (cs_result s))\<rparr>, cs_processed := processed,
           cs_effects := cs_effects s @ report processed (cr_catalog_size (cs_result s)) (cs_tracker s) (cw_elapsed w processed) False\<rparr>)"

definition count_probe :: "nat \<Rightarrow> (string \<times> bool) list result \<Rightarrow> census_state \<Rightarrow> census_state" where
  "count_probe bytes probed s = (case probed of
      Inr obs \<Rightarrow> s\<lparr>cs_result := (cs_result s)\<lparr>cr_probed := Suc (cr_probed (cs_result s))\<rparr>,
                   cs_tracker := fold (\<lambda>(key, whole). tracker_observe key bytes whole) obs (cs_tracker s)\<rparr>
    | Inl _ \<Rightarrow> s\<lparr>cs_result := (cs_result s)\<lparr>cr_failed := Suc (cr_failed (cs_result s))\<rparr>\<rparr>)"

definition census_item :: "census_world \<Rightarrow> string \<times> string \<Rightarrow> duration \<Rightarrow> item \<Rightarrow> census_state \<Rightarrow> census_state option" where
  "census_item w announce timeout it s =
     (let h = it_info_hash it; (md, es) = cached_or_fetch w h; s = s\<lparr>cs_effects := cs_effects s @ es\<rparr>
      in case md of
           Inl _ \<Rightarrow> Some (count_failure w s)
         | Inr md \<Rightarrow>
             (let (swarm, es) = scrape_one (cw_parse_url w) (\<lambda>t. cw_scrape w t (md_info_hash md)) (md_trackers md) (md_info_hash md) None;
                  s = s\<lparr>cs_effects := cs_effects s @ map CensusNet es\<rparr>
              in case swarm of
                   Inl _ \<Rightarrow> Some (count_failure w s)
                 | Inr counts \<Rightarrow> do {
                     let s = s\<lparr>cs_result := (cs_result s)\<lparr>cr_scraped := Suc (cr_scraped (cs_result s))\<rparr>,
                               cs_seeder_counts := cs_seeder_counts s @ [sw_seeders counts]\<rparr>;
                     (probed, es) \<leftarrow> probe_swarm (cw_parse_url w) (cw_parse_ip w) (cw_probe w h) (md_trackers md) (fst announce) (snd announce) timeout;
                     let s = count_probe (md_total_length md) probed (s\<lparr>cs_effects := cs_effects s @ map CensusProbe es\<rparr>);
                     let processed = Suc (cs_processed s);
                     Some (s\<lparr>cs_processed := processed,
                       cs_effects := cs_effects s @ report processed (cr_catalog_size (cs_result s)) (cs_tracker s)
                         (cw_elapsed w processed) (processed mod PROGRESS_EVERY = 0)\<rparr>) }))"

fun census_loop :: "census_world \<Rightarrow> string \<times> string \<Rightarrow> duration \<Rightarrow> item list \<Rightarrow> census_state \<Rightarrow> census_state option" where
  "census_loop w announce timeout [] s = Some s"
| "census_loop w announce timeout (it # its) s = do { s \<leftarrow> census_item w announce timeout it s; census_loop w announce timeout its s }"

definition census_finish :: "duration \<Rightarrow> census_state \<Rightarrow> census_result" where
  "census_finish elapsed s = (cs_result s)\<lparr>cr_node_count := tracker_node_count (cs_tracker s),
     cr_seeding_bytes := tr_seeding_bytes (cs_tracker s), cr_leeching_bytes := tr_leeching_bytes (cs_tracker s),
     cr_seeder_floor := seeder_floor (cs_seeder_counts s), cr_elapsed := elapsed\<rparr>"

definition census_summary :: "census_result \<Rightarrow> string list option" where
  "census_summary r = do {
     seeding \<leftarrow> human_bytes (as_i64 (cr_seeding_bytes r));
     leeching \<leftarrow> human_bytes (as_i64 (cr_leeching_bytes r));
     Some [[], ''census complete: '' @ show_nat (cr_scraped r) @ ''/'' @ show_nat (cr_catalog_size r) @ '' torrents scraped and probed ('' @
             show_nat (cr_failed r) @ '' failed) in '' @ human_duration (cr_elapsed r),
           ''keep-at nodes observed: '' @ show_nat (cr_node_count r),
           ''data being seeded by keep-at nodes: '' @ seeding,
           ''data being downloaded by keep-at nodes: '' @ leeching,
           ''p10 seeder floor (anchor for the seed-scarcity gate): '' @ show_nat (cr_seeder_floor r)] }"

text \<open>The command: the announce URLs, the catalog, the shuffled items.  The parts that only the network answers are
  gathered in one record.\<close>

record census_inputs =
  cn_host :: host
  cn_announce :: announce_reply
  cn_set_host :: "string \<Rightarrow> string \<Rightarrow> string option"
  cn_cache_age :: "duration option"
  cn_cached :: "rss_item list option option"
  cn_reply :: http_reply
  cn_cached_later :: "rss_item list option option"
  cn_shuffle :: "item list \<Rightarrow> item list"

definition census_announce :: "census_inputs \<Rightarrow> census_world \<Rightarrow> config \<Rightarrow> string \<times> string" where
  "census_announce i w cfg =
     (if cfg_api_key cfg \<noteq> []
      then (case resolve_user_announce (cw_parse_url w) (cn_set_host i) (cn_announce i) of Inr p \<Rightarrow> p | Inl _ \<Rightarrow> ([], []))
      else ([], []))"

definition census_timeout :: "census_args \<Rightarrow> duration" where
  "census_timeout args = (case na_probe_timeout args of Some t \<Rightarrow> t | None \<Rightarrow> DEFAULT_PROBE_TIMEOUT)"

definition census_catalog :: "census_inputs \<Rightarrow> config \<Rightarrow> (item list \<times> bool) result" where
  "census_catalog i cfg = fst (catalog_load (sc_interval (cfg_scan cfg)) (cn_cache_age i) (cn_cached i) (cn_reply i) (cn_cached_later i))"

definition cmd_network_status :: "census_inputs \<Rightarrow> census_world \<Rightarrow> census_args \<Rightarrow> (census_result \<times> census_effect list) result option" where
  "cmd_network_status i w args = (case resolve_census (cn_host i) args of
      Inl _ \<Rightarrow> Some (Inl ''resolving the configuration'')
    | Inr cfg \<Rightarrow>
        (let timeout = census_timeout args
         in case census_catalog i cfg of
              Inl e \<Rightarrow> Some (Inl e)
            | Inr (items, _) \<Rightarrow> do {
                let items = cn_shuffle i items;
                s \<leftarrow> census_loop w (census_announce i w cfg) timeout items (census_start (length items));
                let r = census_finish (cw_elapsed w (cs_processed s)) s;
                printed \<leftarrow> census_summary r;
                Some (Inr (r, cs_effects s @ map CensusReport printed)) }))"

section \<open>Lemmas\<close>

text \<open>The census scrapes as the daemon does, without its back-off.\<close>

lemma scrape_one_daemon:
  "snd (scrape_one parse reply ts h le) = filter (\<lambda>x. x \<noteq> Backoff) (snd (snd (scrape_trackers parse reply shutdown now ts h le c))) \<and>
   (\<forall>n. fst (scrape_one parse reply ts h le) = Inr n \<longleftrightarrow> fst (scrape_trackers parse reply shutdown now ts h le c) = Inr n)"
proof (induction ts arbitrary: le)
  case (Cons t ts)
  show ?case
    using Cons [of le] Cons [of "Some ''scrape timed out''"] Cons [of "Some e" for e]
    by (cases "reply t") (simp_all add: Let_def case_prod_beta)
qed simp

text \<open>The condition of the loop's \<open>break\<close>.\<close>

definition probe_done :: "(string \<Rightarrow> string option) \<Rightarrow> instant \<Rightarrow> probe_poll \<Rightarrow> bool" where
  "probe_done parse_ip deadline p \<longleftrightarrow> keep_at_peers parse_ip (pp_finished p) (pp_seen p) \<noteq> [] \<or>
     PROBE_MAX_PEERS \<le> peer_count (pp_counted p) \<or> deadline \<le> pp_now p"

lemma probe_loop_Suc:
  "probe_loop parse_ip poll deadline i (Suc fuel) =
     (if probe_done parse_ip deadline (poll i) then Some (keep_at_peers parse_ip (pp_finished (poll i)) (pp_seen (poll i)))
      else probe_loop parse_ip poll deadline (Suc i) fuel)"
  by (simp add: Let_def probe_done_def)

lemma probe_loop_returns:
  assumes "\<forall>j. pp_now (poll j) + int PROBE_POLL_INTERVAL \<le> pp_now (poll (Suc j))"
    and "deadline \<le> pp_now (poll i) + int (fuel * PROBE_POLL_INTERVAL)"
  shows "\<exists>j. probe_loop parse_ip poll deadline i (Suc fuel) = Some (keep_at_peers parse_ip (pp_finished (poll j)) (pp_seen (poll j))) \<and>
    i \<le> j \<and> j \<le> i + fuel \<and> probe_done parse_ip deadline (poll j) \<and> (\<forall>k. i \<le> k \<and> k < j \<longrightarrow> \<not> probe_done parse_ip deadline (poll k))"
  using assms(2)
proof (induction fuel arbitrary: i)
  case 0
  then have "probe_done parse_ip deadline (poll i)" by (simp add: probe_done_def)
  then show ?case by (intro exI [of _ i]) (auto simp: probe_loop_Suc simp del: probe_loop.simps(2))
next
  case (Suc fuel)
  show ?case
  proof (cases "probe_done parse_ip deadline (poll i)")
    case True
    then show ?thesis by (intro exI [of _ i]) (auto simp: probe_loop_Suc simp del: probe_loop.simps(2))
  next
    case False
    have "deadline \<le> pp_now (poll (Suc i)) + int (fuel * PROBE_POLL_INTERVAL)"
      using Suc.prems assms(1) [rule_format, of i] by (simp add: algebra_simps)
    from Suc.IH [OF this] obtain j where o: "probe_loop parse_ip poll deadline (Suc i) (Suc fuel) =
        Some (keep_at_peers parse_ip (pp_finished (poll j)) (pp_seen (poll j)))" "Suc i \<le> j" "j \<le> Suc i + fuel"
      "probe_done parse_ip deadline (poll j)" "\<forall>k. Suc i \<le> k \<and> k < j \<longrightarrow> \<not> probe_done parse_ip deadline (poll k)" by blast
    have "\<forall>k. i \<le> k \<and> k < j \<longrightarrow> \<not> probe_done parse_ip deadline (poll k)"
      using o(5) False by (metis Suc_leI linorder_not_le le_neq_implies_less)
    then show ?thesis
      using o(1-4) False by (intro exI [of _ j]) (simp add: probe_loop_Suc [of _ _ _ i "Suc fuel"] del: probe_loop.simps(2))
  qed
qed

text \<open>The fuel covers the timeout.\<close>

lemma probe_fuel_enough: "timeout \<le> Suc (timeout div PROBE_POLL_INTERVAL) * PROBE_POLL_INTERVAL"
proof -
  have "timeout mod PROBE_POLL_INTERVAL < PROBE_POLL_INTERVAL" by (simp add: PROBE_POLL_INTERVAL_def)
  then show ?thesis unfolding mult_Suc using div_mult_mod_eq [of timeout PROBE_POLL_INTERVAL] by linarith
qed

section \<open>What one item contributes\<close>

definition scraped_of :: "census_world \<Rightarrow> item \<Rightarrow> (torrent_meta \<times> swarm_counts) option" where
  "scraped_of w it = (case fst (cached_or_fetch w (it_info_hash it)) of
      Inl _ \<Rightarrow> None
    | Inr md \<Rightarrow> (case fst (scrape_one (cw_parse_url w) (\<lambda>t. cw_scrape w t (md_info_hash md)) (md_trackers md) (md_info_hash md) None) of
          Inl _ \<Rightarrow> None | Inr counts \<Rightarrow> Some (md, counts)))"

definition seen_of :: "census_world \<Rightarrow> string \<times> string \<Rightarrow> duration \<Rightarrow> item \<Rightarrow> (nat \<times> (string \<times> bool) list) option" where
  "seen_of w announce timeout it = (case scraped_of w it of
      None \<Rightarrow> None
    | Some (md, _) \<Rightarrow> (case probe_swarm (cw_parse_url w) (cw_parse_ip w) (cw_probe w (it_info_hash it)) (md_trackers md) (fst announce) (snd announce) timeout of
          Some (Inr obs, _) \<Rightarrow> Some (md_total_length md, obs) | _ \<Rightarrow> None))"

definition nodes_of :: "(nat \<times> (string \<times> bool) list) option \<Rightarrow> string set" where
  "nodes_of x = (case x of None \<Rightarrow> {} | Some (_, obs) \<Rightarrow> fst ` set obs)"

definition bytes_of :: "bool \<Rightarrow> (nat \<times> (string \<times> bool) list) option \<Rightarrow> nat" where
  "bytes_of whole x = (case x of None \<Rightarrow> 0 | Some (n, obs) \<Rightarrow> n * length (filter (\<lambda>y. snd y = whole) obs))"

lemma wrap64_add [simp]: "wrap64 (wrap64 a + b) = wrap64 (a + b)" "wrap64 (a + wrap64 b) = wrap64 (a + b)" "wrap64 (wrap64 a) = wrap64 a"
  by (simp_all add: wrap64_def mod_simps)

definition tracker_wf :: "tracker \<Rightarrow> bool" where
  "tracker_wf t \<longleftrightarrow> wrap64 (tr_seeding_bytes t) = tr_seeding_bytes t \<and> wrap64 (tr_leeching_bytes t) = tr_leeching_bytes t"

lemma observe_all:
  assumes "tracker_wf t"
  shows "fold (\<lambda>(key, whole). tracker_observe key n whole) obs t =
     \<lparr>tr_nodes = tr_nodes t \<union> nodes_of (Some (n, obs)),
      tr_seeding_bytes = wrap64 (tr_seeding_bytes t + bytes_of True (Some (n, obs))),
      tr_leeching_bytes = wrap64 (tr_leeching_bytes t + bytes_of False (Some (n, obs)))\<rparr>"
  using assms
proof (induction obs arbitrary: t)
  case (Cons x obs)
  obtain key whole where x: "x = (key, whole)" by fastforce
  have "tracker_wf (tracker_observe key n whole t)" using Cons.prems by (simp add: tracker_wf_def tracker_observe_def Let_def)
  from Cons.IH [OF this] show ?case
    using Cons.prems by (auto simp: x tracker_observe_def Let_def nodes_of_def bytes_of_def algebra_simps tracker_wf_def)
qed (simp add: nodes_of_def bytes_of_def tracker_wf_def)

text \<open>The state after some items, from what each contributes.\<close>

definition adds_up :: "census_world \<Rightarrow> string \<times> string \<Rightarrow> duration \<Rightarrow> item list \<Rightarrow> census_state \<Rightarrow> census_state \<Rightarrow> bool" where
  "adds_up w announce timeout its s s' \<longleftrightarrow>
     cr_catalog_size (cs_result s') = cr_catalog_size (cs_result s) \<and>
     cr_scraped (cs_result s') = cr_scraped (cs_result s) + length (filter (\<lambda>it. scraped_of w it \<noteq> None) its) \<and>
     cr_probed (cs_result s') = cr_probed (cs_result s) + length (filter (\<lambda>it. seen_of w announce timeout it \<noteq> None) its) \<and>
     cr_failed (cs_result s') = cr_failed (cs_result s) + length (filter (\<lambda>it. seen_of w announce timeout it = None) its) \<and>
     cs_seeder_counts s' = cs_seeder_counts s @ map (\<lambda>(_, c). sw_seeders c) (List.map_filter (scraped_of w) its) \<and>
     cs_processed s' = cs_processed s + length its \<and>
     tr_nodes (cs_tracker s') = tr_nodes (cs_tracker s) \<union> (\<Union>it \<in> set its. nodes_of (seen_of w announce timeout it)) \<and>
     tr_seeding_bytes (cs_tracker s') = wrap64 (tr_seeding_bytes (cs_tracker s) + sum_list (map (\<lambda>it. bytes_of True (seen_of w announce timeout it)) its)) \<and>
     tr_leeching_bytes (cs_tracker s') = wrap64 (tr_leeching_bytes (cs_tracker s) + sum_list (map (\<lambda>it. bytes_of False (seen_of w announce timeout it)) its))"

lemma adds_up_append:
  "adds_up w announce timeout xs s s1 \<Longrightarrow> adds_up w announce timeout ys s1 s2 \<Longrightarrow> adds_up w announce timeout (xs @ ys) s s2"
  by (simp add: adds_up_def List.map_filter_def Un_assoc add.assoc)

lemma adds_up_wf: "adds_up w announce timeout its s s' \<Longrightarrow> tracker_wf (cs_tracker s')"
  by (simp add: adds_up_def tracker_wf_def)

lemma census_item_adds:
  assumes "tracker_wf (cs_tracker s)" "census_item w announce timeout it s = Some s'"
  shows "adds_up w announce timeout [it] s s'"
proof -
  let ?f = "fst (cached_or_fetch w (it_info_hash it))"
  show ?thesis
  proof (cases "scraped_of w it")
    case None
    then have "\<exists>es. s' = count_failure w (s\<lparr>cs_effects := es\<rparr>)"
      using assms(2) by (auto simp: census_item_def scraped_of_def Let_def case_prod_beta split: sum.splits)
    then show ?thesis
      using None assms(1)
      by (auto simp: adds_up_def count_failure_def Let_def seen_of_def List.map_filter_simps nodes_of_def bytes_of_def tracker_wf_def)
  next
    case (Some mc)
    obtain md counts where mc: "mc = (md, counts)" by fastforce
    let ?p = "probe_swarm (cw_parse_url w) (cw_parse_ip w) (cw_probe w (it_info_hash it)) (md_trackers md) (fst announce) (snd announce) timeout"
    have f: "?f = Inr md" "fst (scrape_one (cw_parse_url w) (\<lambda>t. cw_scrape w t (md_info_hash md)) (md_trackers md) (md_info_hash md) None) = Inr counts"
      using Some mc by (auto simp: scraped_of_def split: sum.splits)
    obtain probed pes where p: "?p = Some (probed, pes)"
      using assms(2) f by (cases ?p) (auto simp: census_item_def Let_def case_prod_beta)
    have s': "\<exists>es es'. s' = (count_probe (md_total_length md) probed (s\<lparr>cs_result := (cs_result s)\<lparr>cr_scraped := Suc (cr_scraped (cs_result s))\<rparr>,
        cs_seeder_counts := cs_seeder_counts s @ [sw_seeders counts], cs_effects := es\<rparr>))\<lparr>cs_processed := Suc (cs_processed s), cs_effects := es'\<rparr>"
      using assms(2) f p
      by (auto simp: census_item_def Let_def case_prod_beta count_probe_def split: sum.splits)
    show ?thesis
    proof (cases probed)
      case (Inl e)
      then have "seen_of w announce timeout it = None" using Some mc p by (simp add: seen_of_def)
      then show ?thesis
        using s' Inl assms(1) Some mc
        by (auto simp: adds_up_def count_probe_def List.map_filter_simps nodes_of_def bytes_of_def tracker_wf_def)
    next
      case (Inr obs)
      then have "seen_of w announce timeout it = Some (md_total_length md, obs)" using Some mc p by (simp add: seen_of_def)
      then show ?thesis
        using s' Inr observe_all [OF assms(1)] Some mc by (auto simp: adds_up_def count_probe_def List.map_filter_simps)
    qed
  qed
qed

lemma census_loop_adds:
  assumes "tracker_wf (cs_tracker s)" "census_loop w announce timeout its s = Some s'"
  shows "adds_up w announce timeout its s s'"
  using assms
proof (induction its arbitrary: s)
  case Nil
  then show ?case by (simp add: adds_up_def List.map_filter_simps tracker_wf_def)
next
  case (Cons it its)
  then obtain s1 where s1: "census_item w announce timeout it s = Some s1" "census_loop w announce timeout its s1 = Some s'"
    by (auto simp: bind_eq_Some_conv)
  note a = census_item_adds [OF Cons.prems(1) s1(1)]
  from adds_up_append [OF a Cons.IH [OF adds_up_wf [OF a] s1(2)]] show ?case by simp
qed

section \<open>Requests in order\<close>

text \<open>Requests to Academic Torrents, a metadata file or a scrape, that no wait on the limiter directly precedes.\<close>

fun impolite :: "url_parser \<Rightarrow> bool \<Rightarrow> census_effect list \<Rightarrow> nat" where
  "impolite parse waited [] = 0"
| "impolite parse waited (CensusNet RateWait # es) = impolite parse True es"
| "impolite parse waited (CensusNet (ScrapeReq t h) # es) = (if is_at_tracker_url parse t \<and> \<not> waited then 1 else 0) + impolite parse False es"
| "impolite parse waited (CensusNet Backoff # es) = impolite parse False es"
| "impolite parse waited (CensusFetch h # es) = (if waited then 0 else 1) + impolite parse False es"
| "impolite parse waited (CensusProbe p # es) = impolite parse False es"
| "impolite parse waited (CensusReport l # es) = impolite parse False es"

lemma impolite_mono: "impolite parse True es \<le> impolite parse waited es"
  by (induction parse waited es rule: impolite.induct) auto

lemma impolite_append: "impolite parse waited (a @ b) \<le> impolite parse waited a + impolite parse False b"
proof (induction parse waited a rule: impolite.induct)
  case (1 parse waited)
  then show ?case using impolite_mono [of parse b] by (cases waited) auto
qed auto

lemma impolite_append_0: "impolite parse waited a = 0 \<Longrightarrow> impolite parse False b = 0 \<Longrightarrow> impolite parse waited (a @ b) = 0"
  using impolite_append [of parse waited a b] by simp

lemma impolite_net: "impolite parse waited (map CensusNet es) = unpaced parse waited es"
  by (induction parse waited es rule: unpaced.induct) auto

lemma impolite_others: "impolite parse waited (map CensusProbe ps) = 0" "impolite parse waited (report a b c d e) = 0"
  by (induction ps arbitrary: waited) (auto simp: report_def)

lemma scrape_one_paced: "unpaced parse waited (snd (scrape_one parse reply ts h le)) = 0"
proof (induction ts arbitrary: le waited)
  case (Cons t ts)
  then show ?case by (cases "reply t") (simp_all add: Let_def case_prod_beta)
qed simp

lemma count_probe_effects [simp]: "cs_effects (count_probe n p s) = cs_effects s"
  by (simp add: count_probe_def split: sum.split)

lemma census_item_polite:
  assumes "impolite (cw_parse_url w) False (cs_effects s) = 0" "census_item w announce timeout it s = Some s'"
  shows "impolite (cw_parse_url w) False (cs_effects s') = 0"
proof -
  have e: "impolite (cw_parse_url w) False (snd (cached_or_fetch w h)) = 0" for h by (simp add: cached_or_fetch_def split: option.split)
  show ?thesis
    using assms
    by (auto simp: census_item_def Let_def case_prod_beta count_failure_def bind_eq_Some_conv impolite_others impolite_net scrape_one_paced e
        intro!: impolite_append_0 split: sum.splits)
qed

lemma census_loop_polite:
  "impolite (cw_parse_url w) False (cs_effects s) = 0 \<Longrightarrow> census_loop w announce timeout its s = Some s' \<Longrightarrow>
   impolite (cw_parse_url w) False (cs_effects s') = 0"
proof (induction its arbitrary: s)
  case (Cons it its)
  then obtain s1 where "census_item w announce timeout it s = Some s1" "census_loop w announce timeout its s1 = Some s'"
    by (auto simp: bind_eq_Some_conv)
  then show ?case using census_item_polite Cons.IH Cons.prems(1) by blast
qed simp

section \<open>Termination\<close>

text \<open>The clock of a probe: its first poll is after its start, and each next one after the pause between polls.\<close>

definition ticking :: "probe_world \<Rightarrow> bool" where
  "ticking w \<longleftrightarrow> pw_started w \<le> pp_now (pw_polls w 0) \<and>
     (\<forall>j. pp_now (pw_polls w j) + int PROBE_POLL_INTERVAL \<le> pp_now (pw_polls w (Suc j)))"

lemma probe_swarm_loop:
  assumes "ticking w"
  shows "\<exists>j. probe_loop parse_ip (pw_polls w) (pw_started w + int timeout) 0 (probe_fuel timeout) =
      Some (keep_at_peers parse_ip (pp_finished (pw_polls w j)) (pp_seen (pw_polls w j))) \<and>
    j \<le> Suc (timeout div PROBE_POLL_INTERVAL) \<and> probe_done parse_ip (pw_started w + int timeout) (pw_polls w j) \<and>
    (\<forall>k < j. \<not> probe_done parse_ip (pw_started w + int timeout) (pw_polls w k))"
proof -
  let ?n = "Suc (timeout div PROBE_POLL_INTERVAL)"
  have "pw_started w + int timeout \<le> pp_now (pw_polls w 0) + int (?n * PROBE_POLL_INTERVAL)"
    using assms of_nat_mono [OF probe_fuel_enough [of timeout], where ?'a = int] by (simp add: ticking_def)
  moreover have "\<forall>j. pp_now (pw_polls w j) + int PROBE_POLL_INTERVAL \<le> pp_now (pw_polls w (Suc j))"
    using assms by (simp add: ticking_def)
  moreover have "probe_fuel timeout = Suc ?n" by (simp add: probe_fuel_def)
  ultimately show ?thesis using probe_loop_returns [of "pw_polls w" "pw_started w + int timeout" 0 ?n parse_ip] by simp
qed

lemma probe_swarm_returns: "ticking w \<Longrightarrow> probe_swarm parse parse_ip w trackers ua ua6 timeout \<noteq> None"
  using probe_swarm_loop [of w parse_ip timeout] by (auto simp: probe_swarm_def Let_def split: add_reply.split)

lemma census_loop_returns:
  assumes "\<forall>h. ticking (cw_probe w h)"
  shows "census_loop w announce timeout its s \<noteq> None"
proof (induction its arbitrary: s)
  case (Cons it its)
  have "\<exists>probed es. probe_swarm parse parse_ip (cw_probe w h) trackers ua ua6 timeout = Some (probed, es)" for parse parse_ip h trackers ua ua6
    using probe_swarm_returns assms by (metis option.exhaust surj_pair)
  note p = this [of "cw_parse_url w" "cw_parse_ip w" "it_info_hash it" _ "fst announce" "snd announce"]
  have "census_item w announce timeout it s \<noteq> None"
  proof (cases "scraped_of w it")
    case None
    then show ?thesis by (auto simp: census_item_def scraped_of_def Let_def case_prod_beta split: sum.splits)
  next
    case (Some mc)
    then obtain md counts where "fst (cached_or_fetch w (it_info_hash it)) = Inr md"
      "fst (scrape_one (cw_parse_url w) (\<lambda>t. cw_scrape w t (md_info_hash md)) (md_trackers md) (md_info_hash md) None) = Inr counts"
      by (auto simp: scraped_of_def split: sum.splits)
    then show ?thesis using p [of "md_trackers md"] by (clarsimp simp: census_item_def Let_def case_prod_beta)
  qed
  then show ?case using Cons by auto
qed simp

section \<open>The order of the walk\<close>

lemma sort_mset_cong: "mset xs = mset ys \<Longrightarrow> sort xs = sort ys"
  by (metis sorted_list_of_multiset_mset)

lemma length_filter_mset_cong: "mset xs = mset ys \<Longrightarrow> length (filter P xs) = length (filter P ys)"
  by (metis mset_filter size_mset)

lemma seeder_floor_mset:
  assumes "mset xs = mset ys"
  shows "seeder_floor xs = seeder_floor ys"
proof -
  have m: "mset (filter (\<lambda>s. 0 < s) xs) = mset (filter (\<lambda>s. 0 < s) ys)" using assms by simp
  then have "filter (\<lambda>s. 0 < s) xs = [] \<longleftrightarrow> filter (\<lambda>s. 0 < s) ys = []" by (metis mset_zero_iff)
  then show ?thesis using sort_mset_cong [OF m] length_filter_mset_cong [OF assms] by (simp add: seeder_floor_def Let_def)
qed

lemma mset_map_filter_cong:
  assumes "mset xs = mset ys"
  shows "mset (map g (List.map_filter f xs)) = mset (map g (List.map_filter f ys))"
proof -
  have "mset (map h (filter P xs)) = mset (map h (filter P ys))" for h P
    by (simp only: mset_map mset_filter assms)
  then show ?thesis unfolding List.map_filter_def map_map .
qed

lemma sum_list_mset_cong:
  fixes f :: "'a \<Rightarrow> nat"
  shows "mset xs = mset ys \<Longrightarrow> sum_list (map f xs) = sum_list (map f ys)"
  by (simp only: mset_map flip: sum_mset_sum_list)

text \<open>The counts of a census, from the catalog alone.\<close>

definition census_counts :: "(item \<Rightarrow> (torrent_meta \<times> swarm_counts) option) \<Rightarrow> (item \<Rightarrow> (nat \<times> (string \<times> bool) list) option) \<Rightarrow>
    item list \<Rightarrow> duration \<Rightarrow> census_result" where
  "census_counts scraped seen items elapsed =
     \<lparr>cr_catalog_size = length items,
      cr_scraped = length (filter (\<lambda>it. scraped it \<noteq> None) items),
      cr_probed = length (filter (\<lambda>it. seen it \<noteq> None) items),
      cr_failed = length (filter (\<lambda>it. seen it = None) items),
      cr_node_count = card (\<Union>it \<in> set items. nodes_of (seen it)),
      cr_seeding_bytes = wrap64 (sum_list (map (\<lambda>it. bytes_of True (seen it)) items)),
      cr_leeching_bytes = wrap64 (sum_list (map (\<lambda>it. bytes_of False (seen it)) items)),
      cr_seeder_floor = seeder_floor (map (\<lambda>(_, c). sw_seeders c) (List.map_filter scraped items)),
      cr_elapsed = elapsed\<rparr>"

lemma census_counts_order:
  assumes "mset items = mset items'"
  shows "census_counts scraped seen items elapsed = census_counts scraped seen items' elapsed"
  unfolding census_counts_def
  by (simp add: length_filter_mset_cong [OF assms] sum_list_mset_cong [OF assms] mset_eq_setD [OF assms] mset_eq_length [OF assms]
    seeder_floor_mset [OF mset_map_filter_cong [OF assms]] del: mset_map)

lemma census_loop_counts:
  assumes "census_loop w announce timeout items (census_start (length items)) = Some s"
  shows "census_finish d s = census_counts (scraped_of w) (seen_of w announce timeout) items d"
proof -
  have "tracker_wf (cs_tracker (census_start (length items)))"
    by (simp add: census_start_def tracker_wf_def tracker_default_def wrap64_def)
  from census_loop_adds [OF this assms] show ?thesis
    by (simp add: adds_up_def census_start_def census_finish_def census_counts_def tracker_default_def tracker_node_count_def)
qed

lemma length_filter_le_filter: "(\<And>x. P x \<Longrightarrow> Q x) \<Longrightarrow> length (filter P xs) \<le> length (filter Q xs)"
  by (induction xs) (auto simp: le_SucI)

lemma seen_scraped: "seen_of w announce timeout it \<noteq> None \<Longrightarrow> scraped_of w it \<noteq> None"
  by (auto simp: seen_of_def split: option.splits)

lemma census_summary_None:
  "census_summary r = None \<longleftrightarrow> as_i64 (cr_seeding_bytes r) = - 9223372036854775808 \<or> as_i64 (cr_leeching_bytes r) = - 9223372036854775808"
  by (auto simp: census_summary_def bind_eq_None_conv human_bytes_as_i64_None)

lemma cmd_network_status_eq:
  fixes w :: census_world
  assumes "resolve_census (cn_host i) args = Inr cfg" "census_catalog i cfg = Inr (items, fresh)" "mset (cn_shuffle i items) = mset items"
  defines "counts \<equiv> census_counts (scraped_of w) (seen_of w (census_announce i w cfg) (census_timeout args)) items"
  shows "cmd_network_status i w args = do {
      s \<leftarrow> census_loop w (census_announce i w cfg) (census_timeout args) (cn_shuffle i items) (census_start (length items));
      let r = counts (cw_elapsed w (cs_processed s));
      printed \<leftarrow> census_summary r;
      Some (Inr (r, cs_effects s @ map CensusReport printed)) }"
proof -
  have l: "length (cn_shuffle i items) = length items" using mset_eq_length [OF assms(3)] .
  have "census_finish d s = counts d"
    if "census_loop w (census_announce i w cfg) (census_timeout args) (cn_shuffle i items) (census_start (length items)) = Some s" for s d
    using census_loop_counts [of w "census_announce i w cfg" "census_timeout args" "cn_shuffle i items" s d] that
      census_counts_order [OF assms(3)] unfolding counts_def l by simp
  then show ?thesis
    using assms(1,2) by (simp add: cmd_network_status_def Let_def l bind_eq_Some_conv cong: option.case_cong
        split: Option.bind_split)
qed

section \<open>Properties\<close>

text \<open>C39. A census counts what the catalog holds, whatever the order of its shuffled walk: every torrent is either probed
  or failed and every probed one was scraped; the nodes are the distinct keys seen in any swarm, the two byte counts
  are the sizes summed over the peers seen, modulo 2 to the 64, and the floor is that of the scraped seeder counts.\<close>

theorem census_counts_catalog:
  assumes "cmd_network_status i w args = Some (Inr (r, es))" "resolve_census (cn_host i) args = Inr cfg"
    and "census_catalog i cfg = Inr (items, fresh)" "mset (cn_shuffle i items) = mset items"
  shows "r = census_counts (scraped_of w) (seen_of w (census_announce i w cfg) (census_timeout args)) items (cr_elapsed r) \<and>
    cr_probed r + cr_failed r = cr_catalog_size r \<and> cr_probed r \<le> cr_scraped r \<and> cr_scraped r \<le> cr_catalog_size r"
proof -
  let ?seen = "seen_of w (census_announce i w cfg) (census_timeout args)"
  obtain d where r: "r = census_counts (scraped_of w) ?seen items d"
    using assms(1) by (auto simp: cmd_network_status_eq [OF assms(2-4)] bind_eq_Some_conv Let_def)
  have "length (filter (\<lambda>it. ?seen it \<noteq> None) items) \<le> length (filter (\<lambda>it. scraped_of w it \<noteq> None) items)"
    by (rule length_filter_le_filter) (rule seen_scraped)
  moreover have "length (filter (\<lambda>it. ?seen it \<noteq> None) items) + length (filter (\<lambda>it. ?seen it = None) items) = length items"
    using sum_length_filter_compl [of "\<lambda>it. ?seen it \<noteq> None" items] by (simp del: not_None_eq)
  ultimately show ?thesis unfolding r by (simp add: census_counts_def del: not_None_eq)
qed

text \<open>C40. A census ends: when every probe's clock ticks between its polls, the command returns, with its counts, unless
  one of the two byte counts it prints is exactly 2 to the 63, on which the formatter recurses without end.\<close>

theorem census_completes:
  assumes "\<forall>h. ticking (cw_probe w h)" "resolve_census (cn_host i) args = Inr cfg"
    and "census_catalog i cfg = Inr (items, fresh)" "mset (cn_shuffle i items) = mset items"
  shows "(\<exists>r es. cmd_network_status i w args = Some (Inr (r, es))) \<longleftrightarrow>
    (\<forall>whole. wrap64 (sum_list (map (\<lambda>it. bytes_of whole (seen_of w (census_announce i w cfg) (census_timeout args) it)) items)) \<noteq>
      9223372036854775808)"
proof -
  obtain s where s: "census_loop w (census_announce i w cfg) (census_timeout args) (cn_shuffle i items) (census_start (length items)) = Some s"
    using census_loop_returns [OF assms(1)] by blast
  have b: "as_i64 (wrap64 n) = - 9223372036854775808 \<longleftrightarrow> wrap64 n = 9223372036854775808" for n
    by (auto simp: as_i64_def split: if_splits)
  let ?r = "census_counts (scraped_of w) (seen_of w (census_announce i w cfg) (census_timeout args)) items (cw_elapsed w (cs_processed s))"
  have "cmd_network_status i w args = census_summary ?r \<bind> (\<lambda>printed. Some (Inr (?r, cs_effects s @ map CensusReport printed)))"
    by (simp add: cmd_network_status_eq [OF assms(2-4)] s Let_def)
  then have "(\<exists>r es. cmd_network_status i w args = Some (Inr (r, es))) \<longleftrightarrow> census_summary ?r \<noteq> None"
    by (cases "census_summary ?r") simp_all
  then show ?thesis unfolding census_summary_None by (simp add: census_counts_def b all_bool_eq)
qed

text \<open>A probe of a joined swarm ends within one poll of its deadline: it reports the peers of its first poll that sees a
  keep-at seeder, or eight peers, or the deadline, and the session is then torn down.\<close>

theorem probe_stops_at_deadline:
  assumes "ticking w" "pw_session w" "pw_raw w" "pw_add w = Joined"
  shows "\<exists>j \<le> Suc (timeout div PROBE_POLL_INTERVAL).
    probe_swarm parse parse_ip w trackers ua ua6 timeout =
      Some (Inr (keep_at_peers parse_ip (pp_finished (pw_polls w j)) (pp_seen (pw_polls w j))),
        [OpenSession, JoinSwarm (concat (at_trackers_only parse (map (\<lambda>t. [t]) trackers) ua ua6)), TearDown]) \<and>
    probe_done parse_ip (pw_started w + int timeout) (pw_polls w j) \<and>
    (\<forall>k < j. \<not> probe_done parse_ip (pw_started w + int timeout) (pw_polls w k))"
  using probe_swarm_loop [OF assms(1), of parse_ip timeout] assms(2-4) by (fastforce simp: probe_swarm_def Let_def)

text \<open>The census is polite: over the whole walk, every metadata file fetched and every scrape of an Academic Torrents
  tracker directly follows a wait on the rate limiter, a cached file is fetched at no cost, and a tracker list is
  scraped exactly as the daemon scrapes it.\<close>

theorem census_paces_requests:
  assumes "cmd_network_status i w args = Some (Inr (r, es))"
  shows "impolite (cw_parse_url w) False es = 0"
proof -
  obtain cfg items s printed where "census_loop w (census_announce i w cfg) (census_timeout args) items (census_start (length items)) = Some s"
    "es = cs_effects s @ map CensusReport printed"
    using assms by (auto simp: cmd_network_status_def Let_def bind_eq_Some_conv split: sum.splits prod.splits)
  moreover have "impolite (cw_parse_url w) False (map CensusReport printed) = 0" by (induction printed) auto
  moreover have "impolite (cw_parse_url w) False (cs_effects (census_start n)) = 0" for n by (simp add: census_start_def)
  ultimately show ?thesis by (metis census_loop_polite impolite_append_0)
qed

text \<open>The census waits on a copy of the engine's limiter, which is the same function.\<close>

theorem census_limiter_is_daemons:
  "rate_state_wait rs now woke = (case rl_wait \<lparr>rl_per_second = ra_per_second rs, rl_next_allowed = ra_next_allowed rs\<rparr> now woke of
     (slept, rl) \<Rightarrow> (slept, \<lparr>ra_per_second = rl_per_second rl, ra_next_allowed = rl_next_allowed rl\<rparr>))"
  by (auto simp: rate_state_wait_def rl_wait_def rl_active_def rl_gap_def Let_def)

text \<open>The census's scrape of a tracker list is the daemon's: it gets counts exactly when the daemon does, the same ones, and
  makes the same requests and waits, without the daemon's back-off.\<close>

theorem census_scrapes_like_daemon:
  "snd (scrape_one parse reply ts h None) = filter (\<lambda>x. x \<noteq> Backoff) (snd (snd (scrape_trackers parse reply shutdown now ts h None c))) \<and>
   (fst (scrape_one parse reply ts h None) = Inr n \<longleftrightarrow> fst (scrape_trackers parse reply shutdown now ts h None c) = Inr n)"
  using scrape_one_daemon by blast

text \<open>A peer's key is its IP: of \<open>ip:port\<close> and \<open>[ip]:port\<close> both ways of reading the address, the socket-address parser
  and the fallback, give the IP without port or brackets, so two IPv6 peers that share a first group stay distinct.\<close>

lemma split_once_last: "c \<notin> set b \<Longrightarrow> rsplit_once c (a @ c # b) = Some (a, b)"
  by (simp add: rsplit_once_def split_once_def takeWhile_append dropWhile_append)

lemma trim_brackets_inner:
  assumes "CHR ''['' \<notin> set ip" "CHR '']'' \<notin> set ip"
  shows "trim_brackets ip = ip" "trim_brackets (''['' @ ip @ '']'') = ip"
proof -
  have d: "dropWhile (\<lambda>c. c \<in> {CHR ''['', CHR '']''}) xs = xs" if "set xs \<subseteq> set ip" for xs
    using that assms by (cases xs) auto
  have e: "dropWhile (\<lambda>c. c \<in> {CHR ''['', CHR '']''}) (ip @ '']'') = (if ip = [] then [] else ip @ '']'')"
    using assms by (cases ip) auto
  show "trim_brackets ip = ip" by (simp only: trim_brackets_def Let_def d order_refl set_rev rev_rev_ident)
  show "trim_brackets (''['' @ ip @ '']'') = ip"
    using e d [of "rev ip"] by (simp add: trim_brackets_def Let_def)
qed

theorem peer_host_key_is_ip:
  assumes "CHR ''['' \<notin> set ip" "CHR '']'' \<notin> set ip" "CHR '':'' \<notin> set port"
    and "parse_ip (ip @ '':'' @ port) \<in> {None, Some ip}" "parse_ip (''['' @ ip @ '']:'' @ port) \<in> {None, Some ip}"
  shows "peer_host_key parse_ip (ip @ '':'' @ port) = ip \<and> peer_host_key parse_ip (''['' @ ip @ '']:'' @ port) = ip"
  using assms(4,5) split_once_last [OF assms(3), of ip] split_once_last [OF assms(3), of "''['' @ ip @ '']''"] trim_brackets_inner [OF assms(1,2)]
  by (auto simp: peer_host_key_def)

section \<open>Examples\<close>

theorem peer_host_key_is_ip_witness:
  "peer_host_key (\<lambda>_. None) ''[2001:db8::1]:51413'' = ''2001:db8::1'' \<and>
   peer_host_key (\<lambda>a. if a = ''1.2.3.4:51413'' then Some ''1.2.3.4'' else None) ''1.2.3.4:51413'' = ''1.2.3.4''"
  using peer_host_key_is_ip [of "''2001:db8::1''" "''51413''" "\<lambda>_. None"]
    peer_host_key_is_ip [of "''1.2.3.4''" "''51413''" "\<lambda>a. if a = ''1.2.3.4:51413'' then Some ''1.2.3.4'' else None"]
  by simp

definition demo_probe :: "nat \<Rightarrow> probe_world" where
  "demo_probe n = \<lparr>pw_session = True, pw_raw = True, pw_add = Joined, pw_started = 0,
     pw_polls = (\<lambda>j. \<lparr>pp_seen = (if j = n then Some [(''1.2.3.4:5'', Some (seeder_user_agent ''0.2.0'')), (''[::1]:5'', None)] else None),
       pp_finished = False, pp_counted = None, pp_now = int j * 500000000\<rparr>)\<rparr>"

lemma demo_probe_ticking: "ticking (demo_probe n)"
  by (simp add: ticking_def demo_probe_def PROBE_POLL_INTERVAL_def)

lemma demo_probe_done: "probe_done (\<lambda>_. None) (int (secs 10)) (pw_polls (demo_probe 1) j) \<longleftrightarrow> j = 1 \<or> 20 \<le> j"
proof -
  have "is_keep_at_seeder (seeder_user_agent ''0.2.0'')" by code_simp
  then show ?thesis by (auto simp: probe_done_def demo_probe_def keep_at_peers_def peer_count_def PROBE_MAX_PEERS_def List.map_filter_simps secs_def)
qed

theorem probe_stops_at_deadline_witness:
  "\<exists>keyed. probe_swarm (\<lambda>_. None) (\<lambda>_. None) (demo_probe 1) [] [] [] (secs 10) =
     Some (Inr [(''1.2.3.4'', False)], [OpenSession, JoinSwarm keyed, TearDown])"
proof -
  let ?seen = "\<lambda>j. keep_at_peers (\<lambda>_. None) (pp_finished (pw_polls (demo_probe 1) j)) (pp_seen (pw_polls (demo_probe 1) j))"
  have p: "pw_started (demo_probe 1) = 0" "pw_session (demo_probe 1)" "pw_raw (demo_probe 1)" "pw_add (demo_probe 1) = Joined"
    by (simp_all add: demo_probe_def)
  from probe_stops_at_deadline [OF demo_probe_ticking p(2-4), where timeout = "secs 10", of "\<lambda>_. None" "\<lambda>_. None" "[]" "[]" "[]"]
  obtain j keyed where j: "probe_swarm (\<lambda>_. None) (\<lambda>_. None) (demo_probe 1) [] [] [] (secs 10) =
      Some (Inr (?seen j), [OpenSession, JoinSwarm keyed, TearDown])"
    "probe_done (\<lambda>_. None) (int (secs 10)) (pw_polls (demo_probe 1) j)"
    "\<forall>k < j. \<not> probe_done (\<lambda>_. None) (int (secs 10)) (pw_polls (demo_probe 1) k)"
    unfolding p(1) add_0 by blast
  then have "j = 1" by (metis linorder_neqE_nat less_one one_less_numeral_iff demo_probe_done not_numeral_le_zero order_less_le_trans semiring_norm(76))
  moreover have "?seen 1 = [(''1.2.3.4'', False)]" by code_simp
  ultimately show ?thesis using j(1) by auto
qed

definition demo_row :: "string \<Rightarrow> rss_item" where
  "demo_row h = \<lparr>rss_title = ''t'', rss_category = [], rss_infohash = h, rss_guid = [], rss_link = [], rss_description = [], rss_size = 70\<rparr>"

definition demo_item :: "string \<Rightarrow> item" where
  "demo_item h = \<lparr>it_title = ''t'', it_category = [], it_info_hash = h, it_guid = [], it_link = [], it_description = [], it_size_bytes = 70\<rparr>"

definition hash_a :: string where "hash_a = ''aaaaaaaaaaaaaaaaaaaaaaaaaaaaaaaaaaaaaaaa''"
definition hash_b :: string where "hash_b = ''bbbbbbbbbbbbbbbbbbbbbbbbbbbbbbbbbbbbbbbb''"

definition demo_inputs :: census_inputs where
  "demo_inputs = \<lparr>cn_host = op_host, cn_announce = SendFailed, cn_set_host = (\<lambda>_ _. None), cn_cache_age = Some 0,
     cn_cached = Some (Some [demo_row hash_a, demo_row ''xyz'', demo_row hash_b]), cn_reply = HttpSendFailed,
     cn_cached_later = None, cn_shuffle = rev\<rparr>"

definition demo_args :: census_args where
  "demo_args = \<lparr>na_common = \<lparr>ca_config = None, ca_data_dir = None\<rparr>, na_probe_timeout = None, na_api_key = None, na_rate_limit = None\<rparr>"

definition demo_world :: census_world where
  "demo_world = \<lparr>cw_cached = (\<lambda>h. if h = hash_a
       then Some \<lparr>md_info_hash = h, md_trackers = [''http://t/a''], md_created_at = None, md_total_length = 70, md_piece_count = 1,
         md_file_count = 1, md_name = ''t''\<rparr> else None),
     cw_fetch = (\<lambda>_. Inl ''offline''), cw_scrape = (\<lambda>_ _. Counts \<lparr>sw_seeders = 3, sw_leechers = 1, sw_completed = 0\<rparr>),
     cw_parse_url = (\<lambda>_. None), cw_parse_ip = (\<lambda>_. None), cw_probe = (\<lambda>_. demo_probe 0), cw_elapsed = (\<lambda>_. 0)\<rparr>"

lemma demo_census:
  "resolve_census (cn_host demo_inputs) demo_args = Inr (config_default (Some ''/home/op''))"
  "census_catalog demo_inputs (config_default (Some ''/home/op'')) = Inr ([demo_item hash_a, demo_item hash_b], False)"
  "mset (cn_shuffle demo_inputs xs) = mset xs"
  "census_announce demo_inputs demo_world (config_default (Some ''/home/op'')) = ([], [])"
proof -
  show "resolve_census (cn_host demo_inputs) demo_args = Inr (config_default (Some ''/home/op''))"
    by (simp add: resolve_census_def op_host_def service_config_if_present_def try_then_def set_flag_def demo_inputs_def demo_args_def)
  have "catalog_parse (Some [demo_row hash_a, demo_row ''xyz'', demo_row hash_b]) = Inr [demo_item hash_a, demo_item hash_b]"
    by code_simp
  then show "census_catalog demo_inputs (config_default (Some ''/home/op'')) = Inr ([demo_item hash_a, demo_item hash_b], False)"
    by (simp add: census_catalog_def catalog_load_def demo_inputs_def usable_cache_def)
  show "mset (cn_shuffle demo_inputs xs) = mset xs" by (simp add: demo_inputs_def)
  show "census_announce demo_inputs demo_world (config_default (Some ''/home/op'')) = ([], [])"
    by (simp add: census_announce_def config_default_def)
qed

lemma demo_scraped:
  "scraped_of demo_world (demo_item hash_b) = None"
  "\<exists>md. scraped_of demo_world (demo_item hash_a) = Some (md, \<lparr>sw_seeders = 3, sw_leechers = 1, sw_completed = 0\<rparr>)"
proof -
  have "http_tracker ''http://t/a''" by code_simp
  then show "\<exists>md. scraped_of demo_world (demo_item hash_a) = Some (md, \<lparr>sw_seeders = 3, sw_leechers = 1, sw_completed = 0\<rparr>)"
    by (simp add: scraped_of_def cached_or_fetch_def demo_world_def demo_item_def Let_def)
qed (simp add: scraped_of_def cached_or_fetch_def demo_world_def demo_item_def hash_a_def hash_b_def)

lemma demo_world_ticking: "\<forall>h. ticking (cw_probe demo_world h)"
  using demo_probe_ticking by (simp add: demo_world_def)

lemma demo_probe_loop: "probe_loop (\<lambda>_. None) (pw_polls (demo_probe 0)) deadline 0 (probe_fuel d) = Some [(''1.2.3.4'', False)]"
proof -
  have "keep_at_peers (\<lambda>_. None) (pp_finished (pw_polls (demo_probe 0) 0)) (pp_seen (pw_polls (demo_probe 0) 0)) = [(''1.2.3.4'', False)]"
    by code_simp
  moreover have "probe_fuel d = Suc (Suc (d div PROBE_POLL_INTERVAL))" by (simp add: probe_fuel_def)
  ultimately show ?thesis by (simp add: probe_loop_Suc probe_done_def del: probe_loop.simps(2))
qed

lemma demo_seen:
  "seen_of demo_world ([], []) d (demo_item hash_b) = None"
  "seen_of demo_world ([], []) d (demo_item hash_a) = Some (70, [(''1.2.3.4'', False)])"
proof -
  have "http_tracker ''http://t/a''" by code_simp
  moreover have "pw_session (demo_probe 0)" "pw_raw (demo_probe 0)" "pw_add (demo_probe 0) = Joined" by (simp_all add: demo_probe_def)
  ultimately show "seen_of demo_world ([], []) d (demo_item hash_a) = Some (70, [(''1.2.3.4'', False)])"
    by (simp add: seen_of_def scraped_of_def cached_or_fetch_def demo_world_def demo_item_def Let_def probe_swarm_def demo_probe_loop)
qed (simp add: seen_of_def demo_scraped)

lemma demo_counts:
  "census_counts (scraped_of demo_world) (seen_of demo_world ([], []) t) [demo_item hash_a, demo_item hash_b] d =
   \<lparr>cr_catalog_size = 2, cr_scraped = 1, cr_probed = 1, cr_failed = 1, cr_node_count = 1, cr_seeding_bytes = 0, cr_leeching_bytes = 70,
    cr_seeder_floor = 3, cr_elapsed = d\<rparr>"
  using demo_scraped by (auto simp: census_counts_def demo_seen nodes_of_def bytes_of_def List.map_filter_simps wrap64_def seeder_floor_def Let_def)

lemma demo_completes: "\<exists>r es. cmd_network_status demo_inputs demo_world demo_args = Some (Inr (r, es))"
proof -
  obtain s where s: "census_loop demo_world ([], []) (census_timeout demo_args) (cn_shuffle demo_inputs [demo_item hash_a, demo_item hash_b])
      (census_start (length [demo_item hash_a, demo_item hash_b])) = Some s"
    using census_loop_returns [OF demo_world_ticking] by blast
  have "census_summary (census_counts (scraped_of demo_world) (seen_of demo_world ([], []) t) [demo_item hash_a, demo_item hash_b] d) \<noteq> None" for t d
    by (simp add: demo_counts census_summary_None as_i64_def)
  then show ?thesis using s
    by (auto simp: cmd_network_status_eq [OF demo_census(1-3)] demo_census(4) bind_eq_Some_conv Let_def)
qed

theorem census_counts_catalog_witness:
  "\<exists>r es. cmd_network_status demo_inputs demo_world demo_args = Some (Inr (r, es)) \<and> cr_catalog_size r = 2 \<and>
     cr_probed r = 1 \<and> cr_failed r = 1 \<and> cr_node_count r = 1 \<and> cr_leeching_bytes r = 70 \<and> cr_seeder_floor r = 3"
proof -
  obtain r es where r: "cmd_network_status demo_inputs demo_world demo_args = Some (Inr (r, es))" using demo_completes by blast
  from census_counts_catalog [OF r demo_census(1-3)] have "r = \<lparr>cr_catalog_size = 2, cr_scraped = 1, cr_probed = 1, cr_failed = 1,
      cr_node_count = 1, cr_seeding_bytes = 0, cr_leeching_bytes = 70, cr_seeder_floor = 3, cr_elapsed = cr_elapsed r\<rparr>"
    by (simp only: demo_census(4) demo_counts)
  then show ?thesis using r by (metis census_result.select_convs)
qed

theorem census_completes_witness: "\<exists>r es. cmd_network_status demo_inputs demo_world demo_args = Some (Inr (r, es))"
  using census_completes [OF demo_world_ticking demo_census(1-3)]
  by (simp add: demo_census(4) demo_seen bytes_of_def wrap64_def)

theorem census_paces_requests_witness:
  "\<exists>r es. cmd_network_status demo_inputs demo_world demo_args = Some (Inr (r, es)) \<and> impolite (\<lambda>_. None) False es = 0"
proof -
  obtain r es where r: "cmd_network_status demo_inputs demo_world demo_args = Some (Inr (r, es))" using demo_completes by blast
  then show ?thesis using census_paces_requests [OF r] by (simp add: demo_world_def)
qed

end
