(* ===== verification/Paths.thy ===== *)
theory Paths
  imports Splitting "HOL-Library.List_Lexorder" "HOL-Library.Char_ord"
begin

text \<open>
  \<open>std::path\<close> as far as the program orders paths: the components of a Unix path and their order, with which the
  locations of a swap are sorted.
\<close>

section \<open>Definitions\<close>

datatype component = RootDir | CurDir | ParentDir | Normal string

definition component_of :: "string \<Rightarrow> component option" where
  "component_of w = (if w = [] \<or> w = ''.'' then None else if w = ''..'' then Some ParentDir else Some (Normal w))"

text \<open>Repeated and trailing slashes and inner dots do not count; a leading dot does.\<close>

definition path_components :: "string \<Rightarrow> component list" where
  "path_components s =
     (let ws = split_on (CHR ''/'') s
      in (if take 1 s = ''/'' then [RootDir] else if hd ws = ''.'' then [CurDir] else []) @ List.map_filter component_of ws)"

section \<open>The order\<close>

text \<open>The derived order of the enumeration: by constructor, then by name.\<close>

fun component_rank :: "component \<Rightarrow> nat" where
  "component_rank RootDir = 0"
| "component_rank CurDir = 1"
| "component_rank ParentDir = 2"
| "component_rank (Normal _) = 3"

instantiation component :: linorder
begin

definition less_component :: "component \<Rightarrow> component \<Rightarrow> bool" where
  "less_component a b = (case (a, b) of (Normal v, Normal w) \<Rightarrow> v < w | _ \<Rightarrow> component_rank a < component_rank b)"

definition less_eq_component :: "component \<Rightarrow> component \<Rightarrow> bool" where
  "less_eq_component a b \<longleftrightarrow> a = b \<or> a < b"

instance
proof
  fix a b c :: component
  show "a < b \<longleftrightarrow> a \<le> b \<and> \<not> b \<le> a" "a \<le> a" "a \<le> b \<Longrightarrow> b \<le> a \<Longrightarrow> a = b" "a \<le> b \<or> b \<le> a"
    by (cases a; cases b; auto simp: less_component_def less_eq_component_def)+
  show "a \<le> b \<Longrightarrow> b \<le> c \<Longrightarrow> a \<le> c"
    by (cases a; cases b; cases c; auto simp: less_component_def less_eq_component_def)
qed

end

text \<open>\<open>Vec<PathBuf>::sort\<close>: a stable sort, by components.\<close>

definition path_sort :: "string list \<Rightarrow> string list" where
  "path_sort ps = sort_by (cmp_key path_components) ps"

section \<open>Lemmas\<close>

lemma path_sort_set [simp]: "set (path_sort ps) = set ps" "distinct (path_sort ps) = distinct ps"
  by (simp_all add: path_sort_def)

lemma path_sort_sorted: "sorted (map path_components (path_sort ps))"
proof -
  have "sorted_wrt (\<lambda>x y. cmp_key path_components x y \<noteq> Greater) (path_sort ps)"
    unfolding path_sort_def by (rule keyed.sort_by_sorted) simp
  then show ?thesis
    unfolding sorted_map by (rule sorted_wrt_mono_rel [rotated]) (auto simp: cmp_key_def split: if_splits)
qed

text \<open>Slashes and dots that do not count.\<close>

lemma path_examples:
  "path_components ''/srv//a/./b/'' = path_components ''/srv/a/b''"
  "path_components ''./a'' = [CurDir, Normal ''a'']"
  "path_components ''/srv/../b'' = [RootDir, Normal ''srv'', ParentDir, Normal ''b'']"
  "path_components ''/a/z'' < path_components ''/a-b''"
  by code_simp+

end
