(* ===== verification/Admission.thy ===== *)
theory Admission
  imports Engine_Base Paths
begin

text \<open>
  The admission path of \<open>src/engine/scan.rs\<close>: \<open>try_add\<close>, \<open>try_swap\<close>, \<open>act_on_candidate\<close> and
  \<open>act_on_windowed\<close>, and the budgets it keeps: the byte limit of each storage location, the RAM budget
  and the torrent count.  The three are instances of one contract, the locale \<open>budget\<close>: an admission
  that found room adds to a total below the cap, an exchange whose outgoing part covers the incoming one
  does not raise the total, a removal never does.
\<close>

section \<open>Definitions\<close>

definition add_candidate :: "candidate \<Rightarrow> torrent_meta \<Rightarrow> nat \<Rightarrow> nat \<Rightarrow> candidate" where
  "add_candidate c md sz flr = \<lparr>cand_info_hash = cand_info_hash c, cand_title = cand_title c,
     cand_size_bytes = sz, cand_piece_count = md_piece_count md, cand_seeders = cand_seeders c,
     cand_leechers = cand_leechers c, cand_seeder_floor = flr\<rparr>"

definition new_torrent :: "world \<Rightarrow> candidate \<Rightarrow> torrent_meta \<Rightarrow> nat \<Rightarrow> string \<Rightarrow> torrent" where
  "new_torrent w c md sz location = \<lparr>t_info_hash = cand_info_hash c, t_title = cand_title c,
     t_size_bytes = sz, t_storage_location = location, t_added_at = w_now w,
     t_piece_count = md_piece_count md, t_last_known_seeders = cand_seeders c, t_completed_pieces = 0,
     t_last_progress_at = Some (w_now w), t_last_confirmed_in_catalog_at = Some (w_now w)\<rparr>"

definition displaced_record :: "held \<Rightarrow> displaced" where
  "displaced_record d = \<lparr>di_hash = held_info_hash d, di_title = held_title d, di_seeders = held_seeders d,
     di_size_bytes = held_size_bytes d\<rparr>"

definition try_add :: "world \<Rightarrow> candidate \<Rightarrow> torrent_meta \<Rightarrow> nat \<Rightarrow> string \<Rightarrow> held list \<Rightarrow> nat \<Rightarrow> f64 \<Rightarrow> engine \<Rightarrow>
    (bool \<times> swap_decision) \<times> engine" where
  "try_add w c md sz location displaced flr roll e =
     (let d = evaluate_swap (add_candidate c md sz flr) displaced (sc_min_seed_margin (cfg_scan (en_cfg e)))
                (cfg_aggressiveness (en_cfg e)) roll
      in if \<not> should_swap d then ((False, d), e)
         else let out_dir = torrent_output_dir location (cand_info_hash c);
                  e = emit [CreateDir out_dir] e
              in if \<not> w_mkdir w out_dir then ((False, d), e)
                 else let keyed = at_trackers_only (w_parse_url w) (tiers_of (md_trackers md))
                                    (en_user_announce e) (en_user_announce_ipv6 e)
                      in case add_torrent_bytes w (cand_info_hash c) out_dir keyed e of
                           (Inl _, e) \<Rightarrow> ((False, d), e)
                         | (Inr _, e) \<Rightarrow>
                             (let e = e\<lparr>en_state := snd (state_put (w_save w) (new_torrent w c md sz location) (en_state e))\<rparr>;
                                  ev = add_event (w_now w) (cand_info_hash c) (cand_title c) sz (cand_seeders c) location
                                         (if displaced = [] then Fill else Swap) (sd_chance d) (sd_roll d) flr
                                         (sd_reason d) (map displaced_record displaced)
                              in ((True, d), push_live (record_history w ev e))))"

definition held_of :: "torrent \<Rightarrow> held" where
  "held_of h = \<lparr>held_info_hash = hash_or_zero (t_info_hash h),
     held_title = t_title h, held_size_bytes = t_size_bytes h, held_piece_count = t_piece_count h,
     held_seeders = t_last_known_seeders h\<rparr>"

text \<open>The removal of one torrent from session, cache and state, shared by every eviction path; the
  result says whether the state was saved.\<close>

definition drop_torrent :: "world \<Rightarrow> torrent \<Rightarrow> engine \<Rightarrow> bool \<times> engine" where
  "drop_torrent w h e =
     (let e = snd (remove_torrent w (t_info_hash h) (torrent_output_dir (t_storage_location h) (t_info_hash h)) e);
          e = drop_cache_file (t_info_hash h) e
      in case state_remove (w_save w) (t_info_hash h) (en_state e) of
           (r, s) \<Rightarrow> (is_ok r, e\<lparr>en_state := s\<rparr>))"

fun drop_displaced :: "world \<Rightarrow> torrent list \<Rightarrow> nat \<Rightarrow> engine \<Rightarrow> nat \<times> engine" where
  "drop_displaced w [] removed e = (removed, e)"
| "drop_displaced w (h # hs) removed e =
     (case drop_torrent w h e of (saved, e) \<Rightarrow> drop_displaced w hs (if saved then removed + 1 else removed) e)"

definition no_decision :: "string \<Rightarrow> swap_decision" where
  "no_decision reason = \<lparr>should_swap = False, sd_chance = Fin 0, sd_roll = Fin 0, sd_reason = reason\<rparr>"

text \<open>The loop over the locations that hold something.\<close>

fun swap_locations :: "world \<Rightarrow> candidate \<Rightarrow> torrent_meta \<Rightarrow> nat \<Rightarrow> nat \<Rightarrow> f64 \<Rightarrow> torrent list \<Rightarrow> string list \<Rightarrow>
    swap_decision \<Rightarrow> engine \<Rightarrow> (bool \<times> swap_decision \<times> nat) \<times> engine" where
  "swap_locations w c md sz flr roll held [] latest e = ((False, latest, 0), e)"
| "swap_locations w c md sz flr roll held (location # locations) latest e =
     (let peer_limit = peer_limit_for_budget (en_ram_budget e);
          ram_cost = torrent_ram (md_piece_count md) peer_limit
      in case select_displaceable (w_powf w) (filter (\<lambda>h. t_storage_location h = location) held) (cand_seeders c)
                (size_needed sz) ram_cost peer_limit (sc_min_seed_margin (cfg_scan (en_cfg e))) (en_size_bias e) of
           None \<Rightarrow> swap_locations w c md sz flr roll held locations latest e
         | Some displaced \<Rightarrow>
             (let freed_actual = wrap64 (sum_list (map (\<lambda>h. w_dir_size w
                     (torrent_output_dir (t_storage_location h) (t_info_hash h))) displaced))
              in case device_gate_reason (w_dev_free_swap w location) freed_actual (size_needed sz) of
                   Some reason \<Rightarrow> swap_locations w c md sz flr roll held locations (no_decision reason) e
                 | None \<Rightarrow>
                     (case try_add w c md sz location (map held_of displaced) flr roll e of
                        ((True, d), e) \<Rightarrow>
                          (case drop_displaced w displaced 0 e of (removed, e) \<Rightarrow>
                             ((True, d, removed), if 0 < removed then push_live e else e))
                      | ((False, d), e) \<Rightarrow> swap_locations w c md sz flr roll held locations d e)))"

definition try_swap :: "world \<Rightarrow> candidate \<Rightarrow> torrent_meta \<Rightarrow> nat \<Rightarrow> nat \<Rightarrow> f64 \<Rightarrow> engine \<Rightarrow>
    (bool \<times> swap_decision \<times> nat) \<times> engine" where
  "try_swap w c md sz flr roll e =
     (let held = all_torrents (en_state e);
          locations = path_sort (remdups (map t_storage_location held))
      in swap_locations w c md sz flr roll held locations
           (no_decision ''no held torrent clears the seed margin against this candidate'') e)"

text \<open>The free-space fill of \<open>act_on_candidate\<close>: the decision, whether it added, and the new engine.\<close>

definition try_fill :: "world \<Rightarrow> candidate \<Rightarrow> torrent_meta \<Rightarrow> nat \<Rightarrow> nat \<Rightarrow> f64 \<Rightarrow> engine \<Rightarrow>
    (bool \<times> swap_decision) \<times> engine" where
  "try_fill w c md held_count flr roll e =
     (let decision = no_decision ''candidate not evaluated''
      in if held_count < en_max_torrents e then
           if ram_headroom_bytes e < torrent_ram (cand_piece_count c) (peer_limit_for_budget (en_ram_budget e))
           then ((False, decision), e)
           else let storage = cfg_storage (en_cfg e)
                in case choose_location (map (free_bytes w e) storage)
                          (map (\<lambda>_. size_needed (md_total_length md)) storage) (w_location_roll w) of
                     Some idx \<Rightarrow> try_add w c md (md_total_length md) (sl_path (storage ! idx)) [] flr roll e
                   | None \<Rightarrow> ((False, decision), e)
         else ((False, decision), e))"

text \<open>The placement half of \<open>act_on_candidate\<close>, with the metadata at hand: fill, then the early returns,
  then the exchange.  \<open>probe\<close> is a lapsed quarantine.\<close>

definition place_candidate :: "world \<Rightarrow> candidate \<Rightarrow> torrent_meta \<Rightarrow> bool \<Rightarrow> nat \<Rightarrow> nat \<Rightarrow> engine \<Rightarrow> nat \<times> engine" where
  "place_candidate w c md probe held_count flr e =
     (let c = c\<lparr>cand_piece_count := md_piece_count md\<rparr>;
          roll = (if probe then Fin (-1) else w_roll w)
      in case try_fill w c md held_count flr roll e of
           ((True, _), e) \<Rightarrow> (held_count + 1, e)
         | ((False, decision), e) \<Rightarrow>
             if seed_scarcity_blocked decision then (held_count, e)
             else if probe then (held_count, e)
             else case try_swap w c md (md_total_length md) flr roll e of
                    ((swapped, _, removed), e) \<Rightarrow>
                      (if swapped then held_count + 1 - removed else held_count, e))"

text \<open>\<open>act_on_candidate\<close> returns the running held count with the engine.\<close>

definition act_on_candidate :: "world \<Rightarrow> candidate \<Rightarrow> nat \<Rightarrow> nat \<Rightarrow> engine \<Rightarrow> nat \<times> engine" where
  "act_on_candidate w c held_count flr e =
     (case quarantine_gate w e (cand_info_hash c) of
        (Some _, _) \<Rightarrow> (held_count, e)
      | (None, probe) \<Rightarrow>
          (case fetch_metadata w (cand_info_hash c) e of
             (Inl _, e) \<Rightarrow> (held_count, e)
           | (Inr md, e) \<Rightarrow>
               if \<not> fits_in_headroom (md_file_count md) (w_fd_headroom w) then (held_count, e)
               else place_candidate w c md probe held_count flr e))"

record evaluated =
  ev_title :: string
  ev_info_hash :: string
  ev_size_bytes :: nat
  ev_piece_count :: nat
  ev_seeders :: nat
  ev_leechers :: nat

definition candidate_of :: "nat \<Rightarrow> evaluated \<Rightarrow> candidate" where
  "candidate_of flr ev = \<lparr>cand_info_hash = ev_info_hash ev, cand_title = ev_title ev,
     cand_size_bytes = ev_size_bytes ev, cand_piece_count = ev_piece_count ev, cand_seeders = ev_seeders ev,
     cand_leechers = ev_leechers ev, cand_seeder_floor = flr\<rparr>"

text \<open>Each candidate meets the world of its own moment, \<open>ws\<close> of its hash.\<close>

fun act_each :: "(string \<Rightarrow> world) \<Rightarrow> nat \<Rightarrow> candidate list \<Rightarrow> string set \<Rightarrow> nat \<Rightarrow> engine \<Rightarrow> string set \<times> nat \<times> engine" where
  "act_each ws flr [] acted held_count e = (acted, held_count, e)"
| "act_each ws flr (c # cs) acted held_count e =
     (let key = cand_info_hash c
      in if key \<in> acted then act_each ws flr cs acted held_count e
         else case act_on_candidate (ws key) c held_count flr e of
                (held_count, e) \<Rightarrow> act_each ws flr cs (insert key acted) held_count e)"

definition act_on_windowed :: "(string \<Rightarrow> world) \<Rightarrow> (f64 \<Rightarrow> f64 \<Rightarrow> f64) \<Rightarrow> evaluated list \<Rightarrow> string set \<Rightarrow> nat \<Rightarrow> nat \<Rightarrow> engine \<Rightarrow>
    string set \<times> nat \<times> engine" where
  "act_on_windowed ws powf evs acted held_count flr e =
     (let sel = rank_candidates powf (map (candidate_of flr) evs) (en_size_bias e)
                  (peer_limit_for_budget (en_ram_budget e));
          window = min (en_max_torrents e) (length sel)
      in act_each ws flr (take window sel) acted held_count e)"

text \<open>An engine with one torrent and a world in which everything succeeds, for the examples.\<close>

definition sample_meta :: torrent_meta where
  "sample_meta = \<lparr>md_info_hash = hex_encode (replicate 20 1), md_trackers = [''https://academictorrents.com/announce.php''],
     md_created_at = Some 0, md_total_length = 1000, md_piece_count = 3, md_file_count = 1, md_name = ''n''\<rparr>"

definition sample_world :: world where
  "sample_world = \<lparr>w_now = 1000, w_max_utc = 10 ^ 21, w_powf = (\<lambda>_ _. Fin 1), w_parse_url = (\<lambda>_. None),
     w_roll = Fin 0, w_location_roll = Fin 0, w_fd_headroom = None, w_cached_meta = (\<lambda>_. Some sample_meta),
     w_fetch = (\<lambda>_. Inl ''offline''), w_read_raw = (\<lambda>_. True), w_mkdir = (\<lambda>_. True), w_add = (\<lambda>_. AddManaged),
     w_delete = (\<lambda>_. True), w_dir_exists = (\<lambda>_. False), w_dir_size = (\<lambda>_. 0), w_dev_free = (\<lambda>_. None),
     w_dev_free_swap = (\<lambda>_. None), w_find = (\<lambda>_. None), w_scrape = (\<lambda>_ _. TimedOut), w_shutdown = False, w_save = (\<lambda>_. True),
     w_encode = (\<lambda>_. None), w_hist = sample_env\<rparr>"

definition sample_engine :: engine where
  "sample_engine = \<lparr>en_cfg = sample_config\<lparr>cfg_storage := [\<lparr>sl_path = ''/d'', sl_limit = Bytes 1000000\<rparr>]\<rparr>,
     en_state = \<lparr>st_torrents = [(''aa'', sample_torrent ''aa'' 10 9)], st_quarantined = [], st_disk = None\<rparr>,
     en_blocklist = blocklist_new [], en_user_announce = [], en_user_announce_ipv6 = [], en_max_torrents = 5,
     en_ram_budget = 100000000, en_size_bias = Fin 0, en_live = None, en_history = sample_writer,
     en_swarm = \<lparr>ca_ttl = 0, ca_entries = []\<rparr>, en_detector = detector_new, en_last_catalog = None, en_trace = []\<rparr>"

definition sample_evaluated :: evaluated where
  "sample_evaluated = \<lparr>ev_title = ''n'', ev_info_hash = hex_encode (replicate 20 1), ev_size_bytes = 1000,
     ev_piece_count = 3, ev_seeders = 2, ev_leechers = 0\<rparr>"

text \<open>The same engine with its only location full, and a candidate nobody else seeds.\<close>

definition full_engine :: engine where
  "full_engine = sample_engine\<lparr>en_cfg := (en_cfg sample_engine)\<lparr>cfg_storage := [\<lparr>sl_path = ''/d'', sl_limit = Bytes 500000\<rparr>]\<rparr>,
     en_state := \<lparr>st_torrents = [(''aa'', (sample_torrent ''aa'' 400000 9)\<lparr>t_piece_count := 5\<rparr>)], st_quarantined = [], st_disk = None\<rparr>\<rparr>"

definition rare_candidate :: candidate where
  "rare_candidate = candidate_of 0 (sample_evaluated\<lparr>ev_seeders := 1\<rparr>)"

section \<open>Totals over the holdings\<close>

definition weight_total :: "(torrent \<Rightarrow> nat) \<Rightarrow> state \<Rightarrow> nat" where
  "weight_total weight s = sum_list (map weight (all_torrents s))"

text \<open>The three weights: reserved bytes at one location, resident memory, and one per torrent.\<close>

definition disk_weight :: "string \<Rightarrow> torrent \<Rightarrow> nat" where
  "disk_weight location t = (if t_storage_location t = location then t_size_bytes t + PER_TORRENT_SIZE_BUFFER else 0)"

definition committed :: "state \<Rightarrow> string \<Rightarrow> nat" where
  "committed s location = weight_total (disk_weight location) s"

definition ram_used :: "nat \<Rightarrow> state \<Rightarrow> nat" where
  "ram_used peer_limit s = weight_total (ram_price peer_limit) s"

section \<open>What one call can do to the holdings\<close>

text \<open>
  The abstract view of \<open>act_on_candidate\<close>: nothing, an addition into free space, or an exchange at one
  location.  A state is paired with the running held count.
\<close>

definition chance_of :: "engine \<Rightarrow> candidate \<Rightarrow> nat \<Rightarrow> f64" where
  "chance_of e c flr = selection_chance (cfg_aggressiveness (en_cfg e)) (cand_seeders c) flr"

definition effective_roll :: "world \<Rightarrow> engine \<Rightarrow> candidate \<Rightarrow> f64" where
  "effective_roll w e c = (if snd (quarantine_gate w e (cand_info_hash c)) then Fin (-1) else w_roll w)"

definition exchange :: "torrent list \<Rightarrow> torrent \<Rightarrow> (string, torrent) hmap \<Rightarrow> (string, torrent) hmap" where
  "exchange ds t m = fold hm_remove (map t_info_hash ds) (hm_insert (t_info_hash t) t m)"

definition meta_of :: "world \<Rightarrow> string \<Rightarrow> torrent_meta option" where
  "meta_of w h = (case w_cached_meta w h of Some md \<Rightarrow> Some md | None \<Rightarrow> ok (w_fetch w h))"

inductive holdings_step :: "world \<Rightarrow> engine \<Rightarrow> candidate \<Rightarrow> nat \<Rightarrow> nat \<Rightarrow> state \<Rightarrow> nat \<Rightarrow> state \<Rightarrow> bool"
  for w e c flr n s where
  keep: "st_torrents s' = st_torrents s \<Longrightarrow> st_quarantined s' = st_quarantined s \<Longrightarrow> holdings_step w e c flr n s n s'"
| fill: "\<lbrakk>meta_of w (cand_info_hash c) = Some md; n < en_max_torrents e; fst (quarantine_gate w e (cand_info_hash c)) = None;
     f_lt (effective_roll w e c) (chance_of e c flr); 1 \<le> cand_seeders c;
     torrent_ram (md_piece_count md) (peer_limit_for_budget (en_ram_budget e)) \<le> ram_headroom_bytes e;
     loc \<in> set (cfg_storage (en_cfg e)); size_needed (md_total_length md) \<le> free_bytes w e loc;
     t = new_torrent w c md (md_total_length md) (sl_path loc);
     st_torrents s' = hm_insert (t_info_hash t) t (st_torrents s); st_quarantined s' = st_quarantined s\<rbrakk>
   \<Longrightarrow> holdings_step w e c flr n s (n + 1) s'"
| swap: "\<lbrakk>meta_of w (cand_info_hash c) = Some md; quarantine_get s (cand_info_hash c) = None; f_lt (w_roll w) (chance_of e c flr); 1 \<le> cand_seeders c;
     ds \<noteq> []; distinct ds; set ds \<subseteq> set (all_torrents s);
     list_all (\<lambda>d. t_storage_location d = location) ds;
     list_all (clears_margin (sc_min_seed_margin (cfg_scan (en_cfg e))) (cand_seeders c)) ds;
     size_needed (md_total_length md) \<le> sum_list (map t_size_bytes ds);
     torrent_ram (md_piece_count md) (peer_limit_for_budget (en_ram_budget e)) \<le>
       sum_list (map (\<lambda>d. torrent_ram (max (t_piece_count d) 1) (peer_limit_for_budget (en_ram_budget e))) ds);
     removed \<le> length ds;
     t = new_torrent w c md (md_total_length md) location;
     st_torrents s' = exchange ds t (st_torrents s); st_quarantined s' = st_quarantined s\<rbrakk>
   \<Longrightarrow> holdings_step w e c flr n s (n + 1 - removed) s'"

inductive_cases holdings_stepE: "holdings_step w e c flr n s n' s'"

section \<open>The code takes such a step\<close>

lemma free_bytes_cong: "en_state e' = en_state e \<Longrightarrow> free_bytes w e' loc = free_bytes w e loc"
  by (simp add: free_bytes_def)

lemma ram_headroom_cong:
  "en_state e' = en_state e \<Longrightarrow> en_ram_budget e' = en_ram_budget e \<Longrightarrow> ram_headroom_bytes e' = ram_headroom_bytes e"
  by (simp add: ram_headroom_bytes_def)

lemma evaluate_swap_True:
  assumes "should_swap (evaluate_swap c ds margin a roll)"
  shows "1 \<le> cand_seeders c" "f_lt roll (selection_chance a (cand_seeders c) (cand_seeder_floor c))"
    "list_all (\<lambda>d. int (cand_seeders c) + margin \<le> int (held_seeders d)) ds"
  using assms by (auto simp: evaluate_swap_def available_def meets_seed_margin_iff Let_def split: if_splits)

lemma try_add_False:
  "try_add w c md sz loc ds flr roll e = ((False, d), e') \<Longrightarrow> en_state e' = en_state e \<and> same_static e e' \<and>
     en_live e' = en_live e"
  by (auto simp: try_add_def Let_def split: if_splits prod.splits sum.splits)
    (metis add_torrent_bytes_frame emit_frame(1,6) same_static_ops(1) same_static_refl snd_conv)+

lemma try_add_True:
  assumes "try_add w c md sz loc ds flr roll e = ((True, d), e')"
  shows "st_torrents (en_state e') = hm_insert (cand_info_hash c) (new_torrent w c md sz loc) (st_torrents (en_state e))"
    "st_quarantined (en_state e') = st_quarantined (en_state e)" "same_static e e'"
    "1 \<le> cand_seeders c" "f_lt roll (chance_of e c flr)"
    "list_all (\<lambda>d. int (cand_seeders c) + sc_min_seed_margin (cfg_scan (en_cfg e)) \<le> int (held_seeders d)) ds"
proof -
  let ?d = "evaluate_swap (add_candidate c md sz flr) ds (sc_min_seed_margin (cfg_scan (en_cfg e)))
      (cfg_aggressiveness (en_cfg e)) roll"
  let ?o = "torrent_output_dir loc (cand_info_hash c)"
  let ?k = "at_trackers_only (w_parse_url w) (tiers_of (md_trackers md)) (en_user_announce e) (en_user_announce_ipv6 e)"
  let ?a = "add_torrent_bytes w (cand_info_hash c) ?o ?k (emit [CreateDir ?o] e)"
  have s: "should_swap ?d" using assms by (auto simp: try_add_def Let_def split: if_splits)
  from evaluate_swap_True [OF this] show "1 \<le> cand_seeders c" "f_lt roll (chance_of e c flr)"
    "list_all (\<lambda>d. int (cand_seeders c) + sc_min_seed_margin (cfg_scan (en_cfg e)) \<le> int (held_seeders d)) ds"
    by (simp_all add: add_candidate_def chance_of_def)
  obtain r e1 where a: "?a = (Inr r, e1)"
    using assms s by (auto simp: try_add_def Let_def split: if_splits prod.splits sum.splits)
  then have "en_state e1 = en_state e" "same_static e e1"
    using add_torrent_bytes_frame(1) [of w "cand_info_hash c" ?o ?k "emit [CreateDir ?o] e"]
      add_torrent_bytes_frame(2) [of e w "cand_info_hash c" ?o ?k "emit [CreateDir ?o] e"] by simp_all
  moreover have "en_state e' = snd (state_put (w_save w) (new_torrent w c md sz loc) (en_state e1)) \<and>
      same_static e e' = same_static e e1"
    using assms s a by (auto simp: try_add_def Let_def split: if_splits)
  ultimately show "st_torrents (en_state e') = hm_insert (cand_info_hash c) (new_torrent w c md sz loc) (st_torrents (en_state e))"
    "st_quarantined (en_state e') = st_quarantined (en_state e)" "same_static e e'"
    by (simp_all add: new_torrent_def)
qed

lemma drop_torrent_frame:
  assumes "drop_torrent w h e = (saved, e')"
  shows "st_torrents (en_state e') = hm_remove (t_info_hash h) (st_torrents (en_state e))"
    "st_quarantined (en_state e') = st_quarantined (en_state e)" "same_static e e'" "en_live e' = en_live e"
    "en_detector e' = en_detector e"
  using assms by (auto simp: drop_torrent_def Let_def split: prod.splits dest!: sym [of "state_remove _ _ _"] arg_cong [of _ _ snd])

lemma drop_displaced_frame:
  assumes "drop_displaced w ds r e = (r', e')"
  shows "st_torrents (en_state e') = fold hm_remove (map t_info_hash ds) (st_torrents (en_state e)) \<and>
    st_quarantined (en_state e') = st_quarantined (en_state e) \<and> same_static e e' \<and> r \<le> r' \<and> r' \<le> r + length ds"
  using assms
proof (induction ds arbitrary: r e)
  case (Cons h ds)
  obtain saved e1 where d: "drop_torrent w h e = (saved, e1)" by fastforce
  then have "drop_displaced w ds (if saved then r + 1 else r) e1 = (r', e')" using Cons.prems by simp
  from Cons.IH [OF this] show ?case
    using drop_torrent_frame [OF d] same_static_trans [of e e1 e'] by (auto split: if_splits)
qed simp

text \<open>What a successful exchange at one location rests on.\<close>

definition exchange_ok :: "world \<Rightarrow> engine \<Rightarrow> candidate \<Rightarrow> torrent_meta \<Rightarrow> nat \<Rightarrow> torrent list \<Rightarrow> string \<Rightarrow> torrent list \<Rightarrow> bool" where
  "exchange_ok w e c md sz held location ds \<longleftrightarrow>
     ds \<noteq> [] \<and> distinct ds \<and> set ds \<subseteq> set held \<and> list_all (\<lambda>d. t_storage_location d = location) ds \<and>
     list_all (clears_margin (sc_min_seed_margin (cfg_scan (en_cfg e))) (cand_seeders c)) ds \<and>
     size_needed sz \<le> sum_list (map t_size_bytes ds) \<and>
     torrent_ram (md_piece_count md) (peer_limit_for_budget (en_ram_budget e)) \<le>
       sum_list (map (\<lambda>d. torrent_ram (max (t_piece_count d) 1) (peer_limit_for_budget (en_ram_budget e))) ds)"

lemma exchange_ok_cong: "same_static e e' \<Longrightarrow> exchange_ok w e' c md sz held location ds = exchange_ok w e c md sz held location ds"
  by (simp add: exchange_ok_def same_static_def)

lemma select_exchange_ok:
  assumes "select_displaceable powf (filter (\<lambda>h. t_storage_location h = location) held) (cand_seeders c)
      (size_needed sz) (torrent_ram (md_piece_count md) (peer_limit_for_budget (en_ram_budget e)))
      (peer_limit_for_budget (en_ram_budget e)) (sc_min_seed_margin (cfg_scan (en_cfg e))) bias = Some ds"
    and "distinct held"
  shows "exchange_ok w e c md sz held location ds"
  using select_displaceable_spec [OF assms(1)] assms(2) by (auto simp: exchange_ok_def list_all_iff)

lemma swap_locations_outcome:
  assumes "swap_locations w c md sz flr roll held locs latest e = ((swapped, d, removed), e')" "distinct held"
  shows "if swapped then
      (\<exists>location ds. exchange_ok w e c md sz held location ds \<and> removed \<le> length ds \<and>
         1 \<le> cand_seeders c \<and> f_lt roll (chance_of e c flr) \<and>
         st_torrents (en_state e') = exchange ds (new_torrent w c md sz location) (st_torrents (en_state e)) \<and>
         st_quarantined (en_state e') = st_quarantined (en_state e) \<and> same_static e e')
    else en_state e' = en_state e \<and> same_static e e' \<and> removed = 0"
  using assms(1)
proof (induction locs arbitrary: latest e)
  case (Cons location locs)
  let ?pl = "peer_limit_for_budget (en_ram_budget e)"
  let ?sel = "select_displaceable (w_powf w) (filter (\<lambda>h. t_storage_location h = location) held) (cand_seeders c)
      (size_needed sz) (torrent_ram (md_piece_count md) ?pl) ?pl (sc_min_seed_margin (cfg_scan (en_cfg e))) (en_size_bias e)"
  show ?case
  proof (cases ?sel)
    case None
    with Cons.prems show ?thesis by (intro Cons.IH) (simp add: Let_def)
  next
    case sel: (Some ds)
    let ?fr = "wrap64 (sum_list (map (\<lambda>h. w_dir_size w (torrent_output_dir (t_storage_location h) (t_info_hash h))) ds))"
    show ?thesis
    proof (cases "device_gate_reason (w_dev_free_swap w location) ?fr (size_needed sz)")
      case (Some reason)
      with sel Cons.prems show ?thesis by (intro Cons.IH) (simp add: Let_def)
    next
      case gate: None
      obtain ok d1 e1 where a: "try_add w c md sz location (map held_of ds) flr roll e = ((ok, d1), e1)"
        by (metis prod.exhaust)
      show ?thesis
      proof (cases ok)
        case False
        have f: "en_state e1 = en_state e" "same_static e e1"
          using try_add_False [of w c md sz location "map held_of ds" flr roll e d1 e1] a False by auto
        have "swap_locations w c md sz flr roll held locs d1 e1 = ((swapped, d, removed), e')"
          using Cons.prems sel gate a False by (simp add: Let_def)
        from Cons.IH [OF this] show ?thesis
          using f same_static_trans [of e e1 e'] exchange_ok_cong [OF f(2)]
          by (auto simp: chance_of_def same_static_def split: if_splits)
      next
        case True
        obtain r2 e2 where dd: "drop_displaced w ds 0 e1 = (r2, e2)" by fastforce
        then have res: "swapped" "removed = r2" "e' = (if 0 < r2 then push_live e2 else e2)"
          using Cons.prems sel gate a True by (auto simp: Let_def)
        have "try_add w c md sz location (map held_of ds) flr roll e = ((True, d1), e1)" using a True by simp
        note t = try_add_True [OF this]
        have "exchange_ok w e c md sz held location ds" using sel assms(2) by (rule select_exchange_ok)
        then show ?thesis
          using res t drop_displaced_frame [OF dd] same_static_trans [of e e1 e2]
          by (auto simp: exchange_def new_torrent_def intro!: exI [of _ location] exI [of _ ds])
      qed
    qed
  qed
qed simp

lemma try_fill_False:
  "try_fill w c md n flr roll e = ((False, d), e') \<Longrightarrow> en_state e' = en_state e \<and> same_static e e'"
  using try_add_False by (fastforce simp: try_fill_def Let_def split: if_splits option.splits)

lemma choose_location_room:
  assumes "choose_location free need roll = Some i"
  shows "i < length free \<and> i < length need \<and> need ! i \<le> free ! i"
proof -
  let ?es = "eligible_locations free need"
  have ne: "?es \<noteq> []" using assms by (auto simp: choose_location_def Let_def)
  then have "i \<in> fst ` set ?es"
    using assms location_walk_mem last_in_set [OF ne]
    by (fastforce simp: choose_location_def Let_def split: option.splits)
  then show ?thesis by (auto simp: eligible_locations_mem)
qed

lemma try_fill_True:
  assumes "try_fill w c md n flr roll e = ((True, d), e')"
  shows "\<exists>loc. n < en_max_torrents e \<and> loc \<in> set (cfg_storage (en_cfg e)) \<and>
    torrent_ram (cand_piece_count c) (peer_limit_for_budget (en_ram_budget e)) \<le> ram_headroom_bytes e \<and>
    size_needed (md_total_length md) \<le> free_bytes w e loc \<and> 1 \<le> cand_seeders c \<and> f_lt roll (chance_of e c flr) \<and>
    st_torrents (en_state e') = hm_insert (cand_info_hash c) (new_torrent w c md (md_total_length md) (sl_path loc))
      (st_torrents (en_state e)) \<and>
    st_quarantined (en_state e') = st_quarantined (en_state e) \<and> same_static e e'"
proof -
  let ?st = "cfg_storage (en_cfg e)"
  obtain i where i: "choose_location (map (free_bytes w e) ?st) (map (\<lambda>_. size_needed (md_total_length md)) ?st)
      (w_location_roll w) = Some i"
    and a: "try_add w c md (md_total_length md) (sl_path (?st ! i)) [] flr roll e = ((True, d), e')"
    and g: "n < en_max_torrents e"
      "torrent_ram (cand_piece_count c) (peer_limit_for_budget (en_ram_budget e)) \<le> ram_headroom_bytes e"
    using assms by (auto simp: try_fill_def Let_def not_less split: if_splits option.splits)
  have "i < length ?st" "size_needed (md_total_length md) \<le> free_bytes w e (?st ! i)"
    using choose_location_room [OF i] by auto
  then show ?thesis using g try_add_True [OF a] by (intro exI [of _ "?st ! i"]) auto
qed

lemma all_torrents_distinct: "wf_state s \<Longrightarrow> distinct (all_torrents s)"
proof -
  assume "wf_state s"
  then have "distinct (map fst (st_torrents s))" "\<forall>(h, t) \<in> set (st_torrents s). t_info_hash t = h"
    by (auto simp: wf_state_def hm_wf_def)
  moreover from this(2) have "map fst (st_torrents s) = map t_info_hash (all_torrents s)"
    by (auto simp: all_torrents_def)
  ultimately show ?thesis by (simp add: distinct_map)
qed

lemma candidate_update_fields:
  "cand_info_hash (c\<lparr>cand_piece_count := p\<rparr>) = cand_info_hash c"
  "cand_seeders (c\<lparr>cand_piece_count := p\<rparr>) = cand_seeders c"
  "new_torrent w (c\<lparr>cand_piece_count := p\<rparr>) = new_torrent w c"
  "chance_of e (c\<lparr>cand_piece_count := p\<rparr>) = chance_of e c"
  "exchange_ok w e (c\<lparr>cand_piece_count := p\<rparr>) = exchange_ok w e c"
  by (auto simp: new_torrent_def chance_of_def exchange_ok_def fun_eq_iff)

lemma holdings_step_refl [simp]: "holdings_step w e c flr n s n s"
  by (rule holdings_step.keep) simp_all

lemma exchange_step:
  assumes "exchange_ok w e c md (md_total_length md) (all_torrents s) location ds" "removed \<le> length ds"
    and "meta_of w (cand_info_hash c) = Some md"
    and "quarantine_get s (cand_info_hash c) = None" "f_lt (w_roll w) (chance_of e c flr)" "1 \<le> cand_seeders c"
    and "st_torrents s' = exchange ds (new_torrent w c md (md_total_length md) location) (st_torrents s)"
    and "st_quarantined s' = st_quarantined s"
  shows "holdings_step w e c flr n s (n + 1 - removed) s'"
  using assms holdings_step.swap [of w c md s e flr ds location removed _ s' n] by (simp add: exchange_ok_def)

lemma place_candidate_refines:
  assumes "wf_state (en_state e)" "place_candidate w c md probe n flr e = (n', e')"
    and gate: "quarantine_gate w e (cand_info_hash c) = (None, probe)" and meta: "meta_of w (cand_info_hash c) = Some md"
  shows "holdings_step w e c flr n (en_state e) n' (en_state e') \<and> same_static e e'"
proof -
  let ?c = "c\<lparr>cand_piece_count := md_piece_count md\<rparr>"
  let ?roll = "if probe then Fin (-1) else w_roll w"
  have q: "quarantine_get (en_state e) (cand_info_hash c) = None" if "\<not> probe"
    using gate that by (auto simp: quarantine_gate_def split: option.splits if_splits)
  have roll: "effective_roll w e c = ?roll" using gate by (simp add: effective_roll_def)
  obtain added d e2 where f: "try_fill w ?c md n flr ?roll e = ((added, d), e2)" by (metis prod.exhaust)
  consider (fill) "added" | (stop) "\<not> added" "seed_scarcity_blocked d \<or> probe"
    | (swap) "\<not> added" "\<not> seed_scarcity_blocked d" "\<not> probe" by blast
  then show ?thesis
  proof cases
    case fill
    then have f': "try_fill w ?c md n flr ?roll e = ((True, d), e2)" using f by simp
    then have r: "n' = n + 1" "e' = e2" using assms(2) by (auto simp: place_candidate_def Let_def)
    obtain loc where l: "n < en_max_torrents e" "loc \<in> set (cfg_storage (en_cfg e))"
      "torrent_ram (md_piece_count md) (peer_limit_for_budget (en_ram_budget e)) \<le> ram_headroom_bytes e"
      "size_needed (md_total_length md) \<le> free_bytes w e loc" "1 \<le> cand_seeders c" "f_lt ?roll (chance_of e c flr)"
      "st_torrents (en_state e2) = hm_insert (cand_info_hash c) (new_torrent w c md (md_total_length md) (sl_path loc))
         (st_torrents (en_state e))"
      "st_quarantined (en_state e2) = st_quarantined (en_state e)" "same_static e e2"
      using try_fill_True [OF f'] by (auto simp: candidate_update_fields)
    have "t_info_hash (new_torrent w c md (md_total_length md) (sl_path loc)) = cand_info_hash c"
      by (simp add: new_torrent_def)
    with l r gate roll meta show ?thesis
      using holdings_step.fill [of w c md n e flr loc _ "en_state e2" "en_state e"] by auto
  next
    case stop
    then have "try_fill w ?c md n flr ?roll e = ((False, d), e2)" using f by simp
    then have "n' = n \<and> e' = e2"
      using assms(2) stop(2) by (auto simp only: place_candidate_def Let_def prod.case bool.case split: if_splits)
    then show ?thesis using try_fill_False [of w ?c md n flr ?roll e d e2] f stop(1) by auto
  next
    case swap
    then have s2: "en_state e2 = en_state e" "same_static e e2"
      using try_fill_False [of w ?c md n flr ?roll e d e2] f by auto
    obtain swapped d2 removed e3 where sw: "try_swap w ?c md (md_total_length md) flr ?roll e2 = ((swapped, d2, removed), e3)"
      by (metis prod.exhaust)
    then have r: "n' = (if swapped then n + 1 - removed else n)" "e' = e3"
      using assms(2) f swap by (auto simp: place_candidate_def Let_def)
    have "distinct (all_torrents (en_state e2))" using assms(1) s2(1) by (simp add: all_torrents_distinct)
    note o = swap_locations_outcome [OF sw [unfolded try_swap_def Let_def] this]
    have "chance_of e2 = chance_of e" using s2(2) by (auto simp: chance_of_def same_static_def fun_eq_iff)
    then show ?thesis
      using o r s2 swap(3) q meta exchange_ok_cong [OF s2(2)] same_static_trans [OF s2(2), of e3]
      by (cases swapped) (auto simp: candidate_update_fields simp del: One_nat_def intro: exchange_step)
  qed
qed

lemma holdings_step_cong:
  assumes "same_static e e'" "en_state e' = en_state e" "holdings_step w e' c flr n s n' s'"
  shows "holdings_step w e c flr n s n' s'"
  using assms(3)
proof cases
  case (fill md loc t)
  have "quarantine_gate w e' = quarantine_gate w e" "effective_roll w e' = effective_roll w e" "chance_of e' = chance_of e"
    using assms(1,2) by (auto simp: quarantine_gate_def effective_roll_def chance_of_def same_static_def fun_eq_iff)
  with fill show ?thesis
    using assms(1,2) free_bytes_cong [of e' e w] ram_headroom_cong [of e' e]
      holdings_step.fill [of w c md n e flr loc t s' s]
    by (simp add: same_static_def)
next
  case (swap md ds location removed t)
  have "chance_of e' = chance_of e" using assms(1) by (auto simp: chance_of_def same_static_def fun_eq_iff)
  with swap show ?thesis
    using assms(1) holdings_step.swap [of w c md s e flr ds location removed t s' n] by (simp add: same_static_def)
qed (auto intro: holdings_step.keep)

lemma act_on_candidate_step:
  assumes "wf_state (en_state e)" "act_on_candidate w c n flr e = (n', e')"
  shows "holdings_step w e c flr n (en_state e) n' (en_state e') \<and> same_static e e'"
proof -
  obtain act probe where g: "quarantine_gate w e (cand_info_hash c) = (act, probe)" by fastforce
  obtain r e1 where m: "fetch_metadata w (cand_info_hash c) e = (r, e1)" by fastforce
  have s1: "en_state e1 = en_state e" "same_static e e1"
    using m fetch_metadata_frame(1) [of w "cand_info_hash c" e] fetch_metadata_frame(2) [of e w "cand_info_hash c" e] by simp_all
  show ?thesis
  proof (cases "act = None \<and> (\<exists>md. r = Inr md \<and> fits_in_headroom (md_file_count md) (w_fd_headroom w))")
    case False
    then have "n' = n \<and> en_state e' = en_state e \<and> same_static e e'"
      using assms g m s1 by (auto simp: act_on_candidate_def split: option.splits sum.splits if_splits)
    then show ?thesis by auto
  next
    case True
    then obtain md where md: "act = None" "place_candidate w c md probe n flr e1 = (n', e')" "r = Inr md"
      using assms g m by (auto simp: act_on_candidate_def)
    then have "meta_of w (cand_info_hash c) = Some md"
      using m by (auto simp: fetch_metadata_def meta_of_def split: option.splits)
    with md have "?thesis" if "quarantine_gate w e1 (cand_info_hash c) = (None, probe)"
      using place_candidate_refines [of e1 w c md probe n flr n' e'] assms(1) s1 that
        holdings_step_cong [OF s1(2,1)] same_static_trans [OF s1(2)] by auto
    moreover have "quarantine_gate w e1 (cand_info_hash c) = (None, probe)"
      using g md(1) s1(1) by (simp add: quarantine_gate_def)
    ultimately show ?thesis by blast
  qed
qed

section \<open>Sums over an exchange\<close>

definition entry_val :: "('k \<times> 'v \<Rightarrow> nat) \<Rightarrow> ('k, 'v) hmap \<Rightarrow> 'k \<Rightarrow> nat" where
  "entry_val g m k = (case hm_get m k of None \<Rightarrow> 0 | Some v \<Rightarrow> g (k, v))"

lemma entry_val_other:
  "k \<notin> set ks \<Longrightarrow> sum_list (map (entry_val g (hm_insert k v m)) ks) = sum_list (map (entry_val g m) ks)"
  "k \<notin> set ks \<Longrightarrow> sum_list (map (entry_val g (hm_remove k m)) ks) = sum_list (map (entry_val g m) ks)"
  by (auto simp: entry_val_def hm_simps intro!: arg_cong [of _ _ sum_list])

lemma sum_fold_remove:
  assumes "hm_wf m" "distinct ks"
  shows "sum_list (map g (fold hm_remove ks m)) + sum_list (map (entry_val g m) ks) = sum_list (map g m)"
  using assms
proof (induction ks arbitrary: m)
  case (Cons k ks)
  then show ?case
    using Cons.IH [of "hm_remove k m"] sum_list_hm_remove [of m g k]
    by (auto simp: entry_val_other entry_val_def [of g m k])
qed simp

lemma sum_exchange:
  fixes g :: "'k \<times> 'v \<Rightarrow> nat"
  assumes "hm_wf m" "distinct ks"
  shows "sum_list (map g (fold hm_remove ks (hm_insert k v m))) + sum_list (map (entry_val g m) ks)
       \<le> sum_list (map g m) + g (k, v)"
proof -
  let ?m = "hm_insert k v m"
  have ins: "sum_list (map g ?m) + entry_val g m k = sum_list (map g m) + g (k, v)"
    using sum_list_hm_insert [OF assms(1), of g k v] by (simp add: entry_val_def)
  have rem: "sum_list (map g (fold hm_remove ks ?m)) + sum_list (map (entry_val g ?m) ks) = sum_list (map g ?m)"
    using assms by (intro sum_fold_remove) simp_all
  show ?thesis
  proof (cases "k \<in> set ks")
    case False
    then show ?thesis using ins rem by (simp add: entry_val_other)
  next
    case True
    then obtain xs ys where ks: "ks = xs @ k # ys" by (meson split_list)
    then have "k \<notin> set xs" "k \<notin> set ys" using assms(2) by auto
    moreover have "entry_val g ?m k = g (k, v)" by (simp add: entry_val_def hm_simps)
    ultimately show ?thesis using ins rem by (simp add: ks entry_val_other)
  qed
qed

lemma weight_total_entries: "weight_total weight s = sum_list (map (\<lambda>e. weight (snd e)) (st_torrents s))"
  by (simp add: weight_total_def all_torrents_def comp_def)

lemma held_lookup:
  assumes "wf_state s" "t \<in> set (all_torrents s)" shows "hm_get (st_torrents s) (t_info_hash t) = Some t"
  using assms by (auto simp: wf_state_def all_torrents_def hm_wf_def)

lemma displaced_keys:
  assumes "wf_state s" "set ds \<subseteq> set (all_torrents s)" "distinct ds"
  shows "distinct (map t_info_hash ds)"
    "sum_list (map (entry_val (\<lambda>e. weight (snd e)) (st_torrents s)) (map t_info_hash ds)) = sum_list (map weight ds)"
proof -
  have l: "hm_get (st_torrents s) (t_info_hash t) = Some t" if "t \<in> set ds" for t
    using assms that by (intro held_lookup) auto
  then have "inj_on t_info_hash (set ds)" by (metis inj_onI option.inject)
  then show "distinct (map t_info_hash ds)" using assms(3) by (simp add: distinct_map)
  show "sum_list (map (entry_val (\<lambda>e. weight (snd e)) (st_torrents s)) (map t_info_hash ds)) = sum_list (map weight ds)"
    using l by (auto simp: entry_val_def intro!: arg_cong [of _ _ sum_list])
qed

lemma exchange_total:
  assumes "wf_state s" "set ds \<subseteq> set (all_torrents s)" "distinct ds" "st_torrents s' = exchange ds t (st_torrents s)"
  shows "weight_total weight s' + sum_list (map weight ds) \<le> weight_total weight s + weight t"
proof -
  have "hm_wf (st_torrents s)" using assms(1) by (simp add: wf_state_def)
  from sum_exchange [OF this displaced_keys(1) [OF assms(1-3)], of "\<lambda>e. weight (snd e)" "t_info_hash t" t]
  show ?thesis
    unfolding displaced_keys(2) [OF assms(1-3), of weight] weight_total_entries assms(4) exchange_def by simp
qed

section \<open>The contract of a budget\<close>

locale budget =
  fixes weight :: "torrent \<Rightarrow> nat" and cap :: nat
    and room :: "state \<Rightarrow> torrent \<Rightarrow> bool" and covers :: "torrent list \<Rightarrow> torrent \<Rightarrow> bool"
  assumes room_fits: "room s t \<Longrightarrow> weight_total weight s + weight t \<le> max (weight_total weight s) cap"
    and covers_weight: "covers ds t \<Longrightarrow> weight t \<le> sum_list (map weight ds)"
begin

lemma admit:
  assumes "wf_state s" "room s t" "st_torrents s' = hm_insert (t_info_hash t) t (st_torrents s)"
  shows "weight_total weight s' \<le> max (weight_total weight s) cap"
proof -
  have "hm_wf (st_torrents s)" using assms(1) by (simp add: wf_state_def)
  from sum_list_hm_insert [OF this, of "\<lambda>e. weight (snd e)" "t_info_hash t" t]
  have "weight_total weight s' \<le> weight_total weight s + weight t" by (simp add: weight_total_entries assms(3))
  then show ?thesis using room_fits [OF assms(2)] by linarith
qed

lemma exchange_keeps:
  assumes "wf_state s" "set ds \<subseteq> set (all_torrents s)" "distinct ds" "covers ds t"
    and "st_torrents s' = exchange ds t (st_torrents s)"
  shows "weight_total weight s' \<le> weight_total weight s"
  using exchange_total [OF assms(1-3,5), of weight] covers_weight [OF assms(4)] by linarith

lemma removal_keeps:
  assumes "wf_state s" "st_torrents s' = hm_remove h (st_torrents s)"
  shows "weight_total weight s' \<le> weight_total weight s"
  using sum_list_hm_remove_le [of "st_torrents s" "\<lambda>e. weight (snd e)" h] assms
  by (simp add: weight_total_entries wf_state_def)

end

section \<open>The three budgets\<close>

definition disk_room :: "string \<Rightarrow> nat \<Rightarrow> state \<Rightarrow> torrent \<Rightarrow> bool" where
  "disk_room p limit s t \<longleftrightarrow> t_storage_location t = p \<longrightarrow>
     committed s p \<le> u64_max \<and> limit < u64_max \<and>
     size_needed (t_size_bytes t) \<le> limit - sat_add64 (bytes_used s p) (wrap64 (held_at s p * PER_TORRENT_SIZE_BUFFER))"

definition disk_covers :: "string \<Rightarrow> torrent list \<Rightarrow> torrent \<Rightarrow> bool" where
  "disk_covers p ds t \<longleftrightarrow> t_storage_location t = p \<longrightarrow>
     ds \<noteq> [] \<and> list_all (\<lambda>d. t_storage_location d = p) ds \<and> sum_list (map (disk_weight p) ds) \<le> u64_max \<and>
     size_needed (t_size_bytes t) \<le> sum_list (map t_size_bytes ds)"

definition ram_room :: "nat \<Rightarrow> nat \<Rightarrow> state \<Rightarrow> torrent \<Rightarrow> bool" where
  "ram_room peer_limit ram_budget s t \<longleftrightarrow> 0 < t_piece_count t \<and> ram_budget \<le> u64_max \<and>
     torrent_ram (t_piece_count t) peer_limit \<le>
       ram_budget - fold (\<lambda>t used. sat_add64 used (ram_price peer_limit t)) (all_torrents s) 0"

definition ram_covers :: "nat \<Rightarrow> torrent list \<Rightarrow> torrent \<Rightarrow> bool" where
  "ram_covers peer_limit ds t \<longleftrightarrow> 0 < t_piece_count t \<and>
     torrent_ram (t_piece_count t) peer_limit \<le>
       sum_list (map (\<lambda>d. torrent_ram (max (t_piece_count d) 1) peer_limit) ds)"

lemma committed_split:
  "committed s p = sum_list (map t_size_bytes (filter (\<lambda>t. t_storage_location t = p) (all_torrents s))) +
     held_at s p * PER_TORRENT_SIZE_BUFFER"
proof -
  have "sum_list (map (disk_weight p) ts) = sum_list (map t_size_bytes (filter (\<lambda>t. t_storage_location t = p) ts)) +
      length (filter (\<lambda>t. t_storage_location t = p) ts) * PER_TORRENT_SIZE_BUFFER" for ts
    by (induction ts) (auto simp: disk_weight_def algebra_simps)
  then show ?thesis by (simp add: committed_def weight_total_def held_at_def)
qed

lemma used_is_committed:
  assumes "committed s p \<le> u64_max"
  shows "sat_add64 (bytes_used s p) (wrap64 (held_at s p * PER_TORRENT_SIZE_BUFFER)) = committed s p"
  using assms by (auto simp: committed_split bytes_used_def rust_arith)

lemma sum_disk_weight:
  "list_all (\<lambda>d. t_storage_location d = p) ds \<Longrightarrow>
   sum_list (map (disk_weight p) ds) = sum_list (map t_size_bytes ds) + length ds * PER_TORRENT_SIZE_BUFFER"
  by (induction ds) (auto simp: disk_weight_def algebra_simps)

interpretation disk: budget "disk_weight p" limit "disk_room p limit" "disk_covers p"
proof
  fix s t assume r: "disk_room p limit s t"
  show "weight_total (disk_weight p) s + disk_weight p t \<le> max (weight_total (disk_weight p) s) limit"
  proof (cases "t_storage_location t = p")
    case True
    with r have b: "committed s p \<le> u64_max" "limit < u64_max" "size_needed (t_size_bytes t) \<le> limit - committed s p"
      using used_is_committed [of s p] by (auto simp: disk_room_def)
    have "0 < size_needed (t_size_bytes t)" by (simp add: size_needed_def rust_arith PER_TORRENT_SIZE_BUFFER_def)
    with b have "size_needed (t_size_bytes t) = t_size_bytes t + PER_TORRENT_SIZE_BUFFER"
      by (auto simp: size_needed_def rust_arith min_def split: if_splits)
    with b True \<open>0 < size_needed (t_size_bytes t)\<close> show ?thesis by (simp add: disk_weight_def committed_def [symmetric])
  qed (simp add: disk_weight_def)
next
  fix ds t assume c: "disk_covers p ds t"
  show "disk_weight p t \<le> sum_list (map (disk_weight p) ds)"
  proof (cases "t_storage_location t = p")
    case True
    with c have c': "ds \<noteq> []" "sum_list (map (disk_weight p) ds) = sum_list (map t_size_bytes ds) + length ds * PER_TORRENT_SIZE_BUFFER"
      "sum_list (map (disk_weight p) ds) \<le> u64_max" "size_needed (t_size_bytes t) \<le> sum_list (map t_size_bytes ds)"
      using sum_disk_weight by (auto simp: disk_covers_def)
    define b where "b = length ds * PER_TORRENT_SIZE_BUFFER"
    from c'(1) have "PER_TORRENT_SIZE_BUFFER \<le> b" "0 < PER_TORRENT_SIZE_BUFFER"
      unfolding b_def by (cases ds; simp add: PER_TORRENT_SIZE_BUFFER_def)+
    with c'(2-4) True show ?thesis
      unfolding b_def [symmetric] by (auto simp: disk_weight_def size_needed_def rust_arith min_def split: if_splits)
  qed (simp add: disk_weight_def)
qed

lemma fold_sat_add: "fold (\<lambda>t used. sat_add64 used (f t)) ts (min a u64_max) = min (a + sum_list (map f ts)) u64_max"
proof (induction ts arbitrary: a)
  case (Cons t ts)
  have "sat_add64 (min a u64_max) (f t) = min (a + f t) u64_max" by (auto simp: rust_arith)
  with Cons [of "a + f t"] show ?case by (simp add: add.assoc)
qed simp

lemma ram_price_ge: "torrent_ram (max (t_piece_count d) 1) pl \<le> ram_price pl d"
  unfolding ram_price_def by (intro torrent_ram_mono) auto

interpretation ram: budget "ram_price pl" ram_budget "ram_room pl ram_budget" "ram_covers pl"
proof
  fix s t assume "ram_room pl ram_budget s t"
  moreover have "0 < torrent_ram (t_piece_count t) pl" by simp
  ultimately show "weight_total (ram_price pl) s + ram_price pl t \<le> max (weight_total (ram_price pl) s) ram_budget"
    using fold_sat_add [of "ram_price pl" "all_torrents s" 0]
    by (auto simp: ram_room_def weight_total_def ram_price_def [of pl t] min_def split: if_splits)
next
  fix ds t assume c: "ram_covers pl ds t"
  have "sum_list (map (\<lambda>d. torrent_ram (max (t_piece_count d) 1) pl) ds) \<le> sum_list (map (ram_price pl) ds)"
    by (rule sum_list_mono) (rule ram_price_ge)
  with c show "ram_price pl t \<le> sum_list (map (ram_price pl) ds)" by (auto simp: ram_covers_def ram_price_def [of pl t])
qed

interpretation count: budget "\<lambda>_. 1" cap "\<lambda>s t. length (all_torrents s) < cap" "\<lambda>ds t. ds \<noteq> []"
proof
  show "length (all_torrents s) < cap \<Longrightarrow> weight_total (\<lambda>_. 1) s + 1 \<le> max (weight_total (\<lambda>_. 1) s) cap" for s
    by (simp add: weight_total_def sum_list_triv)
  show "ds \<noteq> [] \<Longrightarrow> 1 \<le> sum_list (map (\<lambda>_. 1 :: nat) ds)" for ds :: "torrent list"
    by (cases ds) simp_all
qed

section \<open>One step keeps the budgets\<close>

lemma wf_map_exchange:
  assumes "wf_state s"
  shows "hm_wf (fold hm_remove ks (hm_insert (t_info_hash t) t (st_torrents s)))"
    "\<forall>(h, v) \<in> set (fold hm_remove ks (hm_insert (t_info_hash t) t (st_torrents s))). t_info_hash v = h"
proof -
  have wf: "hm_wf (st_torrents s)" "\<forall>(h, v) \<in> set (st_torrents s). t_info_hash v = h"
    using assms by (auto simp: wf_state_def)
  then show w: "hm_wf (fold hm_remove ks (hm_insert (t_info_hash t) t (st_torrents s)))" by simp
  have "t_info_hash v = h" if "hm_get (st_torrents s) h = Some v" for h v
    using that wf by (auto dest: map_of_SomeD)
  then show "\<forall>(h, v) \<in> set (fold hm_remove ks (hm_insert (t_info_hash t) t (st_torrents s))). t_info_hash v = h"
    by (auto simp: hm.get_entries [OF w, symmetric] hm.fold_del_get hm_simps split: if_splits)
qed

lemma holdings_step_wf: "holdings_step w e c flr n s n' s' \<Longrightarrow> wf_state s \<Longrightarrow> wf_state s'"
proof (induction rule: holdings_step.induct)
  case (keep s')
  then show ?case by (simp add: wf_state_def)
next
  case (fill md loc t s')
  then show ?case by (auto simp: wf_state_def hm.wf_ins hm.entries_ins split: if_splits)
next
  case (swap md ds location removed t s')
  then show ?case using wf_map_exchange [of s "map t_info_hash ds" t] by (simp add: wf_state_def exchange_def)
qed

lemma displaced_le_committed:
  assumes "wf_state s" "set ds \<subseteq> set (all_torrents s)" "distinct ds"
  shows "sum_list (map weight ds) \<le> weight_total weight s"
proof -
  have "sum_list (map weight ds) = sum weight (set ds)" using assms(3) by (simp add: sum_list_distinct_conv_sum_set)
  also have "\<dots> \<le> sum weight (set (all_torrents s))" using assms(2) by (intro sum_mono2) auto
  also have "\<dots> = weight_total weight s"
    using all_torrents_distinct [OF assms(1)] by (simp add: weight_total_def sum_list_distinct_conv_sum_set)
  finally show ?thesis .
qed

lemma step_disk:
  assumes "holdings_step w e c flr n s n' s'" "s = en_state e" "wf_state s"
    and "distinct (map sl_path (cfg_storage (en_cfg e)))" "loc \<in> set (cfg_storage (en_cfg e))"
    and "limit_bytes loc < u64_max" "committed s (sl_path loc) \<le> u64_max"
  shows "committed s' (sl_path loc) \<le> max (committed s (sl_path loc)) (limit_bytes loc)"
  using assms(1)
proof cases
  case keep
  then show ?thesis by (simp add: committed_def weight_total_entries)
next
  case (fill md loc' t)
  have "loc' = loc" if "sl_path loc' = sl_path loc"
    using that fill assms(4,5) by (metis distinct_map inj_onD)
  then have "disk_room (sl_path loc) (limit_bytes loc) s t"
    using fill assms(2,6,7) by (auto simp: disk_room_def new_torrent_def free_bytes_def Let_def split: option.splits)
  then show ?thesis using disk.admit [OF assms(3)] fill by (simp add: committed_def)
next
  case (swap md ds location removed t)
  have "sum_list (map (disk_weight (sl_path loc)) ds) \<le> u64_max"
    using displaced_le_committed [OF assms(3), of ds] swap assms(7) by (metis committed_def order_trans)
  then have "disk_covers (sl_path loc) ds t" using swap by (auto simp: disk_covers_def new_torrent_def)
  then show ?thesis using disk.exchange_keeps [OF assms(3), of ds] swap by (simp add: committed_def max.coboundedI1)
qed

lemma step_ram:
  assumes "holdings_step w e c flr n s n' s'" "s = en_state e" "wf_state s" "en_ram_budget e \<le> u64_max"
    and "\<And>md. meta_of w (cand_info_hash c) = Some md \<Longrightarrow> 0 < md_piece_count md"
  shows "ram_used (peer_limit_for_budget (en_ram_budget e)) s' \<le>
    max (ram_used (peer_limit_for_budget (en_ram_budget e)) s) (en_ram_budget e)"
  using assms(1)
proof cases
  case keep
  then show ?thesis by (simp add: ram_used_def weight_total_entries)
next
  case (fill md loc t)
  then have "ram_room (peer_limit_for_budget (en_ram_budget e)) (en_ram_budget e) s t"
    using assms(2,4,5) by (auto simp: ram_room_def new_torrent_def ram_headroom_bytes_def Let_def)
  then show ?thesis using ram.admit [OF assms(3)] fill by (simp add: ram_used_def)
next
  case (swap md ds location removed t)
  then have "ram_covers (peer_limit_for_budget (en_ram_budget e)) ds t"
    using assms(5) by (auto simp: ram_covers_def new_torrent_def)
  then show ?thesis using ram.exchange_keeps [OF assms(3), of ds] swap by (simp add: ram_used_def max.coboundedI1)
qed

lemma step_count:
  assumes "holdings_step w e c flr n s n' s'" "wf_state s" "length (all_torrents s) \<le> n"
  shows "length (all_torrents s') \<le> max (length (all_torrents s)) (en_max_torrents e) \<and> length (all_torrents s') \<le> n'"
proof -
  have len: "weight_total (\<lambda>_. 1) s = length (all_torrents s)" for s by (simp add: weight_total_def sum_list_triv)
  have wf: "hm_wf (st_torrents s)" using assms(2) by (simp add: wf_state_def)
  show ?thesis
    using assms(1)
  proof cases
    case keep
    then show ?thesis using assms(3) by (simp add: all_torrents_def)
  next
    case (fill md loc t)
    then have "length (all_torrents s') \<le> n'"
      using length_hm_insert [OF wf, of "t_info_hash t" t] assms(3) by (simp add: all_torrents_def)
    then show ?thesis using count.admit [OF assms(2)] fill assms(3) len by auto
  next
    case (swap md ds location removed t)
    then have "length (all_torrents s') + length ds \<le> length (all_torrents s) + 1"
      using exchange_total [OF assms(2), of ds s' t "\<lambda>_. 1"] by (simp add: len [simplified] sum_list_triv)
    then show ?thesis using swap assms(3) by (cases ds) auto
  qed
qed

section \<open>A window of candidates\<close>

lemma act_each_invariant:
  assumes "\<And>w c n e n' e'. P n e \<Longrightarrow> w \<in> range ws \<Longrightarrow> act_on_candidate w c n flr e = (n', e') \<Longrightarrow> P n' e'"
    and "P n e" "act_each ws flr cs acted n e = (acted', n', e')"
  shows "P n' e'"
  using assms(2,3)
proof (induction cs arbitrary: acted n e)
  case (Cons c cs)
  obtain n1 e1 where a: "act_on_candidate (ws (cand_info_hash c)) c n flr e = (n1, e1)" by fastforce
  then have "P n1 e1" using assms(1) Cons.prems(1) by blast
  with Cons a show ?case by (auto simp: Let_def split: if_splits)
qed simp

lemma act_on_windowed_invariant:
  assumes "\<And>w c n e n' e'. P n e \<Longrightarrow> w \<in> range ws \<Longrightarrow> act_on_candidate w c n flr e = (n', e') \<Longrightarrow> P n' e'"
    and "P n e" "act_on_windowed ws powf evs acted n flr e = (acted', n', e')"
  shows "P n' e'"
  using assms(1,2) assms(3) [unfolded act_on_windowed_def Let_def] by (rule act_each_invariant)

text \<open>The invariant that carries the disk limit of one location, starting from \<open>e0\<close>.\<close>

definition disk_inv :: "engine \<Rightarrow> storage_location \<Rightarrow> engine \<Rightarrow> bool" where
  "disk_inv e0 loc e \<longleftrightarrow> same_static e0 e \<and> wf_state (en_state e) \<and>
     committed (en_state e) (sl_path loc) \<le> max (committed (en_state e0) (sl_path loc)) (limit_bytes loc)"

definition ram_inv :: "engine \<Rightarrow> engine \<Rightarrow> bool" where
  "ram_inv e0 e \<longleftrightarrow> same_static e0 e \<and> wf_state (en_state e) \<and>
     ram_used (peer_limit_for_budget (en_ram_budget e0)) (en_state e) \<le>
       max (ram_used (peer_limit_for_budget (en_ram_budget e0)) (en_state e0)) (en_ram_budget e0)"

definition count_inv :: "engine \<Rightarrow> nat \<Rightarrow> engine \<Rightarrow> bool" where
  "count_inv e0 n e \<longleftrightarrow> same_static e0 e \<and> wf_state (en_state e) \<and> length (all_torrents (en_state e)) \<le> n \<and>
     length (all_torrents (en_state e)) \<le> max (length (all_torrents (en_state e0))) (en_max_torrents e0)"

text \<open>What the limits of a resolved configuration satisfy, and holdings the byte sums of which fit 64 bits.\<close>

definition disk_wf :: "engine \<Rightarrow> bool" where
  "disk_wf e \<longleftrightarrow> wf_state (en_state e) \<and> distinct (map sl_path (cfg_storage (en_cfg e))) \<and>
     (\<forall>loc \<in> set (cfg_storage (en_cfg e)). limit_bytes loc < u64_max \<and> committed (en_state e) (sl_path loc) \<le> u64_max)"

definition metas_wf :: "world \<Rightarrow> bool" where
  "metas_wf w \<longleftrightarrow> (\<forall>h md. meta_of w h = Some md \<longrightarrow> 0 < md_piece_count md)"

lemma disk_inv_act:
  assumes "disk_wf e0" "loc \<in> set (cfg_storage (en_cfg e0))" "disk_inv e0 loc e" "act_on_candidate w c n flr e = (n', e')"
  shows "disk_inv e0 loc e'"
proof -
  have wf: "wf_state (en_state e)" "en_cfg e = en_cfg e0" using assms(3) by (auto simp: disk_inv_def same_static_def)
  have st: "holdings_step w e c flr n (en_state e) n' (en_state e')" "same_static e e'"
    using act_on_candidate_step [OF wf(1) assms(4)] by auto
  have b: "limit_bytes loc < u64_max" "committed (en_state e) (sl_path loc) \<le> u64_max"
    using assms(1-3) by (auto simp: disk_wf_def disk_inv_def)
  have "committed (en_state e') (sl_path loc) \<le> max (committed (en_state e) (sl_path loc)) (limit_bytes loc)"
    using step_disk [OF st(1) refl wf(1)] assms(1,2) b wf(2) by (simp add: disk_wf_def)
  then show ?thesis
    using assms(3) holdings_step_wf [OF st(1) wf(1)] same_static_trans [OF _ st(2)] by (auto simp: disk_inv_def)
qed

lemma ram_inv_act:
  assumes "en_ram_budget e0 \<le> u64_max" "metas_wf w" "ram_inv e0 e" "act_on_candidate w c n flr e = (n', e')"
  shows "ram_inv e0 e'"
proof -
  have wf: "wf_state (en_state e)" "en_ram_budget e = en_ram_budget e0" using assms(3) by (auto simp: ram_inv_def same_static_def)
  have st: "holdings_step w e c flr n (en_state e) n' (en_state e')" "same_static e e'"
    using act_on_candidate_step [OF wf(1) assms(4)] by auto
  show ?thesis
    using step_ram [OF st(1) refl wf(1)] assms(1-3) wf(2) holdings_step_wf [OF st(1) wf(1)] same_static_trans [OF _ st(2)]
    by (fastforce simp: ram_inv_def metas_wf_def)
qed

lemma count_inv_act:
  assumes "count_inv e0 n e" "act_on_candidate w c n flr e = (n', e')"
  shows "count_inv e0 n' e'"
proof -
  have wf: "wf_state (en_state e)" "en_max_torrents e = en_max_torrents e0" "length (all_torrents (en_state e)) \<le> n"
    using assms(1) by (auto simp: count_inv_def same_static_def)
  have st: "holdings_step w e c flr n (en_state e) n' (en_state e')" "same_static e e'"
    using act_on_candidate_step [OF wf(1) assms(2)] by auto
  show ?thesis
    using step_count [OF st(1) wf(1,3)] assms(1) wf(2) holdings_step_wf [OF st(1) wf(1)] same_static_trans [OF _ st(2)]
    by (auto simp: count_inv_def)
qed

lemma disk_inv_refl: "disk_wf e \<Longrightarrow> disk_inv e loc e"
  by (simp add: disk_inv_def disk_wf_def)

section \<open>Properties\<close>

text \<open>Acting on a whole window of candidates, by fill or by exchange, whatever the session, the file
  system and the disk answer, never commits a storage location past its limit: the reserved bytes of each
  configured location (nominal sizes plus the per-torrent buffer) stay at or below the limit, or at or below
  what was already reserved when the limit was lowered.  And the number of held torrents stays within the
  RAM-derived cap, with the running count never below the real one.\<close>

theorem window_keeps_disk_limits:
  assumes "disk_wf e" "length (all_torrents (en_state e)) \<le> n"
    and "act_on_windowed ws powf evs acted n flr e = (acted', n', e')"
  shows "(\<forall>loc \<in> set (cfg_storage (en_cfg e)).
      committed (en_state e') (sl_path loc) \<le> max (committed (en_state e) (sl_path loc)) (limit_bytes loc)) \<and>
    length (all_torrents (en_state e')) \<le> max (length (all_torrents (en_state e))) (en_max_torrents e) \<and>
    length (all_torrents (en_state e')) \<le> n'"
proof -
  have "disk_inv e loc e'" if "loc \<in> set (cfg_storage (en_cfg e))" for loc
    using disk_inv_act [OF assms(1) that] disk_inv_refl [OF assms(1)] assms(3)
    by (rule act_on_windowed_invariant [where P = "\<lambda>_. disk_inv e loc"])
  moreover have "count_inv e n e" using assms by (simp add: count_inv_def disk_wf_def)
  from count_inv_act this assms(3) have "count_inv e n' e'" by (rule act_on_windowed_invariant)
  ultimately show ?thesis by (auto simp: disk_inv_def count_inv_def)
qed

theorem window_keeps_disk_limits_witness:
  "committed (en_state (snd (snd (act_on_windowed (\<lambda>_. sample_world) (\<lambda>_ _. Fin 1) [sample_evaluated] {} 1 0 sample_engine)))) ''/d''
     \<le> 1000000"
proof -
  obtain acted' n' e' where r: "act_on_windowed (\<lambda>_. sample_world) (\<lambda>_ _. Fin 1) [sample_evaluated] {} 1 0 sample_engine = (acted', n', e')"
    by (metis prod.exhaust)
  have w: "disk_wf sample_engine" "length (all_torrents (en_state sample_engine)) \<le> 1" "committed (en_state sample_engine) ''/d'' \<le> 1000000"
    by (auto simp: sample_engine_def disk_wf_def wf_state_def hm_wf_def committed_def weight_total_def all_torrents_def
        sample_torrent_def disk_weight_def limit_bytes_def PER_TORRENT_SIZE_BUFFER_def)
  show ?thesis using window_keeps_disk_limits [OF w(1,2) r] w(3) r by (auto simp: sample_engine_def limit_bytes_def)
qed

text \<open>The RAM budget is kept the same way: the memory price of the holdings never grows past the budget,
  as long as the metadata the candidates come with has at least one piece.\<close>

theorem window_keeps_ram_budget:
  assumes "wf_state (en_state e)" "en_ram_budget e \<le> u64_max" "\<And>h. metas_wf (ws h)"
    and "act_on_windowed ws powf evs acted n flr e = (acted', n', e')"
  shows "ram_used (peer_limit_for_budget (en_ram_budget e)) (en_state e') \<le>
    max (ram_used (peer_limit_for_budget (en_ram_budget e)) (en_state e)) (en_ram_budget e)"
proof -
  have "metas_wf w" if "w \<in> range ws" for w using assms(3) that by auto
  note step = ram_inv_act [OF assms(2) this]
  have "ram_inv e e" using assms(1) by (simp add: ram_inv_def)
  with step have "ram_inv e e'"
    using assms(4) by (rule act_on_windowed_invariant [where P = "\<lambda>_. ram_inv e"])
  then show ?thesis by (simp add: ram_inv_def)
qed

theorem window_keeps_ram_budget_witness:
  "ram_used 4 (en_state (snd (snd (act_on_windowed (\<lambda>_. sample_world) (\<lambda>_ _. Fin 1) [sample_evaluated] {} 1 0 sample_engine))))
     \<le> 100000000"
proof -
  obtain acted' n' e' where r: "act_on_windowed (\<lambda>_. sample_world) (\<lambda>_ _. Fin 1) [sample_evaluated] {} 1 0 sample_engine = (acted', n', e')"
    by (metis prod.exhaust)
  have w: "wf_state (en_state sample_engine)" "en_ram_budget sample_engine = 100000000"
    "ram_used 4 (en_state sample_engine) \<le> 100000000" "metas_wf sample_world"
    by (auto simp: sample_engine_def wf_state_def hm_wf_def ram_used_def weight_total_def all_torrents_def
        sample_torrent_def ram_price_def torrent_ram_def ram_consts rust_arith metas_wf_def meta_of_def sample_world_def sample_meta_def)
  moreover have "peer_limit_for_budget 100000000 = 4" by (simp add: peer_limit_for_budget_def)
  ultimately show ?thesis using window_keeps_ram_budget [OF w(1) _ w(4) r] r by simp
qed

text \<open>C6. A hash that is cooling down in quarantine is not touched at all, and a lapsed one is re-probed
  into free space only: no held torrent is removed for a probe.\<close>

theorem quarantined_never_displaces:
  assumes "wf_state (en_state e)" "quarantine_get (en_state e) (cand_info_hash c) = Some q"
    and "act_on_candidate w c n flr e = (n', e')"
  shows "(w_now w < q_cooldown_until q \<longrightarrow> n' = n \<and> e' = e) \<and>
    (\<forall>h t. h \<noteq> cand_info_hash c \<longrightarrow> state_get (en_state e) h = Some t \<longrightarrow> state_get (en_state e') h = Some t)"
proof -
  have "holdings_step w e c flr n (en_state e) n' (en_state e')" using act_on_candidate_step [OF assms(1,3)] by simp
  then have "\<forall>h t. h \<noteq> cand_info_hash c \<longrightarrow> state_get (en_state e) h = Some t \<longrightarrow> state_get (en_state e') h = Some t"
  proof cases
    case (fill md loc t)
    then show ?thesis by (auto simp: state_get_def hm_simps new_torrent_def)
  qed (use assms(2) in \<open>auto simp: state_get_def\<close>)
  then show ?thesis using assms(2,3) by (auto simp: act_on_candidate_def quarantine_gate_def)
qed

theorem quarantined_never_displaces_witness:
  "state_get (en_state (snd (act_on_candidate sample_world (candidate_of 0 sample_evaluated) 1 0
     (sample_engine\<lparr>en_state := (en_state sample_engine)\<lparr>st_quarantined := [(hex_encode (replicate 20 1),
        \<lparr>q_title = [], q_reason = [], q_quarantined_at = 0, q_cooldown_until = 5, q_attempts = 1, q_wasted_bytes = 0\<rparr>)]\<rparr>\<rparr>)))) ''aa''
   = Some (sample_torrent ''aa'' 10 9)"
proof -
  let ?q = "\<lparr>q_title = [], q_reason = [], q_quarantined_at = 0, q_cooldown_until = 5, q_attempts = 1, q_wasted_bytes = 0\<rparr>"
  let ?e = "sample_engine\<lparr>en_state := (en_state sample_engine)\<lparr>st_quarantined := [(hex_encode (replicate 20 1), ?q)]\<rparr>\<rparr>"
  have n: "hex_encode (replicate 20 1) \<noteq> ''aa''" by code_simp
  have "wf_state (en_state ?e)" by (simp add: sample_engine_def wf_state_def hm_wf_def sample_torrent_def)
  moreover have "quarantine_get (en_state ?e) (cand_info_hash (candidate_of 0 sample_evaluated)) = Some ?q"
    by (simp add: quarantine_get_def candidate_of_def sample_evaluated_def)
  moreover have "state_get (en_state ?e) ''aa'' = Some (sample_torrent ''aa'' 10 9)" by (simp add: sample_engine_def state_get_def)
  moreover have "''aa'' \<noteq> cand_info_hash (candidate_of 0 sample_evaluated)" using n by (simp add: candidate_of_def sample_evaluated_def)
  ultimately show ?thesis
    using quarantined_never_displaces [of ?e "candidate_of 0 sample_evaluated" ?q sample_world 1 0] by (metis prod.collapse)
qed

text \<open>C5. What a candidate costs the others: a held torrent disappears from the state only through an
  exchange, and then it had at least the configured margin of seeders over the candidate, which itself has
  a live seed and won its one roll.\<close>

theorem displacement_needs_margin:
  assumes "wf_state (en_state e)" "act_on_candidate w c n flr e = (n', e')"
    and "state_get (en_state e) h = Some t" "state_get (en_state e') h = None"
  shows "int (cand_seeders c) + sc_min_seed_margin (cfg_scan (en_cfg e)) \<le> int (t_last_known_seeders t) \<and>
    1 \<le> cand_seeders c \<and> f_lt (w_roll w) (chance_of e c flr)"
proof -
  have "holdings_step w e c flr n (en_state e) n' (en_state e')" using act_on_candidate_step [OF assms(1,2)] by simp
  then show ?thesis
  proof cases
    case keep
    then show ?thesis using assms(3,4) by (simp add: state_get_def)
  next
    case fill
    then show ?thesis using assms(3,4) by (auto simp: state_get_def hm_simps split: if_splits)
  next
    case (swap md ds location removed u)
    have "h \<in> t_info_hash ` set ds"
      using swap assms(3,4) by (auto simp: state_get_def exchange_def hm.fold_del_get hm_simps split: if_splits)
    then obtain d where d: "d \<in> set ds" "t_info_hash d = h" by auto
    then have "d = t" using held_lookup [OF assms(1), of d] swap assms(3) by (auto simp: state_get_def)
    then show ?thesis using d swap by (auto simp: list_all_iff clears_margin_def)
  qed
qed

lemma full_engine_fields:
  "en_max_torrents full_engine = 5" "en_ram_budget full_engine = 100000000" "en_size_bias full_engine = Fin 0"
  "cfg_storage (en_cfg full_engine) = [\<lparr>sl_path = ''/d'', sl_limit = Bytes 500000\<rparr>]"
  "sc_min_seed_margin (cfg_scan (en_cfg full_engine)) = 4"
  "all_torrents (en_state full_engine) = [(sample_torrent ''aa'' 400000 9)\<lparr>t_piece_count := 5\<rparr>]"
  "st_torrents (en_state full_engine) = [(''aa'', (sample_torrent ''aa'' 400000 9)\<lparr>t_piece_count := 5\<rparr>)]"
  "quarantine_get (en_state full_engine) h = None" "wf_state (en_state full_engine)"
  "state_get (en_state full_engine) ''aa'' = Some ((sample_torrent ''aa'' 400000 9)\<lparr>t_piece_count := 5\<rparr>)"
  by (simp_all add: full_engine_def sample_engine_def sample_config_def config_default_def scan_config_default_def
      DEFAULT_MIN_SEED_MARGIN_def all_torrents_def quarantine_get_def wf_state_def hm_wf_def sample_torrent_def state_get_def)

lemma full_engine_no_fill:
  "try_fill sample_world c sample_meta 1 0 r full_engine = ((False, no_decision ''candidate not evaluated''), full_engine)"
proof -
  have "free_bytes sample_world full_engine \<lparr>sl_path = ''/d'', sl_limit = Bytes 500000\<rparr> = 0"
    by (simp add: free_bytes_def full_engine_fields sample_world_def bytes_used_def held_at_def sample_torrent_def
        limit_bytes_def rust_arith PER_TORRENT_SIZE_BUFFER_def Let_def)
  then have "choose_location (map (free_bytes sample_world full_engine) (cfg_storage (en_cfg full_engine)))
      (map (\<lambda>_. size_needed (md_total_length sample_meta)) (cfg_storage (en_cfg full_engine))) roll = None" for roll
    by (simp add: full_engine_fields choose_location_def eligible_locations_def size_needed_def sample_meta_def
        PER_TORRENT_SIZE_BUFFER_def rust_arith Let_def)
  then show ?thesis by (simp add: try_fill_def full_engine_fields Let_def)
qed

lemma rare_candidate_wins:
  "fst (fst (try_add sample_world (rare_candidate\<lparr>cand_piece_count := 3\<rparr>) sample_meta 1000 ''/d'' [held_of x] 0 (Fin 0) full_engine))"
  if "t_last_known_seeders x = 9"
proof -
  have "decode_hash (hex_encode (replicate 20 1)) = Some (replicate 20 1)"
    by (rule decode_hash_encode) (simp_all add: list_all_iff)
  then show ?thesis
    using that
    by (simp add: try_add_def evaluate_swap_def add_candidate_def available_def meets_seed_margin_def held_of_def
        rare_candidate_def candidate_of_def sample_evaluated_def full_engine_fields selection_chance_def f_powi_0
        sample_world_def add_torrent_bytes_def Let_def)
qed

lemma full_engine_swaps:
  "state_get (en_state (snd (act_on_candidate sample_world rare_candidate 1 0 full_engine))) ''aa'' = None"
proof -
  let ?x = "(sample_torrent ''aa'' 400000 9)\<lparr>t_piece_count := 5\<rparr>"
  let ?c = "rare_candidate\<lparr>cand_piece_count := 3\<rparr>"
  have pl: "peer_limit_for_budget 100000000 = 4" by (simp add: peer_limit_for_budget_def)
  have sel: "select_displaceable powf [?x] 1 263144 (torrent_ram 3 4) 4 4 (Fin 0) = Some [?x]" for powf
    by (simp add: select_displaceable_def clears_margin_def sample_torrent_def torrent_ram_def ram_consts rust_arith Let_def)
  obtain d e1 where a: "try_add sample_world ?c sample_meta 1000 ''/d'' [held_of ?x] 0 (Fin 0) full_engine = ((True, d), e1)"
    using rare_candidate_wins [of ?x]
    by (cases "try_add sample_world ?c sample_meta 1000 ''/d'' [held_of ?x] 0 (Fin 0) full_engine")
      (auto simp: sample_torrent_def)
  obtain r e2 where dd: "drop_displaced sample_world [?x] 0 e1 = (r, e2)" by fastforce
  have f: "md_total_length sample_meta = 1000" "md_piece_count sample_meta = 3" "cand_seeders rare_candidate = 1"
    "size_needed 1000 = 263144" "w_dev_free_swap sample_world p = None" "w_roll sample_world = Fin 0"
    "w_cached_meta sample_world h = Some sample_meta" "w_fd_headroom sample_world = None" for p h
    by (simp_all add: sample_meta_def rare_candidate_def candidate_of_def sample_evaluated_def size_needed_def
        PER_TORRENT_SIZE_BUFFER_def rust_arith sample_world_def)
  have at: "t_storage_location ?x = ''/d''" by (simp add: sample_torrent_def)
  have "swap_locations sample_world ?c sample_meta 1000 0 (Fin 0) [?x] [''/d''] latest full_engine =
      ((True, d, r), if 0 < r then push_live e2 else e2)" for latest
    using sel a dd by (simp add: full_engine_fields f pl at device_gate_reason_def Let_def)
  then have "try_swap sample_world ?c sample_meta 1000 0 (Fin 0) full_engine = ((True, d, r), if 0 < r then push_live e2 else e2)"
    by (simp add: try_swap_def full_engine_fields path_sort_def at Let_def)
  then have "snd (act_on_candidate sample_world rare_candidate 1 0 full_engine) = (if 0 < r then push_live e2 else e2)"
    using full_engine_no_fill [of ?c "Fin 0"]
    by (simp add: act_on_candidate_def place_candidate_def quarantine_gate_def full_engine_fields fetch_metadata_def f
        fits_in_headroom_def no_decision_def seed_scarcity_blocked_def REASON_SEED_SCARCITY_ROLL_FAILED_def Let_def)
  moreover have "t_info_hash ?x = ''aa''" by (simp add: sample_torrent_def)
  ultimately show ?thesis
    using drop_displaced_frame [OF dd] by (simp add: state_get_def hm_simps)
qed

theorem displacement_needs_margin_witness:
  "int (cand_seeders rare_candidate) + sc_min_seed_margin (cfg_scan (en_cfg full_engine)) \<le>
     int (t_last_known_seeders ((sample_torrent ''aa'' 400000 9)\<lparr>t_piece_count := 5\<rparr>))"
proof -
  obtain n' e' where r: "act_on_candidate sample_world rare_candidate 1 0 full_engine = (n', e')" by fastforce
  show ?thesis
    using displacement_needs_margin [OF full_engine_fields(9) r full_engine_fields(10)] full_engine_swaps r by simp
qed

end
