(* ===== verification/Torrent_Cache.thy ===== *)
theory Torrent_Cache
  imports Census Admission
begin

text \<open>
  The \<open>.torrent\<close> cache: \<open>Fetcher::fetch_torrent\<close> of \<open>src/attorrent.rs\<close> and its callers, the evaluation workers,
  the engine (\<open>src/engine/scan.rs\<close>) and the census (\<open>src/census.rs\<close>), over the files of the cache directory.

  \<open>Engine_Base\<close> and \<open>Census\<close> take what the cache holds and what a fetch answers from outside; here both are computed
  from the files and from the site's replies, and the lemmas show that this is what the other theories use.  The metainfo
  parser and the HTTP client are arguments; a byte string is a \<open>string\<close>.
\<close>

section \<open>Definitions\<close>

type_synonym files = "string \<rightharpoonup> string"

text \<open>What the request ends in: no answer, an error status, an unreadable body, a body.\<close>

datatype torrent_reply = GetFailed | GetStatus nat | GetBodyFailed | GetBody string

datatype cache_effect = CacheNet net_effect | TorrentGet string string | CacheWrite string

record fetcher =
  fe_base_url :: string
  fe_user_agent :: string

record torrent_site =
  to_parse :: "string \<Rightarrow> metainfo option"
  to_get :: "string \<Rightarrow> torrent_reply"
  to_writable :: "string \<Rightarrow> bool"

definition torrent_url :: "fetcher \<Rightarrow> string \<Rightarrow> string" where
  "torrent_url f h = fe_base_url f @ ''/download/'' @ h @ ''.torrent''"

text \<open>The body is cached only when it parses; a failed write is ignored.\<close>

definition fetch_torrent :: "torrent_site \<Rightarrow> fetcher \<Rightarrow> string \<Rightarrow> string option \<Rightarrow> files \<Rightarrow>
    (torrent_meta \<times> string) result \<times> files \<times> cache_effect list" where
  "fetch_torrent w f h cache_path fs =
     (let url = torrent_url f h; get = TorrentGet url (fe_user_agent f)
      in case to_get w url of
           GetFailed \<Rightarrow> (Inl (''fetching '' @ url), fs, [get])
         | GetStatus n \<Rightarrow> (Inl (''fetching '' @ url @ '' returned '' @ show_nat n), fs, [get])
         | GetBodyFailed \<Rightarrow> (Inl (''reading '' @ url), fs, [get])
         | GetBody body \<Rightarrow>
             (case parse_torrent_bytes (to_parse w body) of
                Inl er \<Rightarrow> (Inl er, fs, [get])
              | Inr md \<Rightarrow>
                  (case cache_path of
                     None \<Rightarrow> (Inr (md, body), fs, [get])
                   | Some path \<Rightarrow> (Inr (md, body), if to_writable w path then fs(path \<mapsto> body) else fs, [get, CacheWrite path]))))"

text \<open>The cached file, when there is one and it parses.\<close>

definition cached_meta :: "torrent_site \<Rightarrow> string \<Rightarrow> files \<Rightarrow> torrent_meta option" where
  "cached_meta w path fs = (case fs path of
      None \<Rightarrow> None
    | Some raw \<Rightarrow> (case parse_torrent_bytes (to_parse w raw) of Inr md \<Rightarrow> Some md | Inl _ \<Rightarrow> None))"

definition eval_fetch_metadata :: "torrent_site \<Rightarrow> fetcher \<Rightarrow> string \<Rightarrow> string \<Rightarrow> files \<Rightarrow>
    torrent_meta result \<times> files \<times> cache_effect list" where
  "eval_fetch_metadata w f data_dir h fs =
     (let path = torrent_cache_path data_dir h
      in case cached_meta w path fs of
           Some md \<Rightarrow> (Inr md, fs, [])
         | None \<Rightarrow>
             (case fetch_torrent w f h (Some path) fs of
                (r, fs, es) \<Rightarrow> (case r of Inl er \<Rightarrow> Inl er | Inr (md, _) \<Rightarrow> Inr md, fs, CacheNet RateWait # es)))"

text \<open>The fetches of a daemon's life, in any order and with repetitions.\<close>

fun fetch_each :: "torrent_site \<Rightarrow> fetcher \<Rightarrow> string \<Rightarrow> string list \<Rightarrow> files \<Rightarrow> files \<times> cache_effect list" where
  "fetch_each w f data_dir [] fs = (fs, [])"
| "fetch_each w f data_dir (h # hs) fs =
     (case eval_fetch_metadata w f data_dir h fs of
        (_, fs, es) \<Rightarrow> (case fetch_each w f data_dir hs fs of (fs, es') \<Rightarrow> (fs, es @ es')))"

section \<open>Lemmas\<close>

text \<open>A request for a hash, as the engine's trace and the census's have it.\<close>

definition engine_effects :: "string \<Rightarrow> cache_effect list \<Rightarrow> effect list" where
  "engine_effects h = List.map_filter (\<lambda>e. case e of
     CacheNet n \<Rightarrow> Some (Net n) | TorrentGet _ _ \<Rightarrow> Some (FetchTorrent h) | CacheWrite _ \<Rightarrow> None)"

definition census_effects :: "string \<Rightarrow> cache_effect list \<Rightarrow> census_effect list" where
  "census_effects h = List.map_filter (\<lambda>e. case e of
     CacheNet n \<Rightarrow> Some (CensusNet n) | TorrentGet _ _ \<Rightarrow> Some (CensusFetch h) | CacheWrite _ \<Rightarrow> None)"

definition gets_of :: "fetcher \<Rightarrow> string \<Rightarrow> cache_effect list \<Rightarrow> nat" where
  "gets_of f h es = length (filter (\<lambda>e. e = TorrentGet (torrent_url f h) (fe_user_agent f)) es)"

lemma torrent_url_inject [simp]: "torrent_url f a = torrent_url f b \<longleftrightarrow> a = b"
  by (simp add: torrent_url_def)

lemma cache_path_inject:
  "\<not> starts_with a ''/'' \<Longrightarrow> \<not> starts_with b ''/'' \<Longrightarrow> torrent_cache_path d a = torrent_cache_path d b \<longleftrightarrow> a = b"
  by (cases a; cases b) (auto simp: torrent_cache_path_def path_join_def starts_with_def)

text \<open>A successful fetch leaves a file that parses to its result, when the file can be written.\<close>

lemma fetched_is_cached:
  assumes "eval_fetch_metadata w f data_dir h fs = (Inr md, fs', es)" "es = [] \<or> to_writable w (torrent_cache_path data_dir h)"
  shows "cached_meta w (torrent_cache_path data_dir h) fs' = Some md"
  using assms
  by (auto simp: eval_fetch_metadata_def fetch_torrent_def cached_meta_def Let_def split: option.splits sum.splits torrent_reply.splits prod.splits)

lemma fetch_other_files:
  "eval_fetch_metadata w f data_dir h fs = (r, fs', es) \<Longrightarrow> p \<noteq> torrent_cache_path data_dir h \<Longrightarrow> fs' p = fs p"
  by (auto simp: eval_fetch_metadata_def fetch_torrent_def Let_def split: option.splits sum.splits torrent_reply.splits prod.splits if_splits)

lemma failed_fetch_keeps_files:
  "eval_fetch_metadata w f data_dir h fs = (Inl er, fs', es) \<Longrightarrow> fs' = fs"
  by (auto simp: eval_fetch_metadata_def fetch_torrent_def Let_def split: option.splits sum.splits torrent_reply.splits prod.splits if_splits)

lemma cached_answers:
  "cached_meta w (torrent_cache_path data_dir h) fs = Some md \<Longrightarrow> eval_fetch_metadata w f data_dir h fs = (Inr md, fs, [])"
  by (simp add: eval_fetch_metadata_def Let_def)

lemma cached_meta_parser: "to_parse w' = to_parse w \<Longrightarrow> cached_meta w' p fs = cached_meta w p fs"
  by (simp add: cached_meta_def cong: option.case_cong)

lemma gets_of_eval:
  "gets_of f k (snd (snd (eval_fetch_metadata w f data_dir h fs))) =
     (if k = h \<and> cached_meta w (torrent_cache_path data_dir h) fs = None then 1 else 0)"
  by (auto simp: eval_fetch_metadata_def fetch_torrent_def gets_of_def Let_def split: option.splits sum.splits torrent_reply.splits prod.splits)

text \<open>The files a fetch leaves serve exactly the hashes they served before, and the fetched one.\<close>

lemma fetch_serves:
  assumes "eval_fetch_metadata w f data_dir h fs = (Inr md, fs', es)" "to_writable w (torrent_cache_path data_dir h)"
    "\<not> starts_with h ''/''" "\<not> starts_with k ''/''"
  shows "cached_meta w (torrent_cache_path data_dir k) fs' = None \<longleftrightarrow> k \<noteq> h \<and> cached_meta w (torrent_cache_path data_dir k) fs = None"
proof (cases "k = h")
  case True
  then show ?thesis using fetched_is_cached [OF assms(1)] assms(2) by simp
next
  case False
  then have "fs' (torrent_cache_path data_dir k) = fs (torrent_cache_path data_dir k)"
    using fetch_other_files [OF assms(1)] cache_path_inject [OF assms(4,3)] by blast
  then show ?thesis using False by (simp add: cached_meta_def)
qed

lemma gets_of_append [simp]: "gets_of f h (a @ b) = gets_of f h a + gets_of f h b"
  by (simp add: gets_of_def)

definition site_serves :: "torrent_site \<Rightarrow> fetcher \<Rightarrow> string \<Rightarrow> bool" where
  "site_serves w f h \<longleftrightarrow> (case to_get w (torrent_url f h) of
      GetBody body \<Rightarrow> (case parse_torrent_bytes (to_parse w body) of Inr _ \<Rightarrow> True | Inl _ \<Rightarrow> False)
    | _ \<Rightarrow> False)"

lemma served_fetches:
  assumes "site_serves w f h"
  obtains md fs' es where "eval_fetch_metadata w f data_dir h fs = (Inr md, fs', es)"
proof -
  obtain body md where "to_get w (torrent_url f h) = GetBody body" "parse_torrent_bytes (to_parse w body) = Inr md"
    using assms by (auto simp: site_serves_def split: torrent_reply.splits sum.splits)
  then have "\<exists>md fs' es. eval_fetch_metadata w f data_dir h fs = (Inr md, fs', es)"
    by (cases "cached_meta w (torrent_cache_path data_dir h) fs") (auto simp: eval_fetch_metadata_def fetch_torrent_def Let_def)
  then show thesis using that by blast
qed

lemma fetch_effects:
  assumes "fetch_torrent w f h path fs = (r, fs', es)"
  shows "engine_effects h es = [FetchTorrent h]" "census_effects h es = [CensusFetch h]"
  using assms
  by (cases "to_get w (torrent_url f h)";
      auto simp: fetch_torrent_def engine_effects_def census_effects_def Let_def List.map_filter_simps split: sum.splits option.splits)+

section \<open>Properties\<close>

text \<open>What was fetched once stays fetched: after a successful fetch onto a cache file that can be written, any later
  fetch, whatever the site answers by then, gives the same metadata from that file, with no request and no change to any
  file; the fetch itself touched no other file, and a failed one touched none.\<close>

theorem torrent_fetched_once:
  assumes "eval_fetch_metadata w f data_dir h fs = (Inr md, fs', es)"
    "es = [] \<or> to_writable w (torrent_cache_path data_dir h)" "to_parse w' = to_parse w"
  shows "eval_fetch_metadata w' f' data_dir h fs' = (Inr md, fs', []) \<and>
    (\<forall>p. p \<noteq> torrent_cache_path data_dir h \<longrightarrow> fs' p = fs p)"
  using cached_answers [of w' data_dir h fs' md f'] fetched_is_cached [OF assms(1,2)] cached_meta_parser [OF assms(3)]
    fetch_other_files [OF assms(1)] by metis

definition sample_metainfo :: metainfo where
  "sample_metainfo = \<lparr>mi_info_hash = ''ab'', mi_announce = [], mi_creation_date = None,
     mi_validated = Some (10, 1, [False], Some ''set'')\<rparr>"

definition sample_site :: torrent_site where
  "sample_site = \<lparr>to_parse = (\<lambda>raw. if raw = ''d4:infod'' then Some sample_metainfo else None),
     to_get = (\<lambda>u. if u = ''http://at/download/ab.torrent'' then GetBody ''d4:infod'' else GetStatus 404), to_writable = (\<lambda>_. True)\<rparr>"

definition sample_fetcher :: fetcher where
  "sample_fetcher = \<lparr>fe_base_url = ''http://at'', fe_user_agent = ''keep-at''\<rparr>"

lemma sample_cache_path: "torrent_cache_path ''/d'' ''ab'' = ''/d/torrent-cache/ab.torrent''"
  by (simp add: torrent_cache_path_def path_join_def starts_with_def)

lemmas sample_fetch_simps = sample_cache_path sample_site_def sample_fetcher_def sample_metainfo_def eval_fetch_metadata_def fetch_torrent_def
  cached_meta_def torrent_url_def parse_torrent_bytes_def Let_def

lemma sample_fetch:
  "\<exists>md es. eval_fetch_metadata sample_site sample_fetcher ''/d'' ''ab'' Map.empty =
     (Inr md, [''/d/torrent-cache/ab.torrent'' \<mapsto> ''d4:infod''], es)"
  by (simp add: sample_fetch_simps)

theorem torrent_fetched_once_witness:
  "\<exists>md. eval_fetch_metadata (sample_site\<lparr>to_get := \<lambda>_. GetFailed\<rparr>) sample_fetcher ''/d'' ''ab''
     [''/d/torrent-cache/ab.torrent'' \<mapsto> ''d4:infod''] = (Inr md, [''/d/torrent-cache/ab.torrent'' \<mapsto> ''d4:infod''], [])"
proof -
  obtain md es where "eval_fetch_metadata sample_site sample_fetcher ''/d'' ''ab'' Map.empty =
     (Inr md, [''/d/torrent-cache/ab.torrent'' \<mapsto> ''d4:infod''], es)" using sample_fetch by blast
  from torrent_fetched_once [OF this, of "sample_site\<lparr>to_get := \<lambda>_. GetFailed\<rparr>" sample_fetcher]
  show ?thesis by (auto simp: sample_site_def)
qed



text \<open>The engine, its evaluation workers and the census fetch metadata in the same way: when their cache and their
  site are the files and the replies here, their results and requests are the ones of the fetch over the files.\<close>

theorem metadata_fetches_agree:
  assumes "w_cached_meta ew h = cached_meta w (torrent_cache_path data_dir h) fs"
    "w_fetch ew h = (case fst (fetch_torrent w f h (Some (torrent_cache_path data_dir h)) fs) of Inl er \<Rightarrow> Inl er | Inr (md, _) \<Rightarrow> Inr md)"
    "cw_cached cw h = w_cached_meta ew h" "cw_fetch cw h = w_fetch ew h"
    "eval_fetch_metadata w f data_dir h fs = (r, fs', es)"
  shows "fetch_metadata ew h e = (r, emit (engine_effects h es) e) \<and> cached_or_fetch cw h = (r, census_effects h es)"
proof (cases "cached_meta w (torrent_cache_path data_dir h) fs")
  case (Some md)
  then have "r = Inr md" "es = []" using assms(5) cached_answers [OF Some, of f] by simp_all
  then show ?thesis
    using assms(1,3) Some
    by (simp add: fetch_metadata_def cached_or_fetch_def engine_effects_def census_effects_def emit_def List.map_filter_simps)
next
  case None
  obtain r0 fs0 es0 where t: "fetch_torrent w f h (Some (torrent_cache_path data_dir h)) fs = (r0, fs0, es0)" by (metis prod.exhaust)
  then have "r = (case r0 of Inl er \<Rightarrow> Inl er | Inr (md, _) \<Rightarrow> Inr md)" "es = CacheNet RateWait # es0"
    using assms(5) None by (simp_all add: eval_fetch_metadata_def Let_def)
  then show ?thesis
    using assms(1-4) None t fetch_effects [OF t]
    by (simp add: fetch_metadata_def cached_or_fetch_def engine_effects_def census_effects_def List.map_filter_simps)
qed

definition sample_cached :: torrent_meta where
  "sample_cached = \<lparr>md_info_hash = ''ab'', md_trackers = [], md_created_at = None, md_total_length = 10, md_piece_count = 1,
     md_file_count = 1, md_name = ''set''\<rparr>"

theorem metadata_fetches_agree_witness:
  "fetch_metadata (sample_world\<lparr>w_cached_meta := \<lambda>_. None, w_fetch := \<lambda>_. Inr sample_cached\<rparr>) ''ab'' sample_engine =
     (Inr sample_cached, emit [Net RateWait, FetchTorrent ''ab''] sample_engine) \<and>
   cached_or_fetch (demo_world\<lparr>cw_cached := \<lambda>_. None, cw_fetch := \<lambda>_. Inr sample_cached\<rparr>) ''ab'' =
     (Inr sample_cached, [CensusNet RateWait, CensusFetch ''ab''])"
proof -
  let ?ew = "sample_world\<lparr>w_cached_meta := \<lambda>_. None, w_fetch := \<lambda>_. Inr sample_cached\<rparr>"
  let ?cw = "demo_world\<lparr>cw_cached := \<lambda>_. None, cw_fetch := \<lambda>_. Inr sample_cached\<rparr>"
  have e: "eval_fetch_metadata sample_site sample_fetcher ''/d'' ''ab'' Map.empty =
    (Inr sample_cached, [''/d/torrent-cache/ab.torrent'' \<mapsto> ''d4:infod''],
     [CacheNet RateWait, TorrentGet ''http://at/download/ab.torrent'' ''keep-at'', CacheWrite ''/d/torrent-cache/ab.torrent''])"
    by (simp add: sample_fetch_simps sample_cached_def)
  have "fetch_metadata ?ew ''ab'' sample_engine =
     (Inr sample_cached, emit (engine_effects ''ab'' [CacheNet RateWait, TorrentGet ''http://at/download/ab.torrent'' ''keep-at'',
        CacheWrite ''/d/torrent-cache/ab.torrent'']) sample_engine) \<and>
     cached_or_fetch ?cw ''ab'' = (Inr sample_cached, census_effects ''ab'' [CacheNet RateWait,
        TorrentGet ''http://at/download/ab.torrent'' ''keep-at'', CacheWrite ''/d/torrent-cache/ab.torrent''])"
    by (rule metadata_fetches_agree [OF _ _ _ _ e]) (simp_all add: sample_fetch_simps sample_cached_def)
  then show ?thesis by (simp add: engine_effects_def census_effects_def List.map_filter_simps)
qed

end
