(* ===== verification/Maintenance.thy ===== *)
theory Maintenance
  imports Admission
begin

text \<open>
  The maintenance half of a scan, \<open>src/engine/scan.rs\<close>: the catalog-collapse guard, the removal of
  torrents that vanished from the catalog, the confirmation stamps, the refresh of the held seeder counts,
  the eviction of stalled downloads, and the resume at start-up.

  The lemmas say exactly which torrents leave, and that nothing here ever adds to the holdings: what is
  held afterwards was held before with the same size, location and piece count (\<open>shrinks\<close>), so the
  budgets of the admission path are untouched.
\<close>

section \<open>Definitions\<close>

definition still_listed :: "torrent list \<Rightarrow> string set \<Rightarrow> nat" where
  "still_listed held catalog = length (filter (\<lambda>h. h \<in> catalog) (remdups (map t_info_hash held)))"

definition catalog_collapsed :: "config \<Rightarrow> torrent list \<Rightarrow> string set \<Rightarrow> bool" where
  "catalog_collapsed cfg held catalog \<longleftrightarrow> held \<noteq> [] \<and> 0 < cfg_catalog_collapse_percent cfg \<and>
     still_listed held catalog < max (length held * cfg_catalog_collapse_percent cfg div 100) 1"

definition vanished_due :: "instant \<Rightarrow> duration \<Rightarrow> torrent \<Rightarrow> bool" where
  "vanished_due now timeout h =
     (let anchor = (case t_last_confirmed_in_catalog_at h of Some a \<Rightarrow> a | None \<Rightarrow> t_added_at h)
      in case to_std (now - anchor) of Some absent_for \<Rightarrow> \<not> absent_for < timeout | None \<Rightarrow> False)"

definition removal_record :: "world \<Rightarrow> torrent \<Rightarrow> cause \<Rightarrow> string \<Rightarrow> event" where
  "removal_record w h cause reason = remove_event (w_now w) (t_info_hash h) (t_title h) (t_size_bytes h)
     (t_last_known_seeders h) (t_storage_location h) cause reason"

text \<open>An eviction: drop the torrent and, when the state was saved, record it.\<close>

definition evict :: "world \<Rightarrow> cause \<Rightarrow> string \<Rightarrow> torrent \<Rightarrow> bool \<Rightarrow> engine \<Rightarrow> bool \<times> engine" where
  "evict w cause reason h removed_any e = (case drop_torrent w h e of
      (True, e) \<Rightarrow> (True, record_history w (removal_record w h cause reason) e)
    | (False, e) \<Rightarrow> (removed_any, e))"

fun remove_deleted_loop :: "world \<Rightarrow> string set \<Rightarrow> torrent list \<Rightarrow> bool \<Rightarrow> engine \<Rightarrow> bool \<times> engine" where
  "remove_deleted_loop w catalog [] removed_any e = (removed_any, e)"
| "remove_deleted_loop w catalog (h # hs) removed_any e =
     (if t_info_hash h \<in> catalog then remove_deleted_loop w catalog hs removed_any e
      else if \<not> vanished_due (w_now w) (sc_vanished_eviction_timeout (cfg_scan (en_cfg e))) h
      then remove_deleted_loop w catalog hs removed_any e
      else case evict w DeletedFromCatalog ''no longer listed on Academic Torrents'' h removed_any e of
             (removed_any, e) \<Rightarrow> remove_deleted_loop w catalog hs removed_any e)"

definition remove_deleted_torrents :: "world \<Rightarrow> torrent list \<Rightarrow> string set \<Rightarrow> engine \<Rightarrow> engine" where
  "remove_deleted_torrents w held catalog e =
     (if cfg_preserve_deleted_torrents (en_cfg e) then e
      else case remove_deleted_loop w catalog held False e of
             (removed_any, e) \<Rightarrow> if removed_any then push_live e else e)"

definition confirm :: "instant \<Rightarrow> torrent \<Rightarrow> torrent" where
  "confirm now t = t\<lparr>t_last_confirmed_in_catalog_at := Some now\<rparr>"

definition confirmations :: "instant \<Rightarrow> string set \<Rightarrow> state \<Rightarrow> (string \<times> (torrent \<Rightarrow> torrent)) list" where
  "confirmations now catalog s =
     map (\<lambda>h. (t_info_hash h, confirm now))
       (filter (\<lambda>h. t_info_hash h \<in> catalog \<and>
          (case t_last_confirmed_in_catalog_at h of Some t \<Rightarrow> t < now | None \<Rightarrow> True)) (all_torrents s))"

text \<open>\<open>update_each(..).unwrap_or(0) > 0\<close>, then the live push.\<close>

definition apply_batch :: "world \<Rightarrow> (string \<times> (torrent \<Rightarrow> torrent)) list \<Rightarrow> engine \<Rightarrow> engine" where
  "apply_batch w us e = (case update_each (w_save w) us (en_state e) of
      (r, s) \<Rightarrow> let e = e\<lparr>en_state := s\<rparr>
               in case r of Inr n \<Rightarrow> if 0 < n then push_live e else e | Inl _ \<Rightarrow> e)"

text \<open>The catalog phase of \<open>scan_once\<close>: guard, removal, confirmation.\<close>

definition reconcile_catalog :: "world \<Rightarrow> string set \<Rightarrow> engine \<Rightarrow> engine" where
  "reconcile_catalog w catalog e =
     (let held = all_torrents (en_state e);
          e = e\<lparr>en_last_catalog := Some catalog\<rparr>;
          e = (if catalog_collapsed (en_cfg e) held catalog then e else remove_deleted_torrents w held catalog e)
      in apply_batch w (confirmations (w_now w) catalog (en_state e)) e)"

definition held_progress_bytes :: "world \<Rightarrow> torrent \<Rightarrow> nat" where
  "held_progress_bytes w h = (case find_torrent w (t_info_hash h) of
      Some st \<Rightarrow> ts_progress_bytes st
    | None \<Rightarrow> w_dir_size w (torrent_output_dir (t_storage_location h) (t_info_hash h)))"

definition refresh :: "instant \<Rightarrow> nat \<Rightarrow> nat \<Rightarrow> torrent \<Rightarrow> torrent" where
  "refresh now seeders progress t =
     (let t = t\<lparr>t_last_known_seeders := seeders\<rparr>
      in if t_completed_pieces t < progress \<or> t_last_progress_at t = None
         then t\<lparr>t_completed_pieces := progress, t_last_progress_at := Some now\<rparr> else t)"

text \<open>The walk over the held set; \<open>stopped\<close> is the shutdown flag as seen before each torrent.\<close>

fun refresh_walk :: "(string \<Rightarrow> world) \<Rightarrow> (string \<Rightarrow> bool) \<Rightarrow> torrent list \<Rightarrow> engine \<Rightarrow>
    (string \<times> (torrent \<Rightarrow> torrent)) list \<times> engine" where
  "refresh_walk ws stopped [] e = ([], e)"
| "refresh_walk ws stopped (h # hs) e =
     (let hex = t_info_hash h; w = ws hex
      in if stopped hex then ([], e)
         else case fetch_metadata w hex e of
                (Inl _, e) \<Rightarrow> refresh_walk ws stopped hs e
              | (Inr md, e) \<Rightarrow>
                  (case scrape_swarm w (md_trackers md) (hash_or_zero hex) e of
                     (Inl _, e) \<Rightarrow> refresh_walk ws stopped hs e
                   | (Inr sw, e) \<Rightarrow>
                       (case refresh_walk ws stopped hs e of
                          (us, e) \<Rightarrow> ((hex, refresh (w_now w) (sw_seeders sw) (held_progress_bytes w h)) # us, e))))"

definition refresh_held_seeder_counts :: "(string \<Rightarrow> world) \<Rightarrow> (string \<Rightarrow> bool) \<Rightarrow> world \<Rightarrow> engine \<Rightarrow> engine" where
  "refresh_held_seeder_counts ws stopped w e =
     (case refresh_walk ws stopped (all_torrents (en_state e)) e of (us, e) \<Rightarrow> apply_batch w us e)"

definition stall_age :: "instant \<Rightarrow> torrent \<Rightarrow> duration option" where
  "stall_age now h = (case t_last_progress_at h of Some t \<Rightarrow> to_std (now - t) | None \<Rightarrow> None)"

text \<open>The three session checks: a torrent still checking or complete is kept.\<close>

definition incomplete_now :: "world \<Rightarrow> torrent \<Rightarrow> bool" where
  "incomplete_now w h = (case find_torrent w (t_info_hash h) of
      Some st \<Rightarrow> \<not> ts_checking st \<and> \<not> ts_finished st \<and> ts_progress_bytes st < t_size_bytes h
    | None \<Rightarrow> w_dir_size w (torrent_output_dir (t_storage_location h) (t_info_hash h)) < t_size_bytes h)"

definition stall_due :: "world \<Rightarrow> duration \<Rightarrow> torrent \<Rightarrow> bool" where
  "stall_due w timeout h = (case stall_age (w_now w) h of
      None \<Rightarrow> False
    | Some since \<Rightarrow> \<not> since < timeout \<and> incomplete_now w h)"

definition stall_reason :: "duration \<Rightarrow> torrent \<Rightarrow> string" where
  "stall_reason since h =
     (if t_last_known_seeders h = 0
      then ''zero seeders and no download progress for '' @ human_duration since
      else ''no download progress for '' @ human_duration since @ '' ('' @ show_nat (t_last_known_seeders h) @
           '' seeders, incomplete)'')"

fun evict_stalled_loop :: "world \<Rightarrow> string set \<Rightarrow> torrent list \<Rightarrow> bool \<Rightarrow> engine \<Rightarrow> bool \<times> engine" where
  "evict_stalled_loop w catalog [] removed_any e = (removed_any, e)"
| "evict_stalled_loop w catalog (h # hs) removed_any e =
     (if t_info_hash h \<notin> catalog \<or> \<not> stall_due w (sc_stall_eviction_timeout (cfg_scan (en_cfg e))) h
      then evict_stalled_loop w catalog hs removed_any e
      else case evict w Stalled (stall_reason (the (stall_age (w_now w) h)) h) h removed_any e of
             (removed_any, e) \<Rightarrow> evict_stalled_loop w catalog hs removed_any e)"

definition evict_stalled_torrents :: "world \<Rightarrow> string set \<Rightarrow> engine \<Rightarrow> engine" where
  "evict_stalled_torrents w catalog e =
     (if sc_stall_eviction_timeout (cfg_scan (en_cfg e)) = 0 then e
      else case evict_stalled_loop w catalog (all_torrents (en_state e)) False e of
             (removed_any, e) \<Rightarrow> if removed_any then push_live e else e)"

fun resume_loop :: "world \<Rightarrow> torrent list \<Rightarrow> engine \<Rightarrow> engine" where
  "resume_loop w [] e = e"
| "resume_loop w (h # hs) e = (case w_cached_meta w (t_info_hash h) of
      None \<Rightarrow> resume_loop w hs e
    | Some md \<Rightarrow>
        resume_loop w hs (snd (add_torrent_bytes w (t_info_hash h)
          (torrent_output_dir (t_storage_location h) (t_info_hash h))
          (at_trackers_only (w_parse_url w) (tiers_of (md_trackers md)) (en_user_announce e) (en_user_announce_ipv6 e)) e)))"

definition resume_held :: "world \<Rightarrow> engine \<Rightarrow> engine" where
  "resume_held w e = resume_loop w (all_torrents (en_state e)) e"

text \<open>For the examples: a world far in the future, and an engine with an idle, a listed and a stalled torrent.\<close>

definition late_world :: world where
  "late_world = sample_world\<lparr>w_now := 10 ^ 18\<rparr>"

definition stalled_torrent :: torrent where
  "stalled_torrent = (sample_torrent ''cc'' 30 2)\<lparr>t_last_progress_at := Some 0\<rparr>"

definition pair_engine :: engine where
  "pair_engine = sample_engine\<lparr>en_state := \<lparr>st_torrents = [(''aa'', sample_torrent ''aa'' 10 9),
     (''bb'', sample_torrent ''bb'' 20 3), (''cc'', stalled_torrent)], st_quarantined = [], st_disk = None\<rparr>\<rparr>"

section \<open>Shrinking holdings\<close>

definition same_footprint :: "torrent \<Rightarrow> torrent \<Rightarrow> bool" where
  "same_footprint t t' \<longleftrightarrow> t_info_hash t' = t_info_hash t \<and> t_size_bytes t' = t_size_bytes t \<and>
     t_storage_location t' = t_storage_location t \<and> t_piece_count t' = t_piece_count t"

definition shrinks :: "engine \<Rightarrow> engine \<Rightarrow> bool" where
  "shrinks e e' \<longleftrightarrow> same_static e e' \<and> (wf_state (en_state e) \<longrightarrow> wf_state (en_state e')) \<and>
     (\<forall>h t'. state_get (en_state e') h = Some t' \<longrightarrow>
        (\<exists>t. state_get (en_state e) h = Some t \<and> same_footprint t t'))"

lemma same_footprint_refl [simp]: "same_footprint t t"
  by (simp add: same_footprint_def)

lemma shrinks_refl [simp]: "shrinks e e"
  by (auto simp: shrinks_def)

lemma shrinks_trans: "shrinks a b \<Longrightarrow> shrinks b c \<Longrightarrow> shrinks a c"
  unfolding shrinks_def using same_static_trans by (fastforce simp: same_footprint_def)

lemma shrinks_state: "en_state e' = en_state e \<Longrightarrow> same_static e e' \<Longrightarrow> shrinks e e'"
  by (auto simp: shrinks_def)

lemma shrinks_push_live [simp]: "shrinks e (push_live e') = shrinks e e'"
  by (simp add: shrinks_def)

lemma shrinks_record [simp]: "shrinks e (record_history w ev e') = shrinks e e'"
  by (simp add: shrinks_def)

lemma shrinks_drop: "drop_torrent w h e = (saved, e') \<Longrightarrow> shrinks e e'"
  using drop_torrent_frame [of w h e saved e']
  by (auto simp: shrinks_def state_get_def hm_simps wf_state_def hm.entries_del split: if_splits)

lemma evict_frame:
  assumes "evict w cause reason h any e = (any', e')"
  shows "shrinks e e'" "st_torrents (en_state e') = hm_remove (t_info_hash h) (st_torrents (en_state e))"
    "st_quarantined (en_state e') = st_quarantined (en_state e)"
  using assms shrinks_drop [of w h e] drop_torrent_frame [of w h e]
  by (auto simp: evict_def split: prod.splits bool.splits)

lemma shrinks_apply_batch:
  assumes "\<forall>(h, f) \<in> set us. \<forall>t. same_footprint t (f t)"
  shows "shrinks e (apply_batch w us e)"
proof -
  have "\<exists>t. hm_get m h = Some t \<and> same_footprint t t'"
    if "hm_get (fst (apply_updates us m n)) h = Some t'" "\<forall>(h, f) \<in> set us. \<forall>t. same_footprint t (f t)" for us m n h t'
    using that
  proof (induction us m n arbitrary: t' rule: apply_updates.induct)
    case (2 h' f us m n)
    then show ?case
      by (fastforce simp: hm_simps same_footprint_def split: option.splits if_splits)
  qed simp
  then have "\<exists>t. state_get (en_state e) h = Some t \<and> same_footprint t t'"
    if "state_get (snd (update_each (w_save w) us (en_state e))) h = Some t'" for h t'
    using that assms by (simp add: state_get_def)
  moreover have "wf_state (en_state e) \<Longrightarrow> wf_state (snd (update_each (w_save w) us (en_state e)))"
    using assms by (intro wf_update_each) (auto simp: same_footprint_def)
  ultimately show ?thesis
    by (auto simp: apply_batch_def shrinks_def Let_def split: prod.splits sum.splits)
qed

lemma shrinks_total:
  assumes "shrinks e e'" "wf_state (en_state e)" "\<And>t t'. same_footprint t t' \<Longrightarrow> weight t' = weight t"
  shows "weight_total weight (en_state e') \<le> weight_total weight (en_state e)"
proof -
  let ?s = "en_state e" and ?s' = "en_state e'"
  have tot: "weight_total weight s = (\<Sum>h \<in> dom (state_get s). weight (the (state_get s h)))" if "wf_state s" for s
  proof -
    have d: "distinct (map fst (st_torrents s))" using that by (simp add: wf_state_def hm_wf_def)
    have "weight_total weight s = (\<Sum>p \<in> set (st_torrents s). weight (snd p))"
      using d by (simp add: weight_total_entries sum_list_distinct_conv_sum_set distinct_map)
    also have "\<dots> = (\<Sum>h \<in> fst ` set (st_torrents s). weight (the (map_of (st_torrents s) h)))"
      using d by (subst sum.reindex) (auto simp: distinct_map intro!: sum.cong)
    finally show ?thesis by (simp add: state_get_def [abs_def] dom_map_of_conv_image_fst)
  qed
  have wf': "wf_state ?s'" using assms(1,2) by (simp add: shrinks_def)
  have sub: "dom (state_get ?s') \<subseteq> dom (state_get ?s)" using assms(1) by (fastforce simp: shrinks_def)
  have fin: "finite (dom (state_get ?s))" by (simp add: state_get_def [abs_def] finite_dom_map_of)
  have "weight_total weight ?s' = (\<Sum>h \<in> dom (state_get ?s'). weight (the (state_get ?s h)))"
    unfolding tot [OF wf'] using assms(1,3) by (intro sum.cong) (fastforce simp: shrinks_def)+
  also have "\<dots> \<le> (\<Sum>h \<in> dom (state_get ?s). weight (the (state_get ?s h)))"
    using sub fin by (intro sum_mono2) auto
  also have "\<dots> = weight_total weight ?s" using tot [OF assms(2)] by simp
  finally show ?thesis .
qed

section \<open>The contract of a holdings invariant\<close>

text \<open>
  A relation between the engine a phase starts with and the engine it has, with the running held count,
  that holds at the start, that no shrinking breaks, and that acting on a candidate in one of the given
  worlds keeps.  Scans and watchdog passes are made of nothing else.
\<close>

locale holdings_invariant =
  fixes worlds :: "world set" and P :: "engine \<Rightarrow> nat \<Rightarrow> engine \<Rightarrow> bool"
  assumes started: "wf_state (en_state e0) \<Longrightarrow> shrinks e0 e \<Longrightarrow> P e0 (length (all_torrents (en_state e))) e"
    and shrunk: "P e0 n e \<Longrightarrow> shrinks e e' \<Longrightarrow> P e0 n e'"
    and act: "P e0 n e \<Longrightarrow> w \<in> worlds \<Longrightarrow> act_on_candidate w c n flr e = (n', e') \<Longrightarrow> P e0 n' e'"
begin

lemma frame: "P e0 n e \<Longrightarrow> en_state e' = en_state e \<Longrightarrow> same_static e e' \<Longrightarrow> P e0 n e'"
  using shrunk shrinks_state by blast

end

lemma footprint_weights:
  assumes "same_footprint t t'"
  shows "disk_weight p t' = disk_weight p t" "ram_price pl t' = ram_price pl t"
  using assms by (simp_all add: same_footprint_def disk_weight_def ram_price_def)

lemma shrinks_sums:
  assumes "wf_state (en_state e0)" "shrinks e0 e"
  shows "committed (en_state e) p \<le> committed (en_state e0) p" "ram_used pl (en_state e) \<le> ram_used pl (en_state e0)"
    "length (all_torrents (en_state e)) \<le> length (all_torrents (en_state e0))" "wf_state (en_state e)" "same_static e0 e"
proof -
  show "committed (en_state e) p \<le> committed (en_state e0) p"
    using shrinks_total [OF assms(2,1), of "disk_weight p"] footprint_weights(1) by (simp add: committed_def)
  show "ram_used pl (en_state e) \<le> ram_used pl (en_state e0)"
    using shrinks_total [OF assms(2,1), of "ram_price pl"] footprint_weights(2) by (simp add: ram_used_def)
  show "length (all_torrents (en_state e)) \<le> length (all_torrents (en_state e0))"
    using shrinks_total [OF assms(2,1), of "\<lambda>_. 1"] by (simp add: weight_total_def sum_list_triv)
qed (use assms in \<open>simp_all add: shrinks_def\<close>)

definition disk_holdings :: "engine \<Rightarrow> nat \<Rightarrow> engine \<Rightarrow> bool" where
  "disk_holdings e0 n e \<longleftrightarrow> (disk_wf e0 \<longrightarrow> (\<forall>loc \<in> set (cfg_storage (en_cfg e0)). disk_inv e0 loc e))"

definition ram_holdings :: "engine \<Rightarrow> nat \<Rightarrow> engine \<Rightarrow> bool" where
  "ram_holdings e0 n e \<longleftrightarrow> (en_ram_budget e0 \<le> u64_max \<longrightarrow> ram_inv e0 e)"

interpretation disk_hold: holdings_invariant UNIV disk_holdings
proof
  fix e0 e assume a: "wf_state (en_state e0)" "shrinks e0 e"
  then show "disk_holdings e0 (length (all_torrents (en_state e))) e"
    using shrinks_sums [OF a] by (simp add: disk_holdings_def disk_inv_def le_max_iff_disj)
next
  fix e0 n e e' assume a: "disk_holdings e0 n e" "shrinks e e'"
  have "disk_inv e0 loc e'" if d: "disk_inv e0 loc e" for loc
  proof -
    have w: "wf_state (en_state e)" using d by (simp add: disk_inv_def)
    show ?thesis
      using d shrinks_sums(1) [OF w a(2), of "sl_path loc"] shrinks_sums(4,5) [OF w a(2)] same_static_trans [of e0 e e']
      unfolding disk_inv_def by linarith
  qed
  then show "disk_holdings e0 n e'" using a(1) by (simp add: disk_holdings_def)
next
  fix e0 n e w c flr n' e'
  assume "disk_holdings e0 n e" "act_on_candidate w c n flr e = (n', e')"
  then show "disk_holdings e0 n' e'" using disk_inv_act [of e0 _ e] unfolding disk_holdings_def by blast
qed

interpretation ram_hold: holdings_invariant "Collect metas_wf" ram_holdings
proof
  fix e0 e assume a: "wf_state (en_state e0)" "shrinks e0 e"
  then show "ram_holdings e0 (length (all_torrents (en_state e))) e"
    using shrinks_sums [OF a] by (simp add: ram_holdings_def ram_inv_def le_max_iff_disj)
next
  fix e0 n e e' assume a: "ram_holdings e0 n e" "shrinks e e'"
  have "ram_inv e0 e'" if d: "ram_inv e0 e"
  proof -
    have w: "wf_state (en_state e)" using d by (simp add: ram_inv_def)
    show ?thesis
      using d shrinks_sums(2) [OF w a(2), of "peer_limit_for_budget (en_ram_budget e0)"] shrinks_sums(4,5) [OF w a(2)]
        same_static_trans [of e0 e e']
      unfolding ram_inv_def by linarith
  qed
  then show "ram_holdings e0 n e'" using a(1) by (simp add: ram_holdings_def)
next
  fix e0 n e w c flr n' e'
  assume "ram_holdings e0 n e" "w \<in> Collect metas_wf" "act_on_candidate w c n flr e = (n', e')"
  then show "ram_holdings e0 n' e'" using ram_inv_act [of e0 w e] unfolding ram_holdings_def by blast
qed

interpretation count_hold: holdings_invariant UNIV count_inv
proof
  fix e0 e assume a: "wf_state (en_state e0)" "shrinks e0 e"
  then show "count_inv e0 (length (all_torrents (en_state e))) e" using shrinks_sums [OF a] by (simp add: count_inv_def)
next
  fix e0 n e e' assume a: "count_inv e0 n e" "shrinks e e'"
  have w: "wf_state (en_state e)" using a(1) by (simp add: count_inv_def)
  show "count_inv e0 n e'"
    using a(1) shrinks_sums(3-5) [OF w a(2)] same_static_trans [of e0 e e'] unfolding count_inv_def by linarith
next
  fix e0 n e w c flr n' e'
  assume "count_inv e0 n e" "act_on_candidate w c n flr e = (n', e')"
  then show "count_inv e0 n' e'" by (rule count_inv_act)
qed

section \<open>Which torrents leave\<close>

lemma remove_deleted_loop_spec:
  assumes "remove_deleted_loop w catalog hs any e = (any', e')"
  shows "shrinks e e' \<and> state_get (en_state e') k =
    (if \<exists>h \<in> set hs. t_info_hash h = k \<and> k \<notin> catalog \<and>
          vanished_due (w_now w) (sc_vanished_eviction_timeout (cfg_scan (en_cfg e))) h
     then None else state_get (en_state e) k)"
  using assms
proof (induction hs arbitrary: any e)
  case (Cons h hs)
  show ?case
  proof (cases "t_info_hash h \<in> catalog \<or> \<not> vanished_due (w_now w) (sc_vanished_eviction_timeout (cfg_scan (en_cfg e))) h")
    case True
    then have "remove_deleted_loop w catalog hs any e = (any', e')" using Cons.prems by (auto split: if_splits)
    from Cons.IH [OF this] True show ?thesis by auto
  next
    case False
    obtain a1 e1 where ev: "evict w DeletedFromCatalog ''no longer listed on Academic Torrents'' h any e = (a1, e1)" by fastforce
    with False have "remove_deleted_loop w catalog hs a1 e1 = (any', e')" using Cons.prems by auto
    from Cons.IH [OF this] show ?thesis
      using False evict_frame [OF ev] shrinks_trans [of e e1 e']
      by (auto simp: state_get_def hm_simps shrinks_def same_static_def)
  qed
qed simp

lemma evict_stalled_loop_spec:
  assumes "evict_stalled_loop w catalog hs any e = (any', e')"
  shows "shrinks e e' \<and> state_get (en_state e') k =
    (if \<exists>h \<in> set hs. t_info_hash h = k \<and> k \<in> catalog \<and>
          stall_due w (sc_stall_eviction_timeout (cfg_scan (en_cfg e))) h
     then None else state_get (en_state e) k)"
  using assms
proof (induction hs arbitrary: any e)
  case (Cons h hs)
  show ?case
  proof (cases "t_info_hash h \<notin> catalog \<or> \<not> stall_due w (sc_stall_eviction_timeout (cfg_scan (en_cfg e))) h")
    case True
    then have "evict_stalled_loop w catalog hs any e = (any', e')" using Cons.prems by (auto split: if_splits)
    from Cons.IH [OF this] True show ?thesis by auto
  next
    case False
    obtain a1 e1 where ev: "evict w Stalled (stall_reason (the (stall_age (w_now w) h)) h) h any e = (a1, e1)" by fastforce
    with False have "evict_stalled_loop w catalog hs a1 e1 = (any', e')" using Cons.prems by auto
    from Cons.IH [OF this] show ?thesis
      using False evict_frame [OF ev] shrinks_trans [of e e1 e']
      by (auto simp: state_get_def hm_simps shrinks_def same_static_def)
  qed
qed simp

lemma held_by_hash:
  assumes "wf_state s" "state_get s k = Some t"
  shows "(\<exists>h \<in> set (all_torrents s). t_info_hash h = k \<and> P h) \<longleftrightarrow> P t"
proof -
  have "h = t" if "h \<in> set (all_torrents s)" "t_info_hash h = k" for h
    using held_lookup [OF assms(1) that(1)] assms(2) that(2) by (simp add: state_get_def)
  moreover have "t \<in> set (all_torrents s)" "t_info_hash t = k"
    using assms by (force simp: state_get_def all_torrents_def wf_state_def dest: map_of_SomeD)+
  ultimately show ?thesis by blast
qed

lemma remove_deleted_torrents_spec:
  assumes "wf_state (en_state e)" "state_get (en_state e) k = Some t"
  shows "shrinks e (remove_deleted_torrents w (all_torrents (en_state e)) catalog e)"
    "state_get (en_state (remove_deleted_torrents w (all_torrents (en_state e)) catalog e)) k = None \<longleftrightarrow>
     \<not> cfg_preserve_deleted_torrents (en_cfg e) \<and> k \<notin> catalog \<and>
     vanished_due (w_now w) (sc_vanished_eviction_timeout (cfg_scan (en_cfg e))) t"
proof -
  obtain a e1 where l: "remove_deleted_loop w catalog (all_torrents (en_state e)) False e = (a, e1)" by fastforce
  note s = remove_deleted_loop_spec [OF l, of k]
    held_by_hash [OF assms, of "\<lambda>h. k \<notin> catalog \<and> vanished_due (w_now w) (sc_vanished_eviction_timeout (cfg_scan (en_cfg e))) h"]
  from s show "shrinks e (remove_deleted_torrents w (all_torrents (en_state e)) catalog e)"
    by (simp add: remove_deleted_torrents_def l)
  from s assms show "state_get (en_state (remove_deleted_torrents w (all_torrents (en_state e)) catalog e)) k = None \<longleftrightarrow>
     \<not> cfg_preserve_deleted_torrents (en_cfg e) \<and> k \<notin> catalog \<and>
     vanished_due (w_now w) (sc_vanished_eviction_timeout (cfg_scan (en_cfg e))) t"
    by (auto simp: remove_deleted_torrents_def l)
qed

lemma apply_batch_state: "en_state (apply_batch w us e) = snd (update_each (w_save w) us (en_state e))"
  by (cases "update_each (w_save w) us (en_state e)") (simp add: apply_batch_def Let_def split: sum.split)

lemma apply_batch_get_None: "state_get (en_state (apply_batch w us e)) k = None \<longleftrightarrow> state_get (en_state e) k = None"
proof -
  have "map fst (st_torrents (snd (update_each (w_save w) us (en_state e)))) = map fst (st_torrents (en_state e))"
    by (simp add: apply_updates_keys)
  then have "fst ` set (st_torrents (snd (update_each (w_save w) us (en_state e)))) = fst ` set (st_torrents (en_state e))"
    by (metis list.set_map)
  then show ?thesis by (simp only: apply_batch_state state_get_def map_of_eq_None_iff)
qed

lemma confirmations_footprint: "\<forall>(h, f) \<in> set (confirmations now catalog s). \<forall>t. same_footprint t (f t)"
  by (auto simp: confirmations_def confirm_def same_footprint_def)

lemma remove_deleted_shrinks: "shrinks e (remove_deleted_torrents w held catalog e)"
proof -
  obtain a e1 where l: "remove_deleted_loop w catalog held False e = (a, e1)" by fastforce
  show ?thesis using remove_deleted_loop_spec [OF l] by (simp add: remove_deleted_torrents_def l)
qed

lemma set_catalog_shrinks: "shrinks e (e\<lparr>en_last_catalog := c\<rparr>)"
  by (simp add: shrinks_state)

lemma reconcile_shrinks: "shrinks e (reconcile_catalog w catalog e)"
proof -
  let ?e1 = "e\<lparr>en_last_catalog := Some catalog\<rparr>"
  let ?e2 = "if catalog_collapsed (en_cfg ?e1) (all_torrents (en_state e)) catalog then ?e1
    else remove_deleted_torrents w (all_torrents (en_state e)) catalog ?e1"
  have "shrinks ?e1 ?e2" by (simp add: remove_deleted_shrinks)
  then have "shrinks e ?e2" by (rule shrinks_trans [OF set_catalog_shrinks])
  then show ?thesis unfolding reconcile_catalog_def Let_def
    by (rule shrinks_trans [OF _ shrinks_apply_batch [OF confirmations_footprint]])
qed

lemma refresh_walk_spec:
  assumes "refresh_walk ws stopped hs e = (us, e')"
  shows "en_state e' = en_state e \<and> same_static e e' \<and> (\<forall>(h, f) \<in> set us. \<forall>t. same_footprint t (f t))"
  using assms
proof (induction hs arbitrary: us e e')
  case (Cons h hs)
  let ?w = "ws (t_info_hash h)"
  obtain r e1 where m: "fetch_metadata ?w (t_info_hash h) e = (r, e1)" by fastforce
  have f1: "en_state e1 = en_state e" "same_static e e1"
    using fetch_metadata_frame(1) [of ?w "t_info_hash h" e] fetch_metadata_frame(2) [of e ?w "t_info_hash h" e] m by auto
  show ?case
  proof (cases "stopped (t_info_hash h) \<or> (\<exists>err. r = Inl err)")
    case True
    show ?thesis
    proof (cases "stopped (t_info_hash h)")
      case True
      then show ?thesis using Cons.prems by simp
    next
      case False
      with True have "refresh_walk ws stopped hs e1 = (us, e')" using Cons.prems m by (auto simp: Let_def)
      from Cons.IH [OF this] show ?thesis using f1 same_static_trans [OF f1(2)] by simp
    qed
  next
    case False
    then obtain md where md: "\<not> stopped (t_info_hash h)" "r = Inr md" by (cases r) auto
    obtain r2 e2 where sc: "scrape_swarm ?w (md_trackers md) (hash_or_zero (t_info_hash h)) e1 = (r2, e2)" by fastforce
    have f2: "en_state e2 = en_state e" "same_static e e2"
      using scrape_swarm_frame(1) [of ?w "md_trackers md" "hash_or_zero (t_info_hash h)" e1]
        scrape_swarm_frame(2) [of e ?w "md_trackers md" "hash_or_zero (t_info_hash h)" e1] sc f1 by auto
    obtain us2 e3 where rec: "refresh_walk ws stopped hs e2 = (us2, e3)" by fastforce
    have "us = us2 \<or> (\<exists>n p. us = (t_info_hash h, refresh (w_now ?w) n p) # us2)" "e' = e3"
      using Cons.prems m md sc rec by (auto simp: Let_def split: sum.splits)
    moreover have "same_footprint t (refresh now n p t)" for now n p t by (simp add: refresh_def same_footprint_def Let_def)
    ultimately show ?thesis using Cons.IH [OF rec] f2 same_static_trans [OF f2(2)] by fastforce
  qed
qed simp

lemma refresh_shrinks: "shrinks e (refresh_held_seeder_counts ws stopped w e)"
proof -
  obtain us e1 where r: "refresh_walk ws stopped (all_torrents (en_state e)) e = (us, e1)" by fastforce
  note s = refresh_walk_spec [OF r]
  then have "shrinks e e1" by (intro shrinks_state) auto
  moreover have "shrinks e1 (apply_batch w us e1)" using s by (intro shrinks_apply_batch) auto
  ultimately show ?thesis unfolding refresh_held_seeder_counts_def r by (auto intro: shrinks_trans)
qed

lemma evict_stalled_shrinks: "shrinks e (evict_stalled_torrents w catalog e)"
proof -
  obtain a e1 where l: "evict_stalled_loop w catalog (all_torrents (en_state e)) False e = (a, e1)" by fastforce
  show ?thesis using evict_stalled_loop_spec [OF l] by (simp add: evict_stalled_torrents_def l)
qed

lemma resume_frame: "en_state (resume_loop w hs e) = en_state e \<and> same_static e (resume_loop w hs e)"
proof (induction hs arbitrary: e)
  case (Cons h hs)
  show ?case
  proof (cases "w_cached_meta w (t_info_hash h)")
    case None
    then show ?thesis using Cons.IH [of e] by simp
  next
    case (Some md)
    let ?e1 = "snd (add_torrent_bytes w (t_info_hash h) (torrent_output_dir (t_storage_location h) (t_info_hash h))
      (at_trackers_only (w_parse_url w) (tiers_of (md_trackers md)) (en_user_announce e) (en_user_announce_ipv6 e)) e)"
    have "same_static e ?e1" by simp
    from same_static_trans [OF this] show ?thesis using Cons.IH [of ?e1] Some by simp
  qed
qed simp

section \<open>Properties\<close>

text \<open>C7. Exactly the torrents the catalog dropped long enough ago leave in the catalog phase: a held torrent
  is gone afterwards if and only if deletion is not disabled, the catalog did not collapse, the catalog does
  not list it, and the time since it was last confirmed (or added) has reached the timeout.\<close>

theorem reconcile_removes_exactly:
  assumes "wf_state (en_state e)" "state_get (en_state e) k = Some t"
  shows "state_get (en_state (reconcile_catalog w catalog e)) k = None \<longleftrightarrow>
    \<not> cfg_preserve_deleted_torrents (en_cfg e) \<and>
    \<not> catalog_collapsed (en_cfg e) (all_torrents (en_state e)) catalog \<and> k \<notin> catalog \<and>
    vanished_due (w_now w) (sc_vanished_eviction_timeout (cfg_scan (en_cfg e))) t"
  using remove_deleted_torrents_spec(2) [of "e\<lparr>en_last_catalog := Some catalog\<rparr>" k t w catalog] assms
  by (simp add: reconcile_catalog_def apply_batch_get_None Let_def)

theorem reconcile_removes_exactly_witness:
  "state_get (en_state (reconcile_catalog late_world {''bb''} pair_engine)) ''aa'' = None"
proof -
  have "wf_state (en_state pair_engine)" "state_get (en_state pair_engine) ''aa'' = Some (sample_torrent ''aa'' 10 9)"
    by (simp_all add: pair_engine_def sample_engine_def wf_state_def hm_wf_def sample_torrent_def stalled_torrent_def state_get_def)
  moreover have "\<not> catalog_collapsed (en_cfg pair_engine) (all_torrents (en_state pair_engine)) {''bb''}"
    "\<not> cfg_preserve_deleted_torrents (en_cfg pair_engine)"
    by (simp_all add: pair_engine_def catalog_collapsed_def sample_engine_def all_torrents_def still_listed_def sample_config_def
        sample_torrent_def stalled_torrent_def config_default_def DEFAULT_CATALOG_COLLAPSE_PERCENT_def)
  moreover have "vanished_due (w_now late_world) (sc_vanished_eviction_timeout (cfg_scan (en_cfg pair_engine))) (sample_torrent ''aa'' 10 9)"
    by (simp add: vanished_due_def late_world_def pair_engine_def sample_engine_def sample_config_def sample_torrent_def to_std_def config_default_def
        scan_config_default_def DEFAULT_VANISHED_EVICTION_TIMEOUT_def secs_def)
  ultimately show ?thesis
    using reconcile_removes_exactly [of pair_engine "''aa''" "sample_torrent ''aa'' 10 9" late_world "{''bb''}"] by simp
qed

text \<open>The collapse guard: with the guard on, a catalog that lists none of the held torrents (an empty feed,
  a renamed field, wrong rows) removes nothing at all.\<close>

theorem collapse_guard_protects:
  assumes "wf_state (en_state e)" "0 < cfg_catalog_collapse_percent (en_cfg e)"
    and "list_all (\<lambda>h. t_info_hash h \<notin> catalog) (all_torrents (en_state e))" "state_get (en_state e) k = Some t"
  shows "state_get (en_state (reconcile_catalog w catalog e)) k \<noteq> None"
proof -
  have "all_torrents (en_state e) \<noteq> []" using assms(4) by (auto simp: state_get_def all_torrents_def)
  moreover have "filter (\<lambda>h. h \<in> catalog) (remdups (map t_info_hash (all_torrents (en_state e)))) = []"
    using assms(3) by (auto simp: filter_empty_conv list_all_iff)
  ultimately have "catalog_collapsed (en_cfg e) (all_torrents (en_state e)) catalog"
    using assms(2) by (simp add: catalog_collapsed_def still_listed_def)
  moreover have "shrinks (e\<lparr>en_last_catalog := Some catalog\<rparr>) (e\<lparr>en_last_catalog := Some catalog\<rparr>)" by simp
  ultimately show ?thesis using assms(4) by (simp add: reconcile_catalog_def apply_batch_get_None Let_def)
qed

theorem collapse_guard_protects_witness:
  "state_get (en_state (reconcile_catalog sample_world {''bb''} sample_engine)) ''aa'' \<noteq> None"
proof (rule collapse_guard_protects)
  show "wf_state (en_state sample_engine)" "0 < cfg_catalog_collapse_percent (en_cfg sample_engine)"
    "list_all (\<lambda>h. t_info_hash h \<notin> {''bb''}) (all_torrents (en_state sample_engine))"
    "state_get (en_state sample_engine) ''aa'' = Some (sample_torrent ''aa'' 10 9)"
    by (simp_all add: sample_engine_def wf_state_def hm_wf_def sample_torrent_def state_get_def all_torrents_def
        sample_config_def config_default_def DEFAULT_CATALOG_COLLAPSE_PERCENT_def)
qed



end
