(* ===== verification/Scan.thy ===== *)
theory Scan
  imports Maintenance Netstats
begin

text \<open>
  A whole scan, \<open>scan_once_shutdown\<close> of \<open>src/engine/scan.rs\<close>, with the evaluation of the candidates, the
  incremental acting, the snapshot file, the pacing of the run loop and the completion report.

  The evaluation workers run concurrently; a worker shares only the scrape cache with the rest, so a scan is
  modelled as the items in the order their evaluations complete (\<open>si_order\<close>), each evaluated and then
  consumed by the acting loop.  Everything the outside decides in a scan is the record \<open>scan_inputs\<close>; the
  theorems hold for all of them, whatever order, failures and shutdown points it describes.
\<close>

section \<open>Evaluation\<close>

record scan_stats =
  ss_library_bytes :: nat
  ss_metadata_fetched :: nat
  ss_metadata_cached :: nat
  ss_scrape_requests :: nat
  ss_scrape_cached :: nat
  ss_skipped_held :: nat
  ss_skipped_blocked :: nat
  ss_skipped_too_big :: nat
  ss_skipped_age :: nat
  ss_skipped_fetch_err :: nat
  ss_skipped_scrape_err :: nat
  ss_eligible :: nat

definition scan_stats_default :: scan_stats where
  "scan_stats_default = \<lparr>ss_library_bytes = 0, ss_metadata_fetched = 0, ss_metadata_cached = 0,
     ss_scrape_requests = 0, ss_scrape_cached = 0, ss_skipped_held = 0, ss_skipped_blocked = 0,
     ss_skipped_too_big = 0, ss_skipped_age = 0, ss_skipped_fetch_err = 0, ss_skipped_scrape_err = 0, ss_eligible = 0\<rparr>"

text \<open>\<open>AtomicU64::fetch_add\<close> wraps.\<close>

definition add_into :: "scan_stats \<Rightarrow> scan_stats \<Rightarrow> scan_stats" where
  "add_into dst src = \<lparr>ss_library_bytes = wrap64 (ss_library_bytes dst + ss_library_bytes src),
     ss_metadata_fetched = wrap64 (ss_metadata_fetched dst + ss_metadata_fetched src),
     ss_metadata_cached = wrap64 (ss_metadata_cached dst + ss_metadata_cached src),
     ss_scrape_requests = wrap64 (ss_scrape_requests dst + ss_scrape_requests src),
     ss_scrape_cached = wrap64 (ss_scrape_cached dst + ss_scrape_cached src),
     ss_skipped_held = wrap64 (ss_skipped_held dst + ss_skipped_held src),
     ss_skipped_blocked = wrap64 (ss_skipped_blocked dst + ss_skipped_blocked src),
     ss_skipped_too_big = wrap64 (ss_skipped_too_big dst + ss_skipped_too_big src),
     ss_skipped_age = wrap64 (ss_skipped_age dst + ss_skipped_age src),
     ss_skipped_fetch_err = wrap64 (ss_skipped_fetch_err dst + ss_skipped_fetch_err src),
     ss_skipped_scrape_err = wrap64 (ss_skipped_scrape_err dst + ss_skipped_scrape_err src),
     ss_eligible = wrap64 (ss_eligible dst + ss_eligible src)\<rparr>"

definition is_request :: "net_effect \<Rightarrow> bool" where
  "is_request x = (case x of ScrapeReq _ _ \<Rightarrow> True | _ \<Rightarrow> False)"

definition eval_scrape_swarm :: "world \<Rightarrow> string list \<Rightarrow> string \<Rightarrow> scan_stats \<Rightarrow> engine \<Rightarrow>
    swarm_counts result \<times> scan_stats \<times> engine" where
  "eval_scrape_swarm w trackers h stats e =
     (case scrape_swarm_cached (w_parse_url w) (\<lambda>t. w_scrape w t h) (w_shutdown w) (w_now w) trackers h (en_swarm e) of
        (r, c, es) \<Rightarrow>
          (r, stats\<lparr>ss_scrape_cached := wrap64 (ss_scrape_cached stats + (if cache_get (w_now w) (en_swarm e) h = None then 0 else 1)),
               ss_scrape_requests := wrap64 (ss_scrape_requests stats + length (filter is_request es))\<rparr>,
           emit (map Net es) (e\<lparr>en_swarm := c\<rparr>)))"

text \<open>The age gate: an unknown creation date is not old enough.\<close>

definition old_enough :: "instant \<Rightarrow> duration \<Rightarrow> torrent_meta \<Rightarrow> bool" where
  "old_enough now delay md = (case md_created_at md of
      None \<Rightarrow> False
    | Some t \<Rightarrow> delay \<le> (case to_std (now - t) of Some age \<Rightarrow> age | None \<Rightarrow> 0))"

definition evaluate_one_item :: "world \<Rightarrow> item \<Rightarrow> scan_stats \<Rightarrow> engine \<Rightarrow> evaluated option \<times> scan_stats \<times> engine" where
  "evaluate_one_item w it stats e =
     (case fetch_metadata w (it_info_hash it) e of
        (Inl _, e) \<Rightarrow> (None, stats\<lparr>ss_skipped_fetch_err := wrap64 (ss_skipped_fetch_err stats + 1)\<rparr>, e)
      | (Inr md, e) \<Rightarrow>
          (let stats = stats\<lparr>ss_metadata_fetched := wrap64 (ss_metadata_fetched stats + 1)\<rparr>
           in if \<not> old_enough (w_now w) (sc_moderation_delay (cfg_scan (en_cfg e))) md
              then (None, stats\<lparr>ss_skipped_age := wrap64 (ss_skipped_age stats + 1)\<rparr>, e)
              else case eval_scrape_swarm w (md_trackers md) (md_info_hash md) stats e of
                     (Inl _, stats, e) \<Rightarrow>
                       (None, stats\<lparr>ss_skipped_scrape_err := wrap64 (ss_skipped_scrape_err stats + 1)\<rparr>, e)
                   | (Inr sw, stats, e) \<Rightarrow>
                       (Some \<lparr>ev_title = it_title it, ev_info_hash = md_info_hash md, ev_size_bytes = md_total_length md,
                          ev_piece_count = md_piece_count md, ev_seeders = sw_seeders sw, ev_leechers = sw_leechers sw\<rparr>,
                        stats\<lparr>ss_eligible := wrap64 (ss_eligible stats + 1)\<rparr>, e)))"

text \<open>The pre-filter of \<open>run_evaluation\<close>: the pending items and the counters of the others.\<close>

definition prefilter_items :: "string set \<Rightarrow> keyword_blocklist \<Rightarrow> nat \<Rightarrow> item list \<Rightarrow> item list \<times> scan_stats" where
  "prefilter_items held blocklist max_fittable items =
     (let n = (\<lambda>r. wrap64 (length (filter (\<lambda>it. prefilter_reason it held blocklist max_fittable = r) items)))
      in (filter (\<lambda>it. prefilter_reason it held blocklist max_fittable = PPending) items,
          scan_stats_default\<lparr>ss_skipped_held := n PHeld, ss_skipped_blocked := n PBlocked, ss_skipped_too_big := n PTooBig\<rparr>))"

section \<open>One scan\<close>

record scan_inputs =
  si_started :: instant
  si_completed :: instant
  si_save_first :: bool
  si_save_second :: bool
  si_save_last :: bool
  si_cache_age :: "duration option"
  si_cached :: "rss_item list option option"
  si_reply :: http_reply
  si_cached_later :: "rss_item list option option"
  si_shuffle :: "item list \<Rightarrow> item list"
  si_reconcile :: world
  si_refresh :: "string \<Rightarrow> world"
  si_refresh_stopped :: "string \<Rightarrow> bool"
  si_refresh_end :: world
  si_shutdown_mid :: bool
  si_evict :: world
  si_dispatched :: nat
  si_order :: "item list \<Rightarrow> item list"
  si_eval :: "string \<Rightarrow> world"
  si_stopped :: "nat \<Rightarrow> bool"
  si_act :: "nat \<Rightarrow> string \<Rightarrow> world"
  si_powf :: "f64 \<Rightarrow> f64 \<Rightarrow> f64"
  si_progress :: "(nat \<times> bool) list"
  si_shutdown_end :: bool
  si_cache_save :: bool

record scan_run =
  sr_batch :: "evaluated list"
  sr_acted :: "string set"
  sr_held :: nat
  sr_counts :: "nat list"
  sr_stats :: scan_stats
  sr_engine :: engine

record last_scan_stats =
  ls_eligible :: nat
  ls_scrape_requests :: nat
  ls_scrape_cached :: nat
  ls_processed :: nat
  ls_total :: nat

record scan_outcome =
  so_result :: "unit result"
  so_engine :: engine
  so_snapshot :: "snapshot json_file"
  so_last :: "last_scan_stats option"

definition act_window :: "scan_inputs \<Rightarrow> nat \<Rightarrow> scan_run \<Rightarrow> scan_run" where
  "act_window inp flr r =
     (case act_on_windowed (si_act inp (length (sr_batch r))) (si_powf inp) (sr_batch r) (sr_acted r) (sr_held r) flr (sr_engine r) of
        (acted, held_count, e) \<Rightarrow> r\<lparr>sr_acted := acted, sr_held := held_count, sr_engine := e\<rparr>)"

text \<open>One arrival: the floor accumulator first, then the shutdown check, then the batch.\<close>

definition consume :: "scan_inputs \<Rightarrow> nat \<Rightarrow> evaluated \<Rightarrow> scan_run \<Rightarrow> unit result \<times> scan_run" where
  "consume inp flr ev r =
     (let r = r\<lparr>sr_counts := sr_counts r @ [ev_seeders ev]\<rparr>
      in if si_stopped inp (length (sr_batch r)) then (Inl ''scan interrupted by shutdown'', r)
         else let r = r\<lparr>sr_batch := sr_batch r @ [ev]\<rparr>
              in (Inr (), if length (sr_batch r) mod EVALUATE_CONCURRENCY = 0 then act_window inp flr r else r))"

fun scan_walk :: "scan_inputs \<Rightarrow> nat \<Rightarrow> item list \<Rightarrow> scan_run \<Rightarrow> unit result \<times> scan_run" where
  "scan_walk inp flr [] r = (Inr (), r)"
| "scan_walk inp flr (it # its) r =
     (case evaluate_one_item (si_eval inp (it_info_hash it)) it (sr_stats r) (sr_engine r) of
        (None, stats, e) \<Rightarrow> scan_walk inp flr its (r\<lparr>sr_stats := stats, sr_engine := e\<rparr>)
      | (Some ev, stats, e) \<Rightarrow>
          (case consume inp flr ev (r\<lparr>sr_stats := stats, sr_engine := e\<rparr>) of
             (Inl er, r) \<Rightarrow> (Inl er, r)
           | (Inr _, r) \<Rightarrow> scan_walk inp flr its r))"

definition scan_snapshot :: "scan_inputs \<Rightarrow> instant option \<Rightarrow> nat \<Rightarrow> nat \<Rightarrow> nat \<Rightarrow> snapshot" where
  "scan_snapshot inp completed total_candidates processed flr = \<lparr>sn_scan_started_at = Some (si_started inp),
     sn_scan_completed_at = completed, sn_total_candidates = total_candidates,
     sn_processed_candidates = processed, sn_seeder_floor = flr\<rparr>"

text \<open>The progress saver of \<open>run_evaluation\<close>: a snapshot of the running scan at every tick, errors ignored.\<close>

fun progress_saves :: "scan_inputs \<Rightarrow> nat \<Rightarrow> nat \<Rightarrow> (nat \<times> bool) list \<Rightarrow> snapshot json_file \<Rightarrow> snapshot json_file" where
  "progress_saves inp total_candidates flr [] f = f"
| "progress_saves inp total_candidates flr ((processed, writable) # xs) f =
     progress_saves inp total_candidates flr xs
       (snd (save_snapshot writable (scan_snapshot inp None total_candidates processed flr) f))"

definition floor_of :: "snapshot json_file \<Rightarrow> nat" where
  "floor_of f = (case load_snapshot f of Inr s \<Rightarrow> sn_seeder_floor s | Inl _ \<Rightarrow> 0)"

definition next_floor :: "nat \<Rightarrow> nat list \<Rightarrow> nat" where
  "next_floor flr counts = (if counts = [] then flr else seeder_floor counts)"

text \<open>The tail of the scan, after the walk: the last window, the floor, the final snapshot, the cache.\<close>

definition finish_scan :: "scan_inputs \<Rightarrow> nat \<Rightarrow> nat \<Rightarrow> scan_run \<Rightarrow> snapshot json_file \<Rightarrow> scan_outcome" where
  "finish_scan inp flr total_candidates r f =
     (if si_shutdown_end inp
      then \<lparr>so_result = Inl ''scan interrupted by shutdown'', so_engine = sr_engine r, so_snapshot = f, so_last = None\<rparr>
      else let processed = length (sr_batch r);
               r = (if processed mod EVALUATE_CONCURRENCY \<noteq> 0 then act_window inp flr r else r);
               s = scan_snapshot inp (Some (si_completed inp)) total_candidates processed (next_floor flr (sr_counts r))
           in case save_snapshot (si_save_last inp) s f of
                (Inl er, f) \<Rightarrow> \<lparr>so_result = Inl er, so_engine = sr_engine r, so_snapshot = f, so_last = None\<rparr>
              | (Inr _, f) \<Rightarrow>
                  \<lparr>so_result = (if si_cache_save inp then Inr () else Inl ''saving scrape cache''),
                   so_engine = sr_engine r, so_snapshot = f,
                   so_last = Some \<lparr>ls_eligible = ss_eligible (sr_stats r), ls_scrape_requests = ss_scrape_requests (sr_stats r),
                     ls_scrape_cached = ss_scrape_cached (sr_stats r), ls_processed = processed, ls_total = total_candidates\<rparr>\<rparr>)"

text \<open>The evaluation phase, once the catalog is reconciled and the stalled torrents are gone.\<close>

definition evaluation_phase :: "scan_inputs \<Rightarrow> nat \<Rightarrow> item list \<Rightarrow> string set \<Rightarrow> engine \<Rightarrow> snapshot json_file \<Rightarrow> scan_outcome" where
  "evaluation_phase inp flr items held_hashes e f =
     (let max_fittable = max_fittable_size e;
          total_candidates = count_pending items held_hashes (en_blocklist e) max_fittable
      in case save_snapshot (si_save_second inp) (scan_snapshot inp None total_candidates 0 flr) f of
           (Inl er, f) \<Rightarrow> \<lparr>so_result = Inl er, so_engine = e, so_snapshot = f, so_last = None\<rparr>
         | (Inr _, f) \<Rightarrow>
             (let stats = scan_stats_default\<lparr>ss_library_bytes := wrap64 (sum_list (map it_size_bytes items))\<rparr>;
                  (pending, prefiltered) = prefilter_items held_hashes (en_blocklist e) max_fittable (take (si_dispatched inp) items);
                  f = progress_saves inp total_candidates (floor_of f) (si_progress inp) f;
                  r = \<lparr>sr_batch = [], sr_acted = {}, sr_held = length (all_torrents (en_state e)), sr_counts = [],
                       sr_stats = stats, sr_engine = e\<rparr>
              in case scan_walk inp flr (si_order inp pending) r of
                   (Inl er, r) \<Rightarrow> \<lparr>so_result = Inl er, so_engine = sr_engine r, so_snapshot = f, so_last = None\<rparr>
                 | (Inr _, r) \<Rightarrow> finish_scan inp flr total_candidates (r\<lparr>sr_stats := add_into (sr_stats r) prefiltered\<rparr>) f))"

definition scan_once :: "scan_inputs \<Rightarrow> engine \<Rightarrow> snapshot json_file \<Rightarrow> scan_outcome" where
  "scan_once inp e f =
     (let flr = floor_of f
      in case save_snapshot (si_save_first inp) (scan_snapshot inp None 0 0 flr) f of
           (Inl er, f) \<Rightarrow> \<lparr>so_result = Inl er, so_engine = e, so_snapshot = f, so_last = None\<rparr>
         | (Inr _, f) \<Rightarrow>
             (case fst (catalog_load (sc_interval (cfg_scan (en_cfg e))) (si_cache_age inp) (si_cached inp)
                          (si_reply inp) (si_cached_later inp)) of
                Inl er \<Rightarrow> \<lparr>so_result = Inl er, so_engine = e, so_snapshot = f, so_last = None\<rparr>
              | Inr (items, _) \<Rightarrow>
                  (let items = si_shuffle inp items;
                       catalog = set (map it_info_hash items);
                       held_hashes = set (map t_info_hash (all_torrents (en_state e)));
                       e = reconcile_catalog (si_reconcile inp) catalog e;
                       e = refresh_held_seeder_counts (si_refresh inp) (si_refresh_stopped inp) (si_refresh_end inp) e
                   in if si_shutdown_mid inp
                      then \<lparr>so_result = Inl ''scan interrupted by shutdown'', so_engine = e, so_snapshot = f, so_last = None\<rparr>
                      else evaluation_phase inp flr items held_hashes (evict_stalled_torrents (si_evict inp) catalog e) f)))"

section \<open>The run loop\<close>

definition delay_until_next_scan :: "duration \<Rightarrow> instant \<Rightarrow> snapshot json_file \<Rightarrow> duration" where
  "delay_until_next_scan interval now f =
     (if interval = 0 then 0
      else case sn_scan_completed_at (case load_snapshot f of Inr s \<Rightarrow> s | Inl _ \<Rightarrow> snapshot_default) of
             Some fin \<Rightarrow> interval - (case to_std (now - fin) of Some elapsed \<Rightarrow> elapsed | None \<Rightarrow> 0)
           | None \<Rightarrow> 0)"

text \<open>The deadline the loop sets after a scan.\<close>

definition next_deadline :: "duration \<Rightarrow> bool \<Rightarrow> instant \<Rightarrow> snapshot json_file \<Rightarrow> instant" where
  "next_deadline interval completed_ok now f =
     now + int (max (if completed_ok then delay_until_next_scan interval now f else interval) (secs 60))"

text \<open>The two tickers: the period they fire with, if they do.\<close>

definition ticker_period :: "duration \<Rightarrow> duration option" where
  "ticker_period interval = (if interval = 0 then None else Some (max interval (secs 60)))"

text \<open>The completion report: the hashes logged now and those remembered.\<close>

fun new_completions :: "string list \<Rightarrow> string set \<Rightarrow> string list \<times> string set" where
  "new_completions [] seen = ([], seen)"
| "new_completions (h # hs) seen =
     (if h \<in> seen then new_completions hs seen
      else case new_completions hs (insert h seen) of (logged, seen) \<Rightarrow> (h # logged, seen))"

definition report_completions :: "string list \<Rightarrow> string set \<Rightarrow> string list \<times> string set" where
  "report_completions finished_now seen =
     (case new_completions finished_now seen of (logged, seen) \<Rightarrow> (logged, seen \<inter> set finished_now))"

text \<open>A scan in which everything succeeds and the catalog lists one torrent, for the examples.\<close>

definition sample_rss :: rss_item where
  "sample_rss = \<lparr>rss_title = ''n'', rss_category = [], rss_infohash = hex_encode (replicate 20 1), rss_guid = [],
     rss_link = [], rss_description = [], rss_size = 1000\<rparr>"

definition sample_inputs :: scan_inputs where
  "sample_inputs = \<lparr>si_started = 1, si_completed = 9, si_save_first = True, si_save_second = True, si_save_last = True,
     si_cache_age = None, si_cached = None, si_reply = HttpBody (Some [sample_rss]), si_cached_later = None,
     si_shuffle = (\<lambda>xs. xs), si_reconcile = sample_world, si_refresh = (\<lambda>_. sample_world),
     si_refresh_stopped = (\<lambda>_. False), si_refresh_end = sample_world, si_shutdown_mid = False, si_evict = sample_world,
     si_dispatched = 5, si_order = (\<lambda>xs. xs),
     si_eval = (\<lambda>_. sample_world\<lparr>w_now := 10 ^ 18, w_scrape := (\<lambda>_ _. Counts \<lparr>sw_seeders = 1, sw_leechers = 0, sw_completed = 0\<rparr>)\<rparr>), si_stopped = (\<lambda>_. False),
     si_act = (\<lambda>_ _. sample_world), si_powf = (\<lambda>_ _. Fin 1), si_progress = [], si_shutdown_end = False, si_cache_save = True\<rparr>"

definition empty_engine :: engine where
  "empty_engine = sample_engine\<lparr>en_state := \<lparr>st_torrents = [], st_quarantined = [], st_disk = None\<rparr>\<rparr>"

section \<open>What evaluation leaves alone\<close>

lemma eval_scrape_frame:
  "eval_scrape_swarm w ts h stats e = (r, stats', e') \<Longrightarrow> en_state e' = en_state e \<and> same_static e e'"
  by (auto simp: eval_scrape_swarm_def split: prod.splits)

lemma evaluate_frame:
  assumes "evaluate_one_item w it stats e = (r, stats', e')"
  shows "en_state e' = en_state e \<and> same_static e e'"
proof -
  obtain m e1 where f: "fetch_metadata w (it_info_hash it) e = (m, e1)" by fastforce
  have e1: "en_state e1 = en_state e" "same_static e e1"
    using fetch_metadata_frame(1) [of w "it_info_hash it" e] fetch_metadata_frame(2) [of e w "it_info_hash it" e] f by auto
  show ?thesis
  proof (cases m)
    case (Inl er)
    then show ?thesis using assms e1 by (simp add: evaluate_one_item_def f)
  next
    case (Inr md)
    obtain r2 st2 e2 where s: "eval_scrape_swarm w (md_trackers md) (md_info_hash md)
        (stats\<lparr>ss_metadata_fetched := wrap64 (Suc (ss_metadata_fetched stats))\<rparr>) e1 = (r2, st2, e2)" by (metis prod.exhaust)
    have "e' = e1 \<or> e' = e2"
      using assms by (auto simp: evaluate_one_item_def f Inr s Let_def split: if_splits sum.splits)
    then show ?thesis using e1 eval_scrape_frame [OF s] same_static_trans [OF e1(2)] by auto
  qed
qed

text \<open>What an eligible candidate is: its metadata was obtained, it is old enough, and it carries the
  metadata's hash, size and piece count.\<close>

definition vetted :: "scan_inputs \<Rightarrow> duration \<Rightarrow> item list \<Rightarrow> evaluated \<Rightarrow> bool" where
  "vetted inp delay its ev \<longleftrightarrow> (\<exists>it \<in> set its. \<exists>md. meta_of (si_eval inp (it_info_hash it)) (it_info_hash it) = Some md \<and>
     old_enough (w_now (si_eval inp (it_info_hash it))) delay md \<and> ev_info_hash ev = md_info_hash md \<and>
     ev_size_bytes ev = md_total_length md \<and> ev_piece_count ev = md_piece_count md \<and> ev_title ev = it_title it)"

lemma evaluate_vetted:
  assumes "evaluate_one_item (si_eval inp (it_info_hash it)) it stats e = (Some ev, stats', e')" "it \<in> set its"
  shows "vetted inp (sc_moderation_delay (cfg_scan (en_cfg e))) its ev"
proof -
  let ?w = "si_eval inp (it_info_hash it)"
  obtain m e1 where f: "fetch_metadata ?w (it_info_hash it) e = (m, e1)" by fastforce
  have c: "en_cfg e1 = en_cfg e" using fetch_metadata_frame(4) [of ?w "it_info_hash it" e] f by simp
  obtain md where md: "m = Inr md" using assms(1) f by (cases m) (auto simp: evaluate_one_item_def)
  have "meta_of ?w (it_info_hash it) = Some md"
    using f md by (auto simp: fetch_metadata_def meta_of_def split: option.splits)
  moreover have "old_enough (w_now ?w) (sc_moderation_delay (cfg_scan (en_cfg e))) md"
    "ev_info_hash ev = md_info_hash md \<and> ev_size_bytes ev = md_total_length md \<and> ev_piece_count ev = md_piece_count md \<and>
     ev_title ev = it_title it"
    using assms(1) by (auto simp: evaluate_one_item_def f md Let_def c split: if_splits prod.splits sum.splits)
  ultimately show ?thesis using assms(2) unfolding vetted_def by blast
qed

section \<open>A scan keeps every holdings invariant\<close>

context holdings_invariant
begin

lemma window:
  assumes ws: "\<And>k h. si_act inp k h \<in> worlds" and p: "P e0 (sr_held r) (sr_engine r)"
  shows "P e0 (sr_held (act_window inp flr r)) (sr_engine (act_window inp flr r))"
proof -
  obtain a n e where w: "act_on_windowed (si_act inp (length (sr_batch r))) (si_powf inp) (sr_batch r) (sr_acted r)
      (sr_held r) flr (sr_engine r) = (a, n, e)" by (metis prod.exhaust)
  have "P e0 n e"
  proof (rule act_on_windowed_invariant [where P = "P e0", OF _ p w])
    fix w' c m d m' d'
    assume "P e0 m d" "w' \<in> range (si_act inp (length (sr_batch r)))" "act_on_candidate w' c m flr d = (m', d')"
    then show "P e0 m' d'" using act ws by blast
  qed
  then show ?thesis by (simp add: act_window_def w)
qed

lemma consumed:
  "(\<And>k h. si_act inp k h \<in> worlds) \<Longrightarrow> P e0 (sr_held r) (sr_engine r) \<Longrightarrow> consume inp flr ev r = (res, r') \<Longrightarrow> P e0 (sr_held r') (sr_engine r')"
  using window [of inp e0 "r\<lparr>sr_counts := sr_counts r @ [ev_seeders ev], sr_batch := sr_batch r @ [ev]\<rparr>" flr]
  by (auto simp: consume_def Let_def split: if_splits)

lemma walked:
  assumes ws: "\<And>k h. si_act inp k h \<in> worlds"
  shows "scan_walk inp flr its r = (res, r') \<Longrightarrow> P e0 (sr_held r) (sr_engine r) \<Longrightarrow> P e0 (sr_held r') (sr_engine r')"
proof (induction its arbitrary: r)
  case (Cons it its)
  obtain o1 st e where ev: "evaluate_one_item (si_eval inp (it_info_hash it)) it (sr_stats r) (sr_engine r) = (o1, st, e)"
    by (metis prod.exhaust)
  let ?r = "r\<lparr>sr_stats := st, sr_engine := e\<rparr>"
  have p: "P e0 (sr_held ?r) (sr_engine ?r)" using evaluate_frame [OF ev] frame [OF Cons.prems(2)] by simp
  show ?case
  proof (cases o1)
    case None
    then show ?thesis using Cons.IH [of ?r] Cons.prems(1) p ev by simp
  next
    case (Some x)
    obtain res2 r2 where c: "consume inp flr x ?r = (res2, r2)" by fastforce
    show ?thesis using consumed [OF ws p c] Cons.IH [of r2] Cons.prems(1) ev Some c by (auto split: sum.splits)
  qed
qed simp

lemma finished: "(\<And>k h. si_act inp k h \<in> worlds) \<Longrightarrow> P e0 (sr_held r) (sr_engine r) \<Longrightarrow> \<exists>n. P e0 n (so_engine (finish_scan inp flr total_candidates r f))"
  using window [of inp e0 r flr] by (auto simp: finish_scan_def save_snapshot_def Let_def)

lemma evaluated_phase:
  assumes ws: "\<And>k h. si_act inp k h \<in> worlds" and "P e0 (length (all_torrents (en_state e))) e"
  shows "\<exists>n. P e0 n (so_engine (evaluation_phase inp flr items held_hashes e f))"
proof (cases "si_save_second inp")
  case True
  let ?p = "prefilter_items held_hashes (en_blocklist e) (max_fittable_size e) (take (si_dispatched inp) items)"
  let ?r = "\<lparr>sr_batch = [], sr_acted = {}, sr_held = length (all_torrents (en_state e)), sr_counts = [],
     sr_stats = scan_stats_default\<lparr>ss_library_bytes := wrap64 (sum_list (map it_size_bytes items))\<rparr>, sr_engine = e\<rparr>"
  obtain pend pre where p: "?p = (pend, pre)" by fastforce
  obtain res r where w: "scan_walk inp flr (si_order inp pend) ?r = (res, r)" by fastforce
  have r: "P e0 (sr_held r) (sr_engine r)" using walked [OF ws w] assms by simp
  then have r2: "P e0 (sr_held (r\<lparr>sr_stats := add_into (sr_stats r) pre\<rparr>)) (sr_engine (r\<lparr>sr_stats := add_into (sr_stats r) pre\<rparr>))" by simp
  show ?thesis using True p w r finished [OF ws r2]
    by (cases res) (auto simp: evaluation_phase_def save_snapshot_def Let_def)
next
  case False
  then show ?thesis using assms by (auto simp: evaluation_phase_def save_snapshot_def Let_def)
qed

lemma scanned:
  assumes ws: "\<And>k h. si_act inp k h \<in> worlds" and wf: "wf_state (en_state e)"
  shows "\<exists>n. P e n (so_engine (scan_once inp e f))"
proof -
  have start: "\<exists>n. P e n e" using started [OF wf shrinks_refl] by blast
  let ?load = "fst (catalog_load (sc_interval (cfg_scan (en_cfg e))) (si_cache_age inp) (si_cached inp)
      (si_reply inp) (si_cached_later inp))"
  show ?thesis
  proof (cases "si_save_first inp \<and> (\<exists>items fresh. ?load = Inr (items, fresh))")
    case True
    then obtain items fresh where l: "?load = Inr (items, fresh)" by blast
    let ?cat = "set (map it_info_hash (si_shuffle inp items))"
    let ?e1 = "reconcile_catalog (si_reconcile inp) ?cat e"
    let ?e2 = "refresh_held_seeder_counts (si_refresh inp) (si_refresh_stopped inp) (si_refresh_end inp) ?e1"
    let ?e3 = "evict_stalled_torrents (si_evict inp) ?cat ?e2"
    have s2: "shrinks e ?e2" by (rule shrinks_trans [OF reconcile_shrinks refresh_shrinks])
    then have s3: "shrinks e ?e3" by (rule shrinks_trans [OF _ evict_stalled_shrinks])
    show ?thesis
      using True l started [OF wf s2] evaluated_phase [OF ws started [OF wf s3]]
      by (auto simp: scan_once_def save_snapshot_def Let_def)
  next
    case False
    then show ?thesis
      using start by (auto simp: scan_once_def save_snapshot_def Let_def split: sum.splits)
  qed
qed

end

section \<open>The snapshot file\<close>

text \<open>The file of a scan in progress, and what a scan may leave behind.\<close>

definition running :: "scan_inputs \<Rightarrow> nat \<Rightarrow> snapshot json_file \<Rightarrow> bool" where
  "running inp flr f \<longleftrightarrow> (\<exists>m n. f = JsonFile (scan_snapshot inp None m n flr))"

definition outcome_ok :: "scan_inputs \<Rightarrow> nat \<Rightarrow> scan_outcome \<Rightarrow> bool" where
  "outcome_ok inp flr out \<longleftrightarrow>
     (so_result out = Inr () \<longrightarrow> (\<exists>s. so_snapshot out = JsonFile s \<and> sn_scan_completed_at s = Some (si_completed inp))) \<and>
     (\<exists>s. so_snapshot out = JsonFile s \<and> sn_scan_started_at s = Some (si_started inp) \<and>
        (case sn_scan_completed_at s of
           None \<Rightarrow> sn_seeder_floor s = flr \<and> so_last out = None
         | Some fin \<Rightarrow> fin = si_completed inp \<and> (sn_processed_candidates s = 0 \<longrightarrow> sn_seeder_floor s = flr)))"

lemma running_floor: "running inp flr f \<Longrightarrow> floor_of f = flr"
  by (auto simp: running_def floor_of_def load_snapshot_def scan_snapshot_def)

lemma progress_saves_running: "running inp flr f \<Longrightarrow> running inp flr (progress_saves inp m flr xs f)"
proof (induction inp m flr xs f rule: progress_saves.induct)
  case (2 inp m flr processed writable xs f)
  have "running inp flr (snd (save_snapshot writable (scan_snapshot inp None m processed flr) f))"
    using 2(2) by (auto simp: running_def save_snapshot_def)
  from 2(1) [OF this] show ?case by simp
qed simp

lemma running_outcome:
  "running inp flr f \<Longrightarrow> outcome_ok inp flr \<lparr>so_result = Inl er, so_engine = e, so_snapshot = f, so_last = None\<rparr>"
  by (auto simp: running_def outcome_ok_def scan_snapshot_def)

lemma act_window_batch: "sr_batch (act_window inp flr r) = sr_batch r" "sr_counts (act_window inp flr r) = sr_counts r"
  by (simp_all add: act_window_def split: prod.split)

lemma walk_counts:
  "scan_walk inp flr its r = (Inr u, r') \<Longrightarrow> length (sr_counts r) = length (sr_batch r) \<Longrightarrow> length (sr_counts r') = length (sr_batch r')"
proof (induction its arbitrary: r)
  case (Cons it its)
  have "length (sr_counts s') = length (sr_batch s')" if "consume inp flr ev s = (Inr v, s')" "length (sr_counts s) = length (sr_batch s)" for ev s s' v
    using that by (auto simp: consume_def Let_def act_window_batch split: if_splits)
  with Cons show ?case by (fastforce split: prod.splits option.splits sum.splits)
qed simp

lemma finish_outcome:
  assumes "running inp flr f" "length (sr_counts r) = length (sr_batch r)"
  shows "outcome_ok inp flr (finish_scan inp flr m r f)"
proof (cases "si_shutdown_end inp \<or> \<not> si_save_last inp")
  case True
  then show ?thesis using running_outcome [OF assms(1)] by (auto simp: finish_scan_def Let_def save_snapshot_def)
next
  case False
  then show ?thesis using assms(2)
    by (auto simp: finish_scan_def Let_def save_snapshot_def act_window_batch outcome_ok_def scan_snapshot_def next_floor_def)
qed

lemma evaluation_outcome:
  assumes "running inp flr f"
  shows "outcome_ok inp flr (evaluation_phase inp flr items held_hashes e f)"
proof (cases "si_save_second inp")
  case True
  define m where "m = count_pending items held_hashes (en_blocklist e) (max_fittable_size e)"
  have r0: "running inp flr (JsonFile (scan_snapshot inp None m 0 flr))" by (auto simp: running_def)
  let ?f = "progress_saves inp m flr (si_progress inp) (JsonFile (scan_snapshot inp None m 0 flr))"
  have r: "running inp flr ?f" by (rule progress_saves_running [OF r0])
  let ?r = "\<lparr>sr_batch = [], sr_acted = {}, sr_held = length (all_torrents (en_state e)), sr_counts = [],
     sr_stats = scan_stats_default\<lparr>ss_library_bytes := wrap64 (sum_list (map it_size_bytes items))\<rparr>, sr_engine = e\<rparr>"
  obtain pend pre where p: "prefilter_items held_hashes (en_blocklist e) (max_fittable_size e) (take (si_dispatched inp) items) = (pend, pre)"
    by fastforce
  obtain res s where w: "scan_walk inp flr (si_order inp pend) ?r = (res, s)" by fastforce
  have c: "length (sr_counts s) = length (sr_batch s)" if "res = Inr ()" using walk_counts [of inp flr _ ?r "()" s] w that by simp
  show ?thesis
  proof (cases res)
    case (Inl er)
    then show ?thesis using True p w running_outcome [OF r]
      by (simp add: evaluation_phase_def save_snapshot_def Let_def m_def [symmetric] running_floor [OF r0])
  next
    case (Inr u)
    then have "length (sr_counts (s\<lparr>sr_stats := add_into (sr_stats s) pre\<rparr>)) = length (sr_batch (s\<lparr>sr_stats := add_into (sr_stats s) pre\<rparr>))"
      using c by simp
    from finish_outcome [OF r this] show ?thesis using True p w Inr
      by (simp add: evaluation_phase_def save_snapshot_def Let_def m_def [symmetric] running_floor [OF r0])
  qed
next
  case False
  then show ?thesis using running_outcome [OF assms] by (simp add: evaluation_phase_def save_snapshot_def Let_def)
qed

section \<open>One action per candidate\<close>

lemma act_each_acted: "act_each ws flr cs acted n e = (acted', n', e') \<Longrightarrow> acted \<union> cand_info_hash ` set cs \<subseteq> acted'"
proof (induction cs arbitrary: acted n e)
  case (Cons c cs)
  obtain n1 e1 where a: "act_on_candidate (ws (cand_info_hash c)) c n flr e = (n1, e1)" by fastforce
  show ?case using Cons.IH [of acted n e] Cons.IH [of "insert (cand_info_hash c) acted" n1 e1] Cons.prems a
    by (auto simp: Let_def split: if_splits)
qed simp

lemma act_each_skips: "cand_info_hash ` set cs \<subseteq> acted \<Longrightarrow> act_each ws flr cs acted n e = (acted, n, e)"
  by (induction cs) auto

lemma new_completions_spec:
  "set (fst (new_completions hs seen)) = set hs - seen \<and> snd (new_completions hs seen) = seen \<union> set hs \<and>
   distinct (fst (new_completions hs seen))"
proof (induction hs arbitrary: seen)
  case (Cons h hs)
  show ?case using Cons.IH [of seen] Cons.IH [of "insert h seen"] by (auto simp: split_beta)
qed simp

section \<open>Completion\<close>

lemma walk_ok: "(\<And>n. \<not> si_stopped inp n) \<Longrightarrow> \<exists>r'. scan_walk inp flr its r = (Inr (), r')"
  by (induction its arbitrary: r) (fastforce simp: consume_def Let_def split: prod.split option.split)+

lemma evaluation_ok:
  assumes "\<And>n. \<not> si_stopped inp n" "si_save_second inp" "si_save_last inp" "si_cache_save inp" "\<not> si_shutdown_end inp"
  shows "so_result (evaluation_phase inp flr items held_hashes e f) = Inr ()"
proof -
  let ?r = "\<lparr>sr_batch = [], sr_acted = {}, sr_held = length (all_torrents (en_state e)), sr_counts = [],
     sr_stats = scan_stats_default\<lparr>ss_library_bytes := wrap64 (sum_list (map it_size_bytes items))\<rparr>, sr_engine = e\<rparr>"
  obtain pend pre where p: "prefilter_items held_hashes (en_blocklist e) (max_fittable_size e) (take (si_dispatched inp) items) = (pend, pre)"
    by fastforce
  obtain r' where "scan_walk inp flr (si_order inp pend) ?r = (Inr (), r')" using walk_ok [OF assms(1)] by blast
  then show ?thesis using assms(2-) p by (simp add: evaluation_phase_def finish_scan_def save_snapshot_def Let_def)
qed

section \<open>Who may enter\<close>

lemma holdings_step_new:
  "holdings_step w e c flr n s n' s' \<Longrightarrow> state_get s' h \<noteq> None \<Longrightarrow> state_get s h \<noteq> None \<or> h = cand_info_hash c"
  by (induction rule: holdings_step.induct)
    (auto simp: state_get_def hm_simps exchange_def hm.fold_del_get new_torrent_def split: if_splits)

lemma act_each_new:
  assumes "act_each ws flr cs acted n e = (acted', n', e')" "wf_state (en_state e)" "state_get (en_state e') h \<noteq> None"
  shows "state_get (en_state e) h \<noteq> None \<or> h \<in> cand_info_hash ` set cs"
  using assms
proof (induction cs arbitrary: acted n e)
  case (Cons c cs)
  obtain n1 e1 where a: "act_on_candidate (ws (cand_info_hash c)) c n flr e = (n1, e1)" by fastforce
  note st = act_on_candidate_step [OF Cons.prems(2) a]
  show ?case
  proof (cases "cand_info_hash c \<in> acted")
    case True
    then show ?thesis using Cons.IH [of acted n e] Cons.prems by auto
  next
    case False
    then have "state_get (en_state e1) h \<noteq> None \<or> h \<in> cand_info_hash ` set cs"
      using Cons.IH [of "insert (cand_info_hash c) acted" n1 e1] Cons.prems a st holdings_step_wf by (auto simp: Let_def)
    then show ?thesis using holdings_step_new st by fastforce
  qed
qed simp

lemma rank_set: "set (rank_candidates powf cs bias pl) \<subseteq> set cs"
  by (simp add: rank_candidates_def)

lemma act_window_new:
  assumes "wf_state (en_state (sr_engine r))" "state_get (en_state (sr_engine (act_window inp flr r))) h \<noteq> None"
  shows "state_get (en_state (sr_engine r)) h \<noteq> None \<or> h \<in> ev_info_hash ` set (sr_batch r)"
proof -
  let ?sel = "rank_candidates (si_powf inp) (map (candidate_of flr) (sr_batch r)) (en_size_bias (sr_engine r))
      (peer_limit_for_budget (en_ram_budget (sr_engine r)))"
  let ?cs = "take (min (en_max_torrents (sr_engine r)) (length ?sel)) ?sel"
  obtain a n e where w: "act_each (si_act inp (length (sr_batch r))) flr ?cs (sr_acted r) (sr_held r) (sr_engine r) = (a, n, e)"
    by (metis prod.exhaust)
  have "sr_engine (act_window inp flr r) = e" using w by (simp add: act_window_def act_on_windowed_def Let_def)
  then have "state_get (en_state (sr_engine r)) h \<noteq> None \<or> h \<in> cand_info_hash ` set ?cs"
    using act_each_new [OF w assms(1)] assms(2) by simp
  moreover have "set ?cs \<subseteq> set (map (candidate_of flr) (sr_batch r))" using set_take_subset rank_set by fast
  ultimately show ?thesis by (force simp: candidate_of_def)
qed

lemma act_window_wf:
  assumes "wf_state (en_state (sr_engine r))"
  shows "wf_state (en_state (sr_engine (act_window inp flr r))) \<and> same_static (sr_engine r) (sr_engine (act_window inp flr r))"
proof -
  obtain a n e where w: "act_on_windowed (si_act inp (length (sr_batch r))) (si_powf inp) (sr_batch r) (sr_acted r)
      (sr_held r) flr (sr_engine r) = (a, n, e)" by (metis prod.exhaust)
  have "wf_state (en_state e) \<and> same_static (sr_engine r) e"
  proof (rule act_on_windowed_invariant [where P = "\<lambda>_ e. wf_state (en_state e) \<and> same_static (sr_engine r) e", OF _ _ w])
    fix w' c m d m' d' assume d: "wf_state (en_state d) \<and> same_static (sr_engine r) d" "act_on_candidate w' c m flr d = (m', d')"
    from act_on_candidate_step [OF conjunct1 [OF d(1)] d(2)] show "wf_state (en_state d') \<and> same_static (sr_engine r) d'"
      using d(1) holdings_step_wf same_static_trans by blast
  qed (simp add: assms)
  then show ?thesis by (simp add: act_window_def w)
qed

definition entrants :: "scan_inputs \<Rightarrow> duration \<Rightarrow> item list \<Rightarrow> engine \<Rightarrow> scan_run \<Rightarrow> bool" where
  "entrants inp delay its e0 r \<longleftrightarrow> wf_state (en_state (sr_engine r)) \<and>
     sc_moderation_delay (cfg_scan (en_cfg (sr_engine r))) = delay \<and>
     (\<forall>ev \<in> set (sr_batch r). vetted inp delay its ev) \<and>
     (\<forall>h. state_get (en_state (sr_engine r)) h \<noteq> None \<longrightarrow>
        state_get (en_state e0) h \<noteq> None \<or> h \<in> ev_info_hash ` set (sr_batch r))"

lemma entrants_act: "entrants inp delay its e0 r \<Longrightarrow> entrants inp delay its e0 (act_window inp flr r)"
  using act_window_wf [of r inp flr] act_window_new [of r inp flr]
  by (fastforce simp: entrants_def act_window_batch same_static_def)

lemma entrants_push:
  "entrants inp delay its e0 r \<Longrightarrow> vetted inp delay its ev \<Longrightarrow>
   entrants inp delay its e0 (r\<lparr>sr_counts := cs, sr_batch := sr_batch r @ [ev]\<rparr>)"
  by (auto simp: entrants_def)

lemma entrants_counts: "entrants inp delay its e0 (r\<lparr>sr_counts := cs\<rparr>) = entrants inp delay its e0 r"
  by (simp add: entrants_def)

lemma entrants_consume:
  assumes "entrants inp delay its e0 r" "vetted inp delay its ev" "consume inp flr ev r = (res, r')"
  shows "entrants inp delay its e0 r'"
proof -
  let ?r = "r\<lparr>sr_counts := sr_counts r @ [ev_seeders ev], sr_batch := sr_batch r @ [ev]\<rparr>"
  have p: "entrants inp delay its e0 ?r" by (rule entrants_push [OF assms(1,2)])
  have "r' = r\<lparr>sr_counts := sr_counts r @ [ev_seeders ev]\<rparr> \<or> r' = ?r \<or> r' = act_window inp flr ?r"
    using assms(3) by (auto simp: consume_def Let_def split: if_splits)
  then show ?thesis using p entrants_act [OF p] assms(1) by (auto simp: entrants_counts)
qed

lemma entrants_walk:
  assumes "scan_walk inp flr its' r = (res, r')" "set its' \<subseteq> set its" "entrants inp delay its e0 r"
  shows "entrants inp delay its e0 r'"
  using assms
proof (induction its' arbitrary: r)
  case (Cons it its')
  obtain o1 st e where ev: "evaluate_one_item (si_eval inp (it_info_hash it)) it (sr_stats r) (sr_engine r) = (o1, st, e)"
    by (metis prod.exhaust)
  let ?r = "r\<lparr>sr_stats := st, sr_engine := e\<rparr>"
  have p: "entrants inp delay its e0 ?r"
    using Cons.prems(3) evaluate_frame [OF ev] by (auto simp: entrants_def same_static_def)
  show ?case
  proof (cases o1)
    case None
    then show ?thesis using Cons.IH [of ?r] Cons.prems p ev by simp
  next
    case (Some x)
    obtain res2 r2 where c: "consume inp flr x ?r = (res2, r2)" by fastforce
    have "vetted inp delay its x"
      using evaluate_vetted [OF ev [unfolded Some], of its] Cons.prems(2,3) by (simp add: entrants_def)
    from entrants_consume [OF p this c] show ?thesis using Cons.IH [of r2] Cons.prems ev Some c by (auto split: sum.splits)
  qed
qed simp

lemma entrants_finish:
  assumes "entrants inp delay its e0 r" "state_get (en_state (so_engine (finish_scan inp flr m r f))) h \<noteq> None"
    and "state_get (en_state e0) h = None"
  shows "\<exists>ev. vetted inp delay its ev \<and> ev_info_hash ev = h"
proof -
  have "so_engine (finish_scan inp flr m r f) = sr_engine r \<or> so_engine (finish_scan inp flr m r f) = sr_engine (act_window inp flr r)"
    by (simp add: finish_scan_def save_snapshot_def Let_def)
  then have "h \<in> ev_info_hash ` set (sr_batch r)"
    using assms entrants_act [OF assms(1), of flr] unfolding entrants_def act_window_batch by metis
  then show ?thesis using assms(1) by (auto simp: entrants_def)
qed

lemma evaluation_entrants:
  assumes "wf_state (en_state e)" "\<And>xs. set (si_order inp xs) \<subseteq> set xs"
    and "state_get (en_state (so_engine (evaluation_phase inp flr items held_hashes e f))) h \<noteq> None" "state_get (en_state e) h = None"
  shows "\<exists>ev. vetted inp (sc_moderation_delay (cfg_scan (en_cfg e)))
    (filter (\<lambda>it. prefilter_reason it held_hashes (en_blocklist e) (max_fittable_size e) = PPending) items) ev \<and> ev_info_hash ev = h"
proof -
  let ?its = "filter (\<lambda>it. prefilter_reason it held_hashes (en_blocklist e) (max_fittable_size e) = PPending) items"
  let ?delay = "sc_moderation_delay (cfg_scan (en_cfg e))"
  let ?r = "\<lparr>sr_batch = [], sr_acted = {}, sr_held = length (all_torrents (en_state e)), sr_counts = [],
     sr_stats = scan_stats_default\<lparr>ss_library_bytes := wrap64 (sum_list (map it_size_bytes items))\<rparr>, sr_engine = e\<rparr>"
  obtain pend pre where p: "prefilter_items held_hashes (en_blocklist e) (max_fittable_size e) (take (si_dispatched inp) items) = (pend, pre)"
    by fastforce
  have "set pend \<subseteq> set ?its" using p set_take_subset [of "si_dispatched inp" items] by (auto simp: prefilter_items_def Let_def)
  then have sub: "set (si_order inp pend) \<subseteq> set ?its" using assms(2) by blast
  obtain res r where w: "scan_walk inp flr (si_order inp pend) ?r = (res, r)" by fastforce
  have "entrants inp ?delay ?its e ?r" using assms(1) by (simp add: entrants_def)
  from entrants_walk [OF w sub this] have en: "entrants inp ?delay ?its e r" .
  then have en2: "entrants inp ?delay ?its e (r\<lparr>sr_stats := st\<rparr>)" for st by (simp add: entrants_def)
  have second: "si_save_second inp"
    using assms(3,4) by (auto simp: evaluation_phase_def save_snapshot_def Let_def split: if_splits)
  show ?thesis
  proof (cases res)
    case (Inl er)
    then have "so_engine (evaluation_phase inp flr items held_hashes e f) = sr_engine r"
      using second p w by (simp add: evaluation_phase_def save_snapshot_def Let_def)
    then have "state_get (en_state (sr_engine r)) h \<noteq> None" using assms(3) by simp
    then have "h \<in> ev_info_hash ` set (sr_batch r)" using assms(4) en unfolding entrants_def by blast
    then show ?thesis using en unfolding entrants_def by blast
  next
    case (Inr u)
    then show ?thesis
      using second p w assms(3,4) entrants_finish [OF en2] by (auto simp: evaluation_phase_def save_snapshot_def Let_def)
  qed
qed

section \<open>Properties\<close>

text \<open>A scan keeps the disk limits and the torrent cap: whatever the catalog, the trackers, the session and
  the file system answer, in whatever order the evaluations complete and wherever a shutdown interrupts it,
  the bytes reserved at every configured location stay within the limit (or within what they were), and so
  does the number of torrents.\<close>

theorem scan_keeps_disk_limits:
  assumes "disk_wf e"
  shows "(\<forall>loc \<in> set (cfg_storage (en_cfg e)).
      committed (en_state (so_engine (scan_once inp e f))) (sl_path loc) \<le>
        max (committed (en_state e) (sl_path loc)) (limit_bytes loc)) \<and>
    length (all_torrents (en_state (so_engine (scan_once inp e f)))) \<le>
      max (length (all_torrents (en_state e))) (en_max_torrents e) \<and>
    wf_state (en_state (so_engine (scan_once inp e f)))"
proof -
  have w: "wf_state (en_state e)" using assms by (simp add: disk_wf_def)
  from disk_hold.scanned [OF _ w, of inp f] count_hold.scanned [OF _ w, of inp f] assms show ?thesis
    by (auto simp: disk_holdings_def disk_inv_def count_inv_def)
qed

text \<open>A scan keeps the RAM budget, as long as the metadata of the candidates it acts on has pieces.\<close>

theorem scan_keeps_ram_budget:
  assumes "wf_state (en_state e)" "en_ram_budget e \<le> u64_max" "\<And>k h. metas_wf (si_act inp k h)"
  shows "ram_used (peer_limit_for_budget (en_ram_budget e)) (en_state (so_engine (scan_once inp e f))) \<le>
    max (ram_used (peer_limit_for_budget (en_ram_budget e)) (en_state e)) (en_ram_budget e)"
  using ram_hold.scanned [OF _ assms(1), of inp f] assms(2,3) by (simp add: ram_holdings_def ram_inv_def)

theorem scan_keeps_disk_limits_witness:
  "committed (en_state (so_engine (scan_once sample_inputs sample_engine NoFile))) ''/d'' \<le>
     max (committed (en_state sample_engine) ''/d'') 1000000"
proof -
  have "disk_wf sample_engine"
    by (auto simp: sample_engine_def disk_wf_def wf_state_def hm_wf_def committed_def weight_total_def all_torrents_def
        sample_torrent_def disk_weight_def limit_bytes_def PER_TORRENT_SIZE_BUFFER_def)
  from scan_keeps_disk_limits [OF this, of sample_inputs NoFile] show ?thesis
    by (simp add: sample_engine_def limit_bytes_def)
qed

theorem scan_keeps_ram_budget_witness:
  "ram_used (peer_limit_for_budget (en_ram_budget sample_engine)) (en_state (so_engine (scan_once sample_inputs sample_engine NoFile))) \<le>
    max (ram_used (peer_limit_for_budget (en_ram_budget sample_engine)) (en_state sample_engine)) (en_ram_budget sample_engine)"
proof (rule scan_keeps_ram_budget)
  show "wf_state (en_state sample_engine)" "en_ram_budget sample_engine \<le> u64_max"
    by (simp_all add: sample_engine_def wf_state_def hm_wf_def sample_torrent_def)
  show "metas_wf (si_act sample_inputs k h)" for k h
    by (simp add: metas_wf_def meta_of_def sample_inputs_def sample_world_def sample_meta_def)
qed


text \<open>C14. A scan completes: when the catalog loads, the files can be written and no shutdown arrives, the scan
  succeeds, however many of its candidates fail to evaluate or to be added.\<close>

theorem scan_completes:
  assumes "si_save_first inp" "si_save_second inp" "si_save_last inp" "si_cache_save inp"
    and "\<not> si_shutdown_mid inp" "\<not> si_shutdown_end inp" "\<And>n. \<not> si_stopped inp n"
    and "fst (catalog_load (sc_interval (cfg_scan (en_cfg e))) (si_cache_age inp) (si_cached inp) (si_reply inp)
      (si_cached_later inp)) = Inr (items, fresh)"
  shows "so_result (scan_once inp e f) = Inr ()"
  using assms evaluation_ok [OF assms(7,2,3,4,6)] by (simp add: scan_once_def save_snapshot_def Let_def)

text \<open>The example scan, step by step.\<close>

definition sample_item :: item where
  "sample_item = \<lparr>it_title = ''n'', it_category = [], it_info_hash = hex_encode (replicate 20 1), it_guid = [],
     it_link = [], it_description = [], it_size_bytes = 1000\<rparr>"

lemma sample_hash: "decode_hash (hex_encode (replicate 20 1)) = Some (replicate 20 1)"
  by (rule decode_hash_encode) (simp_all add: list_all_iff)

lemma sample_catalog:
  "fst (catalog_load d None None (HttpBody (Some [sample_rss])) None) = Inr ([sample_item], True)"
  by code_simp

lemma choose_only_location: "n \<le> f \<Longrightarrow> choose_location [f] [n] roll = Some 0"
  by (simp add: choose_location_def eligible_locations_def Let_def split: option.split)

lemma rare_candidate_fills:
  assumes "en_state e = en_state empty_engine" "same_static empty_engine e"
  shows "state_get (en_state (snd (act_on_candidate sample_world rare_candidate 0 0 e))) (hex_encode (replicate 20 1)) \<noteq> None"
proof -
  let ?c = "rare_candidate\<lparr>cand_piece_count := 3\<rparr>"
  have s: "en_max_torrents e = 5" "en_ram_budget e = 100000000" "cfg_storage (en_cfg e) = [\<lparr>sl_path = ''/d'', sl_limit = Bytes 1000000\<rparr>]"
    "all_torrents (en_state e) = []" "quarantine_get (en_state e) h = None" for h
    using assms by (simp_all add: same_static_def empty_engine_def sample_engine_def all_torrents_def quarantine_get_def)
  have f: "md_total_length sample_meta = 1000" "md_piece_count sample_meta = 3" "w_roll sample_world = Fin 0"
    "w_cached_meta sample_world h = Some sample_meta" "w_fd_headroom sample_world = None" "w_dev_free sample_world p = None" for h p
    by (simp_all add: sample_meta_def sample_world_def)
  have free: "free_bytes sample_world e \<lparr>sl_path = ''/d'', sl_limit = Bytes 1000000\<rparr> = 1000000"
    by (simp add: free_bytes_def s f bytes_used_def held_at_def limit_bytes_def rust_arith Let_def)
  have "fst (fst (try_add sample_world ?c sample_meta 1000 ''/d'' [] 0 (Fin 0) e))"
    using sample_hash
    by (simp add: try_add_def evaluate_swap_def add_candidate_def available_def meets_seed_margin_def
        rare_candidate_def candidate_of_def sample_evaluated_def selection_chance_def f_powi_0
        sample_world_def add_torrent_bytes_def Let_def)
  then obtain d e1 where a: "try_add sample_world ?c sample_meta 1000 ''/d'' [] 0 (Fin 0) e = ((True, d), e1)"
    by (metis prod.collapse)
  have "try_fill sample_world ?c sample_meta 0 0 (Fin 0) e = ((True, d), e1)"
    using a by (simp add: try_fill_def s f free choose_only_location size_needed_def PER_TORRENT_SIZE_BUFFER_def rust_arith
        ram_headroom_bytes_def peer_limit_for_budget_def torrent_ram_def ram_consts Let_def)
  then have "snd (act_on_candidate sample_world rare_candidate 0 0 e) = e1"
    by (simp add: act_on_candidate_def place_candidate_def quarantine_gate_def s fetch_metadata_def f fits_in_headroom_def Let_def)
  then show ?thesis
    using try_add_True(1) [OF a] by (simp add: state_get_def hm_simps rare_candidate_def candidate_of_def sample_evaluated_def)
qed

lemma sample_maintenance:
  "reconcile_catalog w cat empty_engine = empty_engine\<lparr>en_last_catalog := Some cat\<rparr>"
  "refresh_held_seeder_counts ws stopped w (empty_engine\<lparr>en_last_catalog := c\<rparr>) = empty_engine\<lparr>en_last_catalog := c\<rparr>"
  "evict_stalled_torrents w cat (empty_engine\<lparr>en_last_catalog := c\<rparr>) = empty_engine\<lparr>en_last_catalog := c\<rparr>"
  by (simp_all add: empty_engine_def sample_engine_def reconcile_catalog_def refresh_held_seeder_counts_def
      evict_stalled_torrents_def all_torrents_def catalog_collapsed_def remove_deleted_torrents_def confirmations_def
      apply_batch_def update_each_def Let_def)

lemma sample_evaluates:
  assumes "en_swarm e = \<lparr>ca_ttl = 0, ca_entries = []\<rparr>" "en_cfg e = en_cfg empty_engine"
  shows "\<exists>st' e'. evaluate_one_item (si_eval sample_inputs h) sample_item st e = (Some (sample_evaluated\<lparr>ev_seeders := 1\<rparr>), st', e')"
proof -
  have "old_enough (10 ^ 18) (sc_moderation_delay (cfg_scan (en_cfg e))) sample_meta"
    by (simp add: assms(2) old_enough_def sample_meta_def empty_engine_def sample_engine_def sample_config_def config_default_def
        scan_config_default_def DEFAULT_MODERATION_DELAY_def secs_def to_std_def)
  moreover have "http_tracker ''https://academictorrents.com/announce.php''" by code_simp
  ultimately show ?thesis
    by (simp add: evaluate_one_item_def fetch_metadata_def sample_inputs_def sample_world_def eval_scrape_swarm_def
        scrape_swarm_cached_def cache_get_def assms(1) sample_item_def sample_evaluated_def sample_meta_def Let_def)
qed

lemma sample_scan_admits:
  "state_get (en_state (so_engine (scan_once sample_inputs empty_engine NoFile))) (hex_encode (replicate 20 1)) \<noteq> None"
proof -
  let ?ev = "sample_evaluated\<lparr>ev_seeders := 1\<rparr>" and ?e = "empty_engine\<lparr>en_last_catalog := Some {it_info_hash sample_item}\<rparr>"
  obtain pre where pf: "prefilter_items {} (en_blocklist empty_engine) (max_fittable_size ?e) [sample_item] = ([sample_item], pre)"
    by (simp add: prefilter_items_def prefilter_reason_def Let_def empty_engine_def sample_engine_def
        max_fittable_size_def limit_bytes_def sample_item_def blocks_def blocklist_new_def)
  have inp: "si_save_first sample_inputs" "si_save_second sample_inputs" "si_save_last sample_inputs"
    "\<not> si_shutdown_mid sample_inputs" "\<not> si_shutdown_end sample_inputs" "\<not> si_stopped sample_inputs n"
    "si_order sample_inputs = (\<lambda>xs. xs)" "si_shuffle sample_inputs = (\<lambda>xs. xs)" "si_dispatched sample_inputs = 5"
    "si_act sample_inputs = (\<lambda>_ _. sample_world)" "si_cache_age sample_inputs = None" "si_cached sample_inputs = None"
    "si_reply sample_inputs = HttpBody (Some [sample_rss])" "si_cached_later sample_inputs = None"
    "si_progress sample_inputs = []" for n
    by (simp_all add: sample_inputs_def)
  obtain st e4 where ev: "evaluate_one_item (si_eval sample_inputs (it_info_hash sample_item)) sample_item
      (scan_stats_default\<lparr>ss_library_bytes := wrap64 (it_size_bytes sample_item)\<rparr>) ?e = (Some ?ev, st, e4)"
    using sample_evaluates [of ?e] by (fastforce simp: empty_engine_def sample_engine_def)
  have fr: "en_state e4 = en_state empty_engine" "same_static empty_engine e4" using evaluate_frame [OF ev] by (simp_all add: same_static_def)
  obtain n e5 where a: "act_on_candidate sample_world rare_candidate 0 0 e4 = (n, e5)" by fastforce
  have win: "act_on_windowed (\<lambda>_. sample_world) powf [?ev] {} 0 0 e4 = ({cand_info_hash rare_candidate}, n, e5)" for powf
    using a fr(2) by (simp add: act_on_windowed_def rank_candidates_def available_def rare_candidate_def candidate_of_def
        sample_evaluated_def Let_def same_static_def empty_engine_def sample_engine_def)
  have none: "all_torrents (en_state empty_engine) = []" "floor_of NoFile = 0" "floor_of (JsonFile (scan_snapshot inp x y z 0)) = 0" for inp x y z
    by (simp_all add: empty_engine_def all_torrents_def floor_of_def load_snapshot_def snapshot_default_def scan_snapshot_def)
  have "so_engine (scan_once sample_inputs empty_engine NoFile) = e5"
    using ev win
    by (simp add: scan_once_def evaluation_phase_def finish_scan_def save_snapshot_def inp none sample_maintenance
        sample_catalog pf consume_def act_window_def EVALUATE_CONCURRENCY_def Let_def)
  then show ?thesis using rare_candidate_fills [OF fr] a by simp
qed

text \<open>C4. Only vetted candidates enter: a torrent held after a scan that was not held before belongs to a
  catalog item that is not held, not blocked by a keyword and not larger than the largest location; its
  metadata was obtained and its creation date is at least the moderation delay old.\<close>

theorem scan_admits_only_vetted:
  assumes "wf_state (en_state e)" "\<And>xs. set (si_order inp xs) \<subseteq> set xs" "\<And>xs. set (si_shuffle inp xs) \<subseteq> set xs"
    and "fst (catalog_load (sc_interval (cfg_scan (en_cfg e))) (si_cache_age inp) (si_cached inp) (si_reply inp)
      (si_cached_later inp)) = Inr (items, fresh)"
    and "state_get (en_state e) h = None" "state_get (en_state (so_engine (scan_once inp e f))) h \<noteq> None"
  shows "\<exists>ev. ev_info_hash ev = h \<and> vetted inp (sc_moderation_delay (cfg_scan (en_cfg e)))
    (filter (\<lambda>it. prefilter_reason it (set (map t_info_hash (all_torrents (en_state e)))) (en_blocklist e) (max_fittable_size e) = PPending) items) ev"
proof -
  let ?held = "set (map t_info_hash (all_torrents (en_state e)))"
  let ?items = "si_shuffle inp items"
  let ?cat = "set (map it_info_hash ?items)"
  let ?e1 = "reconcile_catalog (si_reconcile inp) ?cat e"
  let ?e2 = "refresh_held_seeder_counts (si_refresh inp) (si_refresh_stopped inp) (si_refresh_end inp) ?e1"
  let ?e3 = "evict_stalled_torrents (si_evict inp) ?cat ?e2"
  have s2: "shrinks e ?e2" by (rule shrinks_trans [OF reconcile_shrinks refresh_shrinks])
  then have s3: "shrinks e ?e3" by (rule shrinks_trans [OF _ evict_stalled_shrinks])
  have no: "state_get (en_state ?e2) h = None" "state_get (en_state ?e3) h = None"
    using s2 s3 assms(5) unfolding shrinks_def by (metis option.exhaust option.distinct(1))+
  have st: "en_cfg ?e3 = en_cfg e" "en_blocklist ?e3 = en_blocklist e" "max_fittable_size ?e3 = max_fittable_size e"
    using s3 by (simp_all add: shrinks_def same_static_def max_fittable_size_def)
  obtain f' where "state_get (en_state (so_engine (evaluation_phase inp (floor_of f) ?items ?held ?e3 f'))) h \<noteq> None"
    using assms(4-6) no(1) by (auto simp: scan_once_def save_snapshot_def Let_def split: if_splits)
  from evaluation_entrants [OF _ assms(2) this no(2)] obtain ev where
    "ev_info_hash ev = h" "vetted inp (sc_moderation_delay (cfg_scan (en_cfg e)))
      (filter (\<lambda>it. prefilter_reason it ?held (en_blocklist e) (max_fittable_size e) = PPending) ?items) ev"
    using s3 assms(1) unfolding st by (auto simp: shrinks_def)
  then show ?thesis using assms(3) [of items] unfolding vetted_def by fastforce
qed

theorem scan_admits_only_vetted_witness:
  "\<exists>ev. ev_info_hash ev = hex_encode (replicate 20 1) \<and> vetted sample_inputs (sc_moderation_delay (cfg_scan (en_cfg empty_engine)))
    (filter (\<lambda>it. prefilter_reason it (set (map t_info_hash (all_torrents (en_state empty_engine)))) (en_blocklist empty_engine)
      (max_fittable_size empty_engine) = PPending) [sample_item]) ev"
proof (rule scan_admits_only_vetted)
  show "wf_state (en_state empty_engine)" "state_get (en_state empty_engine) (hex_encode (replicate 20 1)) = None"
    by (simp_all add: empty_engine_def wf_state_def hm_wf_def state_get_def)
  show "state_get (en_state (so_engine (scan_once sample_inputs empty_engine NoFile))) (hex_encode (replicate 20 1)) \<noteq> None"
    by (rule sample_scan_admits)
qed (simp_all add: sample_inputs_def sample_catalog)

theorem scan_completes_witness:
  "so_result (scan_once sample_inputs sample_engine NoFile) = Inr ()"
  by (rule scan_completes) (simp_all add: sample_inputs_def sample_catalog)


text \<open>Within one scan a candidate gets one action: acting again on the same batch, with the record of the
  first time, changes nothing, whatever the world now answers (there is no second roll).\<close>

theorem window_acts_once:
  assumes "wf_state (en_state e)" "act_on_windowed ws powf evs acted n flr e = (acted', n', e')"
  shows "act_on_windowed ws' powf evs acted' n' flr e' = (acted', n', e')"
proof -
  have st: "wf_state (en_state e') \<and> same_static e e'"
  proof (rule act_on_windowed_invariant [where P = "\<lambda>_ d. wf_state (en_state d) \<and> same_static e d", OF _ _ assms(2)])
    fix w c m d m' d' assume d: "wf_state (en_state d) \<and> same_static e d" "act_on_candidate w c m flr d = (m', d')"
    from act_on_candidate_step [OF conjunct1 [OF d(1)] d(2)] show "wf_state (en_state d') \<and> same_static e d'"
      using d(1) holdings_step_wf same_static_trans by blast
  qed (simp add: assms(1))
  let ?sel = "rank_candidates powf (map (candidate_of flr) evs) (en_size_bias e) (peer_limit_for_budget (en_ram_budget e))"
  let ?cs = "take (min (en_max_torrents e) (length ?sel)) ?sel"
  have "cand_info_hash ` set ?cs \<subseteq> acted'" using act_each_acted assms(2) by (simp add: act_on_windowed_def Let_def)
  then show ?thesis using st act_each_skips by (simp add: act_on_windowed_def Let_def same_static_def)
qed

theorem window_acts_once_witness:
  "\<exists>acted n e. act_on_windowed (\<lambda>_. sample_world) (\<lambda>_ _. Fin 1) [sample_evaluated] {} 1 0 sample_engine = (acted, n, e) \<and>
     act_on_windowed (\<lambda>_. late_world) (\<lambda>_ _. Fin 1) [sample_evaluated] acted n 0 e = (acted, n, e)"
proof -
  obtain acted n e where r: "act_on_windowed (\<lambda>_. sample_world) (\<lambda>_ _. Fin 1) [sample_evaluated] {} 1 0 sample_engine = (acted, n, e)"
    by (metis prod.exhaust)
  have "wf_state (en_state sample_engine)" by (simp add: sample_engine_def wf_state_def hm_wf_def sample_torrent_def)
  from window_acts_once [OF this r, of "\<lambda>_. late_world"] r show ?thesis by blast
qed

text \<open>The run loop cannot spin: the next scan is at least 60 seconds away, at least a whole interval away after
  a failed scan, and after a completed one at the completion plus the interval (or the 60 seconds).\<close>

theorem scan_pacing:
  "now + int (secs 60) \<le> next_deadline interval completed_ok now f \<and>
   now + int interval \<le> next_deadline interval False now f \<and>
   next_deadline interval True now f \<le> now + int (max interval (secs 60)) \<and>
   next_deadline interval True (fin + int elapsed) (JsonFile (s\<lparr>sn_scan_completed_at := Some fin\<rparr>)) =
     max (fin + int interval) (fin + int elapsed + int (secs 60))"
  by (cases "interval = 0")
    (auto simp: next_deadline_def delay_until_next_scan_def load_snapshot_def secs_def to_std_def snapshot_default_def
      split: json_file.splits option.splits)

text \<open>Each completed download is reported once: a hash reported in one pass is not reported in the next one
  while it stays complete, everything newly complete is reported, and a hash that left is forgotten.\<close>

theorem completions_reported_once:
  "set (fst (report_completions fin2 (snd (report_completions fin1 seen)))) = set fin2 - set fin1 \<and>
   distinct (fst (report_completions fin2 (snd (report_completions fin1 seen)))) \<and>
   snd (report_completions fin1 seen) = set fin1"
  by (auto simp: report_completions_def new_completions_spec split_beta)

end
