(* ===== verification/Dispatch.thy ===== *)
theory Dispatch
  imports Scan "HOL-Library.Multiset"
begin

text \<open>
  The concurrency of an evaluation walk, \<open>run_evaluation\<close> of \<open>src/engine/scan.rs\<close>: chunk tasks that hand their items
  to workers under a semaphore, workers that send what they find over a channel, the consume loop that receives
  it, and a shutdown at any moment.  \<open>Scan\<close> takes the order in which the evaluations complete from outside; here
  that order comes from the interleaving of the tasks, and the lemmas show what every interleaving has in common.

  \<open>evals it r\<close> says that a worker may find \<open>r\<close> for \<open>it\<close>.  A task runs by itself between two accesses to what is
  shared, so these accesses are the steps.
\<close>

section \<open>Definitions\<close>

text \<open>\<open>slice::chunks\<close>.\<close>

fun chunks :: "nat \<Rightarrow> 'a list \<Rightarrow> 'a list list" where
  "chunks n [] = []"
| "chunks 0 xs = [xs]"
| "chunks (Suc n) xs = take (Suc n) xs # chunks (Suc n) (drop (Suc n) xs)"

text \<open>The chunks not dispatched yet, what is left of each dispatched one, the items of the workers that hold a permit,
  the completed evaluations in their order, the channel, what the consume loop received, and the shutdown flag.\<close>

record dispatch =
  dp_todo :: "item list list"
  dp_tasks :: "item list list"
  dp_running :: "item list"
  dp_done :: "(item \<times> evaluated option) list"
  dp_channel :: "evaluated list"
  dp_got :: "evaluated list"
  dp_shutdown :: bool

definition dispatch_start :: "item list \<Rightarrow> dispatch" where
  "dispatch_start pending = \<lparr>dp_todo = chunks (EVALUATE_CONCURRENCY * 4) pending, dp_tasks = [], dp_running = [], dp_done = [],
     dp_channel = [], dp_got = [], dp_shutdown = False\<rparr>"

datatype dispatch_event = Dispatched | Abandoned | HandedOut item | Evaluated item "evaluated option" | Received evaluated | ShutdownCame

inductive dispatch_step :: "(item \<Rightarrow> evaluated option \<Rightarrow> bool) \<Rightarrow> dispatch_event \<Rightarrow> dispatch \<Rightarrow> dispatch \<Rightarrow> bool" for evals where
  dispatched: "dp_todo d = c # cs \<Longrightarrow> \<not> dp_shutdown d \<Longrightarrow>
    dispatch_step evals Dispatched d (d\<lparr>dp_todo := cs, dp_tasks := dp_tasks d @ [c]\<rparr>)"
| abandoned: "dp_todo d \<noteq> [] \<Longrightarrow> dp_shutdown d \<Longrightarrow> dispatch_step evals Abandoned d (d\<lparr>dp_todo := []\<rparr>)"
| handed_out: "i < length (dp_tasks d) \<Longrightarrow> dp_tasks d ! i = it # its \<Longrightarrow> length (dp_running d) < EVALUATE_CONCURRENCY \<Longrightarrow>
    dispatch_step evals (HandedOut it) d (d\<lparr>dp_tasks := (dp_tasks d)[i := its], dp_running := it # dp_running d\<rparr>)"
| evaluated: "it \<in> set (dp_running d) \<Longrightarrow> evals it r \<Longrightarrow>
    dispatch_step evals (Evaluated it r) d (d\<lparr>dp_running := remove1 it (dp_running d), dp_done := dp_done d @ [(it, r)],
      dp_channel := dp_channel d @ (case r of None \<Rightarrow> [] | Some ev \<Rightarrow> [ev])\<rparr>)"
| received: "dp_channel d = ev # evs \<Longrightarrow>
    dispatch_step evals (Received ev) d (d\<lparr>dp_channel := evs, dp_got := dp_got d @ [ev]\<rparr>)"
| shutdown_came: "\<not> dp_shutdown d \<Longrightarrow> dispatch_step evals ShutdownCame d (d\<lparr>dp_shutdown := True\<rparr>)"

inductive dispatch_run :: "(item \<Rightarrow> evaluated option \<Rightarrow> bool) \<Rightarrow> dispatch \<Rightarrow> dispatch_event list \<Rightarrow> dispatch \<Rightarrow> bool" for evals where
  run_nil: "dispatch_run evals d [] d"
| run_snoc: "dispatch_run evals d es d' \<Longrightarrow> dispatch_step evals e d' d'' \<Longrightarrow> dispatch_run evals d (es @ [e]) d''"

section \<open>Lemmas\<close>

lemma concat_chunks [simp]: "concat (chunks n xs) = xs"
  by (induction n xs rule: chunks.induct) (auto simp del: take_Suc_Cons drop_Suc_Cons)

text \<open>The items that are still to be evaluated.\<close>

definition waiting :: "dispatch \<Rightarrow> item multiset" where
  "waiting d = mset (concat (dp_todo d)) + mset (concat (dp_tasks d)) + mset (dp_running d)"

lemma mset_concat_update:
  assumes "i < length xss" "xss ! i = x # xs"
  shows "mset (concat (xss[i := xs])) + {#x#} = mset (concat xss)"
  using assms
proof (induction xss arbitrary: i)
  case (Cons ys xss)
  then show ?case by (cases i) auto
qed simp

lemma map_filter_append: "List.map_filter f (xs @ ys) = List.map_filter f xs @ List.map_filter f ys"
  by (induction xs) (auto simp: List.map_filter_simps split: option.splits)

text \<open>What every interleaving keeps: at most one worker for each permit, every item in one place, the results in the order
  of their completion.\<close>

definition accounted :: "dispatch \<Rightarrow> item multiset" where
  "accounted d = waiting d + mset (map fst (dp_done d))"

definition dispatch_inv :: "(item \<Rightarrow> evaluated option \<Rightarrow> bool) \<Rightarrow> item list \<Rightarrow> dispatch \<Rightarrow> bool" where
  "dispatch_inv evals pending d \<longleftrightarrow>
     length (dp_running d) \<le> EVALUATE_CONCURRENCY \<and>
     accounted d \<subseteq># mset pending \<and> (\<not> dp_shutdown d \<longrightarrow> accounted d = mset pending) \<and>
     dp_got d @ dp_channel d = List.map_filter snd (dp_done d) \<and>
     (\<forall>(it, r) \<in> set (dp_done d). evals it r)"

lemma dispatch_start_inv: "dispatch_inv evals pending (dispatch_start pending)"
  by (simp add: dispatch_inv_def dispatch_start_def waiting_def accounted_def List.map_filter_simps)

lemma dispatch_step_accounted:
  assumes "dispatch_step evals e d d'"
  shows "accounted d' \<subseteq># accounted d \<and> (\<not> dp_shutdown d \<longrightarrow> accounted d' = accounted d)"
  using assms
proof (cases rule: dispatch_step.cases)
  case (handed_out i it its)
  then show ?thesis using mset_concat_update [OF handed_out(3,4)] by (simp add: accounted_def waiting_def)
qed (simp_all add: accounted_def waiting_def)

lemma dispatch_step_results:
  assumes "dispatch_step evals e d d'" "dp_got d @ dp_channel d = List.map_filter snd (dp_done d)" "\<forall>(it, r) \<in> set (dp_done d). evals it r"
  shows "dp_got d' @ dp_channel d' = List.map_filter snd (dp_done d') \<and> (\<forall>(it, r) \<in> set (dp_done d'). evals it r)"
  using assms
proof (cases rule: dispatch_step.cases)
  case (evaluated it r)
  then show ?thesis
    using assms(2,3) by (cases r) (simp_all add: map_filter_append List.map_filter_simps flip: append_assoc)
qed auto

lemma dispatch_step_inv:
  assumes "dispatch_step evals e d d'" "dispatch_inv evals pending d"
  shows "dispatch_inv evals pending d'"
proof -
  have "length (dp_running d') \<le> EVALUATE_CONCURRENCY" "dp_shutdown d \<longrightarrow> dp_shutdown d'"
    using assms by (auto simp: dispatch_inv_def length_remove1 elim!: dispatch_step.cases)
  then show ?thesis
    using dispatch_step_accounted [OF assms(1)] dispatch_step_results [OF assms(1)] assms(2)
    by (auto simp: dispatch_inv_def intro: subset_mset.order_trans)
qed

lemma dispatch_run_inv: "dispatch_run evals (dispatch_start pending) es d \<Longrightarrow> dispatch_inv evals pending d"
proof (induction "dispatch_start pending" es d rule: dispatch_run.induct)
  case run_nil
  show ?case by (rule dispatch_start_inv)
next
  case (run_snoc es d' e d'')
  then show ?case using dispatch_step_inv by blast
qed

text \<open>The steps that are left: three for an item (hand out, evaluate, receive), one for a chunk, one for the shutdown.\<close>

definition work :: "dispatch \<Rightarrow> nat" where
  "work d = length (dp_todo d) + 3 * length (concat (dp_todo d)) + 3 * length (concat (dp_tasks d)) + 2 * length (dp_running d) +
     length (dp_channel d) + (if dp_shutdown d then 0 else 1)"

lemma length_concat_update:
  "i < length xss \<Longrightarrow> xss ! i = x # xs \<Longrightarrow> Suc (length (concat (xss[i := xs]))) = length (concat xss)"
  using arg_cong [OF mset_concat_update, of i xss x xs size] by simp

lemma dispatch_step_work:
  assumes "dispatch_step evals e d d'"
  shows "work d' < work d"
  using assms
proof (cases rule: dispatch_step.cases)
  case (handed_out i it its)
  then show ?thesis using length_concat_update [OF handed_out(3,4)] by (simp add: work_def)
next
  case (evaluated it r)
  then obtain n where "length (dp_running d) = Suc n" by (cases "dp_running d") auto
  then show ?thesis using evaluated by (auto simp: work_def length_remove1 split: option.split)
qed (auto simp: work_def)

lemma dispatch_run_work: "dispatch_run evals d es d' \<Longrightarrow> length es + work d' \<le> work d"
  by (induction rule: dispatch_run.induct) (auto dest: dispatch_step_work)

lemma length_chunks: "0 < n \<Longrightarrow> length (chunks n xs) \<le> length xs"
proof (induction n xs rule: chunks.induct)
  case (3 n v va)
  then have "length (chunks (Suc n) (drop (Suc n) (v # va))) \<le> length (drop (Suc n) (v # va))" by simp
  then show ?case by simp
qed auto

text \<open>While something waits, a task can go on: no order of events leads into a deadlock.\<close>

lemma dispatch_progress:
  assumes "\<forall>it. \<exists>r. evals it r" "waiting d \<noteq> {#} \<or> dp_channel d \<noteq> []"
  shows "\<exists>e d'. e \<noteq> ShutdownCame \<and> dispatch_step evals e d d'"
proof -
  consider "dp_todo d \<noteq> []" | "dp_running d \<noteq> []" | "concat (dp_tasks d) \<noteq> []" "dp_running d = []" | "dp_channel d \<noteq> []"
    using assms(2) by (cases "dp_todo d = []") (auto simp: waiting_def)
  then have "\<exists>e. e \<noteq> ShutdownCame \<and> Ex (dispatch_step evals e d)"
  proof cases
    case 1
    then obtain c cs where "dp_todo d = c # cs" by (cases "dp_todo d") auto
    then have "Ex (dispatch_step evals (if dp_shutdown d then Abandoned else Dispatched) d)"
      using dispatch_step.dispatched [of d c cs evals] dispatch_step.abandoned [of d evals] by auto
    then show ?thesis by (rule_tac exI [of _ "if dp_shutdown d then Abandoned else Dispatched"]) simp
  next
    case 2
    then obtain it where i: "it \<in> set (dp_running d)" by (cases "dp_running d") auto
    obtain r where "evals it r" using assms(1) by blast
    from dispatch_step.evaluated [of it d evals r, OF i this] show ?thesis by (intro exI [of _ "Evaluated it r"]) auto
  next
    case 3
    then obtain its where "its \<in> set (dp_tasks d)" "its \<noteq> []" by auto
    then obtain i it rest where "i < length (dp_tasks d)" "dp_tasks d ! i = it # rest" by (metis in_set_conv_nth list.exhaust)
    from dispatch_step.handed_out [where d = d and evals = evals, OF this] show ?thesis
      using 3(2) by (intro exI [of _ "HandedOut it"]) (auto simp: EVALUATE_CONCURRENCY_def)
  next
    case 4
    then obtain ev evs where "dp_channel d = ev # evs" by (cases "dp_channel d") auto
    from dispatch_step.received [where d = d and evals = evals, OF this] show ?thesis by (intro exI [of _ "Received ev"]) auto
  qed
  then show ?thesis by blast
qed

section \<open>Properties\<close>

text \<open>C15. An evaluation walk neither loses nor repeats a candidate, whatever the interleaving of its tasks: at any moment at
  most sixteen evaluations run, each pending candidate was evaluated at most once, and the consume loop has received,
  with what is still queued, exactly the results found, in the order of their completion.  When only a shutdown could
  still happen, and none did, every candidate was evaluated once and every result received: the walk is the one of the
  scan model with the completion order as its order.\<close>

theorem every_interleaving_is_a_walk:
  assumes "\<forall>it. \<exists>r. evals it r" "dispatch_run evals (dispatch_start pending) es d"
  shows "length (dp_running d) \<le> EVALUATE_CONCURRENCY \<and> mset (map fst (dp_done d)) \<subseteq># mset pending \<and>
    (\<forall>(it, r) \<in> set (dp_done d). evals it r) \<and> dp_got d @ dp_channel d = List.map_filter snd (dp_done d) \<and>
    ((\<forall>e d'. dispatch_step evals e d d' \<longrightarrow> e = ShutdownCame) \<and> \<not> dp_shutdown d \<longrightarrow>
      mset (map fst (dp_done d)) = mset pending \<and> dp_got d = List.map_filter snd (dp_done d))"
proof -
  have inv: "dispatch_inv evals pending d" by (rule dispatch_run_inv [OF assms(2)])
  have "mset (map fst (dp_done d)) \<subseteq># accounted d" by (simp add: accounted_def)
  then have "mset (map fst (dp_done d)) \<subseteq># mset pending"
    using inv by (auto simp: dispatch_inv_def intro: subset_mset.order_trans)
  moreover have "waiting d = {#} \<and> dp_channel d = []" if "\<forall>e d'. dispatch_step evals e d d' \<longrightarrow> e = ShutdownCame"
    using dispatch_progress [OF assms(1), of d] that by blast
  ultimately show ?thesis using inv by (auto simp: dispatch_inv_def accounted_def)
qed

text \<open>C16. An evaluation walk ends: from any number of candidates the tasks take at most four steps for each candidate and
  one for a shutdown, in any order, and as long as a candidate is not evaluated or a result not received some task can
  take one.\<close>

theorem evaluation_ends:
  assumes "\<forall>it. \<exists>r. evals it r" "dispatch_run evals (dispatch_start pending) es d"
  shows "length es \<le> 4 * length pending + 1 \<and>
    (waiting d \<noteq> {#} \<or> dp_channel d \<noteq> [] \<longrightarrow> (\<exists>e d'. e \<noteq> ShutdownCame \<and> dispatch_step evals e d d'))"
proof -
  have "work (dispatch_start pending) \<le> 4 * length pending + 1"
    using length_chunks [of "EVALUATE_CONCURRENCY * 4" pending] by (simp add: work_def dispatch_start_def EVALUATE_CONCURRENCY_def)
  then show ?thesis using dispatch_run_work [OF assms(2)] dispatch_progress [OF assms(1), of d] by auto
qed

section \<open>Examples\<close>

text \<open>Two candidates, of which the second completes first and finds nothing.\<close>

definition item_a :: item where "item_a = sample_item\<lparr>it_info_hash := ''aa''\<rparr>"

definition item_b :: item where "item_b = sample_item\<lparr>it_info_hash := ''bb''\<rparr>"

definition finds :: "item \<Rightarrow> evaluated option \<Rightarrow> bool" where
  "finds it r \<longleftrightarrow> r = (if it = item_a then Some sample_evaluated else None)"

definition sample_end :: dispatch where
  "sample_end = \<lparr>dp_todo = [], dp_tasks = [[]], dp_running = [], dp_done = [(item_b, None), (item_a, Some sample_evaluated)],
     dp_channel = [], dp_got = [sample_evaluated], dp_shutdown = False\<rparr>"

lemma items_differ: "item_a \<noteq> item_b" "item_b \<noteq> item_a" by (simp_all add: item_a_def item_b_def sample_item_def)

lemma finds_total: "\<forall>it. \<exists>r. finds it r" by (simp add: finds_def)

lemma dispatch_extend:
  "dispatch_run evals d es d' \<Longrightarrow> dispatch_step evals e d' d'' \<Longrightarrow> es' = es @ [e] \<Longrightarrow> dispatch_run evals d es' d''"
  by (simp add: run_snoc)

lemma sample_dispatch:
  "dispatch_run finds (dispatch_start [item_a, item_b])
     [Dispatched, HandedOut item_a, HandedOut item_b, Evaluated item_b None, Evaluated item_a (Some sample_evaluated), Received sample_evaluated]
     sample_end"
proof -
  let ?d = "\<lambda>todo tasks running finished channel got. \<lparr>dp_todo = todo, dp_tasks = tasks, dp_running = running, dp_done = finished,
    dp_channel = channel, dp_got = got, dp_shutdown = False\<rparr>"
  have start: "dispatch_start [item_a, item_b] = ?d [[item_a, item_b]] [] [] [] [] []"
    by (simp add: dispatch_start_def EVALUATE_CONCURRENCY_def numeral_eq_Suc)
  have 1: "dispatch_step finds Dispatched (?d [[item_a, item_b]] [] [] [] [] []) (?d [] [[item_a, item_b]] [] [] [] [])"
    using dispatch_step.dispatched [of "?d [[item_a, item_b]] [] [] [] [] []"] by simp
  have 2: "dispatch_step finds (HandedOut item_a) (?d [] [[item_a, item_b]] [] [] [] []) (?d [] [[item_b]] [item_a] [] [] [])"
    using dispatch_step.handed_out [of 0 "?d [] [[item_a, item_b]] [] [] [] []"] by (simp add: EVALUATE_CONCURRENCY_def)
  have 3: "dispatch_step finds (HandedOut item_b) (?d [] [[item_b]] [item_a] [] [] []) (?d [] [[]] [item_b, item_a] [] [] [])"
    using dispatch_step.handed_out [of 0 "?d [] [[item_b]] [item_a] [] [] []"] by (simp add: EVALUATE_CONCURRENCY_def)
  have 4: "dispatch_step finds (Evaluated item_b None) (?d [] [[]] [item_b, item_a] [] [] []) (?d [] [[]] [item_a] [(item_b, None)] [] [])"
    using dispatch_step.evaluated [of item_b "?d [] [[]] [item_b, item_a] [] [] []" finds None] items_differ by (simp add: finds_def)
  have 5: "dispatch_step finds (Evaluated item_a (Some sample_evaluated)) (?d [] [[]] [item_a] [(item_b, None)] [] [])
      (?d [] [[]] [] [(item_b, None), (item_a, Some sample_evaluated)] [sample_evaluated] [])"
    using dispatch_step.evaluated [of item_a "?d [] [[]] [item_a] [(item_b, None)] [] []" finds "Some sample_evaluated"]
    by (simp add: finds_def)
  have 6: "dispatch_step finds (Received sample_evaluated)
      (?d [] [[]] [] [(item_b, None), (item_a, Some sample_evaluated)] [sample_evaluated] []) sample_end"
    using dispatch_step.received [of "?d [] [[]] [] [(item_b, None), (item_a, Some sample_evaluated)] [sample_evaluated] []"]
    by (simp add: sample_end_def)
  show ?thesis
    unfolding start
    by (rule dispatch_extend [OF dispatch_extend [OF dispatch_extend [OF dispatch_extend [OF dispatch_extend
        [OF dispatch_extend [OF run_nil 1 refl] 2 refl] 3 refl] 4 refl] 5 refl] 6]) simp
qed

lemma sample_end_final: "dispatch_step finds e sample_end d \<Longrightarrow> e = ShutdownCame"
  by (erule dispatch_step.cases) (auto simp: sample_end_def)

theorem every_interleaving_is_a_walk_witness:
  "mset (map fst (dp_done sample_end)) = mset [item_a, item_b] \<and> dp_got sample_end = List.map_filter snd (dp_done sample_end)"
proof -
  have "\<not> dp_shutdown sample_end" by (simp add: sample_end_def)
  then show ?thesis
    using every_interleaving_is_a_walk [OF finds_total sample_dispatch] sample_end_final by blast
qed

theorem evaluation_ends_witness:
  "\<exists>e d'. e \<noteq> ShutdownCame \<and> dispatch_step finds e (dispatch_start [item_a, item_b]) d'"
proof -
  have "waiting (dispatch_start [item_a, item_b]) \<noteq> {#}"
    by (simp add: waiting_def dispatch_start_def)
  then show ?thesis using evaluation_ends [OF finds_total run_nil, of "[item_a, item_b]"] by simp
qed

end
