(* ===== verification/Watchdog.thy ===== *)
theory Watchdog
  imports Scan
begin

text \<open>
  The broken-piece watchdog of \<open>src/engine/scan.rs\<close>: \<open>quarantine_pass\<close> with its sweep over the session, the
  lifts, the garbage collection of the registry, the re-probes of lapsed entries (\<open>quarantine_reprobe\<close>) and
  the enforcement of the trips.  The detector itself is in \<open>Quarantine\<close>, placement in \<open>Admission\<close>.

  The theorems say what a pass may do to the holdings and to the registry: it removes only what tripped, it
  drops a registry entry only for the two documented reasons, and it keeps every budget.
\<close>

section \<open>The sweep\<close>

record sweep =
  wd_detector :: detector
  wd_trips :: "(string \<times> trip) list"
  wd_progress :: "(string \<times> nat) list"
  wd_seen :: "string set"
  wd_lifts :: "string list"

definition sweep_one :: "nat \<Rightarrow> nat \<Rightarrow> string list \<Rightarrow> string \<times> torrent_stats \<Rightarrow> sweep \<Rightarrow> sweep" where
  "sweep_one threshold min_windows quarantined = (\<lambda>(hex, st) s.
     let s = s\<lparr>wd_seen := insert hex (wd_seen s)\<rparr>
     in if ts_finished st
        then let s = s\<lparr>wd_detector := forget hex (wd_detector s)\<rparr>
             in if hex \<in> set quarantined then s\<lparr>wd_lifts := wd_lifts s @ [hex]\<rparr> else s
        else case ts_fetched_bytes st of
               None \<Rightarrow> s
             | Some fetched \<Rightarrow>
                 (case observe hex (ts_progress_bytes st) fetched threshold min_windows (wd_detector s) of
                    (verd, d) \<Rightarrow>
                      s\<lparr>wd_detector := d,
                        wd_trips := (case verd of Some tr \<Rightarrow> wd_trips s @ [(hex, tr)] | None \<Rightarrow> wd_trips s),
                        wd_progress := (if 0 < ts_progress_bytes st then wd_progress s @ [(hex, ts_progress_bytes st)]
                                        else wd_progress s)\<rparr>))"

definition sweep_session :: "nat \<Rightarrow> nat \<Rightarrow> string list \<Rightarrow> (string \<times> torrent_stats) list \<Rightarrow> detector \<Rightarrow> sweep" where
  "sweep_session threshold min_windows quarantined session d =
     fold (sweep_one threshold min_windows quarantined) session
       \<lparr>wd_detector = d, wd_trips = [], wd_progress = [], wd_seen = {}, wd_lifts = []\<rparr>"

section \<open>Lifts and garbage collection\<close>

text \<open>The race catch: every piece is verified but the finished flag has not flipped yet.\<close>

definition caught_lifts :: "(string \<times> nat) list \<Rightarrow> state \<Rightarrow> string list" where
  "caught_lifts progress s =
     map fst (filter (\<lambda>(hex, checked). hex \<in> set (quarantined_keys s) \<and>
        completion_lifts checked (case state_get s hex of Some t \<Rightarrow> t_size_bytes t | None \<Rightarrow> 0)) progress)"

definition orphaned :: "instant \<Rightarrow> string set \<Rightarrow> string set option \<Rightarrow> state \<Rightarrow> string list" where
  "orphaned now seen listed s =
     sort (filter (\<lambda>k. k \<notin> seen \<and> state_get s k = None \<and>
       (case listed of Some c \<Rightarrow> k \<notin> c | None \<Rightarrow> False) \<and>
       (case quarantine_get s k of Some q \<Rightarrow> q_cooldown_until q \<le> now | None \<Rightarrow> False)) (quarantined_keys s))"

text \<open>\<open>quarantine_remove_many\<close> and whether it dropped something, as both callers use it.\<close>

definition drop_entries :: "world \<Rightarrow> string list \<Rightarrow> bool \<times> engine \<Rightarrow> bool \<times> engine" where
  "drop_entries w hexes = (\<lambda>(lifted_any, e).
     case quarantine_remove_many (w_save w) hexes (en_state e) of
       (Inr n, s) \<Rightarrow> (lifted_any \<or> 0 < n, e\<lparr>en_state := s\<rparr>)
     | (Inl _, s) \<Rightarrow> (lifted_any, e\<lparr>en_state := s\<rparr>))"

section \<open>Re-probes\<close>

text \<open>\<open>chrono::Duration::from_std\<close> fails past \<open>i64::MAX\<close> milliseconds.\<close>

definition from_std :: "duration \<Rightarrow> int option" where
  "from_std d = (if int d \<le> i64_max * 1000000 then Some (int d) else None)"

definition chrono_or_weeks :: "duration \<Rightarrow> int" where
  "chrono_or_weeks d = (case from_std d of Some i \<Rightarrow> i | None \<Rightarrow> weeks 520)"

definition rearm_until :: "instant \<Rightarrow> instant \<Rightarrow> duration \<Rightarrow> duration \<Rightarrow> instant" where
  "rearm_until max_utc now cooldown check_interval =
     (case checked_add_signed max_utc now (max (chrono_or_weeks cooldown) (chrono_or_weeks (max check_interval cooldown))) of
        Some t \<Rightarrow> t | None \<Rightarrow> far_future max_utc now)"

definition lapsed_entries :: "instant \<Rightarrow> state \<Rightarrow> (string \<times> quarantine) list" where
  "lapsed_entries now s =
     sort_key fst (filter (\<lambda>(k, q). q_cooldown_until q \<le> now \<and> state_get s k = None) (st_quarantined s))"

definition probe_candidate :: "string \<Rightarrow> quarantine \<Rightarrow> torrent_meta \<Rightarrow> swarm_counts \<Rightarrow> nat \<Rightarrow> candidate" where
  "probe_candidate hex q md sw flr = \<lparr>cand_info_hash = hash_or_zero hex, cand_title = q_title q,
     cand_size_bytes = md_total_length md, cand_piece_count = md_piece_count md, cand_seeders = sw_seeders sw,
     cand_leechers = sw_leechers sw, cand_seeder_floor = flr\<rparr>"

definition rearm :: "world \<Rightarrow> instant \<Rightarrow> string \<Rightarrow> quarantine \<Rightarrow> engine \<Rightarrow> engine" where
  "rearm w now hex q e =
     (let sc = cfg_scan (en_cfg e);
          q = q\<lparr>q_cooldown_until := rearm_until (w_max_utc w) now (sc_quarantine_cooldown sc) (sc_quarantine_check_interval sc)\<rparr>
      in e\<lparr>en_state := snd (quarantine_put (w_save w) hex q (en_state e))\<rparr>)"

definition probe_one :: "world \<Rightarrow> instant \<Rightarrow> string set \<Rightarrow> nat \<Rightarrow> string \<Rightarrow> quarantine \<Rightarrow> nat \<times> engine \<Rightarrow> nat \<times> engine" where
  "probe_one w now listed flr hex q = (\<lambda>(held_count, e).
     if state_get (en_state e) hex \<noteq> None then (held_count, e)
     else if hex \<notin> listed then (held_count, e)
     else case fetch_metadata w hex e of
            (Inl _, e) \<Rightarrow> (held_count, e)
          | (Inr md, e) \<Rightarrow>
              (case scrape_swarm w (md_trackers md) (hash_or_zero hex) e of
                 (Inl _, e) \<Rightarrow> (held_count, e)
               | (Inr sw, e) \<Rightarrow>
                   (case act_on_candidate w (probe_candidate hex q md sw flr) held_count flr e of
                      (held_count, e) \<Rightarrow> (held_count, rearm w now hex q e))))"

fun probe_each :: "(string \<Rightarrow> world) \<Rightarrow> instant \<Rightarrow> string set \<Rightarrow> nat \<Rightarrow> (string \<times> quarantine) list \<Rightarrow> nat \<times> engine \<Rightarrow> nat \<times> engine" where
  "probe_each ws now listed flr [] ne = ne"
| "probe_each ws now listed flr ((hex, q) # es) ne =
     probe_each ws now listed flr es (probe_one (ws hex) now listed flr hex q ne)"

text \<open>What the outside does in one pass.\<close>

record watchdog_inputs =
  wi_session :: "(string \<times> torrent_stats) list"
  wi_sweep :: world
  wi_probe_now :: instant
  wi_probe :: "string \<Rightarrow> world"
  wi_cache_age :: "duration option"
  wi_cached :: "rss_item list option option"
  wi_reply :: http_reply
  wi_cached_later :: "rss_item list option option"
  wi_snapshot :: "snapshot json_file"
  wi_trip_now :: instant
  wi_trip :: "string \<Rightarrow> world"

text \<open>The catalog the probes consult: the one of this boot, or a load.\<close>

definition known_catalog :: "watchdog_inputs \<Rightarrow> engine \<Rightarrow> string set option" where
  "known_catalog inp e = (case en_last_catalog e of
      Some c \<Rightarrow> Some c
    | None \<Rightarrow> (case fst (catalog_load (sc_interval (cfg_scan (en_cfg e))) (wi_cache_age inp) (wi_cached inp)
                       (wi_reply inp) (wi_cached_later inp)) of
          Inr (items, _) \<Rightarrow> Some (set (map it_info_hash items))
        | Inl _ \<Rightarrow> None))"

definition quarantine_reprobe :: "watchdog_inputs \<Rightarrow> engine \<Rightarrow> engine" where
  "quarantine_reprobe inp e =
     (let lapsed = lapsed_entries (wi_probe_now inp) (en_state e)
      in if lapsed = [] then e
         else case known_catalog inp e of
                None \<Rightarrow> e
              | Some listed \<Rightarrow>
                  (let e = e\<lparr>en_last_catalog := Some listed\<rparr>
                   in snd (probe_each (wi_probe inp) (wi_probe_now inp) listed (floor_of (wi_snapshot inp)) lapsed
                        (length (all_torrents (en_state e)), e))))"

section \<open>Trips\<close>

definition trip_reason :: "trip \<Rightarrow> string \<Rightarrow> nat \<Rightarrow> string" where
  "trip_reason tr extra attempts =
     ''discarded '' @ show_bytes (wasted_bytes tr) @ '' across '' @ show_nat (windows tr) @ '' zero-progress pass'' @
     (if windows tr = 1 then [] else ''es'') @ '' (attempt '' @ show_nat attempts @ extra @ '')''"

definition trip_entry :: "world \<Rightarrow> instant \<Rightarrow> string \<Rightarrow> string \<Rightarrow> string \<Rightarrow> trip \<Rightarrow> engine \<Rightarrow> quarantine" where
  "trip_entry w now hex title extra tr e =
     next_quarantine_entry (w_max_utc w) (quarantine_get (en_state e) hex) title (trip_reason tr extra) tr now
       (chrono_or_weeks (sc_quarantine_cooldown (cfg_scan (en_cfg e)))) (sc_quarantine_max_retries (cfg_scan (en_cfg e)))"

text \<open>A torrent in the session without a state entry is enforced too, with the best identity there is.\<close>

definition trip_untracked :: "world \<Rightarrow> instant \<Rightarrow> string \<Rightarrow> trip \<Rightarrow> engine \<Rightarrow> engine" where
  "trip_untracked w now hex tr e =
     (let title = (case quarantine_get (en_state e) hex of Some q \<Rightarrow> q_title q | None \<Rightarrow> ''untracked '' @ hex);
          q = trip_entry w now hex title '', untracked ghost'' tr e;
          e = snd (remove_torrent w hex [] e);
          e = drop_cache_file hex e
      in e\<lparr>en_state := snd (quarantine_put (w_save w) hex q (en_state e)), en_detector := forget hex (en_detector e)\<rparr>)"

definition trip_held :: "world \<Rightarrow> instant \<Rightarrow> torrent \<Rightarrow> string \<Rightarrow> trip \<Rightarrow> engine \<Rightarrow> engine" where
  "trip_held w now h hex tr e =
     (let q = trip_entry w now hex (t_title h) [] tr e;
          e = snd (remove_torrent w hex (torrent_output_dir (t_storage_location h) hex) e);
          e = drop_cache_file hex e
      in case quarantine_and_remove (w_save w) hex q (en_state e) of
           (Inl _, s) \<Rightarrow> e\<lparr>en_state := s, en_detector := forget hex (en_detector e)\<rparr>
         | (Inr _, s) \<Rightarrow>
             (let e = record_history w (remove_event (w_now w) hex (t_title h) (t_size_bytes h) (t_last_known_seeders h)
                        (t_storage_location h) Quarantined (q_reason q)) (e\<lparr>en_state := s\<rparr>)
              in e\<lparr>en_detector := forget hex (en_detector e)\<rparr>))"

definition enforce_trip :: "world \<Rightarrow> instant \<Rightarrow> string \<times> trip \<Rightarrow> engine \<Rightarrow> engine" where
  "enforce_trip w now = (\<lambda>(hex, tr) e. case state_get (en_state e) hex of
      None \<Rightarrow> trip_untracked w now hex tr e
    | Some h \<Rightarrow> trip_held w now h hex tr e)"

section \<open>The pass\<close>

definition watchdog_sweep :: "watchdog_inputs \<Rightarrow> engine \<Rightarrow> sweep" where
  "watchdog_sweep inp e = sweep_session (sc_broken_piece_discard_bytes (cfg_scan (en_cfg e)))
     (sc_broken_piece_min_windows (cfg_scan (en_cfg e))) (quarantined_keys (en_state e)) (wi_session inp) (en_detector e)"

text \<open>Everything before the re-probes: bookkeeping, lifts and garbage collection.\<close>

definition watchdog_registry :: "watchdog_inputs \<Rightarrow> engine \<Rightarrow> (bool \<times> bool) \<times> engine" where
  "watchdog_registry inp e =
     (let s = watchdog_sweep inp e;
          w = wi_sweep inp;
          e = e\<lparr>en_detector := retain_only (wd_seen s) (wd_detector s)\<rparr>;
          lift_hexes = wd_lifts s @ caught_lifts (wd_progress s) (en_state e)
      in case update_progress_many (w_save w) (wd_progress s) (w_now w) (en_state e) of
           (r, st) \<Rightarrow>
             (let changed = (case r of Inr b \<Rightarrow> b | Inl _ \<Rightarrow> False);
                  (lifted_any, e) = drop_entries w lift_hexes (False, e\<lparr>en_state := st\<rparr>);
                  gc = orphaned (w_now w) (wd_seen s) (en_last_catalog e) (en_state e);
                  (lifted_any, e) = (if gc = [] then (lifted_any, e) else drop_entries w gc (lifted_any, e))
              in ((changed, lifted_any), e)))"

definition quarantine_pass :: "watchdog_inputs \<Rightarrow> engine \<Rightarrow> engine" where
  "quarantine_pass inp e =
     (if sc_quarantine_check_interval (cfg_scan (en_cfg e)) = 0 then e
      else let trips = wd_trips (watchdog_sweep inp e)
           in case watchdog_registry inp e of
                ((changed, lifted_any), e) \<Rightarrow>
                  (let e = quarantine_reprobe inp e
                   in if trips = [] then (if lifted_any \<or> changed then push_live e else e)
                      else push_live (fold (\<lambda>ht. enforce_trip (wi_trip inp (fst ht)) (wi_trip_now inp) ht) trips e)))"

section \<open>What each step leaves alone\<close>

text \<open>The held set is kept, up to progress stamps.\<close>

definition keeps_held :: "engine \<Rightarrow> engine \<Rightarrow> bool" where
  "keeps_held e e' \<longleftrightarrow> (\<forall>h t. state_get (en_state e) h = Some t \<longrightarrow> (\<exists>t'. state_get (en_state e') h = Some t' \<and> same_footprint t t'))"

lemma keeps_held_refl [simp]: "keeps_held e e"
  by (auto simp: keeps_held_def)

lemma same_footprint_trans: "same_footprint a b \<Longrightarrow> same_footprint b c \<Longrightarrow> same_footprint a c"
  by (simp add: same_footprint_def)

lemma keeps_held_trans: "keeps_held a b \<Longrightarrow> keeps_held b c \<Longrightarrow> keeps_held a c"
  unfolding keeps_held_def using same_footprint_trans by meson

lemma keeps_held_torrents: "st_torrents (en_state e') = st_torrents (en_state e) \<Longrightarrow> keeps_held e e'"
  by (auto simp: keeps_held_def state_get_def)

lemma shrinks_torrents:
  "st_torrents (en_state e') = st_torrents (en_state e) \<Longrightarrow> same_static e e' \<Longrightarrow>
   (wf_state (en_state e) \<Longrightarrow> wf_state (en_state e')) \<Longrightarrow> shrinks e e'"
  by (auto simp: shrinks_def state_get_def)

lemma drop_entries_spec:
  assumes "drop_entries w hs (b, e) = (b', e')"
  shows "shrinks e e' \<and> keeps_held e e' \<and> st_quarantined (en_state e') = fold hm_remove hs (st_quarantined (en_state e)) \<and>
    en_last_catalog e' = en_last_catalog e \<and> state_get (en_state e') = state_get (en_state e)"
proof -
  have e': "e' = e\<lparr>en_state := snd (quarantine_remove_many (w_save w) hs (en_state e))\<rparr>"
    using assms by (auto simp: drop_entries_def split: prod.splits sum.splits)
  have "shrinks e e'" unfolding e' by (rule shrinks_torrents) (simp_all add: wf_quarantine_remove_many)
  then show ?thesis by (auto simp: e' keeps_held_torrents state_get_def [abs_def])
qed

lemma progress_spec:
  defines "s' \<equiv> \<lambda>sv ps now e. snd (update_progress_many sv ps now (en_state e))"
  shows "shrinks e (e\<lparr>en_state := s' sv ps now e\<rparr>) \<and> keeps_held e (e\<lparr>en_state := s' sv ps now e\<rparr>)"
proof -
  have k: "keeps_held e (e\<lparr>en_state := s' sv ps now e\<rparr>)"
    using apply_progress_get by (fastforce simp: keeps_held_def s'_def state_get_def same_footprint_def stamp_progress_def)
  have "fst ` set (fst (apply_progress ps now (st_torrents (en_state e)) False)) = fst ` set (st_torrents (en_state e))"
    using apply_progress_keys [of ps now "st_torrents (en_state e)" False] by (metis list.set_map)
  then have "state_get (s' sv ps now e) h = None \<longleftrightarrow> state_get (en_state e) h = None" for h
    by (simp add: s'_def state_get_def map_of_eq_None_iff)
  then have "shrinks e (e\<lparr>en_state := s' sv ps now e\<rparr>)"
    using k wf_update_progress_many unfolding shrinks_def keeps_held_def s'_def
    by (auto simp del: update_progress_many_mem) (metis option.exhaust option.inject)
  with k show ?thesis by simp
qed

text \<open>The registry phase: who may leave the registry.\<close>

definition lifted :: "watchdog_inputs \<Rightarrow> engine \<Rightarrow> string set" where
  "lifted inp e = set (wd_lifts (watchdog_sweep inp e)) \<union> set (caught_lifts (wd_progress (watchdog_sweep inp e)) (en_state e))"

definition collectable :: "watchdog_inputs \<Rightarrow> engine \<Rightarrow> string \<Rightarrow> bool" where
  "collectable inp e k \<longleftrightarrow> k \<notin> wd_seen (watchdog_sweep inp e) \<and> state_get (en_state e) k = None \<and>
     (\<exists>c. en_last_catalog e = Some c \<and> k \<notin> c) \<and>
     (\<exists>q. quarantine_get (en_state e) k = Some q \<and> q_cooldown_until q \<le> w_now (wi_sweep inp))"

lemma fold_remove_get: "hm_get (fold hm_remove ks m) k = (if k \<in> set ks then None else hm_get m k)"
  by (induction ks arbitrary: m) (auto simp: hm_simps)

lemma orphaned_iff:
  "k \<in> set (orphaned now seen listed s) \<longleftrightarrow> k \<notin> seen \<and> state_get s k = None \<and> (\<exists>c. listed = Some c \<and> k \<notin> c) \<and>
     (\<exists>q. quarantine_get s k = Some q \<and> q_cooldown_until q \<le> now)"
proof -
  have "quarantine_get s k = Some q \<Longrightarrow> k \<in> set (quarantined_keys s)" for q
    by (auto simp: quarantine_get_def quarantined_keys_def dest: map_of_SomeD intro: rev_image_eqI)
  then show ?thesis by (auto simp: orphaned_def split: option.splits)
qed

lemma held_none:
  "shrinks e e' \<Longrightarrow> keeps_held e e' \<Longrightarrow> state_get (en_state e') k = None \<longleftrightarrow> state_get (en_state e) k = None"
  unfolding shrinks_def keeps_held_def by (metis option.distinct(1) option.exhaust)

lemma registry_spec:
  assumes "watchdog_registry inp e = (b, e')"
  shows "shrinks e e' \<and> keeps_held e e' \<and>
    (\<forall>k. quarantine_get (en_state e') k = (if k \<in> lifted inp e \<or> collectable inp e k then None else quarantine_get (en_state e) k))"
proof -
  let ?s = "watchdog_sweep inp e" and ?w = "wi_sweep inp"
  let ?e1 = "e\<lparr>en_detector := retain_only (wd_seen ?s) (wd_detector ?s)\<rparr>"
  let ?e2 = "?e1\<lparr>en_state := snd (update_progress_many (w_save ?w) (wd_progress ?s) (w_now ?w) (en_state ?e1))\<rparr>"
  let ?lifts = "wd_lifts ?s @ caught_lifts (wd_progress ?s) (en_state e)"
  obtain l3 e3 where d3: "drop_entries ?w ?lifts (False, ?e2) = (l3, e3)" by fastforce
  let ?gc = "orphaned (w_now ?w) (wd_seen ?s) (en_last_catalog e3) (en_state e3)"
  obtain l4 e4 where d4: "(if ?gc = [] then (l3, e3) else drop_entries ?w ?gc (l3, e3)) = (l4, e4)" by fastforce
  obtain r st where u: "update_progress_many (w_save ?w) (wd_progress ?s) (w_now ?w) (en_state e) = (r, st)" by fastforce
  have e': "e' = e4" using assms d3 d4 u by (simp add: watchdog_registry_def Let_def split: prod.splits)
  have s1: "shrinks e ?e1" "keeps_held e ?e1" by (simp_all add: shrinks_state keeps_held_torrents)
  have s2: "shrinks e ?e2" "keeps_held e ?e2"
    using progress_spec [of ?e1 "w_save ?w" "wd_progress ?s" "w_now ?w"] shrinks_trans [OF s1(1)] keeps_held_trans [OF s1(2)] by blast+
  note d3s = drop_entries_spec [OF d3]
  have s3: "shrinks e e3" "keeps_held e e3" using d3s shrinks_trans [OF s2(1)] keeps_held_trans [OF s2(2)] by blast+
  have q3: "quarantine_get (en_state e3) k = (if k \<in> lifted inp e then None else quarantine_get (en_state e) k)" for k
    using d3s by (auto simp: quarantine_get_def fold_remove_get lifted_def)
  have gc: "k \<in> set ?gc \<longleftrightarrow> k \<notin> lifted inp e \<and> collectable inp e k" for k
    using d3s q3 held_none [OF s3] by (auto simp: orphaned_iff collectable_def)
  have "shrinks e3 e4 \<and> keeps_held e3 e4 \<and> st_quarantined (en_state e4) = fold hm_remove ?gc (st_quarantined (en_state e3))"
    using d4 drop_entries_spec [of ?w ?gc l3 e3 l4 e4] by (auto split: if_splits)
  then show ?thesis
    using e' shrinks_trans [OF s3(1)] keeps_held_trans [OF s3(2)] q3 gc by (auto simp: quarantine_get_def fold_remove_get)
qed

section \<open>Re-probes\<close>

lemma quarantined_act:
  assumes "wf_state (en_state e)" "quarantine_get (en_state e) (cand_info_hash c) = Some q" "act_on_candidate w c n flr e = (n', e')"
  shows "wf_state (en_state e')" "same_static e e'" "st_quarantined (en_state e') = st_quarantined (en_state e)"
    "\<And>h t. h \<noteq> cand_info_hash c \<Longrightarrow> state_get (en_state e) h = Some t \<Longrightarrow> state_get (en_state e') h = Some t"
proof -
  have st: "holdings_step w e c flr n (en_state e) n' (en_state e')" "same_static e e'"
    using act_on_candidate_step [OF assms(1,3)] by auto
  show "wf_state (en_state e')" "same_static e e'" using holdings_step_wf [OF st(1) assms(1)] st(2) by auto
  from st(1) show "st_quarantined (en_state e') = st_quarantined (en_state e)" by cases auto
  fix h t assume "h \<noteq> cand_info_hash c" "state_get (en_state e) h = Some t"
  with st(1) show "state_get (en_state e') h = Some t"
    by cases (use assms(2) in \<open>auto simp: state_get_def hm_simps new_torrent_def\<close>)
qed

text \<open>The registry keys a pass relies on: canonical hex, as the session spells them.\<close>

definition canonical_keys :: "state \<Rightarrow> bool" where
  "canonical_keys s \<longleftrightarrow> list_all (\<lambda>k. hash_or_zero k = k) (quarantined_keys s)"

definition probed :: "engine \<Rightarrow> engine \<Rightarrow> bool" where
  "probed e e' \<longleftrightarrow> wf_state (en_state e') \<and> same_static e e' \<and> keeps_held e e' \<and>
     (\<forall>k. quarantine_get (en_state e) k \<noteq> None \<longrightarrow> quarantine_get (en_state e') k \<noteq> None)"

lemma probed_trans: "probed a b \<Longrightarrow> probed b c \<Longrightarrow> probed a c"
  unfolding probed_def using same_static_trans keeps_held_trans by blast

lemma probed_refl: "wf_state (en_state e) \<Longrightarrow> probed e e"
  by (simp add: probed_def)

lemma rearm_frame: "shrinks e (rearm w now hex q e) \<and> keeps_held e (rearm w now hex q e) \<and>
    st_quarantined (en_state (rearm w now hex q e)) = hm_insert hex (q\<lparr>q_cooldown_until := rearm_until (w_max_utc w) now
      (sc_quarantine_cooldown (cfg_scan (en_cfg e))) (sc_quarantine_check_interval (cfg_scan (en_cfg e)))\<rparr>) (st_quarantined (en_state e))"
proof -
  have "shrinks e (rearm w now hex q e)"
    by (rule shrinks_torrents) (simp_all add: rearm_def Let_def wf_quarantine_put)
  then show ?thesis by (simp add: rearm_def Let_def keeps_held_torrents)
qed

lemma probe_one_cases:
  assumes "probe_one w now listed flr hex q (n, e) = (n', e')"
  obtains (idle) "n' = n" "en_state e' = en_state e" "same_static e e'"
    | (acted) e1 e2 c where "en_state e1 = en_state e" "same_static e e1" "cand_info_hash c = hash_or_zero hex"
        "act_on_candidate w c n flr e1 = (n', e2)" "e' = rearm w now hex q e2" "state_get (en_state e) hex = None"
proof -
  obtain r1 e1 where f: "fetch_metadata w hex e = (r1, e1)" by fastforce
  have f1: "en_state e1 = en_state e" "same_static e e1"
    using fetch_metadata_frame(1) [of w hex e] fetch_metadata_frame(2) [of e w hex e] f by auto
  show ?thesis
  proof (cases "state_get (en_state e) hex \<noteq> None \<or> hex \<notin> listed \<or> (\<exists>er. r1 = Inl er)")
    case True
    have "(n', e') = (n, e) \<or> (n', e') = (n, e1)"
    proof (cases "state_get (en_state e) hex \<noteq> None \<or> hex \<notin> listed")
      case True
      then have "probe_one w now listed flr hex q (n, e) = (n, e)" unfolding probe_one_def by (cases "state_get (en_state e) hex") simp_all
      then show ?thesis using assms by simp
    next
      case False
      with True obtain er where "r1 = Inl er" by blast
      then show ?thesis using assms f False by (simp add: probe_one_def)
    qed
    then show ?thesis using f1 idle by fastforce
  next
    case False
    then obtain md where md: "r1 = Inr md" by (cases r1) auto
    obtain r2 e2 where sc: "scrape_swarm w (md_trackers md) (hash_or_zero hex) e1 = (r2, e2)" by fastforce
    have f2: "en_state e2 = en_state e" "same_static e e2"
      using scrape_swarm_frame(1) [of w "md_trackers md" "hash_or_zero hex" e1]
        scrape_swarm_frame(2) [of e w "md_trackers md" "hash_or_zero hex" e1] sc f1 by auto
    show ?thesis
    proof (cases r2)
      case (Inl er)
      then have "n' = n" "e' = e2" using assms False f md sc by (simp_all add: probe_one_def)
      then show ?thesis using f2 idle by simp
    next
      case (Inr sw)
      obtain n3 e3 where a: "act_on_candidate w (probe_candidate hex q md sw flr) n flr e2 = (n3, e3)" by fastforce
      then have "n' = n3" "e' = rearm w now hex q e3" using assms False f md sc Inr by (simp_all add: probe_one_def)
      with a f2 False show ?thesis using acted [of e2 "probe_candidate hex q md sw flr" e3] by (simp add: probe_candidate_def)
    qed
  qed
qed

lemma probe_one_probed:
  assumes "probe_one w now listed flr hex q (n, e) = (n', e')" "wf_state (en_state e)"
    and "quarantine_get (en_state e) hex \<noteq> None" "hash_or_zero hex = hex"
  shows "probed e e'"
  using assms(1)
proof (cases rule: probe_one_cases)
  case idle
  then show ?thesis using assms(2) by (simp add: probed_def keeps_held_torrents)
next
  case (acted e1 e2 c)
  have "quarantine_get (en_state e1) (cand_info_hash c) \<noteq> None" using acted(1,3) assms(3,4) by simp
  then obtain q0 where q0: "quarantine_get (en_state e1) (cand_info_hash c) = Some q0" by blast
  have wf1: "wf_state (en_state e1)" using acted(1) assms(2) by simp
  note act = quarantined_act [OF wf1 q0 acted(4)]
  note re = rearm_frame [of e2 w now hex q]
  have "state_get (en_state e2) h = Some t" if "state_get (en_state e) h = Some t" for h t
  proof (rule act(4))
    show "h \<noteq> cand_info_hash c" using that acted(3,6) assms(4) by auto
    show "state_get (en_state e1) h = Some t" using that acted(1) by simp
  qed
  then have "keeps_held e e2" by (simp add: keeps_held_def same_footprint_def)
  then have k: "keeps_held e e'" using re acted(5) keeps_held_trans by blast
  have st: "same_static e e'" using re acted(5) same_static_trans [OF same_static_trans [OF acted(2) act(2)]] by (simp add: shrinks_def)
  have wf: "wf_state (en_state e')" using re acted(5) act(1) by (simp add: shrinks_def)
  have "quarantine_get (en_state e') k \<noteq> None" if "quarantine_get (en_state e) k \<noteq> None" for k
    using that re act(3) acted(1,5) by (simp add: quarantine_get_def hm_simps)
  with k st wf show ?thesis by (simp add: probed_def)
qed

lemma probe_each_probed:
  "probe_each ws now listed flr es (n, e) = (n', e') \<Longrightarrow> wf_state (en_state e) \<Longrightarrow>
   list_all (\<lambda>(hex, q). quarantine_get (en_state e) hex \<noteq> None \<and> hash_or_zero hex = hex) es \<Longrightarrow> probed e e'"
proof (induction es arbitrary: n e)
  case Nil
  then show ?case by (simp add: probed_refl)
next
  case (Cons hq es)
  obtain hex q where hq: "hq = (hex, q)" by fastforce
  obtain n1 e1 where p: "probe_one (ws hex) now listed flr hex q (n, e) = (n1, e1)" by fastforce
  have p1: "probed e e1" using probe_one_probed [OF p] Cons.prems hq by simp
  then have "list_all (\<lambda>(hex, q). quarantine_get (en_state e1) hex \<noteq> None \<and> hash_or_zero hex = hex) es"
    using Cons.prems(3) by (auto simp: list_all_iff probed_def)
  then have "probed e1 e'" using Cons.IH [of n1 e1] Cons.prems(1) p p1 hq by (simp add: probed_def)
  with p1 show ?case by (rule probed_trans)
qed

lemma lapsed_registered:
  assumes "canonical_keys s"
  shows "list_all (\<lambda>(hex, q). quarantine_get s hex \<noteq> None \<and> hash_or_zero hex = hex) (lapsed_entries now s)"
  using assms
  by (auto simp: list_all_iff lapsed_entries_def canonical_keys_def quarantined_keys_def quarantine_get_def map_of_eq_None_iff rev_image_eqI)

lemma reprobe_probed:
  assumes "wf_state (en_state e)" "canonical_keys (en_state e)"
  shows "probed e (quarantine_reprobe inp e)"
proof (cases "lapsed_entries (wi_probe_now inp) (en_state e) = [] \<or> known_catalog inp e = None")
  case True
  then show ?thesis using probed_refl [OF assms(1)] by (auto simp: quarantine_reprobe_def Let_def)
next
  case False
  then obtain listed where l: "known_catalog inp e = Some listed" by auto
  let ?e = "e\<lparr>en_last_catalog := Some listed\<rparr>" and ?es = "lapsed_entries (wi_probe_now inp) (en_state e)"
  obtain n' e' where p: "probe_each (wi_probe inp) (wi_probe_now inp) listed (floor_of (wi_snapshot inp)) ?es
      (length (all_torrents (en_state ?e)), ?e) = (n', e')" by fastforce
  have "probed ?e e'" using probe_each_probed [OF p] lapsed_registered [OF assms(2)] assms(1) by simp
  moreover have "probed e ?e" using assms(1) by (simp add: probed_def keeps_held_torrents)
  ultimately show ?thesis using False l p probed_trans [of e ?e e'] by (simp add: quarantine_reprobe_def Let_def)
qed

context holdings_invariant
begin

lemma probe_one_kept:
  assumes "probe_one w now listed flr hex q (n, e) = (n', e')" "w \<in> worlds" "P e0 n e"
  shows "P e0 n' e'"
  using assms(1)
proof (cases rule: probe_one_cases)
  case idle
  then show ?thesis using frame [OF assms(3)] by simp
next
  case (acted e1 e2 c)
  then have "P e0 n' e2" using act [OF frame [OF assms(3) acted(1,2)] assms(2)] by simp
  then show ?thesis using shrunk rearm_frame acted(5) by blast
qed

lemma probe_each_kept:
  "probe_each ws now listed flr es (n, e) = (n', e') \<Longrightarrow> (\<And>h. ws h \<in> worlds) \<Longrightarrow> P e0 n e \<Longrightarrow> P e0 n' e'"
proof (induction es arbitrary: n e)
  case (Cons hq es)
  obtain hex q where hq: "hq = (hex, q)" by fastforce
  obtain n1 e1 where p: "probe_one (ws hex) now listed flr hex q (n, e) = (n1, e1)" by fastforce
  have "P e0 n1 e1" using probe_one_kept [OF p] Cons.prems(2,3) by simp
  then show ?case using Cons.IH [of n1 e1] Cons.prems(1,2) p hq by simp
qed simp

lemma reprobe_kept:
  assumes "wf_state (en_state e0)" "shrinks e0 e" "\<And>h. wi_probe inp h \<in> worlds"
  shows "\<exists>n. P e0 n (quarantine_reprobe inp e)"
proof (cases "lapsed_entries (wi_probe_now inp) (en_state e) = [] \<or> known_catalog inp e = None")
  case True
  then show ?thesis using started [OF assms(1,2)] by (auto simp: quarantine_reprobe_def Let_def)
next
  case False
  then obtain listed where l: "known_catalog inp e = Some listed" by auto
  let ?e = "e\<lparr>en_last_catalog := Some listed\<rparr>"
  obtain n' e' where p: "probe_each (wi_probe inp) (wi_probe_now inp) listed (floor_of (wi_snapshot inp))
      (lapsed_entries (wi_probe_now inp) (en_state e)) (length (all_torrents (en_state ?e)), ?e) = (n', e')" by fastforce
  have "P e0 (length (all_torrents (en_state ?e))) ?e"
    by (rule started [OF assms(1) shrinks_trans [OF assms(2) set_catalog_shrinks]])
  from probe_each_kept [OF p assms(3) this] show ?thesis using False l p by (auto simp: quarantine_reprobe_def Let_def)
qed

end

section \<open>Trips\<close>

lemma enforce_trip_spec:
  assumes "enforce_trip w now (hex, tr) e = e'"
  shows "shrinks e e' \<and> (\<forall>h. state_get (en_state e') h = (if h = hex then None else state_get (en_state e) h)) \<and>
    (\<forall>h. h \<noteq> hex \<longrightarrow> quarantine_get (en_state e') h = quarantine_get (en_state e) h) \<and>
    quarantine_get (en_state e') hex \<noteq> None"
proof (cases "state_get (en_state e) hex")
  case None
  have t: "st_torrents (en_state e') = st_torrents (en_state e)" "same_static e e'"
    "wf_state (en_state e) \<Longrightarrow> wf_state (en_state e')"
    "st_quarantined (en_state e') = hm_insert hex (trip_entry w now hex
       (case quarantine_get (en_state e) hex of Some q \<Rightarrow> q_title q | None \<Rightarrow> ''untracked '' @ hex) '', untracked ghost'' tr e)
       (st_quarantined (en_state e))"
    using assms None by (auto simp: enforce_trip_def trip_untracked_def Let_def wf_quarantine_put)
  have "shrinks e e'" by (rule shrinks_torrents [OF t(1-3)])
  then show ?thesis using None t by (auto simp: state_get_def quarantine_get_def hm_simps)
next
  case (Some h)
  let ?q = "trip_entry w now hex (t_title h) [] tr e"
  let ?e1 = "drop_cache_file hex (snd (remove_torrent w hex (torrent_output_dir (t_storage_location h) hex) e))"
  obtain r s where qr: "quarantine_and_remove (w_save w) hex ?q (en_state ?e1) = (r, s)" by fastforce
  have st: "en_state ?e1 = en_state e" "same_static e ?e1" by simp_all
  have s: "st_torrents s = hm_remove hex (st_torrents (en_state e))" "st_quarantined s = hm_insert hex ?q (st_quarantined (en_state e))"
    "wf_state (en_state e) \<Longrightarrow> wf_state s"
    using quarantine_and_remove_mem [of "w_save w" hex ?q "en_state ?e1"] wf_quarantine_and_remove [of "en_state ?e1" "w_save w" hex ?q] qr
    by (simp_all del: quarantine_and_remove_mem)
  have "en_state e' = s \<and> same_static e e'"
    using assms Some qr st(2) by (cases r) (auto simp: enforce_trip_def trip_held_def Let_def)
  with s have t: "st_torrents (en_state e') = hm_remove hex (st_torrents (en_state e))" "same_static e e'"
    "wf_state (en_state e) \<Longrightarrow> wf_state (en_state e')" "st_quarantined (en_state e') = hm_insert hex ?q (st_quarantined (en_state e))"
    by simp_all
  then have "shrinks e e'" by (auto simp: shrinks_def state_get_def hm_simps split: if_splits)
  then show ?thesis using t by (auto simp: state_get_def quarantine_get_def hm_simps)
qed

definition enforce_all :: "watchdog_inputs \<Rightarrow> (string \<times> trip) list \<Rightarrow> engine \<Rightarrow> engine" where
  "enforce_all inp trips e = fold (\<lambda>ht. enforce_trip (wi_trip inp (fst ht)) (wi_trip_now inp) ht) trips e"

lemma enforce_all_spec:
  "shrinks e (enforce_all inp trips e) \<and>
   (\<forall>h. state_get (en_state (enforce_all inp trips e)) h = (if h \<in> fst ` set trips then None else state_get (en_state e) h)) \<and>
   (\<forall>h. h \<notin> fst ` set trips \<longrightarrow> quarantine_get (en_state (enforce_all inp trips e)) h = quarantine_get (en_state e) h) \<and>
   (\<forall>h \<in> fst ` set trips. quarantine_get (en_state (enforce_all inp trips e)) h \<noteq> None)"
proof (induction trips arbitrary: e)
  case (Cons ht trips)
  obtain hex tr where ht: "ht = (hex, tr)" by fastforce
  define e1 where "e1 = enforce_trip (wi_trip inp hex) (wi_trip_now inp) (hex, tr) e"
  note s1 = enforce_trip_spec [OF e1_def [symmetric]]
  have "enforce_all inp (ht # trips) e = enforce_all inp trips e1" by (simp add: enforce_all_def ht e1_def)
  then show ?case
    using Cons.IH [of e1] s1 shrinks_trans [of e e1] ht by (auto split: if_splits)
qed (simp add: enforce_all_def)


section \<open>The whole pass\<close>

lemma observe_trip:
  "observe h c f thr mw d = (Some tr, d') \<Longrightarrow> thr \<le> wasted_bytes tr \<and> max mw 1 \<le> windows tr"
  by (auto simp: observe_def Let_def split: option.splits if_splits)

text \<open>A trip names an unfinished torrent of the session that reached both thresholds.\<close>

definition justified :: "nat \<Rightarrow> nat \<Rightarrow> (string \<times> torrent_stats) list \<Rightarrow> string \<times> trip \<Rightarrow> bool" where
  "justified thr mw session ht \<longleftrightarrow> thr \<le> wasted_bytes (snd ht) \<and> max mw 1 \<le> windows (snd ht) \<and>
     (\<exists>st. (fst ht, st) \<in> set session \<and> \<not> ts_finished st)"

lemma sweep_one_trips:
  assumes "ht \<in> set (wd_trips (sweep_one thr mw qs x s))"
  shows "ht \<in> set (wd_trips s) \<or> justified thr mw [x] ht"
proof -
  obtain hex st where x: "x = (hex, st)" by fastforce
  show ?thesis
  proof (cases "ts_finished st \<or> ts_fetched_bytes st = None")
    case True
    then show ?thesis using assms x by (auto simp: sweep_one_def Let_def split: if_splits)
  next
    case False
    then obtain f where f: "ts_fetched_bytes st = Some f" by auto
    obtain v d where o: "observe hex (ts_progress_bytes st) f thr mw (wd_detector s) = (v, d)" by fastforce
    show ?thesis
      using assms x False f o observe_trip [of hex "ts_progress_bytes st" f thr mw "wd_detector s" _ d]
      by (cases v) (auto simp: sweep_one_def Let_def justified_def)
  qed
qed

lemma sweep_trips:
  assumes "ht \<in> set (wd_trips (sweep_session thr mw qs session d))"
  shows "justified thr mw session ht"
proof -
  have "ht \<in> set (wd_trips (fold (sweep_one thr mw qs) xs s)) \<Longrightarrow> ht \<in> set (wd_trips s) \<or> justified thr mw xs ht" for xs s
  proof (induction xs arbitrary: s)
    case (Cons x xs)
    then show ?case using sweep_one_trips [of ht thr mw qs x s] by (fastforce simp: justified_def)
  qed simp
  from this [OF assms [unfolded sweep_session_def]] show ?thesis by simp
qed

lemma canonical_keys_iff: "canonical_keys s \<longleftrightarrow> (\<forall>k. quarantine_get s k \<noteq> None \<longrightarrow> hash_or_zero k = k)"
proof -
  have "k \<in> set (quarantined_keys s) \<longleftrightarrow> quarantine_get s k \<noteq> None" for k
    by (auto simp: quarantined_keys_def quarantine_get_def map_of_eq_None_iff)
  then show ?thesis unfolding canonical_keys_def list_all_iff by blast
qed

lemma registry_canonical:
  "watchdog_registry inp e = (b, e') \<Longrightarrow> canonical_keys (en_state e) \<Longrightarrow> canonical_keys (en_state e')"
  using registry_spec [of inp e b e'] by (auto simp: canonical_keys_iff)

lemma quarantine_pass_split:
  assumes "sc_quarantine_check_interval (cfg_scan (en_cfg e)) \<noteq> 0"
  obtains b e1 where "watchdog_registry inp e = (b, e1)"
    and "en_state (quarantine_pass inp e) = en_state (enforce_all inp (wd_trips (watchdog_sweep inp e)) (quarantine_reprobe inp e1))"
    and "shrinks (enforce_all inp (wd_trips (watchdog_sweep inp e)) (quarantine_reprobe inp e1)) (quarantine_pass inp e)"
proof -
  obtain ch li e1 where r: "watchdog_registry inp e = ((ch, li), e1)" by (metis surj_pair)
  let ?t = "wd_trips (watchdog_sweep inp e)"
  have p: "quarantine_pass inp e = (if ?t = [] then (if li \<or> ch then push_live (quarantine_reprobe inp e1) else quarantine_reprobe inp e1)
      else push_live (enforce_all inp ?t (quarantine_reprobe inp e1)))"
    using assms r by (simp add: quarantine_pass_def enforce_all_def Let_def)
  have l: "shrinks d (push_live d)" for d by (rule shrinks_state) simp_all
  have "en_state (quarantine_pass inp e) = en_state (enforce_all inp ?t (quarantine_reprobe inp e1))"
    "shrinks (enforce_all inp ?t (quarantine_reprobe inp e1)) (quarantine_pass inp e)"
    using p l by (simp_all add: enforce_all_def)
  with that r show thesis by blast
qed

context holdings_invariant
begin

lemma watched:
  assumes "wf_state (en_state e)" "\<And>h. wi_probe inp h \<in> worlds"
  shows "\<exists>n. P e n (quarantine_pass inp e)"
proof (cases "sc_quarantine_check_interval (cfg_scan (en_cfg e)) = 0")
  case True
  then show ?thesis using started [OF assms(1) shrinks_state [OF refl]] by (auto simp: quarantine_pass_def)
next
  case False
  then obtain b e1 where r: "watchdog_registry inp e = (b, e1)"
    and s: "shrinks (enforce_all inp (wd_trips (watchdog_sweep inp e)) (quarantine_reprobe inp e1)) (quarantine_pass inp e)"
    by (rule quarantine_pass_split)
  have "shrinks e e1" using registry_spec [OF r] by simp
  from reprobe_kept [OF assms(1) this assms(2)] obtain n where "P e n (quarantine_reprobe inp e1)" by blast
  then have "P e n (enforce_all inp (wd_trips (watchdog_sweep inp e)) (quarantine_reprobe inp e1))"
    using shrunk enforce_all_spec by blast
  then show ?thesis using shrunk [OF _ s] by blast
qed

end

section \<open>Properties\<close>



text \<open>A watchdog pass, its re-probes of lapsed entries included, never commits a location past its limit or
  past what was already committed there, nor holds more torrents than the cap or than it started with.\<close>

theorem watchdog_keeps_disk_limits:
  assumes "disk_wf e"
  shows "(\<forall>loc \<in> set (cfg_storage (en_cfg e)).
      committed (en_state (quarantine_pass inp e)) (sl_path loc) \<le>
        max (committed (en_state e) (sl_path loc)) (limit_bytes loc)) \<and>
    length (all_torrents (en_state (quarantine_pass inp e))) \<le> max (length (all_torrents (en_state e))) (en_max_torrents e) \<and>
    wf_state (en_state (quarantine_pass inp e))"
proof -
  have w: "wf_state (en_state e)" using assms by (simp add: disk_wf_def)
  from disk_hold.watched [OF w, of inp] count_hold.watched [OF w, of inp] assms show ?thesis
    by (auto simp: disk_holdings_def disk_inv_def count_inv_def)
qed

text \<open>A re-armed cooldown lasts at least the configured one and at least one more pass of the watchdog,
  except where the calendar ends, where it is ten years or the end of the calendar.\<close>

theorem rearm_until_spaced:
  assumes "now \<le> max_utc" "int cooldown \<le> i64_max * 1000000" "int interval \<le> i64_max * 1000000"
  shows "now + int (max cooldown interval) \<le> rearm_until max_utc now cooldown interval \<or>
    rearm_until max_utc now cooldown interval = min (now + weeks 520) max_utc"
  using assms by (auto simp: rearm_until_def chrono_or_weeks_def from_std_def far_future_def checked_add_signed_def max_def min_def)


text \<open>Example passes: a torrent that keeps discarding, and a quarantined one that finished.\<close>

definition sample_pass :: watchdog_inputs where
  "sample_pass = \<lparr>wi_session = [(''aa'', \<lparr>ts_finished = False, ts_checking = False, ts_progress_bytes = 5, ts_fetched_bytes = Some (10 ^ 12)\<rparr>)],
     wi_sweep = sample_world, wi_probe_now = 1000, wi_probe = (\<lambda>_. sample_world), wi_cache_age = None, wi_cached = None,
     wi_reply = HttpSendFailed, wi_cached_later = None, wi_snapshot = NoFile, wi_trip_now = 1000, wi_trip = (\<lambda>_. sample_world)\<rparr>"

definition wasting_engine :: engine where
  "wasting_engine = sample_engine\<lparr>en_detector := [(''aa'', \<lparr>last_checked = 5, last_fetched = 0,
     wasted_since_progress = 0, windows_without_progress = 9\<rparr>)]\<rparr>"

definition zero_hash :: string where
  "zero_hash = hex_encode (replicate 20 0)"

definition recovering_engine :: engine where
  "recovering_engine = sample_engine\<lparr>en_state := (en_state sample_engine)\<lparr>st_quarantined := [(zero_hash,
     \<lparr>q_title = ''z'', q_reason = [], q_quarantined_at = 0, q_cooldown_until = 10 ^ 18, q_attempts = 1, q_wasted_bytes = 7\<rparr>)]\<rparr>\<rparr>"

lemmas sample_pass_defs = sample_pass_def wasting_engine_def recovering_engine_def sample_engine_def sample_config_def
  config_default_def scan_config_default_def DEFAULT_QUARANTINE_CHECK_INTERVAL_def DEFAULT_BROKEN_PIECE_DISCARD_BYTES_def
  DEFAULT_BROKEN_PIECE_MIN_WINDOWS_def secs_def wf_state_def hm_wf_def sample_torrent_def

lemma wasting_trips: "''aa'' \<in> fst ` set (wd_trips (watchdog_sweep sample_pass wasting_engine))"
  by (simp add: watchdog_sweep_def sweep_session_def sweep_one_def observe_def sample_pass_defs Let_def rust_arith)


lemma zero_hash_canonical: "hash_or_zero zero_hash = zero_hash"
  by (simp add: hash_or_zero_def zero_hash_def decode_hash_encode list_all_iff)

abbreviation finished_pass :: watchdog_inputs where
  "finished_pass \<equiv> sample_pass\<lparr>wi_session := [(zero_hash, \<lparr>ts_finished = True, ts_checking = False, ts_progress_bytes = 7, ts_fetched_bytes = None\<rparr>)]\<rparr>"

lemma recovered: "quarantine_get (en_state (quarantine_pass finished_pass recovering_engine)) zero_hash = None"
proof -
  have sw: "watchdog_sweep finished_pass recovering_engine =
      \<lparr>wd_detector = [], wd_trips = [], wd_progress = [], wd_seen = {zero_hash}, wd_lifts = [zero_hash]\<rparr>"
    by (simp add: watchdog_sweep_def sweep_session_def sweep_one_def sample_pass_defs Let_def quarantined_keys_def
        forget_def detector_new_def)
  have nz: "sc_quarantine_check_interval (cfg_scan (en_cfg recovering_engine)) \<noteq> 0" by (simp add: sample_pass_defs)
  obtain b e1 where r: "watchdog_registry finished_pass recovering_engine = (b, e1)"
    and s: "en_state (quarantine_pass finished_pass recovering_engine) =
      en_state (enforce_all finished_pass (wd_trips (watchdog_sweep finished_pass recovering_engine)) (quarantine_reprobe finished_pass e1))"
    by (rule quarantine_pass_split [OF nz])
  have q: "quarantine_get (en_state e1) k = None" for k
  proof (cases "k = zero_hash")
    case True
    then show ?thesis using registry_spec [OF r] by (simp add: lifted_def sw)
  next
    case False
    then have "quarantine_get (en_state recovering_engine) k = None" by (simp add: quarantine_get_def recovering_engine_def)
    then show ?thesis using registry_spec [OF r] by simp
  qed
  have "st_quarantined (en_state e1) = []"
  proof (cases "st_quarantined (en_state e1)")
    case (Cons x xs)
    then show ?thesis using q [of "fst x"] by (simp add: quarantine_get_def)
  qed
  then have "quarantine_reprobe finished_pass e1 = e1" by (simp add: quarantine_reprobe_def lapsed_entries_def)
  then show ?thesis using s q sw by (simp add: enforce_all_def)
qed


theorem watchdog_keeps_disk_limits_witness:
  "committed (en_state (quarantine_pass sample_pass sample_engine)) ''/d'' \<le> max (committed (en_state sample_engine) ''/d'') 1000000"
proof -
  have "disk_wf sample_engine"
    by (auto simp: sample_engine_def disk_wf_def wf_state_def hm_wf_def committed_def weight_total_def all_torrents_def
        sample_torrent_def disk_weight_def limit_bytes_def PER_TORRENT_SIZE_BUFFER_def)
  from watchdog_keeps_disk_limits [OF this, of sample_pass] show ?thesis
    by (simp add: sample_engine_def limit_bytes_def)
qed

theorem rearm_until_spaced_witness:
  "100 + int (max 50 70) \<le> rearm_until 10000 100 50 70 \<or> rearm_until 10000 100 50 70 = min (100 + weeks 520) 10000"
  by (rule rearm_until_spaced) simp_all

end
