(* ===== verification/Run.thy ===== *)
theory Run
  imports Watchdog Live
begin

text \<open>
  The life of the daemon: \<open>Engine::new_with_options\<close>, the periodic \<open>log_and_save_runtime\<close> and the run loop
  of \<open>src/engine/scan.rs\<close>, which interleaves scans, statistics and watchdog passes.

  The loop is a labelled step function on its state; a run is any sequence of enabled events, with arbitrary
  inputs from the network, the session, the file system and the clock.  The theorems lift the guarantees of one
  scan and of one watchdog pass to whole runs, from boot on.
\<close>

section \<open>Boot\<close>

datatype boot_error =
    InvalidConfig config_error | BadStorage resolve_error | CannotCreate string | BadState string
  | NoHttpClient | MaxRamOverCap | NoSession string

record boot_inputs =
  bo_canonicalize :: "string \<Rightarrow> string option"
  bo_statvfs :: statvfs
  bo_mkdir :: "string \<Rightarrow> bool"
  bo_state_file :: read_outcome
  bo_save :: saver
  bo_scrape_cache :: "(string \<times> stored_entry) list option"
  bo_http_client :: bool
  bo_announce :: "(string \<times> string) result"
  bo_system_ram :: nat
  bo_log2 :: "f64 \<Rightarrow> f64"
  bo_session :: "unit result"
  bo_hist_env :: hist_env
  bo_hist_live :: "string option"
  bo_hist_prev :: "string option"
  bo_resume :: world

fun first_uncreated :: "(string \<Rightarrow> bool) \<Rightarrow> string list \<Rightarrow> string option" where
  "first_uncreated mkdir [] = None"
| "first_uncreated mkdir (p # ps) = (if mkdir p then first_uncreated mkdir ps else Some p)"

text \<open>The announce URLs: a failure to resolve the key is not fatal.\<close>

definition boot_announce :: "boot_inputs \<Rightarrow> config \<Rightarrow> string \<times> string" where
  "boot_announce inp cfg =
     (if cfg_api_key cfg = [] then ([], []) else case bo_announce inp of Inr p \<Rightarrow> p | Inl _ \<Rightarrow> ([], []))"

definition boot_engine :: "boot_inputs \<Rightarrow> config \<Rightarrow> state \<Rightarrow> nat \<Rightarrow> nat \<Rightarrow> engine" where
  "boot_engine inp cfg st bud max_torrents =
     \<lparr>en_cfg = cfg, en_state = st, en_blocklist = blocklist_new (cfg_keyword_blocklist cfg),
      en_user_announce = fst (boot_announce inp cfg), en_user_announce_ipv6 = snd (boot_announce inp cfg),
      en_max_torrents = max_torrents, en_ram_budget = bud,
      en_size_bias = size_bias_for_ratio (bo_log2 inp) bud (disk_limit_total cfg), en_live = None,
      en_history = writer_new (bo_hist_env inp) (bo_hist_live inp) (bo_hist_prev inp),
      en_swarm = cache_load (sc_interval (cfg_scan cfg)) (bo_scrape_cache inp), en_detector = detector_new,
      en_last_catalog = None, en_trace = []\<rparr>"

definition engine_new :: "boot_inputs \<Rightarrow> config \<Rightarrow> boot_error + engine" where
  "engine_new inp cfg =
     (case validate (bo_canonicalize inp) cfg of
        Inl e \<Rightarrow> Inl (InvalidConfig e)
      | Inr _ \<Rightarrow>
     case resolve_all_limits (bo_canonicalize inp) (bo_statvfs inp) cfg of
        Inl e \<Rightarrow> Inl (BadStorage e)
      | Inr cfg \<Rightarrow>
     case first_uncreated (bo_mkdir inp) (cfg_data_dir cfg # map sl_path (cfg_storage cfg)) of
        Some p \<Rightarrow> Inl (CannotCreate p)
      | None \<Rightarrow>
     case state_load (bo_state_file inp) of
        Inl e \<Rightarrow> Inl (BadState e)
      | Inr st \<Rightarrow>
          (let st = snd (rekey_storage_locations (bo_save inp) (bo_canonicalize inp) (map sl_path (cfg_storage cfg)) st);
               (bud, hard_cap, max_torrents) = max_torrents_for_budget (bo_system_ram inp) (cfg_max_ram cfg)
           in if \<not> bo_http_client inp then Inl NoHttpClient
              else if 0 < bo_system_ram inp \<and> 0 < cfg_max_ram cfg \<and> hard_cap < cfg_max_ram cfg then Inl MaxRamOverCap
              else case bo_session inp of
                     Inl e \<Rightarrow> Inl (NoSession e)
                   | Inr _ \<Rightarrow> Inr (resume_held (bo_resume inp) (boot_engine inp cfg st bud max_torrents))))"

text \<open>The handle: attached by the command, or made by the loop when there is none.\<close>

definition attach_live :: "engine \<Rightarrow> engine" where
  "attach_live e = e\<lparr>en_live := Some (quarantine_count (en_state e), snapshot_entries (en_state e))\<rparr>"

text \<open>The handle the loop makes for itself starts with a quarantine count of zero.\<close>

definition ensure_live_server :: "engine \<Rightarrow> engine" where
  "ensure_live_server e = (case en_live e of Some _ \<Rightarrow> e | None \<Rightarrow> e\<lparr>en_live := Some (0, snapshot_entries (en_state e))\<rparr>)"

section \<open>Runtime statistics\<close>

record log_inputs =
  li_session :: session_report
  li_utc :: instant
  li_now :: instant
  li_statm :: "string option"
  li_walk :: "string \<Rightarrow> nat"
  li_save_ok :: bool

record run_state =
  rn_engine :: engine
  rn_snapshot :: "snapshot json_file"
  rn_started_at :: instant
  rn_deadline :: instant
  rn_completed_seen :: "string set"
  rn_runtime :: "runtime_stats json_file"
  rn_log :: string

definition locations_of :: "engine \<Rightarrow> (string \<times> nat) list" where
  "locations_of e = map (\<lambda>l. (sl_path l, limit_bytes l)) (cfg_storage (en_cfg e))"

definition log_and_save_runtime :: "log_inputs \<Rightarrow> run_state \<Rightarrow> run_state" where
  "log_and_save_runtime li s =
     (let e = rn_engine s;
          held = all_torrents (en_state e);
          finished_now = map se_hash (filter se_finished (sr_torrents (li_session li)));
          (used, cap) = disk_usage (li_walk li) (locations_of e);
          rs = collect (li_session li) (li_utc li) (li_now li) (rn_started_at s) (li_statm li) (length held)
                 (min (length finished_now) (length held)) (quarantine_count (en_state e)) used cap
                 (wrap64 (sum_list (map t_size_bytes held)))
      in s\<lparr>rn_log := (if cfg_log_file (en_cfg e) \<noteq> None then snd (cap_text_file MAX_LOG_BYTES (rn_log s)) else rn_log s),
           rn_completed_seen := snd (report_completions finished_now (rn_completed_seen s)),
           rn_runtime := snd (save_runtime (li_save_ok li) rs (rn_runtime s))\<rparr>)"

section \<open>The loop\<close>

definition run_start :: "log_inputs \<Rightarrow> instant \<Rightarrow> instant \<Rightarrow> snapshot json_file \<Rightarrow> runtime_stats json_file \<Rightarrow> string \<Rightarrow> engine \<Rightarrow> run_state" where
  "run_start li started_at now snap rt lg e =
     (let s = log_and_save_runtime li \<lparr>rn_engine = ensure_live_server e, rn_snapshot = snap, rn_started_at = started_at,
                rn_deadline = 0, rn_completed_seen = {}, rn_runtime = rt, rn_log = lg\<rparr>
      in s\<lparr>rn_deadline := now + int (delay_until_next_scan (sc_interval (cfg_scan (en_cfg e))) now snap)\<rparr>)"

text \<open>
  \<open>ScanDue now inputs log fin\<close>: the deadline has passed at \<open>now\<close>, the scan and its statistics are over at
  \<open>fin\<close>.  The other two arms are disabled by a zero interval.
\<close>

datatype run_event =
    ScanDue instant scan_inputs log_inputs instant
  | StatsTick log_inputs
  | WatchdogTick watchdog_inputs

fun run_step :: "run_event \<Rightarrow> run_state \<Rightarrow> run_state option" where
  "run_step (ScanDue now inp li fin) s =
     (if now < rn_deadline s \<or> fin < now then None
      else let out = scan_once inp (rn_engine s) (rn_snapshot s);
               s = log_and_save_runtime li (s\<lparr>rn_engine := so_engine out, rn_snapshot := so_snapshot out\<rparr>)
           in Some (s\<lparr>rn_deadline := next_deadline (sc_interval (cfg_scan (en_cfg (rn_engine s))))
                (is_ok (so_result out)) fin (so_snapshot out)\<rparr>))"
| "run_step (StatsTick li) s =
     (if cfg_stats_interval (en_cfg (rn_engine s)) = 0 then None else Some (log_and_save_runtime li s))"
| "run_step (WatchdogTick inp) s =
     (if sc_quarantine_check_interval (cfg_scan (en_cfg (rn_engine s))) = 0 then None
      else Some (s\<lparr>rn_engine := quarantine_pass inp (rn_engine s)\<rparr>))"

inductive run_trace :: "run_state \<Rightarrow> run_event list \<Rightarrow> run_state \<Rightarrow> bool" where
  start: "run_trace s [] s"
| step: "run_trace s evs s' \<Longrightarrow> run_step ev s' = Some s'' \<Longrightarrow> run_trace s (evs @ [ev]) s''"

text \<open>The metadata the events of a run come with has at least one piece per torrent.\<close>

fun event_metas_wf :: "run_event \<Rightarrow> bool" where
  "event_metas_wf (ScanDue now inp li fin) \<longleftrightarrow> (\<forall>k h. metas_wf (si_act inp k h))"
| "event_metas_wf (StatsTick li) \<longleftrightarrow> True"
| "event_metas_wf (WatchdogTick inp) \<longleftrightarrow> (\<forall>h. metas_wf (wi_probe inp h))"


section \<open>Lemmas\<close>

lemma log_and_save_frame [simp]:
  "rn_engine (log_and_save_runtime li s) = rn_engine s" "rn_snapshot (log_and_save_runtime li s) = rn_snapshot s"
  "rn_deadline (log_and_save_runtime li s) = rn_deadline s"
  by (simp_all add: log_and_save_runtime_def Let_def case_prod_beta)

lemma step_cases:
  assumes "run_step ev s = Some s'"
  obtains (scan) now inp li fin where "ev = ScanDue now inp li fin" "rn_deadline s \<le> now" "now \<le> fin"
      "rn_engine s' = so_engine (scan_once inp (rn_engine s) (rn_snapshot s))"
      "fin + int (secs 60) \<le> rn_deadline s'"
    | (stats) li where "ev = StatsTick li" "rn_engine s' = rn_engine s" "rn_deadline s' = rn_deadline s"
    | (watchdog) inp where "ev = WatchdogTick inp" "rn_engine s' = quarantine_pass inp (rn_engine s)" "rn_deadline s' = rn_deadline s"
proof (cases ev)
  case (ScanDue now inp li fin)
  then have "rn_deadline s \<le> now \<and> now \<le> fin" "rn_engine s' = so_engine (scan_once inp (rn_engine s) (rn_snapshot s))"
    
    and d: "rn_deadline s' = next_deadline (sc_interval (cfg_scan (en_cfg (rn_engine s')))) (is_ok (so_result (scan_once inp (rn_engine s) (rn_snapshot s))))
      fin (so_snapshot (scan_once inp (rn_engine s) (rn_snapshot s)))"
    using assms by (auto simp: Let_def split: if_splits)
  moreover have "fin + int (secs 60) \<le> next_deadline i ok fin f" for i ok f by (simp add: next_deadline_def)
  then have "fin + int (secs 60) \<le> rn_deadline s'" unfolding d .
  ultimately show ?thesis using scan ScanDue by auto
next
  case (StatsTick li)
  then show ?thesis using assms stats by (auto split: if_splits)
next
  case (WatchdogTick inp)
  then show ?thesis using assms watchdog by (auto split: if_splits)
qed

text \<open>An invariant of every scan and every watchdog pass holds along a run.\<close>

context holdings_invariant
begin

lemma run_step_kept:
  assumes "run_step ev s = Some s'" "wf_state (en_state (rn_engine s))"
    and "\<And>now inp li fin k h. ev = ScanDue now inp li fin \<Longrightarrow> si_act inp k h \<in> worlds"
    and "\<And>inp h. ev = WatchdogTick inp \<Longrightarrow> wi_probe inp h \<in> worlds"
  shows "\<exists>n. P (rn_engine s) n (rn_engine s')"
  using assms(1)
proof (cases rule: step_cases)
  case (scan now inp li fin)
  then show ?thesis using scanned [OF _ assms(2), of inp "rn_snapshot s"] assms(3) by auto
next
  case (stats li)
  then show ?thesis using started [OF assms(2) shrinks_refl] by auto
next
  case (watchdog inp)
  then show ?thesis using watched [OF assms(2), of inp] assms(4) by auto
qed

end

lemma run_step_count:
  assumes "run_step ev s = Some s'" "wf_state (en_state (rn_engine s))"
  shows "same_static (rn_engine s) (rn_engine s')" "wf_state (en_state (rn_engine s'))"
    "length (all_torrents (en_state (rn_engine s'))) \<le> max (length (all_torrents (en_state (rn_engine s)))) (en_max_torrents (rn_engine s))"
  using count_hold.run_step_kept [OF assms] by (auto simp: count_inv_def)

text \<open>What a run preserves, relative to its first state.\<close>

definition disk_kept :: "engine \<Rightarrow> engine \<Rightarrow> bool" where
  "disk_kept e0 e \<longleftrightarrow> disk_wf e \<and> same_static e0 e \<and>
     (\<forall>loc \<in> set (cfg_storage (en_cfg e0)). committed (en_state e) (sl_path loc) \<le> max (committed (en_state e0) (sl_path loc)) (limit_bytes loc)) \<and>
     length (all_torrents (en_state e)) \<le> max (length (all_torrents (en_state e0))) (en_max_torrents e0)"

lemma disk_kept_step:
  assumes "disk_kept e0 (rn_engine s)" "run_step ev s = Some s'"
  shows "disk_kept e0 (rn_engine s')"
proof -
  let ?e = "rn_engine s" and ?e' = "rn_engine s'"
  have wf: "disk_wf ?e" "wf_state (en_state ?e)" and st: "same_static e0 ?e" using assms(1) by (auto simp: disk_kept_def disk_wf_def)
  note c = run_step_count [OF assms(2) wf(2)]
  have cfg: "en_cfg ?e' = en_cfg ?e" "en_cfg ?e = en_cfg e0" "en_max_torrents ?e = en_max_torrents e0"
    using c(1) st by (auto simp: same_static_def)
  have d: "committed (en_state ?e') (sl_path loc) \<le> max (committed (en_state ?e) (sl_path loc)) (limit_bytes loc)"
    if "loc \<in> set (cfg_storage (en_cfg e0))" for loc
    using disk_hold.run_step_kept [OF assms(2) wf(2)] wf(1) that cfg by (auto simp: disk_holdings_def disk_inv_def)
  have k: "committed (en_state ?e') (sl_path loc) \<le> max (committed (en_state e0) (sl_path loc)) (limit_bytes loc)"
    if "loc \<in> set (cfg_storage (en_cfg e0))" for loc
  proof -
    have "committed (en_state ?e) (sl_path loc) \<le> max (committed (en_state e0) (sl_path loc)) (limit_bytes loc)"
      using assms(1) that by (simp add: disk_kept_def)
    with d [OF that] show ?thesis by linarith
  qed
  have "limit_bytes loc < u64_max \<and> committed (en_state ?e') (sl_path loc) \<le> u64_max" if "loc \<in> set (cfg_storage (en_cfg e0))" for loc
    using wf(1) d [OF that] that cfg(2) by (fastforce simp: disk_wf_def)
  then have "disk_wf ?e'" using wf(1) c(2) cfg by (simp add: disk_wf_def)
  moreover have "length (all_torrents (en_state ?e')) \<le> max (length (all_torrents (en_state e0))) (en_max_torrents e0)"
    using c(3) assms(1) cfg(3) by (auto simp: disk_kept_def)
  ultimately show ?thesis using k same_static_trans [OF st c(1)] by (simp add: disk_kept_def)
qed

lemma disk_kept_trace: "run_trace s evs s' \<Longrightarrow> disk_wf (rn_engine s) \<Longrightarrow> disk_kept (rn_engine s) (rn_engine s')"
proof (induction rule: run_trace.induct)
  case (start s)
  then show ?case by (auto simp: disk_kept_def)
next
  case (step s evs s' ev s'')
  then show ?case using disk_kept_step by blast
qed

lemma ram_kept_trace:
  "run_trace s evs s' \<Longrightarrow> wf_state (en_state (rn_engine s)) \<Longrightarrow> en_ram_budget (rn_engine s) \<le> u64_max \<Longrightarrow> list_all event_metas_wf evs \<Longrightarrow>
   ram_inv (rn_engine s) (rn_engine s')"
proof (induction rule: run_trace.induct)
  case (start s)
  then show ?case by (simp add: ram_inv_def)
next
  case (step s evs s' ev s'')
  let ?e0 = "rn_engine s"
  have i: "ram_inv ?e0 (rn_engine s')" "event_metas_wf ev" using step by auto
  then have b: "en_ram_budget (rn_engine s') = en_ram_budget ?e0" "wf_state (en_state (rn_engine s'))" by (auto simp: ram_inv_def same_static_def)
  have "\<exists>n. ram_holdings (rn_engine s') n (rn_engine s'')"
    by (rule ram_hold.run_step_kept [OF step(2) b(2)]) (use i(2) in auto)
  then have "ram_inv (rn_engine s') (rn_engine s'')" using b(1) step.prems(2) by (simp add: ram_holdings_def)
  then show ?case using i(1) b(1) same_static_trans [of ?e0 "rn_engine s'" "rn_engine s''"] by (auto simp: ram_inv_def)
qed

text \<open>The deadline only moves when a scan ends.\<close>

fun is_scan :: "run_event \<Rightarrow> bool" where
  "is_scan (ScanDue _ _ _ _) = True"
| "is_scan _ = False"

lemma deadline_kept: "run_trace s evs s' \<Longrightarrow> list_all (\<lambda>ev. \<not> is_scan ev) evs \<Longrightarrow> rn_deadline s' = rn_deadline s"
proof (induction rule: run_trace.induct)
  case (step s evs s' ev s'')
  from step(2) show ?case using step.IH step.prems by (cases rule: step_cases) auto
qed simp


text \<open>Boot, taken apart.\<close>

lemma engine_new_ok:
  assumes "engine_new inp cfg = Inr e"
  obtains cfg' st bud hard_cap maxt where "validate (bo_canonicalize inp) cfg = Inr ()"
    and "resolve_all_limits (bo_canonicalize inp) (bo_statvfs inp) cfg = Inr cfg'" and "state_load (bo_state_file inp) = Inr st"
    and "max_torrents_for_budget (bo_system_ram inp) (cfg_max_ram cfg') = (bud, hard_cap, maxt)"
    and "0 < bo_system_ram inp \<Longrightarrow> cfg_max_ram cfg' \<le> hard_cap"
    and "en_state e = snd (rekey_storage_locations (bo_save inp) (bo_canonicalize inp) (map sl_path (cfg_storage cfg')) st)"
    and "en_cfg e = cfg'" "en_ram_budget e = bud" "en_max_torrents e = maxt"
proof -
  from assms obtain cfg' where c: "validate (bo_canonicalize inp) cfg = Inr ()"
    "resolve_all_limits (bo_canonicalize inp) (bo_statvfs inp) cfg = Inr cfg'"
    by (auto simp: engine_new_def split: sum.splits)
  note [simp del] = first_uncreated.simps
  have m: "first_uncreated (bo_mkdir inp) (cfg_data_dir cfg' # map sl_path (cfg_storage cfg')) = None"
    using assms c by (cases "first_uncreated (bo_mkdir inp) (cfg_data_dir cfg' # map sl_path (cfg_storage cfg'))") (simp_all add: engine_new_def)
  obtain st where s: "state_load (bo_state_file inp) = Inr st"
    using assms c m by (cases "state_load (bo_state_file inp)") (simp_all add: engine_new_def)
  obtain bud hard_cap maxt where b: "max_torrents_for_budget (bo_system_ram inp) (cfg_max_ram cfg') = (bud, hard_cap, maxt)"
    by (metis surj_pair)
  let ?st = "snd (rekey_storage_locations (bo_save inp) (bo_canonicalize inp) (map sl_path (cfg_storage cfg')) st)"
  from assms c m s b have e: "e = resume_held (bo_resume inp) (boot_engine inp cfg' ?st bud maxt)"
    and over: "\<not> (0 < bo_system_ram inp \<and> 0 < cfg_max_ram cfg' \<and> hard_cap < cfg_max_ram cfg')"
    by (auto simp: engine_new_def Let_def split: sum.splits if_splits)
  have "en_state e = ?st \<and> same_static (boot_engine inp cfg' ?st bud maxt) e"
    unfolding e resume_held_def using resume_frame by (metis boot_engine_def engine.select_convs(2))
  then show thesis using that [OF c s b] over by (auto simp: same_static_def boot_engine_def)
qed

lemma rekey_holdings:
  "map t_info_hash (all_torrents (snd (rekey_storage_locations sv can locs st))) = map t_info_hash (all_torrents st)"
  "wf_state st \<Longrightarrow> wf_state (snd (rekey_storage_locations sv can locs st))"
proof -
  have h: "t_info_hash (rekey_torrent can locs t) = t_info_hash t" for t by (auto simp: rekey_torrent_def split: option.splits)
  have m: "st_torrents (snd (rekey_storage_locations sv can locs st)) = map (\<lambda>(h, t). (h, rekey_torrent can locs t)) (st_torrents st)"
    "st_quarantined (snd (rekey_storage_locations sv can locs st)) = st_quarantined st"
    by (simp_all add: rekey_storage_locations_def Let_def save_def)
  show "map t_info_hash (all_torrents (snd (rekey_storage_locations sv can locs st))) = map t_info_hash (all_torrents st)"
    by (simp add: all_torrents_def m h split_beta)
  show "wf_state st \<Longrightarrow> wf_state (snd (rekey_storage_locations sv can locs st))"
    by (auto simp: wf_state_def m hm_wf_def split_beta comp_def h)
qed

section \<open>Properties\<close>

text \<open>C11. An engine that boots runs a validated configuration whose locations are distinct and resolved, holds
  exactly the torrents of the state file, and plans within the RAM budget: a configured \<open>max_ram\<close> above the
  hard cap is refused where the system RAM is known.\<close>

theorem boot_sound:
  assumes "engine_new inp cfg = Inr e" "state_load (bo_state_file inp) = Inr st" "wf_state st"
  shows "valid_config (bo_canonicalize inp) cfg \<and>
    map sl_path (cfg_storage (en_cfg e)) = map (canonical (bo_canonicalize inp) \<circ> sl_path) (cfg_storage cfg) \<and>
    distinct (map sl_path (cfg_storage (en_cfg e))) \<and> wf_state (en_state e) \<and>
    map t_info_hash (all_torrents (en_state e)) = map t_info_hash (all_torrents st) \<and>
    (0 < bo_system_ram inp \<longrightarrow> en_ram_budget e \<le> fst (snd (max_torrents_for_budget (bo_system_ram inp) (cfg_max_ram cfg))) \<and>
      (0 < cfg_max_ram cfg \<longrightarrow> en_ram_budget e = cfg_max_ram cfg))"
  using assms(1)
proof (rule engine_new_ok)
  fix cfg' st' bud hard_cap maxt
  assume a: "validate (bo_canonicalize inp) cfg = Inr ()" "resolve_all_limits (bo_canonicalize inp) (bo_statvfs inp) cfg = Inr cfg'"
    "state_load (bo_state_file inp) = Inr st'" "max_torrents_for_budget (bo_system_ram inp) (cfg_max_ram cfg') = (bud, hard_cap, maxt)"
    "0 < bo_system_ram inp \<Longrightarrow> cfg_max_ram cfg' \<le> hard_cap"
    "en_state e = snd (rekey_storage_locations (bo_save inp) (bo_canonicalize inp) (map sl_path (cfg_storage cfg')) st')"
    "en_cfg e = cfg'" "en_ram_budget e = bud" "en_max_torrents e = maxt"
  have "cfg_max_ram cfg' = cfg_max_ram cfg" using a(2) by (auto simp: resolve_all_limits_def split: sum.splits)
  then have m: "max_torrents_for_budget (bo_system_ram inp) (cfg_max_ram cfg) = (bud, hard_cap, maxt)" using a(4) by simp
  from \<open>cfg_max_ram cfg' = cfg_max_ram cfg\<close> a(4,5) have "0 < bo_system_ram inp \<longrightarrow> bud \<le> hard_cap \<and> (0 < cfg_max_ram cfg \<longrightarrow> bud = cfg_max_ram cfg)"
    by (auto simp: max_torrents_for_budget_def Let_def split: if_splits)
  moreover have "valid_config (bo_canonicalize inp) cfg" using a(1) by (simp add: validate_iff)
  moreover have "st' = st" using a(3) assms(2) by simp
  moreover have "wf_state (en_state e)" "map t_info_hash (all_torrents (en_state e)) = map t_info_hash (all_torrents st)"
    unfolding a(6) \<open>st' = st\<close> using rekey_holdings assms(3) by blast+
  moreover have "map sl_path (cfg_storage cfg') = map (canonical (bo_canonicalize inp) \<circ> sl_path) (cfg_storage cfg)"
    "distinct (map sl_path (cfg_storage cfg'))"
    using resolve_all_limits_spec [OF a(2)] by blast+
  ultimately show ?thesis using a(7,8) m by simp
qed

text \<open>C2. A whole run, from its start, through any interleaving of scans, statistics and watchdog passes and with
  any behaviour of the network, the session, the file systems and the clock: no location is ever committed past
  its limit or past what was committed there at the start, and the torrent count never exceeds the cap or the
  count at the start.\<close>

theorem run_keeps_limits:
  assumes "run_trace (run_start li started now snap rt lg e) evs s" "disk_wf e"
  shows "(\<forall>loc \<in> set (cfg_storage (en_cfg e)).
      committed (en_state (rn_engine s)) (sl_path loc) \<le> max (committed (en_state e) (sl_path loc)) (limit_bytes loc)) \<and>
    length (all_torrents (en_state (rn_engine s))) \<le> max (length (all_torrents (en_state e))) (en_max_torrents e) \<and>
    en_cfg (rn_engine s) = en_cfg e \<and> wf_state (en_state (rn_engine s))"
proof -
  let ?e = "ensure_live_server e"
  have s: "rn_engine (run_start li started now snap rt lg e) = ?e" by (simp add: run_start_def Let_def)
  have e: "en_state ?e = en_state e" "en_cfg ?e = en_cfg e" "en_max_torrents ?e = en_max_torrents e"
    by (simp_all add: ensure_live_server_def split: option.splits)
  have "disk_wf ?e" using assms(2) e by (simp add: disk_wf_def)
  then have "disk_kept ?e (rn_engine s)" using disk_kept_trace [OF assms(1)] s by simp
  then show ?thesis using e by (auto simp: disk_kept_def disk_wf_def same_static_def)
qed

text \<open>C3. Likewise the memory price of the holdings stays within the RAM budget, or at what it was at the start.\<close>

theorem run_keeps_ram_budget:
  assumes "run_trace s evs s'" "wf_state (en_state (rn_engine s))" "en_ram_budget (rn_engine s) \<le> u64_max" "list_all event_metas_wf evs"
  shows "ram_used (peer_limit_for_budget (en_ram_budget (rn_engine s))) (en_state (rn_engine s')) \<le>
    max (ram_used (peer_limit_for_budget (en_ram_budget (rn_engine s))) (en_state (rn_engine s))) (en_ram_budget (rn_engine s))"
  using ram_kept_trace [OF assms] by (simp add: ram_inv_def)

text \<open>C12. The loop cannot spin: whatever runs in between, and whether scans succeed or fail, a scan starts at least
  60 seconds after the end of the one before.\<close>

theorem scans_spaced:
  assumes "run_step (ScanDue t1 inp1 li1 fin1) s1 = Some s2" "run_trace s2 evs s3" "list_all (\<lambda>ev. \<not> is_scan ev) evs"
    and "run_step (ScanDue t2 inp2 li2 fin2) s3 = Some s4"
  shows "t1 \<le> fin1 \<and> fin1 + int (secs 60) \<le> t2 \<and> t2 \<le> fin2"
proof -
  have "t1 \<le> fin1 \<and> fin1 + int (secs 60) \<le> rn_deadline s2" using assms(1) by (cases rule: step_cases) auto
  moreover have "rn_deadline s3 \<le> t2 \<and> t2 \<le> fin2" using assms(4) by (cases rule: step_cases) auto
  ultimately show ?thesis using deadline_kept [OF assms(2,3)] by simp
qed


section \<open>Examples\<close>

definition boot_config :: config where
  "boot_config = sample_config\<lparr>cfg_storage := [\<lparr>sl_path = ''/d'', sl_limit = Bytes 1000000000\<rparr>]\<rparr>"

definition sample_boot :: boot_inputs where
  "sample_boot = \<lparr>bo_canonicalize = (\<lambda>_. None), bo_statvfs = (\<lambda>_. None), bo_mkdir = (\<lambda>_. True), bo_state_file = State_Store.NotFound,
     bo_save = (\<lambda>_. True), bo_scrape_cache = None, bo_http_client = True, bo_announce = Inl ''offline'', bo_system_ram = 0,
     bo_log2 = (\<lambda>x. x), bo_session = Inr (), bo_hist_env = sample_env, bo_hist_live = None, bo_hist_prev = None,
     bo_resume = sample_world\<rparr>"

lemma boot_config_valid: "validate (\<lambda>_. None) boot_config = Inr ()"
  using sample_config_valid
  by (simp add: validate_iff valid_config_def boot_config_def valid_location_def MIN_STORAGE_LIMIT_def duration_knobs_def)

lemma all_created [simp]: "first_uncreated (\<lambda>_. True) ps = None"
  by (induction ps) auto

lemma sample_boots: "\<exists>e. engine_new sample_boot boot_config = Inr e"
proof -
  have "resolve_all_limits (\<lambda>_. None) (\<lambda>_. None) boot_config = Inr boot_config"
    by (simp add: boot_config_def resolve_all_limits_def resolve_location_def canonical_def Let_def)
  then show ?thesis
    using boot_config_valid by (simp add: engine_new_def sample_boot_def Let_def split_beta)
qed

theorem boot_sound_witness:
  "\<exists>e. engine_new sample_boot boot_config = Inr e \<and> wf_state (en_state e) \<and> all_torrents (en_state e) = []"
proof -
  obtain e where e: "engine_new sample_boot boot_config = Inr e" using sample_boots by blast
  have st: "state_load (bo_state_file sample_boot) = Inr \<lparr>st_torrents = [], st_quarantined = [], st_disk = None\<rparr>"
    "wf_state \<lparr>st_torrents = [], st_quarantined = [], st_disk = None\<rparr>"
    by (simp_all add: sample_boot_def wf_state_def)
  from boot_sound [OF e st] e show ?thesis by (simp add: all_torrents_def)
qed

definition sample_log :: log_inputs where
  "sample_log = \<lparr>li_session = sample_report, li_utc = 0, li_now = 0, li_statm = None, li_walk = (\<lambda>_. 0), li_save_ok = True\<rparr>"

abbreviation sample_run :: run_state where
  "sample_run \<equiv> run_start sample_log 0 0 NoFile NoFile [] sample_engine"

lemma sample_disk_wf: "disk_wf sample_engine"
  by (auto simp: sample_engine_def disk_wf_def wf_state_def hm_wf_def committed_def weight_total_def all_torrents_def
      sample_torrent_def disk_weight_def limit_bytes_def PER_TORRENT_SIZE_BUFFER_def)

lemma sample_run_engine: "rn_engine sample_run = ensure_live_server sample_engine" "rn_deadline sample_run = 0"
  by (simp_all add: run_start_def Let_def delay_until_next_scan_def load_snapshot_def snapshot_default_def)

lemma sample_scan_runs: "\<exists>s. run_step (ScanDue 5 sample_inputs sample_log 9) sample_run = Some s"
  using sample_run_engine by (simp add: Let_def)

lemma sample_trace: "\<exists>s. run_trace sample_run [ScanDue 5 sample_inputs sample_log 9] s"
  using sample_scan_runs run_trace.step [OF run_trace.start, of "ScanDue 5 sample_inputs sample_log 9" sample_run] by auto

theorem run_keeps_limits_witness:
  "\<exists>s. run_trace sample_run [ScanDue 5 sample_inputs sample_log 9] s \<and>
     committed (en_state (rn_engine s)) ''/d'' \<le> max (committed (en_state sample_engine) ''/d'') 1000000"
proof -
  obtain s where s: "run_trace sample_run [ScanDue 5 sample_inputs sample_log 9] s" using sample_trace by blast
  from run_keeps_limits [OF s sample_disk_wf] s show ?thesis by (auto simp: sample_engine_def limit_bytes_def)
qed

theorem run_keeps_ram_budget_witness:
  "\<exists>s. run_trace sample_run [ScanDue 5 sample_inputs sample_log 9] s \<and>
     ram_used (peer_limit_for_budget 100000000) (en_state (rn_engine s)) \<le>
       max (ram_used (peer_limit_for_budget 100000000) (en_state sample_engine)) 100000000"
proof -
  obtain s where s: "run_trace sample_run [ScanDue 5 sample_inputs sample_log 9] s" using sample_trace by blast
  have e: "en_state (rn_engine sample_run) = en_state sample_engine" "en_ram_budget (rn_engine sample_run) = 100000000"
    unfolding sample_run_engine by (simp_all add: ensure_live_server_def sample_engine_def)
  have "metas_wf (si_act sample_inputs k h)" for k h
    by (simp add: metas_wf_def meta_of_def sample_inputs_def sample_world_def sample_meta_def)
  then have "list_all event_metas_wf [ScanDue 5 sample_inputs sample_log 9]" by simp
  from run_keeps_ram_budget [OF s _ _ this] s show ?thesis using sample_disk_wf by (auto simp: e disk_wf_def)
qed

theorem scans_spaced_witness:
  "\<exists>s2 s4 t2. run_step (ScanDue 5 sample_inputs sample_log 9) sample_run = Some s2 \<and>
     run_step (ScanDue t2 sample_inputs sample_log t2) s2 = Some s4 \<and> (5 :: int) \<le> 9 \<and> 9 + int (secs 60) \<le> t2"
proof -
  obtain s2 where s2: "run_step (ScanDue 5 sample_inputs sample_log 9) sample_run = Some s2" using sample_scan_runs by blast
  obtain s4 where s4: "run_step (ScanDue (rn_deadline s2) sample_inputs sample_log (rn_deadline s2)) s2 = Some s4" by (simp add: Let_def)
  from scans_spaced [OF s2 run_trace.start _ s4] s2 s4 show ?thesis by auto
qed

end
