(* ===== verification/Session.thy ===== *)
theory Session
  imports Buildinfo Config Ram
begin

text \<open>
  \<open>src/engine/session.rs\<close>: the options of the daemon's BitTorrent session and of the census's disposable one, and the
  three attempts at opening the former.  The \<open>librqbit\<close> crate's constructor is an argument, which says for each
  attempt and its options whether the session opens.
\<close>

section \<open>Definitions\<close>

definition USIZE_MAX :: nat where "USIZE_MAX = 18446744073709551615"

record listener =
  li_port :: nat
  li_ipv4_only :: bool
  li_max_pending :: nat

definition listener_options :: "nat \<Rightarrow> bool \<Rightarrow> listener" where
  "listener_options port ipv4_only = \<lparr>li_port = port, li_ipv4_only = ipv4_only, li_max_pending = USIZE_MAX\<rparr>"

definition nonzero_u32 :: "nat \<Rightarrow> nat option" where
  "nonzero_u32 v = (if v \<noteq> 0 \<and> v < 4294967296 then Some v else None)"

definition session_rate_limits :: "config \<Rightarrow> nat option \<times> nat option" where
  "session_rate_limits cfg = (nonzero_u32 (cfg_upload_rate_limit cfg), nonzero_u32 (cfg_download_rate_limit cfg))"

text \<open>The options that are set; a storage factory is the pooled one or the crate's.\<close>

record session_options =
  sx_listen :: listener
  sx_rates :: "nat option \<times> nat option"
  sx_peer_limit :: nat
  sx_dht :: bool
  sx_local_discovery :: bool
  sx_client :: string
  sx_peer_id :: "nat list"
  sx_ipv4_only :: bool
  sx_pooled :: bool

definition build_opts :: "string \<Rightarrow> nat list \<Rightarrow> config \<Rightarrow> nat \<Rightarrow> bool \<Rightarrow> session_options" where
  "build_opts version random cfg ram_budget ipv4_only =
     \<lparr>sx_listen = listener_options (cfg_port cfg) ipv4_only, sx_rates = session_rate_limits cfg,
      sx_peer_limit = peer_limit_for_budget ram_budget, sx_dht = False, sx_local_discovery = False,
      sx_client = seeder_user_agent version, sx_peer_id = make_peer_id random, sx_ipv4_only = ipv4_only, sx_pooled = True\<rparr>"

definition probe_opts :: "string \<Rightarrow> nat list \<Rightarrow> session_options" where
  "probe_opts version random =
     \<lparr>sx_listen = listener_options 0 False, sx_rates = (None, None), sx_peer_limit = 8, sx_dht = False,
      sx_local_discovery = False, sx_client = scraper_user_agent version, sx_peer_id = make_peer_id random,
      sx_ipv4_only = False, sx_pooled = False\<rparr>"

text \<open>The attempts, numbered from 1, each with fresh random bytes; the result and the seconds slept between them.\<close>

fun try_sessions :: "(nat \<Rightarrow> session_options \<Rightarrow> 's option) \<Rightarrow> (nat \<Rightarrow> bool \<Rightarrow> session_options) \<Rightarrow> (nat \<times> bool) list \<Rightarrow> string \<Rightarrow> 's result \<times> nat" where
  "try_sessions opens opts [] last_err = (Inl last_err, 0)"
| "try_sessions opens opts ((attempt, ipv4_only) # as) last_err =
     (case opens attempt (opts attempt ipv4_only) of
        Some s \<Rightarrow> (Inr s, 0)
      | None \<Rightarrow>
          (let err = ''creating rqbit session (attempt '' @ show_nat attempt @ ''/3, '' @ (if ipv4_only then ''ipv4-only'' else ''dualstack'') @ '')'';
               slept = (if attempt < 3 then 10 else 0);
               (r, more) = try_sessions opens opts as err
           in (r, slept + more)))"

definition new_seeder_session ::
  "string \<Rightarrow> (nat \<Rightarrow> nat list) \<Rightarrow> (nat \<Rightarrow> session_options \<Rightarrow> 's option) \<Rightarrow> config \<Rightarrow> nat \<Rightarrow> 's result \<times> nat" where
  "new_seeder_session version random opens cfg ram_budget =
     try_sessions opens (\<lambda>i ipv4_only. build_opts version (random i) cfg ram_budget ipv4_only)
       [(1, False), (2, True), (3, False)] ''session creation never attempted''"

definition new_probe_session :: "string \<Rightarrow> nat list \<Rightarrow> (session_options \<Rightarrow> 's option) \<Rightarrow> 's result" where
  "new_probe_session version random opens = (case opens (probe_opts version random) of
      Some s \<Rightarrow> Inr s | None \<Rightarrow> Inl ''creating probe session'')"

text \<open>A stop that takes \<open>took\<close>, or never ends: when the bounded wait returns.\<close>

definition stop_session :: "duration option \<Rightarrow> duration \<Rightarrow> duration" where
  "stop_session took timeout = (case took of Some t \<Rightarrow> min t timeout | None \<Rightarrow> timeout)"

section \<open>Properties\<close>

text \<open>A configured rate limit reaches the session as it is or not at all: the session is unlimited exactly for the unset
  limit and for one of 4 GiB/s or more, and never runs at another rate than the configured one.\<close>

theorem session_limits_exact:
  "case session_rate_limits cfg of (up, down) \<Rightarrow>
     (up = None \<longleftrightarrow> cfg_upload_rate_limit cfg = 0 \<or> 2 ^ 32 \<le> cfg_upload_rate_limit cfg) \<and> up \<in> {None, Some (cfg_upload_rate_limit cfg)} \<and>
     (down = None \<longleftrightarrow> cfg_download_rate_limit cfg = 0 \<or> 2 ^ 32 \<le> cfg_download_rate_limit cfg) \<and> down \<in> {None, Some (cfg_download_rate_limit cfg)}"
  by (auto simp: session_rate_limits_def nonzero_u32_def)

text \<open>The daemon's session opens on the first of its three attempts that the crate accepts, dual stack, then IPv4 only,
  then dual stack again: it is restricted to IPv4 only after a dual-stack attempt failed, it fails exactly when all
  three do, and it sleeps ten seconds after each of the first two failures.\<close>

theorem session_attempts:
  "let attempt = (\<lambda>i ipv4_only. opens i (build_opts version (random i) cfg ram_budget ipv4_only))
   in case new_seeder_session version random opens cfg ram_budget of (r, slept) \<Rightarrow>
     (case r of
        Inr s \<Rightarrow> attempt 1 False = Some s \<and> slept = 0 \<or>
                 attempt 1 False = None \<and> attempt 2 True = Some s \<and> slept = 10 \<or>
                 attempt 1 False = None \<and> attempt 2 True = None \<and> attempt 3 False = Some s \<and> slept = 20
      | Inl _ \<Rightarrow> attempt 1 False = None \<and> attempt 2 True = None \<and> attempt 3 False = None \<and> slept = 20)"
  by (simp add: new_seeder_session_def Let_def split: option.split)

text \<open>The two sessions of the program never pass for each other: the census counts the daemon's and not its own.\<close>

theorem sessions_identified:
  assumes "CHR ''('' \<notin> set version"
  shows "is_keep_at_seeder (sx_client (build_opts version random cfg ram_budget ipv4_only)) \<and>
    \<not> is_keep_at_seeder (sx_client (probe_opts version random'))"
  using seeder_recognised [OF assms] scraper_not_seeder by (simp add: build_opts_def probe_opts_def)

theorem sessions_identified_witness:
  "is_keep_at_seeder (sx_client (build_opts ''0.2.0'' [] sample_config 0 False)) \<and> \<not> is_keep_at_seeder (sx_client (probe_opts ''0.2.0'' []))"
  using sessions_identified [of "''0.2.0''"] by simp

end
