(* ===== verification/Follow.thy ===== *)
theory Follow
  imports Splitting
begin

text \<open>
  Following a growing file, the loop that \<open>cmd_logs\<close> of \<open>src/logs.rs\<close> and \<open>cmd_history\<close> of \<open>src/history.rs\<close> both
  contain.  They differ in what they do with the bytes they read: \<open>accept\<close> is the buffer one round gets from the
  rest of the file.
\<close>

section \<open>Definitions\<close>

definition newline :: char where
  "newline = CHR 0x0A"

definition rfind :: "'a \<Rightarrow> 'a list \<Rightarrow> nat option" where
  "rfind c s = (if c \<in> set s then Some (length s - 1 - length (takeWhile (\<lambda>x. x \<noteq> c) (rev s))) else None)"

definition complete_len :: "string \<Rightarrow> nat" where
  "complete_len s = (case rfind newline s of Some i \<Rightarrow> i + 1 | None \<Rightarrow> 0)"

text \<open>What one round of the loop sees: the identity and length of the file, if it can be examined, and its bytes
  if it can be opened and read.\<close>

record poll =
  po_meta :: "((nat \<times> nat) \<times> nat) option"
  po_data :: "string option"

record follow =
  fo_pos :: nat
  fo_id :: "(nat \<times> nat) option"

text \<open>What it prints: the note that the file was replaced or shrank, and the complete lines it read.\<close>

datatype chunk = Restarted | Chunk string

definition follow_poll :: "(string \<Rightarrow> string) \<Rightarrow> poll \<Rightarrow> follow \<Rightarrow> (chunk list \<times> follow) result" where
  "follow_poll accept p f = (case po_meta p of
      None \<Rightarrow> Inr ([], f)
    | Some (i, len) \<Rightarrow>
        (let reset = len < fo_pos f \<or> (case fo_id f of Some prev \<Rightarrow> prev \<noteq> i | None \<Rightarrow> False);
             note = (if reset then [Restarted] else []);
             pos = (if reset then 0 else fo_pos f)
         in if len \<le> pos then Inr (note, \<lparr>fo_pos = pos, fo_id = Some i\<rparr>)
            else case po_data p of
                None \<Rightarrow> Inl ''reading''
              | Some data \<Rightarrow>
                  (let buf = accept (drop pos data); emit = take (complete_len buf) buf
                   in Inr (note @ [Chunk emit], \<lparr>fo_pos = pos + length emit, fo_id = Some i\<rparr>))))"

fun follow_polls :: "(string \<Rightarrow> string) \<Rightarrow> poll list \<Rightarrow> follow \<Rightarrow> (chunk list \<times> follow) result" where
  "follow_polls accept [] f = Inr ([], f)"
| "follow_polls accept (p # ps) f =
     (case follow_poll accept p f of
        Inl e \<Rightarrow> Inl e
      | Inr (out, f) \<Rightarrow> (case follow_polls accept ps f of Inl e \<Rightarrow> Inl e | Inr (out', f) \<Rightarrow> Inr (out @ out', f)))"

definition chunk_bytes :: "chunk \<Rightarrow> string" where
  "chunk_bytes k = (case k of Restarted \<Rightarrow> [] | Chunk s \<Rightarrow> s)"

text \<open>The rounds of a reader of a file that is only appended to: one identity, a length that never is below what
  was read before, and bytes that are an initial part of the final content.\<close>

fun appending :: "nat \<times> nat \<Rightarrow> nat \<Rightarrow> poll list \<Rightarrow> string \<Rightarrow> bool" where
  "appending i lo [] c = (lo \<le> length c)"
| "appending i lo (p # ps) c = (case po_meta p of
      None \<Rightarrow> appending i lo ps c
    | Some (j, len) \<Rightarrow> j = i \<and> lo \<le> len \<and>
        (case po_data p of Some d \<Rightarrow> len \<le> length d \<and> prefix d c \<and> appending i (length d) ps c | None \<Rightarrow> False))"

definition line_start :: "nat \<Rightarrow> string \<Rightarrow> bool" where
  "line_start pos c \<longleftrightarrow> pos \<le> length c \<and> complete_len (take pos c) = pos"

section \<open>Lemmas\<close>

lemma complete_len_snoc: "newline \<notin> set b \<Longrightarrow> complete_len (a @ newline # b) = Suc (length a)"
  by (simp add: complete_len_def rfind_def takeWhile_append takeWhile_eq_all_conv [THEN iffD2])

lemma complete_len_none [simp]: "newline \<notin> set s \<Longrightarrow> complete_len s = 0"
  by (simp add: complete_len_def rfind_def)

lemma complete_len_cases:
  obtains "newline \<notin> set s" "complete_len s = 0"
  | a b where "s = a @ newline # b" "newline \<notin> set b" "complete_len s = Suc (length a)"
  by (metis complete_len_none complete_len_snoc split_list_last)

lemma complete_len_le: "complete_len s \<le> length s"
  by (cases s rule: complete_len_cases) auto

lemma complete_len_append:
  "complete_len (a @ b) = (if newline \<in> set b then length a + complete_len b else complete_len a)"
proof (cases b rule: complete_len_cases)
  case 1
  then show ?thesis
  proof (cases a rule: complete_len_cases)
    case (2 x y)
    then show ?thesis using 1 complete_len_snoc [of "y @ b" x] by simp
  qed simp
next
  case (2 x y)
  then show ?thesis using complete_len_snoc [of y "a @ x"] by simp
qed

lemma complete_len_take: "complete_len (take (complete_len s) s) = complete_len s"
  by (cases s rule: complete_len_cases) (use complete_len_snoc [of "[]"] in auto)

lemma line_start_0 [simp]: "line_start 0 c"
  by (simp add: line_start_def)

lemma line_start_complete: "line_start (complete_len c) c"
  by (simp add: line_start_def complete_len_le complete_len_take)

lemma line_start_rest:
  assumes "line_start pos c"
  shows "complete_len c = pos + complete_len (drop pos c)"
  using assms complete_len_append [of "take pos c" "drop pos c"] by (auto simp: line_start_def)

lemma line_start_prefix:
  assumes "prefix d c" "pos \<le> length d"
  shows "line_start pos d \<longleftrightarrow> line_start pos c"
  using assms by (auto simp: line_start_def prefix_def)

lemma drop_take_append:
  assumes "x \<le> y" "y \<le> z" "z \<le> length c"
  shows "drop x (take y c) @ drop y (take z c) = drop x (take z c)"
  using assms take_add [of "y - x" "z - y" "drop x c"] by (simp add: drop_take)

text \<open>Every chunk is whole lines, whatever was read.\<close>

definition whole_lines :: "string \<Rightarrow> bool" where
  "whole_lines s \<longleftrightarrow> s = [] \<or> last s = newline"

lemma whole_lines_complete: "whole_lines (take (complete_len s) s)"
  by (cases s rule: complete_len_cases) (auto simp: whole_lines_def)

lemma line_start_whole: "line_start pos c \<Longrightarrow> whole_lines (take pos c)"
  using whole_lines_complete [of "take pos c"] by (simp add: line_start_def)

lemma follow_poll_chunks: "follow_poll accept p f = Inr (ks, f') \<Longrightarrow> k \<in> set ks \<Longrightarrow> whole_lines (chunk_bytes k)"
  using whole_lines_complete
  by (auto simp: follow_poll_def Let_def chunk_bytes_def whole_lines_def [of "[]"] split: option.splits if_splits)

lemma follow_polls_chunks: "follow_polls accept ps f = Inr (ks, f') \<Longrightarrow> k \<in> set ks \<Longrightarrow> whole_lines (chunk_bytes k)"
proof (induction ps arbitrary: f ks)
  case (Cons p ps)
  then show ?case using follow_poll_chunks by (fastforce split: sum.splits)
qed simp

section \<open>The reader\<close>

text \<open>A reader that takes the rest of the file or, for now, nothing; and the contents it always takes.\<close>

locale follower =
  fixes accept :: "string \<Rightarrow> string" and good :: "string \<Rightarrow> bool"
  assumes accept_all_or_nothing: "accept s = s \<or> accept s = []"
    and accept_good: "good c \<Longrightarrow> line_start pos c \<Longrightarrow> accept (drop pos c) = drop pos c"
begin

text \<open>A round that reads prints complete lines from where it stood, or waits.\<close>

lemma round_reads:
  assumes "po_meta p = Some (i, len)" "po_data p = Some d" "fo_pos f \<le> len" "fo_id f \<in> {None, Some i}" "len \<le> length d"
    and "line_start (fo_pos f) d"
  shows "\<exists>out f'. follow_poll accept p f = Inr (out, f') \<and> fo_id f' = Some i \<and> Restarted \<notin> set out \<and>
    concat (map chunk_bytes out) = drop (fo_pos f) (take (fo_pos f') d) \<and> fo_pos f \<le> fo_pos f' \<and> line_start (fo_pos f') d \<and>
    (good d \<longrightarrow> len = length d \<longrightarrow> fo_pos f' = complete_len d)"
proof (cases "fo_pos f < len")
  case False
  then have "fo_pos f = len" using assms(3) by simp
  moreover have "line_start len d \<Longrightarrow> len = length d \<Longrightarrow> len = complete_len d" by (simp add: line_start_def)
  ultimately show ?thesis using assms by (auto simp: follow_poll_def split: option.splits)
next
  case True
  let ?buf = "accept (drop (fo_pos f) d)"
  have e: "follow_poll accept p f = Inr ([Chunk (take (complete_len ?buf) ?buf)], \<lparr>fo_pos = fo_pos f + complete_len ?buf, fo_id = Some i\<rparr>)"
    using assms True complete_len_le [of ?buf] by (auto simp: follow_poll_def Let_def split: option.splits)
  show ?thesis
  proof (cases "?buf = drop (fo_pos f) d")
    case True
    then have "fo_pos f + complete_len ?buf = complete_len d" using line_start_rest [OF assms(6)] by simp
    then show ?thesis using e True line_start_complete [of d]
      by (auto simp: chunk_bytes_def take_drop add.commute)
  next
    case False
    then have "?buf = []" using accept_all_or_nothing by blast
    then show ?thesis using e False assms(6) accept_good by (auto simp: chunk_bytes_def)
  qed
qed

text \<open>However the rounds fall, the bytes printed are the file's own, in order, each once, up to a line end.\<close>

lemma reads_exactly:
  assumes "appending i lo ps c" "follow_polls accept ps f = Inr (out, f')" "fo_id f \<in> {None, Some i}"
    and "fo_pos f \<le> lo" "line_start (fo_pos f) c"
  shows "Restarted \<notin> set out \<and> concat (map chunk_bytes out) = drop (fo_pos f) (take (fo_pos f') c) \<and>
    fo_pos f \<le> fo_pos f' \<and> line_start (fo_pos f') c \<and>
    (good c \<and> ps \<noteq> [] \<and> po_meta (last ps) = Some (i, length c) \<longrightarrow> fo_pos f' = complete_len c)"
  using assms
proof (induction ps arbitrary: lo f out)
  case (Cons p ps)
  show ?case
  proof (cases "po_meta p")
    case None
    then have "follow_poll accept p f = Inr ([], f)" by (simp add: follow_poll_def)
    then show ?thesis using Cons.IH [of lo f] Cons.prems None by (cases ps) (auto split: sum.splits prod.splits)
  next
    case (Some m)
    then obtain len d where m: "po_meta p = Some (i, len)" "lo \<le> len" "po_data p = Some d" "len \<le> length d" "prefix d c"
      "appending i (length d) ps c" using Cons.prems(1) by (cases m) (auto split: option.splits)
    have s: "line_start (fo_pos f) d" using line_start_prefix [OF m(5)] Cons.prems(4,5) m(2,4) by simp
    obtain o1 f1 where r: "follow_poll accept p f = Inr (o1, f1)" "fo_id f1 = Some i" "Restarted \<notin> set o1"
      "concat (map chunk_bytes o1) = drop (fo_pos f) (take (fo_pos f1) d)" "fo_pos f \<le> fo_pos f1" "line_start (fo_pos f1) d"
      "good d \<longrightarrow> len = length d \<longrightarrow> fo_pos f1 = complete_len d"
      using round_reads [OF m(1,3) _ Cons.prems(3) m(4) s] Cons.prems(4) m(2) by auto
    obtain o2 where o2: "follow_polls accept ps f1 = Inr (o2, f')" "out = o1 @ o2"
      using Cons.prems(2) r(1) by (auto split: sum.splits)
    have l: "fo_pos f1 \<le> length d" using r(6) by (simp add: line_start_def)
    then have s1: "line_start (fo_pos f1) c" using line_start_prefix [OF m(5)] r(6) by simp
    note IH = Cons.IH [OF m(6) o2(1) _ l s1]
    have "take (fo_pos f1) d = take (fo_pos f1) c" using m(5) l by (auto simp: prefix_def)
    moreover have "fo_pos f1 \<le> fo_pos f'" "fo_pos f' \<le> length c" using IH r(2) by (auto simp: line_start_def)
    ultimately have "drop (fo_pos f) (take (fo_pos f1) d) @ drop (fo_pos f1) (take (fo_pos f') c) = drop (fo_pos f) (take (fo_pos f') c)"
      using drop_take_append [OF r(5)] by metis
    moreover have "fo_pos f' = complete_len c" if "good c" "ps = []" "po_meta p = Some (i, length c)"
    proof -
      have "d = c" using that m(1,4,5) by (auto simp: prefix_def)
      then show ?thesis using that m(1) r(7) o2 by simp
    qed
    ultimately show ?thesis using IH r(2-5) o2(2) by (cases "ps = []") auto
  qed
qed simp

end

end
