(* ===== verification/Logs.thy ===== *)
theory Logs
  imports Daemon Atomic_Write Follow
begin

text \<open>
  The \<open>logs\<close> command, \<open>src/logs.rs\<close>: which file it reads, the tail it prints first and the polling that follows
  the file.  Here a \<open>string\<close> is the bytes of a file or of its UTF-8 text.
\<close>

section \<open>UTF-8\<close>

text \<open>\<open>core::str::from_utf8\<close>, sequence by sequence: whether the bytes start with a well-formed one, and how many bytes
  the sequence, or the longest ill-formed start of one, takes.\<close>

definition continuation :: "char \<Rightarrow> bool" where
  "continuation b \<longleftrightarrow> 128 \<le> code b \<and> code b < 192"

definition second_byte :: "nat \<Rightarrow> char \<Rightarrow> bool" where
  "second_byte x b \<longleftrightarrow> continuation b \<and> (x = 224 \<longrightarrow> 160 \<le> code b) \<and> (x = 237 \<longrightarrow> code b < 160) \<and>
     (x = 240 \<longrightarrow> 144 \<le> code b) \<and> (x = 244 \<longrightarrow> code b < 144)"

fun continue_with :: "nat \<Rightarrow> nat \<Rightarrow> string \<Rightarrow> bool \<times> nat" where
  "continue_with 0 n r = (True, n)"
| "continue_with (Suc k) n [] = (False, n)"
| "continue_with (Suc k) n (b # r) = (if continuation b then continue_with k (Suc n) r else (False, n))"

definition utf8_head :: "string \<Rightarrow> bool \<times> nat" where
  "utf8_head s = (case s of
      [] \<Rightarrow> (True, 0)
    | a # r \<Rightarrow>
        (let x = code a
         in if x < 128 then (True, 1)
            else if x < 194 \<or> 244 < x then (False, 1)
            else case r of
                [] \<Rightarrow> (False, 1)
              | b # r \<Rightarrow>
                  if \<not> second_byte x b then (False, 1)
                  else continue_with (if x < 224 then 0 else if x < 240 then 1 else 2) 2 r))"

lemma continue_with_ge: "n \<le> snd (continue_with k n r)"
  by (induction k n r rule: continue_with.induct) auto

lemma utf8_head_pos: "s \<noteq> [] \<Longrightarrow> 0 < snd (utf8_head s)"
  using continue_with_ge [of 2]
  by (auto simp: utf8_head_def Let_def split: list.split) (metis Suc_1 Suc_le_D zero_less_Suc)+

function utf8_valid :: "string \<Rightarrow> bool" where
  "utf8_valid s = (if s = [] then True else fst (utf8_head s) \<and> utf8_valid (drop (snd (utf8_head s)) s))"
  by pat_completeness auto
termination
  by (relation "measure length") (use utf8_head_pos in auto)

text \<open>\<open>String::from_utf8_lossy\<close>.\<close>

definition replacement :: string where
  "replacement = [CHR 0xEF, CHR 0xBF, CHR 0xBD]"

function utf8_lossy :: "string \<Rightarrow> string" where
  "utf8_lossy s = (if s = [] then []
     else (if fst (utf8_head s) then take (snd (utf8_head s)) s else replacement) @ utf8_lossy (drop (snd (utf8_head s)) s))"
  by pat_completeness auto
termination
  by (relation "measure length") (use utf8_head_pos in auto)

declare utf8_valid.simps [simp del] utf8_lossy.simps [simp del]

section \<open>The log file\<close>

record logs_args =
  lg_common :: common_args
  lg_all :: bool
  lg_lines :: nat

definition service_config_snapshot :: "host \<Rightarrow> config option" where
  "service_config_snapshot h = (case service_config_if_present h of
      None \<Rightarrow> None
    | Some p \<Rightarrow> (case load_readonly h p of Inr cfg \<Rightarrow> Some cfg | Inl _ \<Rightarrow> None))"

definition resolve_log_path :: "host \<Rightarrow> bool \<Rightarrow> common_args \<Rightarrow> (string \<Rightarrow> mode option) \<Rightarrow> (cli_error + string) \<times> (string \<Rightarrow> mode option)" where
  "resolve_log_path h chmod_ok args modes =
     (case resolve_data_dir h args of
        Inl e \<Rightarrow> (Inl e, modes)
      | Inr dir \<Rightarrow>
          (Inr (case (case ca_config args of
                        None \<Rightarrow> None
                      | Some p \<Rightarrow> (case load_readonly h p of Inr cfg \<Rightarrow> cfg_log_file cfg | Inl _ \<Rightarrow> None)) of
                  Some l \<Rightarrow> l
                | None \<Rightarrow>
                    (case service_config_snapshot h of
                       Some cfg \<Rightarrow> (case cfg_log_file cfg of Some l \<Rightarrow> l | None \<Rightarrow> path_join dir ''keep-at.log'')
                     | None \<Rightarrow> path_join dir ''keep-at.log'')),
           ensure_shared_dirs chmod_ok dir modes))"

section \<open>Tail and follow\<close>

text \<open>The loop over the bytes from the end, here the reversed text: the offset after the newline it stops at.\<close>

fun count_back :: "nat \<Rightarrow> nat \<Rightarrow> string \<Rightarrow> nat option" where
  "count_back lines seen [] = None"
| "count_back lines seen (b # rest) =
     (if b = newline
      then if Suc seen = lines then Some (length rest + 1) else count_back lines (Suc seen) rest
      else count_back lines seen rest)"

text \<open>What is printed, and the follow position.\<close>

definition print_tail :: "string \<Rightarrow> nat \<Rightarrow> string \<times> nat" where
  "print_tail data lines =
     (let txt = utf8_lossy data; complete = take (complete_len txt) txt;
          start = (if lines = 0 then length complete
                   else case count_back lines 0 (rev complete) of Some i \<Rightarrow> i | None \<Rightarrow> 0)
      in (drop start complete, complete_len txt))"

text \<open>The buffer a round gets: \<open>read_to_string\<close> leaves it empty when the rest of the file is not UTF-8.\<close>

definition read_to_string :: "string \<Rightarrow> string" where
  "read_to_string rest = (if utf8_valid rest then rest else [])"

definition truncated_note :: string where
  "truncated_note = ''--- log truncated; following from the top ---'' @ [newline]"

definition show_chunk :: "chunk \<Rightarrow> string" where
  "show_chunk k = (case k of Restarted \<Rightarrow> truncated_note | Chunk s \<Rightarrow> s)"

text \<open>\<open>cmd_logs\<close>: all of the file, or its tail and what the rounds of the loop print until the operator ends it.\<close>

definition cmd_logs :: "host \<Rightarrow> bool \<Rightarrow> logs_args \<Rightarrow> (string \<Rightarrow> string option) \<Rightarrow> poll list \<Rightarrow> (string \<Rightarrow> mode option) \<Rightarrow>
    string result \<times> (string \<Rightarrow> mode option)" where
  "cmd_logs h chmod_ok args files polls modes =
     (case resolve_log_path h chmod_ok (lg_common args) modes of
        (Inl _, modes) \<Rightarrow> (Inl ''resolving the data directory'', modes)
      | (Inr path, modes) \<Rightarrow>
          ((case files path of
              None \<Rightarrow> Inl ''no log file''
            | Some data \<Rightarrow>
                if lg_all args then Inr data
                else (case print_tail data (lg_lines args) of
                        (out, pos) \<Rightarrow> (case follow_polls read_to_string polls \<lparr>fo_pos = pos, fo_id = None\<rparr> of
                            Inl e \<Rightarrow> Inl e | Inr (ks, _) \<Rightarrow> Inr (out @ concat (map show_chunk ks))))), modes))"

section \<open>Lemmas\<close>

lemma utf8_valid_step:
  "s \<noteq> [] \<Longrightarrow> utf8_valid s \<longleftrightarrow> fst (utf8_head s) \<and> utf8_valid (drop (snd (utf8_head s)) s)"
  by (subst utf8_valid.simps) simp

lemma utf8_lossy_valid: "utf8_valid s \<Longrightarrow> utf8_lossy s = s"
proof (induction s rule: utf8_lossy.induct)
  case (1 s)
  show ?case
  proof (cases "s = []")
    case False
    then have "fst (utf8_head s)" "utf8_valid (drop (snd (utf8_head s)) s)" using 1(2) utf8_valid_step by blast+
    then show ?thesis using 1(1) False by (subst utf8_lossy.simps) simp
  qed (simp add: utf8_lossy.simps)
qed

text \<open>A newline ends a sequence as the end of the text does, so lines are valid or not on their own.\<close>

lemma not_continuation_newline [simp]: "\<not> continuation newline" "\<not> second_byte x newline"
  by (simp_all add: second_byte_def continuation_def newline_def code_def)

lemma continue_with_newline: "continue_with k n (a @ newline # b) = continue_with k n a"
  by (induction k n a rule: continue_with.induct) auto

lemma continue_with_le: "snd (continue_with k n r) \<le> n + length r"
  by (induction k n r rule: continue_with.induct) auto

lemma utf8_head_newline: "a \<noteq> [] \<Longrightarrow> utf8_head (a @ newline # b) = utf8_head a"
  by (cases a rule: remdups_adj.cases) (auto simp: utf8_head_def Let_def continue_with_newline)

lemma utf8_head_le: "snd (utf8_head s) \<le> length s"
  using continue_with_le [of _ 2] by (cases s rule: remdups_adj.cases) (auto simp: utf8_head_def Let_def)

lemma utf8_valid_line: "utf8_valid (a @ newline # b) \<longleftrightarrow> utf8_valid a \<and> utf8_valid b"
proof (induction a rule: utf8_valid.induct)
  case (1 a)
  show ?case
  proof (cases "a = []")
    case True
    then show ?thesis
      using utf8_valid_step [of "newline # b"] by (simp add: utf8_valid.simps [of "[]"] utf8_head_def newline_def code_def)
  next
    case False
    then show ?thesis using 1 utf8_head_le [of a] by (simp add: utf8_valid_step utf8_head_newline)
  qed
qed

lemma utf8_valid_drop:
  assumes "utf8_valid c" "line_start pos c"
  shows "utf8_valid (drop pos c)"
proof (cases "take pos c" rule: complete_len_cases)
  case 1
  then show ?thesis using assms by (simp add: line_start_def)
next
  case (2 a b)
  moreover from this have "length a + Suc (length b) = pos" using assms(2) by (metis length_Cons length_append length_take line_start_def min.absorb2)
  moreover have "Suc (length a) = pos" using 2 assms(2) by (simp add: line_start_def)
  ultimately have "take pos c = a @ [newline]" by (cases b) auto
  then have "c = a @ newline # drop pos c" using append_take_drop_id [of pos c] by simp
  then show ?thesis using assms(1) utf8_valid_line by metis
qed

interpretation text_log: follower read_to_string utf8_valid
  by unfold_locales (auto simp: read_to_string_def utf8_valid_drop)

text \<open>Counting back from the end of complete lines.\<close>

definition lines_in :: "string \<Rightarrow> nat" where
  "lines_in s = length (filter (\<lambda>b. b = newline) s)"

lemma lines_in_simps [simp]:
  "lines_in [] = 0" "lines_in (a @ b) = lines_in a + lines_in b" "lines_in (x # s) = (if x = newline then 1 else 0) + lines_in s"
  by (simp_all add: lines_in_def)

lemma count_back_spec:
  "seen < lines \<Longrightarrow> case count_back lines seen (rev s) of
      None \<Rightarrow> seen + lines_in s < lines
    | Some i \<Rightarrow> \<exists>a b. s = a @ newline # b \<and> i = Suc (length a) \<and> seen + Suc (lines_in b) = lines"
proof (induction s arbitrary: seen rule: rev_induct)
  case (snoc x s)
  show ?case
  proof (cases "x = newline \<and> Suc seen = lines")
    case True
    then show ?thesis by (simp, intro exI [of _ s] exI [of _ "[]"]) simp
  next
    case False
    define seen' where "seen' = (if x = newline then Suc seen else seen)"
    have lt: "seen' < lines" and e: "count_back lines seen (rev (s @ [x])) = count_back lines seen' (rev s)"
      using False snoc.prems by (auto simp: seen'_def)
    show ?thesis
    proof (cases "count_back lines seen' (rev s)")
      case None
      then show ?thesis using snoc.IH [OF lt] e by (auto simp: seen'_def split: if_splits)
    next
      case (Some i)
      then obtain a b where ab: "s = a @ newline # b" "i = Suc (length a)" "seen' + Suc (lines_in b) = lines"
        using snoc.IH [OF lt] by auto
      have "\<exists>a b. s @ [x] = a @ newline # b \<and> i = Suc (length a) \<and> seen + Suc (lines_in b) = lines"
        by (intro exI [of _ a] exI [of _ "b @ [x]"]) (use ab in \<open>auto simp: seen'_def split: if_splits\<close>)
      then show ?thesis unfolding e Some by simp
    qed
  qed
qed simp

text \<open>Only what follows the last newline can differ in the lossy text.\<close>

lemma utf8_lossy_line: "utf8_lossy (a @ newline # b) = utf8_lossy a @ newline # utf8_lossy b"
proof (induction a rule: utf8_lossy.induct)
  case (1 a)
  show ?case
  proof (cases "a = []")
    case True
    then show ?thesis
      by (simp add: utf8_lossy.simps [of "[]"]) (subst utf8_lossy.simps, simp add: utf8_head_def newline_def code_def)
  next
    case False
    have "utf8_lossy (a @ newline # b) =
        (if fst (utf8_head a) then take (snd (utf8_head a)) a else replacement) @ utf8_lossy (drop (snd (utf8_head a)) a @ newline # b)"
      by (subst utf8_lossy.simps) (use False utf8_head_le [of a] in \<open>simp add: utf8_head_newline\<close>)
    then show ?thesis using 1 False by (simp add: utf8_lossy.simps [of a])
  qed
qed

lemma utf8_lossy_no_newline: "newline \<notin> set b \<Longrightarrow> newline \<notin> set (utf8_lossy b)"
proof (induction b rule: utf8_lossy.induct)
  case (1 b)
  have "newline \<notin> set replacement" by (simp add: replacement_def newline_def)
  then show ?case
    using 1 by (subst utf8_lossy.simps) (auto dest: in_set_takeD in_set_dropD)
qed

lemma lossy_complete:
  assumes "utf8_valid (take (complete_len data) data)"
  shows "complete_len (utf8_lossy data) = complete_len data \<and>
    take (complete_len data) (utf8_lossy data) = take (complete_len data) data"
proof (cases data rule: complete_len_cases)
  case 1
  then show ?thesis using utf8_lossy_no_newline by simp
next
  case (2 a b)
  have "utf8_valid a" using assms 2 utf8_valid_line [of a "[]"] by simp
  then have l: "utf8_lossy data = a @ newline # utf8_lossy b" using 2(1) utf8_lossy_line utf8_lossy_valid by simp
  have "complete_len (utf8_lossy data) = Suc (length a)"
    unfolding l by (rule complete_len_snoc) (rule utf8_lossy_no_newline [OF 2(2)])
  then show ?thesis using l 2 by simp
qed

lemma lines_in_none: "newline \<notin> set s \<Longrightarrow> lines_in s = 0"
  by (auto simp: lines_in_def filter_empty_conv)

lemma lines_in_complete: "lines_in (take (complete_len s) s) = lines_in s"
  by (cases s rule: complete_len_cases) (auto simp: lines_in_none)

lemma complete_len_start: "s \<noteq> [] \<Longrightarrow> last s = newline \<Longrightarrow> complete_len s = length s"
  by (cases s rule: rev_cases) (use complete_len_snoc [of "[]"] in auto)

lemma print_tail_core:
  assumes "utf8_valid (take (complete_len data) data)" "print_tail data lines = (out, pos)"
  shows "pos = complete_len data \<and>
    (\<exists>start. line_start start data \<and> start \<le> pos \<and> out = drop start (take pos data)) \<and>
    lines_in out = (if lines = 0 then 0 else if lines \<le> lines_in data then lines - 1 else lines_in data)"
proof -
  define comp where "comp = take (complete_len data) data"
  note lc = lossy_complete [OF assms(1), folded comp_def]
  have pos: "pos = complete_len data" using assms(2) lc by (simp add: print_tail_def Let_def split: if_splits option.splits)
  have len: "length comp = pos" using complete_len_le [of data] by (simp add: comp_def pos)
  have all: "lines_in comp = lines_in data" by (simp add: comp_def lines_in_complete)
  define start where "start = (if lines = 0 then length comp else case count_back lines 0 (rev comp) of Some i \<Rightarrow> i | None \<Rightarrow> 0)"
  have out: "out = drop start comp" using assms(2) lc by (auto simp: print_tail_def Let_def start_def)
  have "line_start start comp \<and> lines_in (drop start comp) = (if lines = 0 then 0 else if lines \<le> lines_in data then lines - 1 else lines_in data)"
  proof (cases "lines = 0")
    case True
    then show ?thesis using complete_len_take [of data] len by (simp add: start_def line_start_def comp_def pos)
  next
    case False
    then have s: "start = (case count_back lines 0 (rev comp) of Some i \<Rightarrow> i | None \<Rightarrow> 0)" by (simp add: start_def)
    note cb = count_back_spec [of 0 lines comp]
    show ?thesis
    proof (cases "count_back lines 0 (rev comp)")
      case None
      then show ?thesis using cb False s all by simp
    next
      case (Some i)
      then obtain a b where ab: "comp = a @ newline # b" "i = Suc (length a)" "Suc (lines_in b) = lines" using cb False by auto
      then have "lines \<le> lines_in data" using all by simp
      then show ?thesis using ab s Some False complete_len_snoc [of "[]" a] by (auto simp: line_start_def)
    qed
  qed
  moreover have "prefix comp data" by (simp add: comp_def take_is_prefix)
  ultimately show ?thesis
    using pos out len line_start_prefix [of comp data start] by (auto simp: comp_def line_start_def)
qed

section \<open>Properties\<close>

text \<open>The tail that \<open>logs\<close> prints first: whole lines from the end of the complete ones, after which following goes on
  from there.  Asked for \<open>n\<close> lines it prints one fewer, since the newline that ends the last line is counted,
  unless the log has fewer than \<open>n\<close> lines, all of which it prints.\<close>

theorem tail_prints_lines:
  assumes "utf8_valid (take (complete_len data) data)" "print_tail data lines = (out, pos)"
  shows "pos = complete_len data \<and>
    (\<exists>start. line_start start data \<and> start \<le> pos \<and> out = drop start (take pos data)) \<and>
    lines_in out = (if lines = 0 then 0 else if lines \<le> lines_in data then lines - 1 else lines_in data)"
  by (rule print_tail_core [OF assms])


text \<open>A line that is not UTF-8 stops the follower for good: a round that meets it prints nothing and stays.\<close>

lemma follow_stalls:
  assumes "\<not> utf8_valid line" "drop (fo_pos f) d = line @ newline # rest"
    and "po_meta p = Some (i, len)" "po_data p = Some d" "fo_pos f < len" "fo_id f \<in> {None, Some i}"
  shows "follow_poll read_to_string p f = Inr ([Chunk []], \<lparr>fo_pos = fo_pos f, fo_id = Some i\<rparr>)"
  using assms utf8_valid_line [of line rest] by (auto simp: follow_poll_def read_to_string_def Let_def split: option.splits)

text \<open>The log of a daemon that \<open>start\<close> spawned is found: by its configuration it is the file the daemon writes to, and by
  its data directory too, when no other log was configured for it and no service configuration names one.\<close>

theorem logs_of_started_daemon:
  assumes "cmd_start fg ct dir_ok key_ok cfg_ok exe_ok spawned cfg fs = (Spawned argv pid, fs')"
    and "valid_config (ho_canonicalize h) cfg"
    and "ho_read h (path_join (cfg_data_dir cfg) ''config.resolved.yaml'') = Contents (map_option fst (cf_config fs'))"
  shows "map_option Inr (cfg_log_file (logging_to_file cfg)) =
      Some (fst (resolve_log_path h chmod_ok \<lparr>ca_config = Some (path_join (cfg_data_dir cfg) ''config.resolved.yaml''), ca_data_dir = None\<rparr> modes)) \<and>
    (cfg_log_file cfg = None \<and> (case service_config_snapshot h of Some s \<Rightarrow> cfg_log_file s = None | None \<Rightarrow> True) \<longrightarrow>
      map_option Inr (cfg_log_file (logging_to_file cfg)) =
        Some (fst (resolve_log_path h chmod_ok \<lparr>ca_config = None, ca_data_dir = Some (cfg_data_dir cfg)\<rparr> modes)))"
proof -
  let ?c = "(logging_to_file cfg)\<lparr>cfg_api_key := []\<rparr>"
  have keyed: "valid_config (ho_canonicalize h) ((logging_to_file cfg)\<lparr>cfg_api_key := k\<rparr>)" for k
    using assms(2) by (simp add: valid_config_def duration_knobs_def logging_to_file_def)
  have "load_readonly h (path_join (cfg_data_dir cfg) ''config.resolved.yaml'') = Inr (merge_key_file (ho_key_file h (cfg_data_dir cfg)) ?c)"
    using assms(3) cmd_start_saved [OF assms(1)] keyed
    by (auto simp: load_readonly_def load_inner_iff merge_key_file_def Let_def split: option.split)
  moreover have "cfg_log_file (merge_key_file k c) = cfg_log_file c" "cfg_data_dir (merge_key_file k c) = cfg_data_dir c" for k c
    by (auto simp: merge_key_file_def Let_def split: option.split)
  moreover have "cfg_log_file (logging_to_file cfg) \<noteq> None" by (simp add: logging_to_file_def)
  ultimately show ?thesis
    by (auto simp: resolve_log_path_def resolve_data_dir_def split: option.splits) (auto simp: logging_to_file_def split: if_splits)
qed

section \<open>Examples\<close>

definition two_lines :: string where
  "two_lines = ''one'' @ [newline] @ ''two'' @ [newline]"

definition three_lines :: string where
  "three_lines = two_lines @ ''three'' @ [newline]"

lemma sample_logs_ok:
  "utf8_valid (take (complete_len two_lines) two_lines)" "complete_len two_lines = 8" "lines_in two_lines = 2"
  "utf8_valid three_lines" "prefix two_lines three_lines" "complete_len three_lines = 14"
  by code_simp+

theorem tail_prints_lines_witness: "lines_in (fst (print_tail two_lines 2)) = 1 \<and> snd (print_tail two_lines 2) = 8"
proof -
  obtain out pos where t: "print_tail two_lines 2 = (out, pos)" by fastforce
  then show ?thesis using tail_prints_lines [OF sample_logs_ok(1) t] sample_logs_ok by simp
qed

definition grown :: poll where
  "grown = \<lparr>po_meta = Some ((1, 1), 14), po_data = Some three_lines\<rparr>"


theorem logs_of_started_daemon_witness:
  "\<exists>h. fst (resolve_log_path h True \<lparr>ca_config = None, ca_data_dir = Some (cfg_data_dir sample_config)\<rparr> (\<lambda>_. None)) =
     Inr (path_join (cfg_data_dir sample_config) ''keep-at.log'')"
proof -
  define h where "h = op_host\<lparr>ho_read := (\<lambda>_. Contents (map_option fst (cf_config started_files)))\<rparr>"
  have v: "valid_config (ho_canonicalize h) sample_config" using sample_config_valid by (simp add: h_def op_host_def)
  have "cfg_log_file sample_config = None" "service_config_snapshot h = None"
    by (simp_all add: sample_config_def config_default_def service_config_snapshot_def service_config_if_present_def h_def op_host_def)
  with logs_of_started_daemon [OF sample_start v, of True "\<lambda>_. None"]
  show ?thesis by (intro exI [of _ h]) (auto simp: h_def logging_to_file_def)
qed

end
