(* ===== verification/Forensics.thy ===== *)
theory Forensics
  imports Logs Live Atomic_Write
begin

text \<open>
  \<open>src/forensics.rs\<close>: the marks a dying daemon leaves in its log, the heartbeat file, and the report the watchdog
  prints about the last exit.  The files of \<open>/proc\<close> and of the control group are a map from paths to the text read
  there, \<open>None\<close> when it cannot be read; the JSON encoder is an argument.
\<close>

section \<open>Signals\<close>

datatype disposition = SigDefault | SigIgnored | DeathMark

record process_signals =
  pg_disposition :: "int \<Rightarrow> disposition"
  pg_death_fd :: bool
  pg_log :: "string list"

definition SIG_NAMES :: "(int \<times> string) list" where
  "SIG_NAMES =
     [(11, ''death-mark: SIGSEGV (11) received''), (6, ''death-mark: SIGABRT (6) received''), (7, ''death-mark: SIGBUS (7) received''),
      (24, ''death-mark: SIGXCPU (24) received - cpu limit hit''), (1, ''death-mark: SIGHUP (1) received''),
      (3, ''death-mark: SIGQUIT (3) received'')]"

definition set_signal :: "int \<Rightarrow> disposition \<Rightarrow> process_signals \<Rightarrow> process_signals" where
  "set_signal sig d p = p\<lparr>pg_disposition := (pg_disposition p)(sig := d)\<rparr>"

definition install_signal_death_marks :: "bool \<Rightarrow> process_signals \<Rightarrow> process_signals" where
  "install_signal_death_marks log_ok p =
     (if \<not> log_ok then p
      else fold (\<lambda>(sig, _). set_signal sig DeathMark) SIG_NAMES (p\<lparr>pg_death_fd := True\<rparr>))"

text \<open>The handler: its mark, the default disposition, and the signal raised again.\<close>

definition death_mark_handler :: "int \<Rightarrow> process_signals \<Rightarrow> process_signals" where
  "death_mark_handler sig p =
     set_signal sig SigDefault (p\<lparr>pg_log := pg_log p @ (if pg_death_fd p then (case map_of SIG_NAMES sig of Some m \<Rightarrow> [m] | None \<Rightarrow> []) else [])\<rparr>)"

text \<open>A signal whose default action is to terminate: the process afterwards, and the signal it died of.\<close>

definition deliver :: "int \<Rightarrow> process_signals \<Rightarrow> process_signals \<times> int option" where
  "deliver sig p = (case pg_disposition p sig of
      SigDefault \<Rightarrow> (p, Some sig)
    | SigIgnored \<Rightarrow> (p, None)
    | DeathMark \<Rightarrow> (death_mark_handler sig p, Some sig))"

text \<open>The panic hook, and the abort that follows it in a release build.\<close>

datatype payload = Message string | OtherPayload

definition panic_line :: "string option \<Rightarrow> payload \<Rightarrow> string" where
  "panic_line loc msg = ''death-mark: PANIC at '' @ (case loc of Some l \<Rightarrow> l | None \<Rightarrow> ''?'') @ '': '' @
     (case msg of Message m \<Rightarrow> m | OtherPayload \<Rightarrow> ''unknown panic payload'')"

definition panic_hook :: "bool \<Rightarrow> string option \<Rightarrow> payload \<Rightarrow> process_signals \<Rightarrow> process_signals" where
  "panic_hook log_ok loc msg p = (if log_ok then p\<lparr>pg_log := pg_log p @ [panic_line loc msg]\<rparr> else p)"

section \<open>The control group\<close>

type_synonym proc_files = "string \<Rightarrow> string option"

text \<open>\<open>str::lines\<close>: no line after the last line feed, and no carriage return before one.\<close>

definition str_lines :: "string \<Rightarrow> string list" where
  "str_lines s =
     (let ls = split_on newline s; ended = butlast ls;
          strip = (\<lambda>l. if l \<noteq> [] \<and> last l = CHR 0x0D then butlast l else l)
      in map strip ended @ (if last ls = [] then [] else [last ls]))"

definition cgroup_v2_root :: "proc_files \<Rightarrow> string option" where
  "cgroup_v2_root files = (case files ''/proc/self/cgroup'' of
      None \<Rightarrow> None
    | Some data \<Rightarrow> (case find (\<lambda>l. starts_with l ''0::'') (str_lines data) of
        None \<Rightarrow> None
      | Some l \<Rightarrow> Some (path_join ''/sys/fs/cgroup'' (dropWhile (\<lambda>c. c = CHR ''/'') (trim (drop 3 l))))))"

definition or_zero :: "nat option \<Rightarrow> nat" where
  "or_zero n = (case n of Some n \<Rightarrow> n | None \<Rightarrow> 0)"

definition read_counter :: "proc_files \<Rightarrow> string \<Rightarrow> nat" where
  "read_counter files path = (case files path of None \<Rightarrow> 0 | Some s \<Rightarrow> or_zero (parse_u64 (trim s)))"

definition oom_kill_count :: "string \<Rightarrow> nat" where
  "oom_kill_count events = (case find (\<lambda>l. starts_with l ''oom_kill '') (str_lines events) of
      None \<Rightarrow> 0
    | Some l \<Rightarrow> or_zero (parse_u64 (trim (drop 9 l))))"

record cgroup_sample =
  cg_current :: nat
  cg_max :: nat
  cg_oom_kill :: nat
  cg_peak :: nat

definition cgroup_memory :: "proc_files \<Rightarrow> cgroup_sample option" where
  "cgroup_memory files = (case cgroup_v2_root files of
      None \<Rightarrow> None
    | Some base \<Rightarrow> Some
        \<lparr>cg_current = read_counter files (path_join base ''memory.current''), cg_max = read_counter files (path_join base ''memory.max''),
         cg_oom_kill = oom_kill_count (case files (path_join base ''memory.events'') of Some e \<Rightarrow> e | None \<Rightarrow> []),
         cg_peak = read_counter files (path_join base ''memory.peak'')\<rparr>)"

section \<open>Heartbeats\<close>

record heartbeat =
  hb_at :: instant
  hb_uptime_seconds :: nat
  hb_rss_bytes :: nat
  hb_open_fds :: nat
  hb_cgroup :: "cgroup_sample option"

text \<open>One tick: what it reads, the clocks, the open descriptors, and how the write of the file goes.\<close>

record heartbeat_tick =
  ht_files :: proc_files
  ht_at :: instant
  ht_now :: instant
  ht_fds :: "nat option"
  ht_okay :: "write_step \<Rightarrow> bool"
  ht_partial :: nat

definition heartbeat_of :: "instant \<Rightarrow> heartbeat_tick \<Rightarrow> heartbeat" where
  "heartbeat_of started_at t =
     \<lparr>hb_at = ht_at t, hb_uptime_seconds = (if started_at \<le> ht_now t then nat (ht_now t - started_at) div 1000000000 else 0),
      hb_rss_bytes = process_rss_bytes (ht_files t ''/proc/self/statm''), hb_open_fds = or_zero (ht_fds t),
      hb_cgroup = cgroup_memory (ht_files t)\<rparr>"

definition mib :: "nat \<Rightarrow> string" where
  "mib n = show_nat (n div 1024 div 1024) @ ''M''"

definition heartbeat_line :: "heartbeat \<Rightarrow> string" where
  "heartbeat_line hb = ''heartbeat rss='' @ mib (hb_rss_bytes hb) @ '' fds='' @ show_nat (hb_open_fds hb) @
     (case hb_cgroup hb of
        None \<Rightarrow> []
      | Some cg \<Rightarrow> '' cg.cur='' @ mib (cg_current cg) @ '' cg.max='' @ mib (cg_max cg) @ '' cg.oom_kill='' @ show_nat (cg_oom_kill cg) @
          '' cg.peak='' @ mib (cg_peak cg))"

definition heartbeat_path :: "string \<Rightarrow> string" where
  "heartbeat_path data_dir = path_join data_dir ''heartbeat.json''"

fun heartbeat_task :: "(heartbeat \<Rightarrow> string option) \<Rightarrow> string \<Rightarrow> instant \<Rightarrow> heartbeat_tick list \<Rightarrow> platter \<Rightarrow> string list \<times> platter" where
  "heartbeat_task encode data_dir started_at [] d = ([], d)"
| "heartbeat_task encode data_dir started_at (t # ts) d =
     (let hb = heartbeat_of started_at t;
          d = (case encode hb of
                 None \<Rightarrow> d
               | Some json \<Rightarrow> last (snd (atomic_write_mode (ht_okay t) (ht_partial t) (heartbeat_path data_dir) json 420 d)));
          (ls, d) = heartbeat_task encode data_dir started_at ts d
      in (heartbeat_line hb # ls, d))"

section \<open>Triage\<close>

text \<open>\<open>stamp\<close> is the time printed; the heartbeat file is one of the files.\<close>

definition oom_hint :: string where
  "oom_hint = ''verdict-hint: oom_kill counter is nonzero - the kernel OOM-killed something in this cgroup''"

definition print_triage_last_exit :: "string \<Rightarrow> string \<Rightarrow> proc_files \<Rightarrow> string list" where
  "print_triage_last_exit stamp data_dir files =
     (''triage-last-exit at='' @ stamp) #
     (case cgroup_memory files of
        None \<Rightarrow> []
      | Some cg \<Rightarrow> (''cgroup: current='' @ mib (cg_current cg) @ '' max='' @ mib (cg_max cg) @ '' oom_kill='' @ show_nat (cg_oom_kill cg) @
            '' peak='' @ mib (cg_peak cg)) # (if 0 < cg_oom_kill cg then [oom_hint] else [])) @
     (case files (heartbeat_path data_dir) of None \<Rightarrow> [] | Some body \<Rightarrow> [''last-heartbeat: '' @ read_to_string body])"

section \<open>Lemmas\<close>

lemma path_join_relative: "\<not> starts_with rel ''/'' \<Longrightarrow> path_join ''/sys/fs/cgroup'' rel = ''/sys/fs/cgroup/'' @ rel"
  by (simp add: path_join_def)

lemma trimmed_relative: "\<not> starts_with (dropWhile (\<lambda>c. c = CHR ''/'') s) ''/''"
  by (induction s) (auto simp: starts_with_def)

lemma marked_numbers: "map fst SIG_NAMES = [11, 6, 7, 24, 1, 3]"
  by (simp add: SIG_NAMES_def)

lemma marked_distinct: "distinct (map fst SIG_NAMES)"
  by (simp add: marked_numbers)

lemma sigpipe_unmarked: "13 \<notin> fst ` set SIG_NAMES"
  unfolding set_map [symmetric] marked_numbers by simp

lemma set_signals:
  "pg_disposition (fold (\<lambda>(sig, _). set_signal sig DeathMark) xs p) sig = (if sig \<in> fst ` set xs then DeathMark else pg_disposition p sig)"
  "pg_log (fold (\<lambda>(sig, _). set_signal sig DeathMark) xs p) = pg_log p"
  "pg_death_fd (fold (\<lambda>(sig, _). set_signal sig DeathMark) xs p) = pg_death_fd p"
  by (induction xs arbitrary: p) (auto simp: set_signal_def)

lemma marked_signals: "sig \<in> fst ` set SIG_NAMES \<Longrightarrow> pg_disposition (install_signal_death_marks True p) sig = DeathMark"
  by (simp add: install_signal_death_marks_def set_signals)

lemma marks_leave_others:
  "sig \<notin> fst ` set SIG_NAMES \<Longrightarrow> pg_disposition (install_signal_death_marks log_ok p) sig = pg_disposition p sig"
  by (simp add: install_signal_death_marks_def set_signals)

lemma marks_keep_log: "pg_log (install_signal_death_marks log_ok p) = pg_log p" "pg_death_fd (install_signal_death_marks True p)"
  by (simp_all add: install_signal_death_marks_def set_signals)

lemma heartbeat_saves:
  "snd (heartbeat_task encode data_dir started_at ts d) =
     saves (heartbeat_path data_dir) 420
       (List.map_filter (\<lambda>t. map_option (\<lambda>json. (ht_okay t, ht_partial t, json)) (encode (heartbeat_of started_at t))) ts) d"
  by (induction ts arbitrary: d) (auto simp: Let_def case_prod_beta List.map_filter_simps split: option.split)

lemma digit_not_space: "is_ascii_digit c \<Longrightarrow> \<not> is_whitespace c"
  by (auto simp: is_ascii_digit_def is_whitespace_def)

lemma trim_digits:
  assumes "list_all is_ascii_digit s"
  shows "trim s = s"
proof -
  have d: "dropWhile is_whitespace xs = xs" if "list_all is_ascii_digit xs" for xs
    using that by (cases xs) (auto simp: digit_not_space)
  have "list_all is_ascii_digit (rev s)" using assms by (simp add: list_all_iff)
  then show ?thesis by (simp add: trim_def d assms)
qed

lemma parse_show_u64:
  assumes "n \<le> u64_max"
  shows "parse_u64 (show_nat n) = Some n"
proof -
  have "\<not> starts_with (show_nat n) ''+''"
    using show_nat_digits [of n] by (cases "show_nat n") (auto simp: starts_with_def is_ascii_digit_def code_def)
  then show ?thesis using assms show_nat_digits [of n] by (simp add: parse_u64_def Let_def not_less)
qed

lemma find_after: "list_all (\<lambda>l. \<not> P l) a \<Longrightarrow> P x \<Longrightarrow> find P (a @ x # b) = Some x"
  by (induction a) auto

section \<open>Properties\<close>

text \<open>Death leaves a mark: after the handlers are installed, a fatal signal they cover kills the process with that same
  signal and appends exactly its own line to the log; installing them leaves the disposition of every other signal
  alone, SIGPIPE among them, so a broken pipe that was ignored still is.\<close>

theorem death_leaves_mark:
  assumes "(sig, mark) \<in> set SIG_NAMES" "pg_disposition p 13 = SigIgnored"
  shows "(case deliver sig (install_signal_death_marks True p) of (p', died) \<Rightarrow>
      died = Some sig \<and> pg_log p' = pg_log p @ [mark] \<and> pg_disposition p' sig = SigDefault) \<and>
    deliver 13 (install_signal_death_marks log_ok p) = (install_signal_death_marks log_ok p, None)"
proof -
  have "map_of SIG_NAMES sig = Some mark" using assms(1) by (simp add: map_of_is_SomeI marked_distinct)
  moreover have "sig \<in> fst ` set SIG_NAMES" using assms(1) by force
  ultimately show ?thesis
    using assms(2) sigpipe_unmarked by (simp add: deliver_def marked_signals marks_leave_others death_mark_handler_def set_signal_def marks_keep_log)
qed

text \<open>What a crash leaves of the heartbeat file is the file as it was before the task started or the complete encoding of
  one of its samples, whatever writes failed half-way.\<close>

theorem heartbeat_file_whole:
  assumes "platter_wf (heartbeat_path data_dir) d" "settled (heartbeat_path data_dir) d"
    and "survives (snd (heartbeat_task encode data_dir started_at ts d)) (heartbeat_path data_dir) c"
  shows "survives d (heartbeat_path data_dir) c \<or> (\<exists>t \<in> set ts. c = encode (heartbeat_of started_at t) \<and> c \<noteq> None)"
proof -
  let ?f = "\<lambda>t. map_option (\<lambda>json. (ht_okay t, ht_partial t, json)) (encode (heartbeat_of started_at t))"
  from saves_never_tear_core [OF assms(1,2) assms(3) [unfolded heartbeat_saves]]
  consider "survives d (heartbeat_path data_dir) c" | x where "x \<in> set (List.map_filter ?f ts)" "c = Some (snd (snd x))"
    by (auto simp: case_prod_beta)
  then show ?thesis
  proof cases
    case 2
    then obtain t where "t \<in> set ts" "?f t = Some x" by (auto simp: List.map_filter_def)
    then show ?thesis using 2(2) by (intro disjI2 bexI [of _ t]) auto
  qed simp
qed

text \<open>The report's verdict: with the counters of the control group readable, the hint that the kernel killed for memory is
  printed exactly when the first \<open>oom_kill\<close> line of the event file has a number other than zero; the files read lie
  below the root of the control groups.\<close>

theorem triage_verdict:
  assumes "cgroup_v2_root files = Some base" "files (path_join base ''memory.events'') = Some events"
    and "str_lines events = a @ (''oom_kill '' @ show_nat n) # b" "list_all (\<lambda>l. \<not> starts_with l ''oom_kill '') a" "n \<le> u64_max"
  shows "(oom_hint \<in> set (print_triage_last_exit stamp data_dir files) \<longleftrightarrow> 0 < n) \<and> starts_with base ''/sys/fs/cgroup/''"
proof -
  have "oom_kill_count events = n"
    using find_after [OF assms(4), of "''oom_kill '' @ show_nat n" b] assms(3,5) trim_digits [OF show_nat_digits]
    by (simp add: oom_kill_count_def parse_show_u64 or_zero_def starts_with_def)
  then have "\<exists>cg. cgroup_memory files = Some cg \<and> cg_oom_kill cg = n"
    using assms(1,2) by (simp add: cgroup_memory_def)
  moreover have "oom_hint \<noteq> ''triage-last-exit at='' @ x" "oom_hint \<noteq> ''cgroup: current='' @ x" "oom_hint \<noteq> ''last-heartbeat: '' @ x" for x
    by (simp_all add: oom_hint_def)
  moreover have "starts_with base ''/sys/fs/cgroup/''"
    using assms(1) by (auto simp: cgroup_v2_root_def path_join_relative [OF trimmed_relative] starts_with_def split: option.splits)
  ultimately show ?thesis by (auto simp: print_triage_last_exit_def split: option.split)
qed

section \<open>Examples\<close>

definition fresh_process :: process_signals where
  "fresh_process = \<lparr>pg_disposition = (\<lambda>sig. if sig = 13 then SigIgnored else SigDefault), pg_death_fd = False, pg_log = []\<rparr>"

theorem death_leaves_mark_witness:
  "pg_log (fst (deliver 7 (install_signal_death_marks True fresh_process))) = [''death-mark: SIGBUS (7) received''] \<and>
   snd (deliver 7 (install_signal_death_marks True fresh_process)) = Some 7 \<and>
   snd (deliver 13 (install_signal_death_marks True fresh_process)) = None"
  using death_leaves_mark [of 7 "''death-mark: SIGBUS (7) received''" fresh_process True]
  by (simp add: SIG_NAMES_def fresh_process_def case_prod_beta)

definition empty_platter :: platter where
  "empty_platter = \<lparr>dk_entries = (\<lambda>_. [None]), dk_inodes = (\<lambda>_. \<lparr>no_data = [], no_mode = 0, no_synced = True\<rparr>), dk_next = 0, dk_umask = 18\<rparr>"

definition quiet_tick :: heartbeat_tick where
  "quiet_tick = \<lparr>ht_files = (\<lambda>_. None), ht_at = 5, ht_now = 5, ht_fds = Some 4, ht_okay = (\<lambda>st. st \<noteq> SyncTmp), ht_partial = 1\<rparr>"

theorem heartbeat_file_whole_witness:
  "\<not> survives (snd (heartbeat_task (\<lambda>hb. Some (show_nat (hb_open_fds hb))) ''/d'' 0 [quiet_tick, quiet_tick] empty_platter))
     ''/d/heartbeat.json'' (Some ''44'')"
proof -
  have p: "heartbeat_path ''/d'' = ''/d/heartbeat.json''" by (simp add: heartbeat_path_def path_join_def starts_with_def)
  have w: "platter_wf (heartbeat_path ''/d'') empty_platter" "settled (heartbeat_path ''/d'') empty_platter"
    by (auto simp: empty_platter_def platter_wf_def settled_def dk_name_def)
  have "\<not> survives empty_platter (heartbeat_path ''/d'') (Some ''44'')" by (simp add: empty_platter_def survives_def)
  moreover have "show_nat 4 \<noteq> ''44''" by code_simp
  moreover have "hb_open_fds (heartbeat_of 0 quiet_tick) = 4" by (simp add: heartbeat_of_def quiet_tick_def or_zero_def)
  ultimately show ?thesis
    using heartbeat_file_whole [OF w, of "\<lambda>hb. Some (show_nat (hb_open_fds hb))" 0 "[quiet_tick, quiet_tick]" "Some ''44''"]
    unfolding p by auto
qed

definition killed_files :: proc_files where
  "killed_files = (\<lambda>path.
     if path = ''/proc/self/cgroup'' then Some (''0::/user'' @ [newline])
     else if path = ''/sys/fs/cgroup/user/memory.events''
     then Some (''low 0'' @ [newline] @ ''oom_kill 3'' @ [newline] @ ''oom_group_kill 0'' @ [newline]) else None)"

theorem triage_verdict_witness: "oom_hint \<in> set (print_triage_last_exit ''now'' ''/d'' killed_files)"
proof -
  have c: "cgroup_v2_root killed_files = Some ''/sys/fs/cgroup/user''" by code_simp
  have m: "killed_files (path_join ''/sys/fs/cgroup/user'' ''memory.events'') =
      Some (''low 0'' @ [newline] @ ''oom_kill 3'' @ [newline] @ ''oom_group_kill 0'' @ [newline])" by code_simp
  have l: "str_lines (''low 0'' @ [newline] @ ''oom_kill 3'' @ [newline] @ ''oom_group_kill 0'' @ [newline]) =
      [''low 0''] @ (''oom_kill '' @ show_nat 3) # [''oom_group_kill 0'']" by code_simp
  have o: "list_all (\<lambda>l. \<not> starts_with l ''oom_kill '') [''low 0'']" by code_simp
  have "(3::nat) \<le> u64_max" by simp
  from triage_verdict [OF c m l o this] show ?thesis by simp
qed

end
