(* ===== verification/History_View.thy ===== *)
theory History_View
  imports History Daemon Atomic_Write Follow
begin

text \<open>
  The \<open>history\<close> command, \<open>cmd_history\<close> of \<open>src/history.rs\<close>: the tail of the recorded events and the following of
  the file as the daemon records more.  Decoding an event and rendering it to lines are arguments; the second is
  \<open>render\<close> with its printers.
\<close>

section \<open>Definitions\<close>

record history_args =
  ha_common :: common_args
  ha_all :: bool
  ha_no_follow :: bool
  ha_lines :: nat

definition history_path :: "string \<Rightarrow> string" where
  "history_path data_dir = path_join data_dir ''history.jsonl''"

definition rotated_note :: string where
  "rotated_note = ''--- history rotated; following the new generation ---''"

definition print_events :: "(event \<Rightarrow> string list) \<Rightarrow> event list \<Rightarrow> string list" where
  "print_events show_event evs = concat (map show_event evs)"

text \<open>What one chunk of the follower prints: its lines are split and decoded as those of the file are, and the ones that
  do not decode are passed over.\<close>

definition print_chunk :: "(string \<Rightarrow> event option) \<Rightarrow> (event \<Rightarrow> string list) \<Rightarrow> chunk \<Rightarrow> string list" where
  "print_chunk decode show_event k = (case k of
      Restarted \<Rightarrow> [rotated_note] | Chunk s \<Rightarrow> print_events show_event (fst (parse_lines decode s)))"

text \<open>\<open>iter().rev().take(n).rev()\<close>.\<close>

definition last_n :: "nat \<Rightarrow> 'a list \<Rightarrow> 'a list" where
  "last_n n xs = rev (take n (rev xs))"

definition cmd_history :: "host \<Rightarrow> bool \<Rightarrow> history_args \<Rightarrow> (string \<Rightarrow> event option) \<Rightarrow> (event \<Rightarrow> string list) \<Rightarrow>
    (string \<Rightarrow> string option) \<Rightarrow> poll list \<Rightarrow> (string \<Rightarrow> mode option) \<Rightarrow> (string list \<times> nat) result \<times> (string \<Rightarrow> mode option)" where
  "cmd_history h chmod_ok args decode show_event files polls modes =
     (case resolve_data_dir h (ha_common args) of
        Inl _ \<Rightarrow> (Inl ''resolving the data directory'', modes)
      | Inr dir \<Rightarrow>
          ((case files (history_path dir) of
              None \<Rightarrow> Inl ''no history''
            | Some data \<Rightarrow>
                (let pos = complete_len data; (events, skipped) = parse_lines decode (take pos data)
                 in if ha_all args then Inr (print_events show_event events, skipped)
                    else let tail = print_events show_event (last_n (ha_lines args) events)
                         in if ha_no_follow args then Inr (tail, skipped)
                            else case follow_polls (\<lambda>buf. buf) polls \<lparr>fo_pos = pos, fo_id = None\<rparr> of
                                   Inl e \<Rightarrow> Inl e
                                 | Inr (ks, _) \<Rightarrow> Inr (tail @ concat (map (print_chunk decode show_event) ks), skipped))),
           ensure_shared_dirs chmod_ok dir modes))"

section \<open>Lemmas\<close>

interpretation byte_log: follower "\<lambda>buf. buf" "\<lambda>_. True"
  by unfold_locales auto

lemma last_n_drop: "last_n n xs = drop (length xs - n) xs"
  by (simp add: last_n_def take_rev)

lemma whole_complete: "whole_lines s = complete_lines s"
  by (simp add: whole_lines_def complete_lines_def newline_def)

lemma print_events_append [simp]: "print_events show_event (a @ b) = print_events show_event a @ print_events show_event b"
  by (simp add: print_events_def)

lemma parse_whole_append:
  "whole_lines s \<Longrightarrow> fst (parse_lines decode (s @ r)) = fst (parse_lines decode s) @ fst (parse_lines decode r)"
  using parse_lines_append [of s decode r] by (simp add: whole_complete case_prod_beta)

lemma print_chunks:
  assumes "\<And>k. k \<in> set ks \<Longrightarrow> whole_lines (chunk_bytes k)" "Restarted \<notin> set ks"
  shows "concat (map (print_chunk decode show_event) ks) =
    print_events show_event (fst (parse_lines decode (concat (map chunk_bytes ks))))"
  using assms
proof (induction ks)
  case Nil
  then show ?case by (simp add: parse_lines_def print_events_def)
next
  case (Cons k ks)
  then have w: "whole_lines (chunk_bytes k)" and "k \<noteq> Restarted" by auto
  then have "print_chunk decode show_event k = print_events show_event (fst (parse_lines decode (chunk_bytes k)))"
    by (cases k) (simp_all add: print_chunk_def chunk_bytes_def)
  then show ?case using Cons parse_whole_append [OF w, of decode "concat (map chunk_bytes ks)"] by simp
qed

section \<open>Properties\<close>

text \<open>Following the history shows every event once: while the daemon only appends, what the command prints is the last
  \<open>--lines\<close> events there were at first and every event recorded after, in order and none of them twice, up to the
  last complete line when a round has seen the final length; what is not an event is passed over.\<close>

theorem history_follow_exactly:
  assumes "cmd_history h chmod_ok args decode show_event files polls modes = (Inr (out, skipped), modes')"
    and "\<not> ha_all args" "\<not> ha_no_follow args" "resolve_data_dir h (ha_common args) = Inr dir"
    and "files (history_path dir) = Some data" "prefix data c" "appending i (length data) polls c"
  shows "\<exists>stop. line_start stop c \<and> complete_len data \<le> stop \<and>
    (polls \<noteq> [] \<and> po_meta (last polls) = Some (i, length c) \<longrightarrow> stop = complete_len c) \<and>
    out = print_events show_event
      (drop (length (fst (parse_lines decode (take (complete_len data) data))) - ha_lines args) (fst (parse_lines decode (take stop c))))"
proof -
  define pos where "pos = complete_len data"
  have le: "pos \<le> length data" by (simp add: pos_def complete_len_le)
  have ls: "line_start pos c" using line_start_prefix [OF assms(6)] line_start_complete [of data] le by (simp add: pos_def)
  have t: "take pos data = take pos c" using assms(6) le by (auto simp: prefix_def)
  obtain ks f where f: "follow_polls (\<lambda>buf. buf) polls \<lparr>fo_pos = pos, fo_id = None\<rparr> = Inr (ks, f)"
    and out: "out = print_events show_event (last_n (ha_lines args) (fst (parse_lines decode (take pos data)))) @
      concat (map (print_chunk decode show_event) ks)"
    using assms(1-5) by (auto simp: cmd_history_def pos_def Let_def case_prod_beta split: sum.splits)
  note r = byte_log.reads_exactly [OF assms(7) f, simplified, OF le ls]
  have "take (fo_pos f) c = take pos c @ drop pos (take (fo_pos f) c)"
    using r append_take_drop_id [of pos "take (fo_pos f) c"] by (simp add: min_absorb1)
  then have e: "fst (parse_lines decode (take (fo_pos f) c)) =
      fst (parse_lines decode (take pos c)) @ fst (parse_lines decode (drop pos (take (fo_pos f) c)))"
    using parse_whole_append [OF line_start_whole [OF ls]] by metis
  have "concat (map (print_chunk decode show_event) ks) = print_events show_event (fst (parse_lines decode (drop pos (take (fo_pos f) c))))"
    using print_chunks [of ks decode show_event] follow_polls_chunks [OF f] r by simp
  then show ?thesis
    using out t r e by (intro exI [of _ "fo_pos f"]) (auto simp: last_n_drop pos_def)
qed

section \<open>Examples\<close>

definition two_events :: string where
  "two_events = ''a'' @ [newline] @ ''x'' @ [newline]"

definition decode_x :: "string \<Rightarrow> event option" where
  "decode_x l = (if l = ''x'' then Some sample_event else None)"

theorem history_follow_exactly_witness:
  "\<exists>skipped modes. cmd_history op_host True \<lparr>ha_common = \<lparr>ca_config = None, ca_data_dir = Some ''/d''\<rparr>, ha_all = False, ha_no_follow = False, ha_lines = 1\<rparr>
      decode_x (\<lambda>_. [''line'']) (\<lambda>_. Some (''a'' @ [newline])) [\<lparr>po_meta = Some ((1, 1), 4), po_data = Some two_events\<rparr>] (\<lambda>_. None) =
     (Inr ([''line''], skipped), modes)"
proof -
  let ?a = "\<lparr>ha_common = \<lparr>ca_config = None, ca_data_dir = Some ''/d''\<rparr>, ha_all = False, ha_no_follow = False, ha_lines = 1\<rparr> :: history_args"
  let ?p = "\<lparr>po_meta = Some ((1, 1), 4), po_data = Some two_events\<rparr> :: poll"
  obtain r m where c: "cmd_history op_host True ?a decode_x (\<lambda>_. [''line'']) (\<lambda>_. Some (''a'' @ [newline])) [?p] (\<lambda>_. None) = (r, m)" by fastforce
  then obtain out skipped where r: "r = Inr (out, skipped)"
    by (auto simp: cmd_history_def resolve_data_dir_def follow_poll_def Let_def split: prod.splits sum.splits if_splits option.splits)
  have l: "complete_len two_events = 4" "fst (parse_lines decode_x two_events) = [sample_event]"
    "complete_len (''a'' @ [newline]) = 2" "fst (parse_lines decode_x (''a'' @ [newline])) = []"
    by code_simp+
  have "\<exists>stop. stop = 4 \<and> out = print_events (\<lambda>_. [''line'']) (fst (parse_lines decode_x (take stop two_events)))"
    using history_follow_exactly [OF c [unfolded r], of "''/d''" "''a'' @ [newline]" two_events "(1, 1)"] l
    by (auto simp: two_events_def resolve_data_dir_def)
  then have "out = [''line'']" using l by (simp add: two_events_def print_events_def)
  then show ?thesis using c r by blast
qed

end
