(* ===== verification/Program.thy ===== *)
theory Program
  imports Daemon Service Run Session Forensics History_View Census
begin

text \<open>
  The main program, \<open>src/bin/keep-at.rs\<close>: the command line's commands, the treatment of SIGPIPE, the boot sequence
  and the end of a run, and the service command.  The engine's own run is the subject of \<open>Run\<close>; here it is the time
  at which it ends and its result.
\<close>

section \<open>Commands\<close>

record run_args =
  rg_common :: common_args
  rg_cfg :: config_args
  rg_foreground :: bool

datatype service_op = Install common_args config_args string | Uninstall

datatype command =
    CmdRun run_args | CmdStart run_args | CmdStop common_args | CmdStatus common_args | CmdLogs logs_args
  | CmdHistory history_args | CmdService service_op | CmdNetworkStatus census_args | CmdHostedTorrents common_args
  | CmdSelfUpdate bool common_args | CmdTriageLastExit common_args | CmdVersion

fun restores_sigpipe_default :: "command \<Rightarrow> bool" where
  "restores_sigpipe_default (CmdStatus _) = True"
| "restores_sigpipe_default (CmdLogs _) = True"
| "restores_sigpipe_default (CmdHostedTorrents _) = True"
| "restores_sigpipe_default (CmdNetworkStatus _) = True"
| "restores_sigpipe_default CmdVersion = True"
| "restores_sigpipe_default (CmdTriageLastExit _) = True"
| "restores_sigpipe_default (CmdStop _) = True"
| "restores_sigpipe_default _ = False"

definition main_signals :: "command \<Rightarrow> process_signals \<Rightarrow> process_signals" where
  "main_signals cmd p = (if restores_sigpipe_default cmd then set_signal 13 SigDefault p else p)"

section \<open>Logging\<close>

text \<open>\<open>init_logging_to\<close>: the filter, where the lines go and the mode the file is left with.  \<open>env\<close> is a filter that the
  environment gives, \<open>left_mode\<close> the mode of the file once open, and the widening of it is best effort.\<close>

datatype log_sink = LogToFile string | LogToStdout

definition init_logging_to :: "string option \<Rightarrow> bool \<Rightarrow> bool \<Rightarrow> nat \<Rightarrow> bool \<Rightarrow> string option \<Rightarrow> string \<times> log_sink \<times> nat option" where
  "init_logging_to env opened chmod_ok left_mode debug log_file =
     (case env of Some f \<Rightarrow> f | None \<Rightarrow> if debug then ''debug'' else ''info'',
      case log_file of
        Some path \<Rightarrow> if opened then (LogToFile path, Some (if chmod_ok then 420 else left_mode)) else (LogToStdout, None)
      | None \<Rightarrow> (LogToStdout, None))"

text \<open>The arguments with which the commands set up logging; the printing commands do not.\<close>

definition main_logging :: "host \<Rightarrow> command \<Rightarrow> (bool \<times> string option) option" where
  "main_logging h cmd = (case cmd of
      CmdRun a \<Rightarrow> (case resolve h (rg_common a) (rg_cfg a) of Inl _ \<Rightarrow> None | Inr cfg \<Rightarrow> Some (cfg_debug cfg, cfg_log_file cfg))
    | CmdStart a \<Rightarrow> (case resolve h (rg_common a) (rg_cfg a) of Inl _ \<Rightarrow> None | Inr _ \<Rightarrow> Some (False, None))
    | CmdNetworkStatus _ \<Rightarrow> Some (False, None)
    | _ \<Rightarrow> None)"

section \<open>Boot\<close>

text \<open>The node's files and process state that the boot changes.\<close>

record node =
  nd_pids :: pid_files
  nd_config :: config_files
  nd_pointer :: "string option"
  nd_limits :: "(nat \<times> nat) option"
  nd_signals :: process_signals
  nd_stdio :: "string option"

text \<open>What a run meets: its process id, the outcome of each step that can fail, what it reads, when the engine ends
  and with what, when a signal arrives.\<close>

record run_world =
  rw_pid :: nat
  rw_dir_ok :: bool
  rw_pid_ok :: bool
  rw_stat_ok :: bool
  rw_chmod_ok :: bool
  rw_split_key_ok :: bool
  rw_split_cfg_ok :: bool
  rw_key_ok :: bool
  rw_etc_dir :: bool
  rw_pointer_ok :: bool
  rw_rlimit_ok :: bool
  rw_canonicalize :: "string \<Rightarrow> string option"
  rw_statvfs :: statvfs
  rw_state :: read_outcome
  rw_snapshot :: "runtime_stats json_file"
  rw_started :: instant
  rw_bound :: instant
  rw_log_ok :: bool
  rw_boot :: boot_inputs
  rw_ready :: instant
  rw_ends :: "(instant \<times> unit result) option"
  rw_signal :: "instant option"
  rw_engine_first :: bool
  rw_close :: "duration option"
  rw_pid_removed :: bool

definition prepare :: "run_world \<Rightarrow> config \<Rightarrow> string option \<Rightarrow> node \<Rightarrow> node" where
  "prepare w cfg config_path n =
     (let fs = (case config_path of
            Some _ \<Rightarrow> snd (split_inline_secret (rw_stat_ok w) (rw_chmod_ok w) True (rw_split_key_ok w) (rw_split_cfg_ok w) cfg (nd_config n))
          | None \<Rightarrow> nd_config n);
          fs = (if cfg_api_key cfg \<noteq> [] then snd (write_api_key_file (rw_key_ok w) cfg fs) else fs)
      in n\<lparr>nd_config := fs, nd_pointer := write_data_dir_pointer (rw_etc_dir w) (rw_pointer_ok w) (cfg_data_dir cfg) (nd_pointer n),
           nd_limits := raise_soft_limit (rw_rlimit_ok w) (nd_limits n)\<rparr>)"

definition booting_torrent :: "torrent \<Rightarrow> held_torrent_view" where
  "booting_torrent t = \<lparr>hv_title = t_title t, hv_info_hash = t_info_hash t, hv_size_bytes = t_size_bytes t, hv_progress_bytes = 0,
     hv_finished = False, hv_verifying = True, hv_last_known_seeders = t_last_known_seeders t\<rparr>"

text \<open>The handle the socket answers from while the engine boots; a state file that does not load is an empty one.\<close>

definition boot_handle :: "run_world \<Rightarrow> config \<Rightarrow> live_handle" where
  "boot_handle w cfg = booting_with_snapshot (rw_bound w) (rw_started w) (map (\<lambda>l. (sl_path l, limit_bytes l)) (cfg_storage cfg))
     (case state_load (rw_state w) of Inr st \<Rightarrow> map booting_torrent (all_torrents st) | Inl _ \<Rightarrow> []) (rw_snapshot w)"

definition log_path :: "config \<Rightarrow> string" where
  "log_path cfg = (case cfg_log_file cfg of Some l \<Rightarrow> l | None \<Rightarrow> path_join (cfg_data_dir cfg) ''keep-at.log'')"

definition redirect_stdio_to :: "bool \<Rightarrow> string \<Rightarrow> node \<Rightarrow> node" where
  "redirect_stdio_to opened path n = (if opened then n\<lparr>nd_stdio := Some path\<rparr> else n)"

definition harden :: "run_world \<Rightarrow> config \<Rightarrow> node \<Rightarrow> node" where
  "harden w cfg n =
     (let n = n\<lparr>nd_signals := set_signal 13 SigIgnored (nd_signals n)\<rparr>;
          n = redirect_stdio_to (rw_log_ok w) (log_path cfg) n
      in n\<lparr>nd_signals := install_signal_death_marks (rw_log_ok w) (nd_signals n)\<rparr>)"

text \<open>The race of the engine against the deadline, 20 seconds after the signal or after the start of the race when the
  signal came first; \<open>rw_engine_first\<close> decides a tie.\<close>

definition run_race :: "run_world \<Rightarrow> (instant \<times> unit result) option" where
  "run_race w = (case (rw_ends w, map_option (\<lambda>s. max s (rw_ready w) + int (secs 20)) (rw_signal w)) of
      (None, None) \<Rightarrow> None
    | (Some e, None) \<Rightarrow> Some e
    | (None, Some d) \<Rightarrow> Some (d, Inr ())
    | (Some (t, r), Some d) \<Rightarrow> if t < d \<or> t = d \<and> rw_engine_first w then Some (t, r) else Some (d, Inr ()))"

datatype run_end = BootFailed string | RunEnded "unit result" instant

text \<open>The end, when there is one, the handle once the socket is served, and the node.\<close>

definition cmd_run :: "run_world \<Rightarrow> config \<Rightarrow> string option \<Rightarrow> node \<Rightarrow> run_end option \<times> live_handle option \<times> node" where
  "cmd_run w cfg config_path n =
     (if \<not> rw_dir_ok w then (Some (BootFailed ''creating data dir''), None, n)
      else case write_pid (rw_pid_ok w) (rw_pid w) (cfg_data_dir cfg) (nd_pids n) of
        (Inl e, _) \<Rightarrow> (Some (BootFailed e), None, n)
      | (Inr _, pids) \<Rightarrow>
          (let n = prepare w cfg config_path (n\<lparr>nd_pids := pids\<rparr>)
           in case resolve_all_limits (rw_canonicalize w) (rw_statvfs w) cfg of
                Inl e \<Rightarrow> (Some (BootFailed ''resolving storage limits''), None, n)
              | Inr cfg \<Rightarrow>
                  (let live = boot_handle w cfg; n = harden w cfg n
                   in case engine_new (rw_boot w) cfg of
                        Inl e \<Rightarrow> (Some (BootFailed ''starting the engine''), Some live, n)
                      | Inr _ \<Rightarrow> (case run_race w of
                            None \<Rightarrow> (None, Some live, n)
                          | Some (t, r) \<Rightarrow>
                              (Some (RunEnded r (t + int (stop_session (rw_close w) (secs 5)))), Some live,
                               n\<lparr>nd_pids := remove_pid (rw_pid_removed w) (cfg_data_dir cfg) (nd_pids n)\<rparr>)))))"

definition main_run :: "host \<Rightarrow> run_world \<Rightarrow> run_args \<Rightarrow> node \<Rightarrow> cli_error + run_end option \<times> live_handle option \<times> node" where
  "main_run h w args n = (case resolve h (rg_common args) (rg_cfg args) of
      Inl e \<Rightarrow> Inl e
    | Inr cfg \<Rightarrow> Inr (cmd_run w cfg (ca_config (rg_common args)) n))"

section \<open>Service\<close>

definition cmd_service :: "host \<Rightarrow> string option \<Rightarrow> install_env \<Rightarrow> removal \<Rightarrow> service_op \<Rightarrow> system \<Rightarrow> (cli_error + outcome) \<times> system" where
  "cmd_service h exe env removal op s = (case op of
      Install common cfg user \<Rightarrow> (case resolve h common cfg of
          Inl e \<Rightarrow> (Inl e, s)
        | Inr cfg \<Rightarrow> (case exe of
            None \<Rightarrow> (Inr (Failed ''locating keep-at executable''), s)
          | Some exe \<Rightarrow> (case install env exe cfg user s of (r, s) \<Rightarrow> (Inr r, s))))
    | Uninstall \<Rightarrow> (case uninstall env removal s of (r, s) \<Rightarrow> (Inr r, s)))"

section \<open>Lemmas\<close>

lemma state_signals: "nd_signals (harden w cfg n) = install_signal_death_marks (rw_log_ok w) (set_signal 13 SigIgnored (nd_signals n))"
  by (simp add: harden_def redirect_stdio_to_def Let_def)

lemma harden_frame [simp]:
  "nd_pids (harden w cfg n) = nd_pids n" "nd_config (harden w cfg n) = nd_config n" "nd_pointer (harden w cfg n) = nd_pointer n"
  by (simp_all add: harden_def redirect_stdio_to_def Let_def)

lemma resolved_dir: "resolve_all_limits can st cfg = Inr cfg' \<Longrightarrow> cfg_data_dir cfg' = cfg_data_dir cfg"
  by (auto simp: resolve_all_limits_def split: sum.splits)

text \<open>What a run that got as far as serving the socket did before.\<close>

definition ran :: "run_world \<Rightarrow> run_end option" where
  "ran w = (case run_race w of None \<Rightarrow> None | Some (t, res) \<Rightarrow> Some (RunEnded res (t + int (stop_session (rw_close w) (secs 5)))))"

lemma served:
  assumes "cmd_run w cfg path n = (r, Some h, n')"
  obtains cfg' booted where "resolve_all_limits (rw_canonicalize w) (rw_statvfs w) cfg = Inr cfg'" "h = boot_handle w cfg'"
    "booted = harden w cfg' (prepare w cfg path (n\<lparr>nd_pids := (nd_pids n)(pid_path (cfg_data_dir cfg) \<mapsto> show_nat (rw_pid w))\<rparr>))"
    "r = Some (BootFailed ''starting the engine'') \<and> n' = booted \<or> r = ran w \<and> ran w = None \<and> n' = booted \<or>
     r = ran w \<and> ran w \<noteq> None \<and> n' = booted\<lparr>nd_pids := remove_pid (rw_pid_removed w) (cfg_data_dir cfg) (nd_pids booted)\<rparr>"
proof (cases "resolve_all_limits (rw_canonicalize w) (rw_statvfs w) cfg")
  case (Inl e)
  then show ?thesis using assms by (auto simp: cmd_run_def write_pid_def Let_def split: if_splits)
next
  case (Inr cfg')
  show ?thesis
  proof (rule that [OF Inr _ refl])
    show "h = boot_handle w cfg'"
      using assms Inr by (auto simp: cmd_run_def write_pid_def Let_def split: if_splits sum.splits option.splits)
  qed (use assms Inr resolved_dir [OF Inr] in \<open>cases "engine_new (rw_boot w) cfg'"; cases "run_race w";
      auto simp: cmd_run_def write_pid_def Let_def ran_def split: if_splits\<close>)
qed

lemma prepare_frame [simp]: "nd_pids (prepare w cfg path n) = nd_pids n" "nd_signals (prepare w cfg path n) = nd_signals n"
  by (simp_all add: prepare_def Let_def)

lemma parse_show_u32:
  assumes "n < 4294967296"
  shows "parse_u32 (trim (show_nat n)) = Some n"
proof -
  have "(case show_nat n of c # cs \<Rightarrow> if c = CHR ''+'' then cs else show_nat n | [] \<Rightarrow> []) = show_nat n"
    using show_nat_digits [of n] by (cases "show_nat n") (auto simp: is_ascii_digit_def code_def)
  then show ?thesis using assms show_nat_digits [of n] trim_digits [OF show_nat_digits [of n]] by (simp add: parse_u32_def)
qed

text \<open>The views of a handle that is booting.\<close>

lemma booting_view:
  fixes env :: query_env
  assumes "lh_inner h = BootingPhase started storage held"
  defines "v \<equiv> fst (handle_runtime_view env h)"
  shows "handle_held_view sess h = \<lparr>he_booting = True, he_torrents = held\<rparr>"
    "rv_booting v" "rv_activity v = lh_activity h" "rv_held_torrents v = length held" "rv_seeding_torrents v = 0"
    "rv_disk_committed_bytes v = wrap64 (sum_list (map hv_size_bytes held))"
    "rv_disk_limit_bytes v = snd (fst (disk_get (qe_walk env) (qe_now env) (qe_walked_at env) storage (lh_disk h)))"
  using assms(1)
  by (simp_all add: v_def handle_held_view_def handle_runtime_view_def phase_counts_def phase_held_def phase_storage_def tick_tracker_def
      Let_def case_prod_beta)

lemma boot_answers:
  assumes "cmd_run w cfg path n = (r, Some h, n')" "state_load (rw_state w) = Inr st"
  shows "handle_held_view sess h = \<lparr>he_booting = True, he_torrents = map booting_torrent (all_torrents st)\<rparr> \<and>
    (\<exists>cfg'. resolve_all_limits (rw_canonicalize w) (rw_statvfs w) cfg = Inr cfg' \<and>
      (let v = fst (handle_runtime_view env h) in
        rv_booting v \<and> rv_activity v = Booting \<and> rv_held_torrents v = length (all_torrents st) \<and> rv_seeding_torrents v = 0 \<and>
        rv_disk_committed_bytes v = wrap64 (sum_list (map t_size_bytes (all_torrents st))) \<and>
        (DISK_CACHE_TTL \<le> since (qe_now env) (rw_bound w) \<longrightarrow>
          rv_disk_limit_bytes v = snd (disk_usage (qe_walk env) (map (\<lambda>l. (sl_path l, limit_bytes l)) (cfg_storage cfg'))))))"
proof -
  obtain cfg' where c: "resolve_all_limits (rw_canonicalize w) (rw_statvfs w) cfg = Inr cfg'" "h = boot_handle w cfg'"
    by (rule served [OF assms(1)]) (rule that)
  let ?storage = "map (\<lambda>l. (sl_path l, limit_bytes l)) (cfg_storage cfg')"
  have h: "lh_inner h = BootingPhase (rw_started w) ?storage (map booting_torrent (all_torrents st))"
    "lh_activity h = Booting" "lh_disk h = from_snapshot (rw_bound w) (rw_snapshot w)"
    using assms(2) by (simp_all add: c(2) boot_handle_def booting_with_snapshot_def handle_booting_def)
  have s: "map hv_size_bytes (map booting_torrent ts) = map t_size_bytes ts" for ts by (simp add: booting_torrent_def)
  have d: "snd (fst (disk_get walk now later storage (from_snapshot bound json))) = snd (disk_usage walk storage)"
    if "DISK_CACHE_TTL \<le> since now bound" for walk now later storage bound json
    using that by (simp add: disk_get_def from_snapshot_def Let_def split: sum.split)
  show ?thesis
    using c(1) d by (auto simp: Let_def booting_view [OF h(1)] h(2,3) s simp del: map_map)
qed

lemma shutdown_times:
  assumes "cmd_run w cfg path n = (r, Some h, n')" "r \<noteq> Some (BootFailed ''starting the engine'')"
  shows "case rw_signal w of
      Some s \<Rightarrow> \<exists>res t. r = Some (RunEnded res t) \<and> t \<le> max s (rw_ready w) + int (secs 25) \<and>
        (res \<noteq> Inr () \<longrightarrow> (\<exists>t'. rw_ends w = Some (t', res)))
    | None \<Rightarrow> (case rw_ends w of None \<Rightarrow> r = None | Some (t', res) \<Rightarrow> \<exists>t \<ge> t'. r = Some (RunEnded res t))"
proof -
  have "stop_session c (secs 5) \<le> secs 5" for c by (simp add: stop_session_def split: option.split)
  then have c: "int (secs 20) + int (stop_session c (secs 5)) \<le> int (secs 25)" for c by (simp add: secs_def)
  have r: "r = ran w" using assms(2) by (rule_tac served [OF assms(1)]) auto
  show ?thesis
    unfolding r ran_def run_race_def using c [of "rw_close w"]
    by (auto simp: split: option.splits prod.splits)
qed

lemma run_records:
  assumes "cmd_run w cfg path n = (r, Some h, n')" "rw_pid w < 2 ^ 32"
  shows "(cfg_api_key cfg \<noteq> [] \<and> rw_key_ok w \<longrightarrow> cf_key (nd_config n') = Some (cfg_api_key cfg @ [CHR 0x0A], 384)) \<and>
    (case r of
       Some (RunEnded _ _) \<Rightarrow> rw_pid_removed w \<longrightarrow> read_pid (nd_pids n') (cfg_data_dir cfg) = None
     | _ \<Rightarrow> read_pid (nd_pids n') (cfg_data_dir cfg) = Some (rw_pid w) \<and>
         (vw_pids v = nd_pids n' \<and> pid_alive (vw_procs v) (rw_pid w) \<longrightarrow> daemon_status v (cfg_data_dir cfg) = Some (rw_pid w)))"
proof -
  obtain cfg' booted where b: "booted = harden w cfg' (prepare w cfg path (n\<lparr>nd_pids := (nd_pids n)(pid_path (cfg_data_dir cfg) \<mapsto> show_nat (rw_pid w))\<rparr>))"
    "r = Some (BootFailed ''starting the engine'') \<and> n' = booted \<or> r = ran w \<and> ran w = None \<and> n' = booted \<or>
     r = ran w \<and> ran w \<noteq> None \<and> n' = booted\<lparr>nd_pids := remove_pid (rw_pid_removed w) (cfg_data_dir cfg) (nd_pids booted)\<rparr>"
    by (rule served [OF assms(1)]) (rule that)
  have k: "cfg_api_key cfg \<noteq> [] \<and> rw_key_ok w \<longrightarrow> cf_key (nd_config booted) = Some (cfg_api_key cfg @ [CHR 0x0A], 384)"
    by (simp add: b(1) prepare_def write_api_key_file_def Let_def)
  have p: "read_pid (nd_pids booted) (cfg_data_dir cfg) = Some (rw_pid w)"
    using parse_show_u32 assms(2) by (simp add: b(1) read_pid_def)
  have d: "read_pid (vw_pids v) dir = Some pid \<Longrightarrow> pid_alive (vw_procs v) pid \<Longrightarrow> daemon_status v dir = Some pid" for dir pid
    by (simp add: daemon_status_def)
  have q: "read_pid (remove_pid True (cfg_data_dir cfg) pids) (cfg_data_dir cfg) = None" for pids
    by (simp add: read_pid_def remove_pid_def)
  have e: "\<exists>res t. x = RunEnded res t" if "ran w = Some x" for x using that by (auto simp: ran_def split: option.splits)
  from b(2) show ?thesis
  proof (elim disjE conjE)
    assume "r = Some (BootFailed ''starting the engine'')" "n' = booted"
    then show ?thesis using k p d by simp
  next
    assume "r = ran w" "ran w = None" "n' = booted"
    then show ?thesis using k p d by simp
  next
    assume r: "r = ran w" "ran w \<noteq> None" and n: "n' = booted\<lparr>nd_pids := remove_pid (rw_pid_removed w) (cfg_data_dir cfg) (nd_pids booted)\<rparr>"
    then obtain res t where "r = Some (RunEnded res t)" using e by fastforce
    then show ?thesis using k q unfolding n by (cases "rw_pid_removed w") simp_all
  qed
qed

section \<open>Properties\<close>


text \<open>The boot answers truthfully: from the moment the socket is served until the engine is attached, a query is told that
  the node is booting, of exactly the torrents of the state file, each still to be verified, and, once the cached
  numbers are older than a minute, of the resolved limits of the storage locations.\<close>

theorem boot_answers_truthfully:
  assumes "cmd_run w cfg path n = (r, Some h, n')" "state_load (rw_state w) = Inr st"
  shows "handle_held_view sess h = \<lparr>he_booting = True, he_torrents = map booting_torrent (all_torrents st)\<rparr> \<and>
    (\<exists>cfg'. resolve_all_limits (rw_canonicalize w) (rw_statvfs w) cfg = Inr cfg' \<and>
      (let v = fst (handle_runtime_view env h) in
        rv_booting v \<and> rv_activity v = Booting \<and> rv_held_torrents v = length (all_torrents st) \<and> rv_seeding_torrents v = 0 \<and>
        rv_disk_committed_bytes v = wrap64 (sum_list (map t_size_bytes (all_torrents st))) \<and>
        (DISK_CACHE_TTL \<le> since (qe_now env) (rw_bound w) \<longrightarrow>
          rv_disk_limit_bytes v = snd (disk_usage (qe_walk env) (map (\<lambda>l. (sl_path l, limit_bytes l)) (cfg_storage cfg'))))))"
  by (rule boot_answers [OF assms])

text \<open>A signal ends the daemon: however the engine behaves, even if it never returns, the process is done 25 seconds after
  the signal, or after the engine was up when the signal came earlier; without a signal the run ends only with the
  engine and with its result.\<close>

theorem shutdown_bounded:
  assumes "cmd_run w cfg path n = (r, Some h, n')" "r \<noteq> Some (BootFailed ''starting the engine'')"
  shows "case rw_signal w of
      Some s \<Rightarrow> \<exists>res t. r = Some (RunEnded res t) \<and> t \<le> max s (rw_ready w) + int (secs 25) \<and>
        (res \<noteq> Inr () \<longrightarrow> (\<exists>t'. rw_ends w = Some (t', res)))
    | None \<Rightarrow> (case rw_ends w of None \<Rightarrow> r = None | Some (t', res) \<Rightarrow> \<exists>t \<ge> t'. r = Some (RunEnded res t))"
  by (rule shutdown_times [OF assms])

text \<open>What a run leaves in the data directory: while it runs, its own process id, by which \<open>status\<close> and \<open>stop\<close> find it,
  and the configured key in the owner-only key file; after it ended no process id.  A boot that fails on the engine
  leaves its process id behind.\<close>

theorem run_recorded:
  assumes "cmd_run w cfg path n = (r, Some h, n')" "rw_pid w < 2 ^ 32"
  shows "(cfg_api_key cfg \<noteq> [] \<and> rw_key_ok w \<longrightarrow> cf_key (nd_config n') = Some (cfg_api_key cfg @ [CHR 0x0A], 384)) \<and>
    (case r of
       Some (RunEnded _ _) \<Rightarrow> rw_pid_removed w \<longrightarrow> read_pid (nd_pids n') (cfg_data_dir cfg) = None
     | _ \<Rightarrow> read_pid (nd_pids n') (cfg_data_dir cfg) = Some (rw_pid w) \<and>
         (vw_pids v = nd_pids n' \<and> pid_alive (vw_procs v) (rw_pid w) \<longrightarrow> daemon_status v (cfg_data_dir cfg) = Some (rw_pid w)))"
  by (rule run_records [OF assms])

text \<open>The file a log line of a node's process ends in; \<open>None\<close> for the standard output it inherited.\<close>

definition log_destination :: "log_sink \<Rightarrow> node \<Rightarrow> string option" where
  "log_destination sink n = (case sink of LogToFile p \<Rightarrow> Some p | LogToStdout \<Rightarrow> nd_stdio n)"

lemma resolved_log: "resolve_all_limits can st cfg = Inr cfg' \<Longrightarrow> log_path cfg' = log_path cfg"
  by (auto simp: resolve_all_limits_def log_path_def split: sum.splits option.splits)

lemma booted_stdio:
  assumes "cmd_run w cfg path n = (r, Some h, n')" "rw_log_ok w"
  shows "nd_stdio n' = Some (log_path cfg)"
proof (rule served [OF assms(1)])
  fix cfg' booted
  assume c: "resolve_all_limits (rw_canonicalize w) (rw_statvfs w) cfg = Inr cfg'"
    and b: "booted = harden w cfg' (prepare w cfg path (n\<lparr>nd_pids := (nd_pids n)(pid_path (cfg_data_dir cfg) \<mapsto> show_nat (rw_pid w))\<rparr>))"
    and d: "r = Some (BootFailed ''starting the engine'') \<and> n' = booted \<or> r = ran w \<and> ran w = None \<and> n' = booted \<or>
      r = ran w \<and> ran w \<noteq> None \<and> n' = booted\<lparr>nd_pids := remove_pid (rw_pid_removed w) (cfg_data_dir cfg) (nd_pids booted)\<rparr>"
  have "nd_stdio booted = Some (log_path cfg)"
    using assms(2) resolved_log [OF c] by (simp add: b harden_def redirect_stdio_to_def Let_def)
  then show ?thesis using d by auto
qed

text \<open>A booted daemon's log lines are in the file that \<open>logs\<close> reads, however it was launched and whether or not a log
  file was configured: the lines that would go to the standard output end in the data directory's log.\<close>

theorem log_lines_reach_logs:
  assumes "cmd_run w cfg path n = (r, Some h, n')" "rw_log_ok w" "load_readonly hst p = Inr cfg"
    "case service_config_snapshot hst of Some s \<Rightarrow> cfg_log_file s = None | None \<Rightarrow> True"
  shows "log_destination (fst (snd (init_logging_to env True chmod_ok left_mode (cfg_debug cfg) (cfg_log_file cfg)))) n' = Some (log_path cfg) \<and>
    fst (resolve_log_path hst dirs_ok \<lparr>ca_config = Some p, ca_data_dir = None\<rparr> modes) = Inr (log_path cfg)"
proof
  show "log_destination (fst (snd (init_logging_to env True chmod_ok left_mode (cfg_debug cfg) (cfg_log_file cfg)))) n' = Some (log_path cfg)"
    using booted_stdio [OF assms(1,2)] by (auto simp: log_destination_def init_logging_to_def log_path_def split: option.splits)
  show "fst (resolve_log_path hst dirs_ok \<lparr>ca_config = Some p, ca_data_dir = None\<rparr> modes) = Inr (log_path cfg)"
    using assms(3,4) by (auto simp: resolve_log_path_def resolve_data_dir_def log_path_def split: option.splits)
qed

section \<open>Examples\<close>

definition quiet_node :: node where
  "quiet_node = \<lparr>nd_pids = (\<lambda>_. None), nd_config = \<lparr>cf_config = None, cf_key = None\<rparr>, nd_pointer = None, nd_limits = Some (1024, 524288),
     nd_signals = fresh_process\<lparr>pg_disposition := (\<lambda>_. SigDefault)\<rparr>, nd_stdio = None\<rparr>"

definition quiet_world :: run_world where
  "quiet_world = \<lparr>rw_pid = 42, rw_dir_ok = True, rw_pid_ok = True, rw_stat_ok = True, rw_chmod_ok = True, rw_split_key_ok = True,
     rw_split_cfg_ok = True, rw_key_ok = True, rw_etc_dir = False, rw_pointer_ok = True, rw_rlimit_ok = True,
     rw_canonicalize = (\<lambda>_. None), rw_statvfs = (\<lambda>_. None), rw_state = Decoded \<lparr>s_torrents = [(''h'', sample_torrent ''h'' 10 1)], s_quarantined = []\<rparr>,
     rw_snapshot = NoFile, rw_started = 0, rw_bound = 0, rw_log_ok = True, rw_boot = sample_boot, rw_ready = 10, rw_ends = None,
     rw_signal = Some 5, rw_engine_first = False, rw_close = None, rw_pid_removed = True\<rparr>"

lemma quiet_run:
  assumes "rw_boot w = sample_boot" "rw_dir_ok w" "rw_pid_ok w" "rw_canonicalize w = (\<lambda>_. None)" "rw_statvfs w = (\<lambda>_. None)"
  shows "\<exists>h n'. cmd_run w boot_config None n = (ran w, Some h, n')"
proof -
  have "resolve_all_limits (\<lambda>_. None) (\<lambda>_. None) boot_config = Inr boot_config"
    by (simp add: resolve_all_limits_def resolve_location_def canonical_def boot_config_def Let_def)
  then show ?thesis
    using assms sample_boots by (auto simp: cmd_run_def write_pid_def ran_def Let_def split: option.split)
qed

lemma quiet_ran: "\<exists>h n'. cmd_run quiet_world boot_config None quiet_node = (Some (RunEnded (Inr ()) (10 + int (secs 25))), Some h, n')"
  using quiet_run [of quiet_world quiet_node] by (simp add: quiet_world_def ran_def run_race_def stop_session_def secs_def)


theorem boot_answers_truthfully_witness:
  "\<exists>h. fst (snd (cmd_run quiet_world boot_config None quiet_node)) = Some h \<and>
     he_torrents (handle_held_view sess h) = [booting_torrent (sample_torrent ''h'' 10 1)]"
proof -
  obtain h n' where q: "cmd_run quiet_world boot_config None quiet_node = (Some (RunEnded (Inr ()) (10 + int (secs 25))), Some h, n')"
    using quiet_ran by blast
  obtain st where st: "state_load (rw_state quiet_world) = Inr st" "all_torrents st = [sample_torrent ''h'' 10 1]"
    by (simp add: quiet_world_def all_torrents_def)
  show ?thesis using boot_answers_truthfully [OF q st(1)] q st(2) by simp
qed

theorem shutdown_bounded_witness:
  "\<exists>h n'. cmd_run (quiet_world\<lparr>rw_signal := Some 30\<rparr>) boot_config None quiet_node = (ran (quiet_world\<lparr>rw_signal := Some 30\<rparr>), Some h, n') \<and>
     (\<exists>t \<le> 30 + int (secs 25). ran (quiet_world\<lparr>rw_signal := Some 30\<rparr>) = Some (RunEnded (Inr ()) t))"
proof -
  let ?w = "quiet_world\<lparr>rw_signal := Some 30\<rparr>"
  obtain h n' where q: "cmd_run ?w boot_config None quiet_node = (ran ?w, Some h, n')"
    using quiet_run [of ?w quiet_node] by (auto simp: quiet_world_def)
  have "ran ?w \<noteq> Some (BootFailed ''starting the engine'')" by (auto simp: ran_def split: option.split)
  from shutdown_bounded [OF q this] show ?thesis using q by (auto simp: quiet_world_def)
qed

theorem run_recorded_witness:
  "\<exists>h n'. cmd_run (quiet_world\<lparr>rw_signal := None\<rparr>) boot_config None quiet_node = (None, Some h, n') \<and>
     read_pid (nd_pids n') (cfg_data_dir boot_config) = Some 42"
proof -
  let ?w = "quiet_world\<lparr>rw_signal := None\<rparr>"
  have "ran ?w = None" by (simp add: ran_def run_race_def quiet_world_def)
  then obtain h n' where q: "cmd_run ?w boot_config None quiet_node = (None, Some h, n')"
    using quiet_run [of ?w quiet_node] by (auto simp: quiet_world_def)
  show ?thesis using run_recorded [OF q] q by (simp add: quiet_world_def)
qed

theorem log_lines_reach_logs_witness:
  "\<exists>h n' hst. cmd_run quiet_world boot_config None quiet_node = (Some (RunEnded (Inr ()) (10 + int (secs 25))), Some h, n') \<and>
     cfg_log_file boot_config = None \<and> log_destination LogToStdout n' = Some (log_path boot_config) \<and>
     fst (resolve_log_path hst True \<lparr>ca_config = Some ''/etc/k.yaml'', ca_data_dir = None\<rparr> (\<lambda>_. None)) = Inr (log_path boot_config)"
proof -
  obtain h n' where q: "cmd_run quiet_world boot_config None quiet_node = (Some (RunEnded (Inr ()) (10 + int (secs 25))), Some h, n')"
    using quiet_ran by blast
  define hst where "hst = op_host\<lparr>ho_read := (\<lambda>_. Contents (Some boot_config))\<rparr>"
  have "valid_config (\<lambda>_. None) boot_config"
    using sample_config_valid
    by (simp add: boot_config_def valid_config_def valid_location_def duration_knobs_def MIN_STORAGE_LIMIT_def sample_config_def)
  then have "load_readonly hst ''/etc/k.yaml'' = Inr boot_config"
    by (auto simp: load_readonly_def load_inner_iff hst_def op_host_def merge_key_file_def boot_config_def sample_config_def)
  moreover have "service_config_snapshot hst = None" "rw_log_ok quiet_world" "cfg_log_file boot_config = None"
    by (simp_all add: hst_def service_config_snapshot_def service_config_if_present_def op_host_def quiet_world_def boot_config_def
        sample_config_def config_default_def)
  ultimately have "load_readonly hst ''/etc/k.yaml'' = Inr boot_config" "service_config_snapshot hst = None" "rw_log_ok quiet_world"
    "cfg_log_file boot_config = None" by simp_all
  with log_lines_reach_logs [OF q, of hst "''/etc/k.yaml''" None True 0 True "\<lambda>_. None"] show ?thesis
    using q by (auto simp: init_logging_to_def)
qed

end
