(* ===== verification/Spec2Isabelle.thy ===== *)
theory Spec2Isabelle
  imports Pool Updater Status Torrent_Cache Dispatch Program
begin

text \<open>
  A verification development of keep-at, a daemon that seeds the torrents of Academic Torrents that need it most
  within the operator's disk and memory budgets.  Paths are those of the repository, below \<open>src/\<close>.

  The program.  The command line (\<open>cli.rs\<close>, \<open>bin/keep-at.rs\<close>) resolves a configuration (\<open>config.rs\<close>) and runs the
  daemon, starts it in the background, installs it as a service (\<open>service.rs\<close>), finds and stops it
  (\<open>daemonctl.rs\<close>), or asks it for its state over a socket (\<open>live.rs\<close>, \<open>status.rs\<close>, \<open>hosted.rs\<close>).  The daemon's engine
  (\<open>engine/scan.rs\<close>) is one loop over three timers: a scan of the catalog that evaluates candidates and admits
  them, the statistics, and the watchdog that removes torrents which download without ever verifying.  What it
  holds is in the state file (\<open>state.rs\<close>), what it did in the history (\<open>history.rs\<close>); its files are read and written
  through a pool of handles (\<open>engine/pool_storage.rs\<close>).  The census (\<open>census.rs\<close>) counts the other nodes, the updater
  (\<open>updater.rs\<close>) replaces the executable.

  Conventions.  A struct is a record, an enum a datatype, an operation a function of the same name that takes and
  returns the state it changes.  An error is the left side of a sum, \<open>Option\<close> is \<open>option\<close>.  \<open>f64\<close> is the type of
  \<open>F64\<close>: NaN, the infinities and rationals, with round-to-nearest-even written out; the powers and the logarithm of
  the platform are arguments.  Unsigned integers are \<open>nat\<close> with \<open>wrap64\<close>, \<open>sat_add64\<close> and their like where the source
  wraps or saturates; file modes and bytes of the crash model are words.  Durations and instants are nanoseconds.
  A \<open>HashMap\<close> is a list of pairs with distinct keys, whose order stands for the unspecified iteration order.
  A string is a list of characters, in the two log readers and the parsers of untrusted input one per byte.
  Clocks, random draws, the network, the kernel, and third-party crates (the BitTorrent session, JSON, YAML, XML,
  bencode, HTTP, tar, clap) are arguments: a record of answers for each component, \<open>world\<close> for the engine.

  Shared theories.  \<open>Prelude\<close> has integers, maps with the locale \<open>hash_map\<close> of their laws, and the stable sort with
  the locale \<open>comparator\<close>; \<open>Text\<close>, \<open>Splitting\<close> and \<open>Hex\<close> the string functions of the standard library,
  \<open>Paths\<close> the order of paths (an instance of \<open>linorder\<close>); \<open>F64\<close> floating
  point; \<open>Follow\<close> the loop that both file-following commands contain, with the locale \<open>follower\<close>.

  Data and policy.  \<open>Ram\<close> (\<open>engine/ram.rs\<close>) prices torrents in memory; \<open>Selector\<close> (\<open>selector.rs\<close>) ranks candidates,
  computes the chance of a swap and decides it; \<open>Quarantine\<close> (\<open>engine/quarantine.rs\<close>) is the broken-piece detector, shown
  to refine a verdict over the whole history of observations; \<open>State_Store\<close> (\<open>state.rs\<close>) keeps memory and file in
  agreement; \<open>Blocklist\<close> (\<open>filter.rs\<close>), \<open>Humanize\<close>, \<open>Netstats\<close>, \<open>Bandwidth\<close>, \<open>Catalog\<close> (\<open>atcatalog.rs\<close>), \<open>Attorrent\<close>,
  \<open>Atkey\<close>, \<open>Buildinfo\<close> and \<open>Storage\<close> (\<open>engine/storage.rs\<close>, \<open>fdlimit.rs\<close>) model the files of those names.  \<open>Config\<close> has the
  settings, their syntax and their validation, with the round trip through the file.

  The engine.  \<open>Engine_Base\<close> has its record and the small operations (\<open>engine/torrents.rs\<close> among them), \<open>Scrape\<close> the rate
  limiter and the scrape cache, \<open>Admission\<close> the path of one candidate (\<open>try_add\<close>, \<open>try_swap\<close>, \<open>act_on_candidate\<close>),
  \<open>Maintenance\<close> the reconciliation with the catalog and the eviction of stalled torrents, \<open>Scan\<close> a whole scan,
  \<open>Dispatch\<close> the concurrent tasks of its evaluation as a step relation, \<open>Torrent_Cache\<close> the downloads and their files,
  \<open>Watchdog\<close> the quarantine pass, and \<open>Run\<close> boot and the loop as a step relation over traces of events.  The locales
  \<open>budget\<close> and \<open>holdings_invariant\<close> state what keeps a limit; interpreted for disk, memory and torrent count, they
  give the invariants of every trace: limits kept or not worsened.  Other lemma groups: only vetted items are
  admitted, displacement needs the margin, a catalog that collapsed removes nothing, the watchdog removes only
  tripped torrents, scans are a minute apart, a scan completes, every interleaving of the evaluation tasks is a walk over the
  candidates in some order and ends, nothing is downloaded twice.

  Storage and files.  \<open>Pool\<close> is the handle pool over a model of the file system: it refines an abstract LRU list, and a
  write is what a later read returns.  \<open>Atomic_Write\<close> is the save of \<open>config.rs\<close> over a disk that can lose power:
  directory entries and data blocks each have their own durability, and no crash leaves a torn file.  \<open>History\<close>
  and \<open>History_View\<close> are the ledger and its command, \<open>Logs\<close> the log command.

  Process and network.  \<open>Live\<close> is the query socket and the views, \<open>Status\<close> the client and the commands that print
  them, \<open>Cli\<close> the resolution of flags, files and defaults, \<open>Service\<close> the unit, elevation and installation, \<open>Daemon\<close> pid
  files, process identity, stop and start, \<open>Session\<close> (\<open>engine/session.rs\<close>) the session's options and attempts,
  \<open>Forensics\<close> the death marks, heartbeat and triage, \<open>Census\<close> the census, \<open>Updater\<close> the self-update, \<open>Program\<close> the main
  program with its logging.  This theory has the properties that need several of them: the limits of the command line
  over the whole life of a node, \<open>status\<close> of a daemon that \<open>cmd_run\<close> boots, and \<open>stop\<close> against the bounded shutdown.

  Termination.  Loops are structural recursion or have a measure (the directory walk: the nodes left; the unit
  scaling: the units left).  Two do not always end and are treated as such: \<open>human_bytes\<close> is partial, and is shown
  to return for every \<open>i64\<close> but the smallest; the poll loop of a census probe runs on fuel, two more than the
  polls that fit in the timeout, which is shown to be enough when the clock advances by the pause between
  polls.  The follow loops are given the list of their rounds, a run of the engine is a trace of any length.

  Not modelled.  The wording of log lines and of some progress output; the settings of the allocator
  (\<open>allocator.rs\<close>); the JSON, YAML and clap derivations; tests.  A scan takes the order in which its evaluations
  complete as an argument, any order being possible; \<open>Dispatch\<close> shows that this order comes from every interleaving
  of the tasks, with what an evaluation finds left open.  The mutexes make each pool and handle operation one step.
  Storage paths are compared as strings, as they are after the boot has made them canonical; only their order looks
  at components.  What \<open>librqbit\<close> does with a torrent between two observations is not constrained.
\<close>

section \<open>The daemon and the commands that talk to it\<close>

text \<open>Once a poll finds the process gone, the poll after the loop finds it gone.\<close>

lemma wait_exit_gone:
  assumes "\<forall>j. \<not> alive j \<longrightarrow> \<not> alive (Suc j)" "\<not> alive (i + n)"
  shows "\<not> alive (wait_exit alive i n)"
  using assms by (induction alive i n rule: wait_exit.induct) auto

lemma clock_steps:
  fixes clock :: "nat \<Rightarrow> int"
  assumes "\<forall>i. clock i + d \<le> clock (Suc i)"
  shows "clock 0 + int n * d \<le> clock n"
proof (induction n)
  case (Suc n)
  then show ?case using assms [rule_format, of n] by (simp add: algebra_simps)
qed simp

text \<open>C30. A daemon that boots is reported as it is: as soon as its socket is served, \<open>status\<close> run on its directory names its
  process, says that it is booting, and shows the number of torrents its state file holds; nothing is read from
  the snapshot files.\<close>

theorem booting_daemon_reported:
  assumes "cmd_run w cfg path n = (None, Some h, n')" "rw_pid w < 2 ^ 32" "state_load (rw_state w) = Inr st"
    and "vw_pids v = nd_pids n'" "pid_alive (vw_procs v) (rw_pid w)"
    and "resolve_data_dir (vw_host v) args = Inr (cfg_data_dir cfg)" "ask (cfg_data_dir cfg) Runtime = Some (view_of Runtime env h)"
    and "cmd_status v args ask files chmod_ok modes = (Inr rep, modes')"
  shows "sp_headline rep = BootingAs (rw_pid w) \<and> sp_foreign rep = None \<and>
    (\<exists>rv. sp_body rep = LiveBody rv \<and> rv_booting rv \<and> rv_held_torrents rv = length (all_torrents st) \<and> rv_seeding_torrents rv = 0)"
proof -
  have st: "daemon_status v (cfg_data_dir cfg) = Some (rw_pid w)"
    using run_records [OF assms(1,2), of v] assms(4,5) by simp
  have rv: "let rv = fst (handle_runtime_view env h) in rv_booting rv \<and> rv_held_torrents rv = length (all_torrents st) \<and> rv_seeding_torrents rv = 0"
    using boot_answers [OF assms(1,3), where env = env] by (auto simp: Let_def)
  have "rep = \<lparr>sp_headline = headline_of (Some (rw_pid w)) None (Some (view_of Runtime env h)), sp_foreign = None,
      sp_body = LiveBody (fst (handle_runtime_view env h))\<rparr>"
    using assms(6-8) st by (simp add: cmd_status_def Let_def view_of_def)
  then show ?thesis using rv by (simp add: headline_of_def is_booting_def view_of_def Let_def)
qed

text \<open>C29. \<open>stop\<close> outlasts the shutdown: a daemon that is up when the signal arrives is gone before the sixty polls are over,
  however its engine behaves, so \<open>stop\<close> signals that process only, succeeds, and removes its pid file.\<close>

theorem stop_outlasts_shutdown:
  assumes "cmd_run w cfg path n = (r, Some h, n')" "r \<noteq> Some (BootFailed ''starting the engine'')" "r = Some (RunEnded res t)"
    and "rw_signal w = Some s" "rw_ready w \<le> s"
    and "resolve_data_dir (vw_host v) args = Inr (cfg_data_dir cfg)" "stop_target v args (cfg_data_dir cfg) = Some pid"
    and "kill pid \<noteq> KillError" "\<forall>i. alive pid i \<longleftrightarrow> clock i < t" "s \<le> clock 0" "\<forall>i. clock i + 500000000 \<le> clock (Suc i)"
  shows "cmd_stop v args kill alive removed = (Stopped pid, [pid], remove_pid removed (cfg_data_dir cfg) (vw_pids v))"
proof -
  have "\<exists>res' t'. r = Some (RunEnded res' t') \<and> t' \<le> max s (rw_ready w) + int (secs 25)"
    using shutdown_times [OF assms(1,2)] unfolding assms(4) by auto
  then have "t \<le> s + int (secs 25)" using assms(3,5) by (simp add: max_absorb1)
  moreover have "clock 0 + int 60 * 500000000 \<le> clock 60" by (rule clock_steps) (rule assms(11))
  ultimately have last: "\<not> alive pid (0 + 60)" using assms(9,10) by (simp add: secs_def)
  have "\<forall>j. \<not> alive pid j \<longrightarrow> \<not> alive pid (Suc j)"
  proof (intro allI impI)
    fix j
    assume "\<not> alive pid j"
    then show "\<not> alive pid (Suc j)" using assms(9) assms(11) [rule_format, of j] by simp
  qed
  from wait_exit_gone [OF this last] show ?thesis using assms(6-8) by (simp add: cmd_stop_def)
qed

section \<open>From the command line to the disk\<close>

lemma fresh_boot:
  assumes "engine_new inp cfg = Inr e" "bo_state_file inp = State_Store.NotFound"
  shows "all_torrents (en_state e) = [] \<and> wf_state (en_state e)"
proof (rule engine_new_ok [OF assms(1)])
  fix cfg' st
  assume "state_load (bo_state_file inp) = Inr st"
    and e: "en_state e = snd (rekey_storage_locations (bo_save inp) (bo_canonicalize inp) (map sl_path (cfg_storage cfg')) st)"
  then have st: "all_torrents st = []" "wf_state st" using assms(2) by (auto simp: all_torrents_def wf_state_def)
  then have "map t_info_hash (all_torrents (en_state e)) = []" unfolding e by (simp only: rekey_holdings(1) list.map(1))
  then show ?thesis using rekey_holdings(2) [OF st(2)] e by simp
qed

text \<open>What the two resolutions of the limits, of the boot and of the engine, leave of the \<open>i\<close>th configured location.\<close>

lemma resolved_location:
  assumes "resolve_all_limits can st cfg = Inr cfg1" "resolve_all_limits can' st' cfg1 = Inr cfg2"
    and "i < length (cfg_storage cfg)" "sl_limit (cfg_storage cfg ! i) \<noteq> Unset"
  shows "i < length (cfg_storage cfg2)"
    "sl_path (cfg_storage cfg2 ! i) = canonical can' (canonical can (sl_path (cfg_storage cfg ! i)))"
    "case sl_limit (cfg_storage cfg ! i) of
       Bytes b \<Rightarrow> limit_bytes (cfg_storage cfg2 ! i) = b
     | _ \<Rightarrow> \<exists>acc. device_total_bytes st (canonical can (sl_path (cfg_storage cfg ! i))) = Some acc \<and> limit_bytes (cfg_storage cfg2 ! i) \<le> acc"
proof -
  note r1 = resolve_all_limits_spec [OF assms(1)] and r2 = resolve_all_limits_spec [OF assms(2)]
  have len: "length (cfg_storage cfg1) = length (cfg_storage cfg)" "length (cfg_storage cfg2) = length (cfg_storage cfg1)"
    using r1 r2 by (metis length_map)+
  have p: "sl_path (cfg_storage cfg1 ! i) = canonical can (sl_path (cfg_storage cfg ! i))"
    "sl_path (cfg_storage cfg2 ! i) = canonical can' (sl_path (cfg_storage cfg1 ! i))"
    using r1 r2 len assms(3) by (metis (no_types, lifting) comp_apply nth_map)+
  have l1: "case sl_limit (cfg_storage cfg ! i) of
      All \<Rightarrow> (\<exists>acc b. device_total_bytes st (sl_path (cfg_storage cfg1 ! i)) = Some acc \<and> sl_limit (cfg_storage cfg1 ! i) = Bytes b \<and> b \<le> acc)
    | _ \<Rightarrow> sl_limit (cfg_storage cfg1 ! i) = sl_limit (cfg_storage cfg ! i)"
    using r1 assms(3) by (blast dest: list_all2_nthD)
  have l2: "sl_limit (cfg_storage cfg1 ! i) = Bytes b \<Longrightarrow> sl_limit (cfg_storage cfg2 ! i) = Bytes b" for b
    using r2 assms(3) len by (auto dest!: list_all2_nthD [of _ "cfg_storage cfg1" _ i] split: storage_limit.splits)
  show "i < length (cfg_storage cfg2)" "sl_path (cfg_storage cfg2 ! i) = canonical can' (canonical can (sl_path (cfg_storage cfg ! i)))"
    using len assms(3) p by simp_all
  show "case sl_limit (cfg_storage cfg ! i) of
       Bytes b \<Rightarrow> limit_bytes (cfg_storage cfg2 ! i) = b
     | _ \<Rightarrow> \<exists>acc. device_total_bytes st (canonical can (sl_path (cfg_storage cfg ! i))) = Some acc \<and> limit_bytes (cfg_storage cfg2 ! i) \<le> acc"
    using l1 l2 p(1) assms(4) by (fastforce simp: limit_bytes_def split: storage_limit.splits)
qed


section \<open>Examples\<close>

definition daemon_view :: view where
  "daemon_view = \<lparr>vw_host = op_host, vw_own = 9, vw_procs = [daemon_entry],
     vw_pids = (\<lambda>p. if p = pid_path (cfg_data_dir boot_config) then Some ''42'' else None)\<rparr>"

lemma daemon_view_alive: "pid_alive (vw_procs daemon_view) 42" "daemon_status daemon_view (cfg_data_dir boot_config) = Some 42"
proof -
  have "pid_alive [daemon_entry] 42" by code_simp
  then show a: "pid_alive (vw_procs daemon_view) 42" by (simp add: daemon_view_def)
  have "trim ''42'' = ''42''" by code_simp
  moreover have "parse_u32 ''42'' = Some 42" by (simp add: parse_u32_def is_ascii_digit_def read_nat_def digit_val_def code_def)
  ultimately show "daemon_status daemon_view (cfg_data_dir boot_config) = Some 42"
    using a by (simp add: daemon_status_def read_pid_def daemon_view_def)
qed

theorem booting_daemon_reported_witness:
  "\<exists>h n' rep. cmd_run (quiet_world\<lparr>rw_signal := None\<rparr>) boot_config None quiet_node = (None, Some h, n') \<and>
     fst (cmd_status (daemon_view\<lparr>vw_pids := nd_pids n'\<rparr>) \<lparr>ca_config = None, ca_data_dir = Some (cfg_data_dir boot_config)\<rparr>
       (\<lambda>_ _. Some (view_of Runtime sample_query h)) (\<lambda>_. NoFile) True (\<lambda>_. None)) = Inr rep \<and> sp_headline rep = BootingAs 42"
proof -
  let ?w = "quiet_world\<lparr>rw_signal := None\<rparr>" and ?a = "\<lparr>ca_config = None, ca_data_dir = Some (cfg_data_dir boot_config)\<rparr> :: common_args"
  have "ran ?w = None" by (simp add: ran_def run_race_def quiet_world_def)
  then obtain h n' where q: "cmd_run ?w boot_config None quiet_node = (None, Some h, n')"
    using quiet_run [of ?w quiet_node] by (auto simp: quiet_world_def)
  let ?v = "daemon_view\<lparr>vw_pids := nd_pids n'\<rparr>" and ?ask = "\<lambda>_ _. Some (view_of Runtime sample_query h)"
  obtain st where st: "state_load (rw_state ?w) = Inr st" by (simp add: quiet_world_def)
  have d: "resolve_data_dir (vw_host ?v) ?a = Inr (cfg_data_dir boot_config)" by (simp add: resolve_data_dir_def)
  then obtain rep modes where c: "cmd_status ?v ?a ?ask (\<lambda>_. NoFile) True (\<lambda>_. None) = (Inr rep, modes)"
    by (simp add: cmd_status_def Let_def case_prod_beta)
  have p: "pid_alive (vw_procs ?v) (rw_pid ?w)" using daemon_view_alive(1) by (simp add: quiet_world_def)
  have "rw_pid ?w < 2 ^ 32" by (simp add: quiet_world_def)
  have v: "vw_pids ?v = nd_pids n'" "?ask (cfg_data_dir boot_config) Runtime = Some (view_of Runtime sample_query h)" by simp_all
  from booting_daemon_reported [OF q \<open>rw_pid ?w < 2 ^ 32\<close> st v(1) p d v(2) c] have "sp_headline rep = BootingAs 42"
    by (simp add: quiet_world_def)
  then show ?thesis using q c by (intro exI [of _ h] exI [of _ n'] exI [of _ rep]) simp
qed

theorem stop_outlasts_shutdown_witness:
  "fst (cmd_stop daemon_view \<lparr>ca_config = None, ca_data_dir = Some (cfg_data_dir boot_config)\<rparr> (\<lambda>_. KillOk)
     (\<lambda>_ i. 30 + int i * 500000000 < 30 + int (secs 25)) True) = Stopped 42"
proof -
  let ?w = "quiet_world\<lparr>rw_signal := Some 30\<rparr>" and ?a = "\<lparr>ca_config = None, ca_data_dir = Some (cfg_data_dir boot_config)\<rparr> :: common_args"
  have e: "ran ?w = Some (RunEnded (Inr ()) (30 + int (secs 25)))"
    by (simp add: ran_def run_race_def quiet_world_def stop_session_def secs_def)
  obtain h n' where q: "cmd_run ?w boot_config None quiet_node = (ran ?w, Some h, n')"
    using quiet_run [of ?w quiet_node] by (auto simp: quiet_world_def)
  have d: "resolve_data_dir (vw_host daemon_view) ?a = Inr (cfg_data_dir boot_config)" by (simp add: resolve_data_dir_def)
  have t: "stop_target daemon_view ?a (cfg_data_dir boot_config) = Some 42" by (simp add: stop_target_def daemon_view_alive(2))
  have s: "rw_signal ?w = Some 30" "rw_ready ?w \<le> 30" by (simp_all add: quiet_world_def)
  have "ran ?w \<noteq> Some (BootFailed ''starting the engine'')" by (simp add: e)
  from stop_outlasts_shutdown [OF q this e s d t, where kill = "\<lambda>_. KillOk" and clock = "\<lambda>i. 30 + int i * 500000000"
      and alive = "\<lambda>_ i. 30 + int i * 500000000 < 30 + int (secs 25)" and removed = True]
  show ?thesis by (simp add: algebra_simps)
qed

text \<open>A node with one location of a gigabyte, from its configuration file to a statistics tick.\<close>

definition file_host :: host where
  "file_host = op_host\<lparr>ho_read := (\<lambda>_. Contents (Some boot_config))\<rparr>"

lemma boot_config_valid_config: "valid_config (\<lambda>_. None) boot_config"
  using boot_config_valid by (simp add: validate_iff)

lemma file_resolves: "resolve file_host \<lparr>ca_config = Some ''/etc/k.yaml'', ca_data_dir = None\<rparr> no_flags = Inr boot_config"
proof -
  have "config_load file_host ''/etc/k.yaml'' = Inr boot_config"
    using boot_config_valid_config
    by (auto simp: config_load_def load_inner_iff file_host_def op_host_def merge_key_file_def boot_config_def sample_config_def)
  moreover have "apply_to no_flags boot_config = Inr boot_config"
    using apply_to_is_overlay_core [of no_flags] by (simp add: any_set_def no_flags_def)
  moreover have "cfg_api_key boot_config \<noteq> []" by (simp add: boot_config_def sample_config_def)
  ultimately show ?thesis
    using boot_config_valid
    by (simp add: resolve_def chosen_config_def base_config_def resolve_storage_def storage_flags_set_def no_flags_def try_then_def
        set_flag_def merge_key_file_def file_host_def op_host_def Let_def)
qed


end
